(* ===== verification/Net_Prelude.thy ===== *)
theory Net_Prelude
  imports Main "HOL-Library.Word" "HOL-Library.Monad_Syntax"
begin

text \<open>
  What every component of the network stack shares: the machine integers and byte strings of the
  Rust sources, big-endian conversions, the error kinds of \<^verbatim>\<open>std::io\<close>, saturating durations,
  IPv4 and socket addresses with the order their \<^verbatim>\<open>BTreeMap\<close> keys use, slices, and the total
  correctness calculus for code that can panic.

  Conventions. A \<^verbatim>\<open>usize\<close> is a \<^typ>\<open>nat\<close>; a fixed-width field is a word of that width. A function
  whose source can panic (a failed \<^verbatim>\<open>assert!\<close>, an out-of-range index, \<^verbatim>\<open>unwrap\<close> of
  \<^verbatim>\<open>None\<close>) returns an option and \<^term>\<open>None\<close> is the panic; a function that returns
  \<^verbatim>\<open>io::Result\<close> returns a sum whose left summand is the error kind.
\<close>

unbundle bit_operations_syntax

named_theorems net_simps "unfolding rules shared by the component proofs"
named_theorems wp_rules "total-correctness rules of operations that can panic"

section \<open>Machine integers and bytes\<close>

type_synonym u8 = "8 word"
type_synonym u16 = "16 word"
type_synonym u32 = "32 word"
type_synonym u64 = "64 word"
type_synonym bytes = "u8 list"

definition u16_from_be_bytes :: "u8 \<Rightarrow> u8 \<Rightarrow> u16" where
  "u16_from_be_bytes a b = word_of_nat (256 * unat a + unat b)"

definition u16_to_be_bytes :: "u16 \<Rightarrow> bytes" where
  "u16_to_be_bytes w = [word_of_nat (unat w div 256), word_of_nat (unat w mod 256)]"

definition u32_from_be_bytes :: "u8 \<Rightarrow> u8 \<Rightarrow> u8 \<Rightarrow> u8 \<Rightarrow> u32" where
  "u32_from_be_bytes a b c d =
     word_of_nat (16777216 * unat a + 65536 * unat b + 256 * unat c + unat d)"

definition u32_to_be_bytes :: "u32 \<Rightarrow> bytes" where
  "u32_to_be_bytes w =
     [word_of_nat (unat w div 16777216), word_of_nat (unat w div 65536 mod 256),
      word_of_nat (unat w div 256 mod 256), word_of_nat (unat w mod 256)]"

section \<open>Slices\<close>

text \<open>
  \<^verbatim>\<open>b[i..j]\<close> and \<^verbatim>\<open>b[at..at + src.len()].copy_from_slice(src)\<close>. Both are used only where a
  guard of the source has already established the range.
\<close>

definition subslice :: "nat \<Rightarrow> nat \<Rightarrow> 'a list \<Rightarrow> 'a list" where
  "subslice i j b = take (j - i) (drop i b)"

definition patch :: "nat \<Rightarrow> 'a list \<Rightarrow> 'a list \<Rightarrow> 'a list" where
  "patch at src b = take at b @ src @ drop (at + length src) b"

definition read16 :: "bytes \<Rightarrow> nat \<Rightarrow> u16" where
  "read16 b i = u16_from_be_bytes (b ! i) (b ! (i + 1))"

definition read32 :: "bytes \<Rightarrow> nat \<Rightarrow> u32" where
  "read32 b i = u32_from_be_bytes (b ! i) (b ! (i + 1)) (b ! (i + 2)) (b ! (i + 3))"

section \<open>Errors\<close>

text \<open>The \<^verbatim>\<open>std::io::ErrorKind\<close> values the sources construct or test, and any other.\<close>

datatype io_kind =
    InvalidInput | InvalidData | WouldBlock | NotConnected | AddrNotAvailable | AddrInUse
  | ConnectionReset | TimedOut | NotFound | PermissionDenied | OtherKind

type_synonym 'a io_result = "io_kind + 'a"

section \<open>Durations\<close>

text \<open>
  \<^verbatim>\<open>std::time::Duration\<close> as a number of nanoseconds; its arithmetic saturates at the largest
  representable duration.
\<close>

type_synonym duration = nat

definition duration_max :: duration where
  "duration_max = 18446744073709551615 * 1000000000 + 999999999"

definition saturating_add :: "duration \<Rightarrow> duration \<Rightarrow> duration" where
  "saturating_add a b = min (a + b) duration_max"

definition saturating_mul :: "duration \<Rightarrow> nat \<Rightarrow> duration" where
  "saturating_mul a k = min (a * k) duration_max"

definition from_millis :: "nat \<Rightarrow> duration" where
  "from_millis n = n * 1000000"

definition from_secs :: "nat \<Rightarrow> duration" where
  "from_secs n = n * 1000000000"

section \<open>Addresses\<close>

text \<open>
  \<^verbatim>\<open>Ipv4Addr\<close> is ordered as its big-endian value, so it is that value. A MAC address is a list of
  six bytes.
\<close>

type_synonym ipv4addr = u32
type_synonym mac = bytes

definition octets :: "ipv4addr \<Rightarrow> bytes" where
  "octets ip = u32_to_be_bytes ip"

definition ip_of_octets :: "bytes \<Rightarrow> ipv4addr" where
  "ip_of_octets b = read32 b 0"

definition is_unspecified :: "ipv4addr \<Rightarrow> bool" where
  "is_unspecified ip \<longleftrightarrow> ip = 0"

definition is_broadcast :: "ipv4addr \<Rightarrow> bool" where
  "is_broadcast ip \<longleftrightarrow> ip = 0xFFFFFFFF"

definition is_multicast :: "ipv4addr \<Rightarrow> bool" where
  "is_multicast ip \<longleftrightarrow> 224 \<le> unat ip div 16777216 \<and> unat ip div 16777216 \<le> 239"

definition is_loopback :: "ipv4addr \<Rightarrow> bool" where
  "is_loopback ip \<longleftrightarrow> unat ip div 16777216 = 127"

datatype sockaddr = SocketAddrV4 (sa_ip: ipv4addr) (sa_port: u16)

instantiation sockaddr :: linorder
begin

definition less_eq_sockaddr :: "sockaddr \<Rightarrow> sockaddr \<Rightarrow> bool" where
  "less_eq_sockaddr a b \<longleftrightarrow> sa_ip a < sa_ip b \<or> sa_ip a = sa_ip b \<and> sa_port a \<le> sa_port b"

definition less_sockaddr :: "sockaddr \<Rightarrow> sockaddr \<Rightarrow> bool" where
  "less_sockaddr a b \<longleftrightarrow> sa_ip a < sa_ip b \<or> sa_ip a = sa_ip b \<and> sa_port a < sa_port b"

instance
proof
  fix a b c :: sockaddr
  show "a < b \<longleftrightarrow> a \<le> b \<and> \<not> b \<le> a"
    by (auto simp: less_eq_sockaddr_def less_sockaddr_def)
  show "a \<le> a"
    by (simp add: less_eq_sockaddr_def)
  show "a \<le> b \<Longrightarrow> b \<le> c \<Longrightarrow> a \<le> c"
    by (auto simp: less_eq_sockaddr_def)
  show "a \<le> b \<Longrightarrow> b \<le> a \<Longrightarrow> a = b"
    by (auto simp: less_eq_sockaddr_def intro: sockaddr.expand)
  show "a \<le> b \<or> b \<le> a"
    by (auto simp: less_eq_sockaddr_def)
qed

end

section \<open>Panics\<close>

text \<open>
  \<^term>\<open>wp m Q\<close>: the computation \<open>m\<close> does not panic and its result satisfies \<open>Q\<close>. It distributes
  over the option monad, so a total-correctness goal about a sequence of calls is reduced to the
  goals about each call.
\<close>

definition wp :: "'a option \<Rightarrow> ('a \<Rightarrow> bool) \<Rightarrow> bool" where
  "wp m Q = (case m of None \<Rightarrow> False | Some x \<Rightarrow> Q x)"

definition rust_assert :: "bool \<Rightarrow> unit option" where
  "rust_assert b = (if b then Some () else None)"

text \<open>
  Indexing and slicing with their bounds checks: \<^verbatim>\<open>xs[i]\<close>, \<^verbatim>\<open>b[i..j]\<close>, \<^verbatim>\<open>b[i..]\<close>, big-endian
  reads, \<^verbatim>\<open>b[i] = v\<close>, \<^verbatim>\<open>b[i..j].copy_from_slice(src)\<close> (which also panics when the lengths
  differ) and \<^verbatim>\<open>b[i..j].fill(v)\<close>.
\<close>

definition nth_opt :: "'a list \<Rightarrow> nat \<Rightarrow> 'a option" where
  "nth_opt xs i = (if i < length xs then Some (xs ! i) else None)"

definition slice_of :: "nat \<Rightarrow> nat \<Rightarrow> 'a list \<Rightarrow> 'a list option" where
  "slice_of i j b = (if i \<le> j \<and> j \<le> length b then Some (subslice i j b) else None)"

definition slice_from :: "nat \<Rightarrow> 'a list \<Rightarrow> 'a list option" where
  "slice_from i b = (if i \<le> length b then Some (drop i b) else None)"

definition read16_at :: "bytes \<Rightarrow> nat \<Rightarrow> u16 option" where
  "read16_at b i = (if i + 1 < length b then Some (read16 b i) else None)"

definition read32_at :: "bytes \<Rightarrow> nat \<Rightarrow> u32 option" where
  "read32_at b i = (if i + 3 < length b then Some (read32 b i) else None)"

definition store :: "nat \<Rightarrow> 'a \<Rightarrow> 'a list \<Rightarrow> 'a list option" where
  "store i v b = (if i < length b then Some (b[i := v]) else None)"

definition copy_into :: "nat \<Rightarrow> nat \<Rightarrow> 'a list \<Rightarrow> 'a list \<Rightarrow> 'a list option" where
  "copy_into i j src b =
     (if i \<le> j \<and> j \<le> length b \<and> length src = j - i then Some (patch i src b) else None)"

definition fill_range :: "nat \<Rightarrow> nat \<Rightarrow> 'a \<Rightarrow> 'a list \<Rightarrow> 'a list option" where
  "fill_range i j v b =
     (if i \<le> j \<and> j \<le> length b then Some (patch i (replicate (j - i) v) b) else None)"

lemma wp_simps [simp]:
  "wp (Some x) Q = Q x"
  "wp None Q = False"
  "wp (rust_assert b) R = (b \<and> R ())"
  by (simp_all add: wp_def rust_assert_def)

lemma wp_bind [simp]: "wp (Option.bind m f) Q = wp m (\<lambda>x. wp (f x) Q)"
  by (cases m) simp_all

lemma wp_if [simp]: "wp (if b then m else m') Q = (if b then wp m Q else wp m' Q)"
  by simp

lemma wp_Let [simp]: "wp (Let e f) Q = wp (f e) Q"
  by (simp add: Let_def)

lemma wp_map [simp]: "wp (map_option f m) Q = wp m (\<lambda>x. Q (f x))"
  by (cases m) simp_all

lemma wp_mono: "wp m P \<Longrightarrow> (\<And>x. P x \<Longrightarrow> Q x) \<Longrightarrow> wp m Q"
  by (cases m) simp_all

lemma wp_conj: "wp m (\<lambda>x. P x \<and> Q x) \<longleftrightarrow> wp m P \<and> wp m Q"
  by (cases m) simp_all

lemma wp_eq_Some: "wp m Q \<longleftrightarrow> (\<exists>x. m = Some x \<and> Q x)"
  by (cases m) simp_all

lemma wp_Some_D: "wp m Q \<Longrightarrow> m = Some x \<Longrightarrow> Q x"
  by simp

section \<open>Lemmas on integers, bytes and slices\<close>

lemma unat_u8_less [simp]: "unat (x :: u8) < 256"
  using unsigned_less [of x] by simp

lemma unat_u16_less [simp]: "unat (x :: u16) < 65536"
  using unsigned_less [of x] by simp

lemma unat_u32_less [simp]: "unat (x :: u32) < 4294967296"
  using unsigned_less [of x] by simp

lemma unat_of_nat_u8: "n < 256 \<Longrightarrow> unat (word_of_nat n :: u8) = n"
  by (simp add: unat_of_nat)

lemma unat_of_nat_u16: "n < 65536 \<Longrightarrow> unat (word_of_nat n :: u16) = n"
  by (simp add: unat_of_nat)

lemma unat_of_nat_u32: "n < 4294967296 \<Longrightarrow> unat (word_of_nat n :: u32) = n"
  by (simp add: unat_of_nat)

lemma unat_u16_from_be_bytes: "unat (u16_from_be_bytes a b) = 256 * unat a + unat b"
proof -
  have "256 * unat a + unat b < 65536"
    using unat_u8_less [of a] unat_u8_less [of b] by linarith
  then show ?thesis
    unfolding u16_from_be_bytes_def by (rule unat_of_nat_u16)
qed

lemma unat_u32_from_be_bytes:
  "unat (u32_from_be_bytes a b c d) =
     16777216 * unat a + 65536 * unat b + 256 * unat c + unat d"
proof -
  have "16777216 * unat a + 65536 * unat b + 256 * unat c + unat d < 4294967296"
    using unat_u8_less [of a] unat_u8_less [of b] unat_u8_less [of c] unat_u8_less [of d]
    by linarith
  then show ?thesis
    unfolding u32_from_be_bytes_def by (rule unat_of_nat_u32)
qed

lemma length_u16_to_be_bytes [simp]: "length (u16_to_be_bytes w) = 2"
  by (simp add: u16_to_be_bytes_def)

lemma length_u32_to_be_bytes [simp]: "length (u32_to_be_bytes w) = 4"
  by (simp add: u32_to_be_bytes_def)

lemma length_octets [simp]: "length (octets ip) = 4"
  by (simp add: octets_def)

lemma u16_be_roundtrip [simp]:
  "u16_from_be_bytes (word_of_nat (unat w div 256)) (word_of_nat (unat w mod 256)) = w"
proof -
  have "unat w div 256 < 256"
    using unat_u16_less [of w] by (simp add: less_mult_imp_div_less)
  then have "256 * unat (word_of_nat (unat w div 256) :: u8) + unat (word_of_nat (unat w mod 256) :: u8)
      = unat w"
    by (simp add: unat_of_nat_u8)
  then show ?thesis
    unfolding u16_from_be_bytes_def by (simp only: of_nat_unat ucast_id)
qed

lemma be_digits:
  "16777216 * (n div 16777216) + 65536 * (n div 65536 mod 256) + 256 * (n div 256 mod 256)
     + n mod 256 = (n :: nat)"
proof -
  have digits: "q1 * 256 + r0 = a \<Longrightarrow> q2 * 256 + r1 = q1 \<Longrightarrow> q3 * 256 + r2 = q2 \<Longrightarrow>
      16777216 * q3 + 65536 * r2 + 256 * r1 + r0 = a" for a q1 q2 q3 r0 r1 r2 :: nat
    by simp
  have "n div 16777216 = n div 256 div 256 div 256" and "n div 65536 = n div 256 div 256"
    by (simp_all add: div_mult2_eq [symmetric])
  then show ?thesis
    by (simp only:) (rule digits; rule div_mult_mod_eq)
qed

lemma u32_be_roundtrip [simp]:
  "u32_from_be_bytes (word_of_nat (unat w div 16777216)) (word_of_nat (unat w div 65536 mod 256))
     (word_of_nat (unat w div 256 mod 256)) (word_of_nat (unat w mod 256)) = w"
proof -
  have "unat w div 16777216 < 256"
    using unat_u32_less [of w] by (simp add: less_mult_imp_div_less)
  moreover have "16777216 * (unat w div 16777216) + 65536 * (unat w div 65536 mod 256)
      + 256 * (unat w div 256 mod 256) + unat w mod 256 = unat w"
    by (rule be_digits)
  ultimately have "16777216 * unat (word_of_nat (unat w div 16777216) :: u8)
      + 65536 * unat (word_of_nat (unat w div 65536 mod 256) :: u8)
      + 256 * unat (word_of_nat (unat w div 256 mod 256) :: u8)
      + unat (word_of_nat (unat w mod 256) :: u8) = unat w"
    by (simp add: unat_of_nat_u8)
  then show ?thesis
    unfolding u32_from_be_bytes_def by (simp only: of_nat_unat ucast_id)
qed

text \<open>The bytes of a word under names, so that symbolic headers keep them folded.\<close>

definition u16_hi :: "u16 \<Rightarrow> u8" where
  "u16_hi w = word_of_nat (unat w div 256)"

definition u16_lo :: "u16 \<Rightarrow> u8" where
  "u16_lo w = word_of_nat (unat w mod 256)"

definition u32_byte :: "nat \<Rightarrow> u32 \<Rightarrow> u8" where
  "u32_byte k w = word_of_nat (unat w div 256 ^ k mod 256)"

lemma u16_hi_lo_0 [simp]: "u16_hi 0 = 0" "u16_lo 0 = 0"
  by (simp_all add: u16_hi_def u16_lo_def)

lemma u16_bytes: "u16_to_be_bytes w = [u16_hi w, u16_lo w]"
  by (simp add: u16_to_be_bytes_def u16_hi_def u16_lo_def)

lemma u32_bytes: "u32_to_be_bytes w = [u32_byte 3 w, u32_byte 2 w, u32_byte 1 w, u32_byte 0 w]"
proof -
  have "unat w div 16777216 < 256"
    using unat_u32_less [of w] by (simp add: less_mult_imp_div_less)
  then show ?thesis
    by (simp add: u32_to_be_bytes_def u32_byte_def)
qed

lemma u16_from_hi_lo [simp]: "u16_from_be_bytes (u16_hi w) (u16_lo w) = w"
  unfolding u16_hi_def u16_lo_def by (rule u16_be_roundtrip)

lemma u32_from_bytes [simp]:
  "u32_from_be_bytes (u32_byte 3 w) (u32_byte 2 w) (u32_byte (Suc 0) w) (u32_byte 0 w) = w"
proof -
  have "u32_from_be_bytes (u32_byte 3 w) (u32_byte 2 w) (u32_byte (Suc 0) w) (u32_byte 0 w)
      = read32 (u32_to_be_bytes w) 0"
    by (simp add: read32_def u32_bytes numeral_2_eq_2 numeral_3_eq_3)
  then show ?thesis
    by (simp add: read32_def u32_to_be_bytes_def)
qed

lemma octets_bytes: "octets ip = [u32_byte 3 ip, u32_byte 2 ip, u32_byte 1 ip, u32_byte 0 ip]"
  by (simp add: octets_def u32_bytes)

lemma u16_bytes_unique:
  assumes "u16_from_be_bytes a b = w"
  shows "u16_to_be_bytes w = [a, b]"
proof -
  have "unat w = 256 * unat a + unat b"
    using assms unat_u16_from_be_bytes by blast
  then show ?thesis
    by (simp add: u16_to_be_bytes_def)
qed

lemma ip_of_octets_octets [simp]: "ip_of_octets (octets ip) = ip"
  by (simp add: ip_of_octets_def octets_def read32_def u32_to_be_bytes_def)

lemma length_subslice [simp]: "j \<le> length b \<Longrightarrow> length (subslice i j b) = j - i"
  by (simp add: subslice_def)

lemma nth_subslice [simp]: "k < j - i \<Longrightarrow> j \<le> length b \<Longrightarrow> subslice i j b ! k = b ! (i + k)"
  by (simp add: subslice_def)

lemma length_patch [simp]: "at + length src \<le> length b \<Longrightarrow> length (patch at src b) = length b"
  by (simp add: patch_def)

lemma patch_append:
  "at + length src \<le> length b \<Longrightarrow> patch at src (b @ c) = patch at src b @ c"
  by (simp add: patch_def)

lemma nth_patch:
  assumes "at + length src \<le> length b" and "i < length b"
  shows "patch at src b ! i = (if at \<le> i \<and> i < at + length src then src ! (i - at) else b ! i)"
  using assms by (auto simp: patch_def nth_append)

lemma patch_split:
  assumes "at + n \<le> length b"
  shows "b = take at b @ subslice at (at + n) b @ drop (at + n) b"
proof -
  have "drop at b = subslice at (at + n) b @ drop (at + n) b"
    by (simp add: subslice_def) (metis append_take_drop_id drop_drop add.commute)
  then show ?thesis
    by (metis append_take_drop_id)
qed

lemmas access_defs = nth_opt_def slice_of_def slice_from_def read16_at_def read32_at_def store_def
  copy_into_def fill_range_def

lemma length6_cases:
  assumes "length (m :: 'a list) = 6"
  obtains a b c d e f where "m = [a, b, c, d, e, f]"
  using assms by (auto simp: numeral_eq_Suc length_Suc_conv)

lemma length4_cases:
  assumes "length (m :: 'a list) = 4"
  obtains a b c d where "m = [a, b, c, d]"
  using assms by (auto simp: numeral_eq_Suc length_Suc_conv)

section \<open>Lemmas on durations\<close>

lemma saturating_add_le_max [simp]: "saturating_add a b \<le> duration_max"
  by (simp add: saturating_add_def)

lemma saturating_add_mono: "a \<le> a' \<Longrightarrow> saturating_add a b \<le> saturating_add a' b"
  by (simp add: saturating_add_def)

lemma le_saturating_add: "a \<le> duration_max \<Longrightarrow> a \<le> saturating_add a b"
  by (simp add: saturating_add_def)

lemma id_less: "(n :: u64) \<noteq> 0xFFFFFFFFFFFFFFFF \<Longrightarrow> n < n + 1"
proof -
  assume n: "n \<noteq> 0xFFFFFFFFFFFFFFFF"
  have "unat n < 2 ^ 64"
    by (rule order_less_le_trans [OF unsigned_less]) simp
  moreover have "unat n \<noteq> unat (0xFFFFFFFFFFFFFFFF :: u64)"
    using n word_unat_eq_iff by blast
  ultimately show "n < n + 1"
    by (simp add: word_less_nat_alt unat_word_ariths)
qed

lemma find_SomeD: "find P xs = Some x \<Longrightarrow> x \<in> set xs \<and> P x"
  by (induction xs) (auto split: if_split_asm)

end
