(* ===== verification/Frame_Pool.thy ===== *)
theory Frame_Pool
  imports Net_Prelude
begin

text \<open>
  \<^verbatim>\<open>src/device/buffer_pool.rs\<close>: fixed arenas of equally sized frames, an index free list, and the
  packet handles that own a frame each.

  The arena is shared memory, but a frame is reachable either through the free list or through one
  handle. The model moves the bytes along with that ownership: a handle carries the contents of its
  frame (\<open>pb_mem\<close>) and the pool the contents of the frames nobody holds (\<open>fp_arena\<close>); creating a
  handle reads the arena, dropping it writes the bytes back. Theorem \<open>frame_ownership_exclusive\<close>
  shows that the ownership this relies on holds in every run. The model is that of a build with
  debug assertions: \<open>mark_used\<close> panics on a double allocation or a double free.
\<close>

section \<open>Data\<close>

record packet_buf =
  pb_mem :: bytes
  pb_data_offset :: nat
  pb_capacity :: nat
  pb_len :: nat
  pb_idx :: nat
  pb_pool :: "nat option"

record frame_pool =
  fp_id :: nat
  fp_arena :: "bytes list"
  fp_frame_size :: nat
  fp_num_frames :: nat
  fp_free_list :: "nat list"
  fp_free_count :: nat
  fp_in_use :: "bool list"

section \<open>The pool\<close>

text \<open>
  \<^verbatim>\<open>Layout::from_size_align\<close> accepts a power of two and a size that stays below
  \<^verbatim>\<open>isize::MAX\<close> when rounded up to it.
\<close>

definition layout_ok :: "nat \<Rightarrow> nat \<Rightarrow> bool" where
  "layout_ok bytes_total align \<longleftrightarrow>
     list_ex (\<lambda>k. align = 2 ^ k) [0..<64] \<and> bytes_total + align \<le> 9223372036854775808"

definition pool_build :: "nat \<Rightarrow> nat \<Rightarrow> nat \<Rightarrow> frame_pool" where
  "pool_build pid frame_size num_frames =
     \<lparr>fp_id = pid, fp_arena = replicate num_frames (replicate frame_size 0),
      fp_frame_size = frame_size, fp_num_frames = num_frames,
      fp_free_list = rev [0..<num_frames], fp_free_count = num_frames,
      fp_in_use = replicate num_frames False\<rparr>"

definition pool_new :: "nat \<Rightarrow> nat \<Rightarrow> nat \<Rightarrow> nat \<Rightarrow> frame_pool option" where
  "pool_new pid num_frames frame_size alignment = do {
     rust_assert (num_frames > 0 \<and> frame_size > 0);
     rust_assert (num_frames * frame_size < 2 ^ 64);
     rust_assert (layout_ok (num_frames * frame_size) alignment);
     Some (pool_build pid frame_size num_frames)
   }"

definition available :: "frame_pool \<Rightarrow> nat" where
  "available p = fp_free_count p"

definition mark_used :: "nat \<Rightarrow> bool \<Rightarrow> frame_pool \<Rightarrow> frame_pool option" where
  "mark_used idx used p = do {
     old \<leftarrow> nth_opt (fp_in_use p) idx;
     (if used then rust_assert (\<not> old) else rust_assert old);
     Some (p\<lparr>fp_in_use := (fp_in_use p)[idx := used]\<rparr>)
   }"

fun mark_all :: "nat list \<Rightarrow> bool \<Rightarrow> frame_pool \<Rightarrow> frame_pool option" where
  "mark_all [] used p = Some p"
| "mark_all (i # is) used p = do { p \<leftarrow> mark_used i used p; mark_all is used p }"

definition pool_alloc :: "frame_pool \<Rightarrow> (nat option \<times> frame_pool) option" where
  "pool_alloc p =
     (let count = available p in
      if count = 0 then Some (None, p)
      else do {
        idx \<leftarrow> nth_opt (fp_free_list p) (count - 1);
        p \<leftarrow> mark_used idx True (p\<lparr>fp_free_count := count - 1\<rparr>);
        Some (Some idx, p)
      })"

definition pool_free :: "nat \<Rightarrow> frame_pool \<Rightarrow> frame_pool option" where
  "pool_free idx p = do {
     p \<leftarrow> mark_used idx False p;
     let count = available p;
     rust_assert (count < length (fp_free_list p));
     Some (p\<lparr>fp_free_list := (fp_free_list p)[count := idx], fp_free_count := count + 1\<rparr>)
   }"

text \<open>\<^verbatim>\<open>alloc_n\<close> fills a prefix of the caller's slice of \<open>want\<close> slots; the model returns that prefix.\<close>

definition pool_alloc_n :: "nat \<Rightarrow> frame_pool \<Rightarrow> (nat list \<times> frame_pool) option" where
  "pool_alloc_n want p =
     (let count = available p; n = min want count in do {
        rust_assert (count \<le> length (fp_free_list p));
        let taken = subslice (count - n) count (fp_free_list p);
        p \<leftarrow> mark_all taken True p;
        Some (taken, p\<lparr>fp_free_count := count - n\<rparr>)
      })"

definition pool_free_n :: "nat list \<Rightarrow> frame_pool \<Rightarrow> frame_pool option" where
  "pool_free_n indices p =
     (let count = available p in do {
        p \<leftarrow> mark_all indices False p;
        rust_assert (count + length indices \<le> length (fp_free_list p));
        Some (p\<lparr>fp_free_list := patch count indices (fp_free_list p),
                fp_free_count := count + length indices\<rparr>)
      })"

section \<open>Packet handles\<close>

definition packet_buf :: "nat \<Rightarrow> nat \<Rightarrow> frame_pool \<Rightarrow> packet_buf option" where
  "packet_buf idx len p = do {
     rust_assert (idx < fp_num_frames p \<and> len \<le> fp_frame_size p);
     mem \<leftarrow> nth_opt (fp_arena p) idx;
     Some \<lparr>pb_mem = mem,
           pb_data_offset = min (min (fp_frame_size p div 4) 128) (fp_frame_size p - len),
           pb_capacity = fp_frame_size p, pb_len = len, pb_idx = idx, pb_pool = Some (fp_id p)\<rparr>
   }"

text \<open>\<^verbatim>\<open>PacketBuf::default()\<close>, what a consumed TX slot becomes.\<close>

definition empty_buf :: packet_buf where
  "empty_buf = \<lparr>pb_mem = [], pb_data_offset = 0, pb_capacity = 0, pb_len = 0, pb_idx = 0,
                pb_pool = None\<rparr>"

definition as_slice :: "packet_buf \<Rightarrow> bytes" where
  "as_slice b = subslice (pb_data_offset b) (pb_data_offset b + pb_len b) (pb_mem b)"

text \<open>Writing \<open>bs\<close> at offset \<open>at\<close> of the packet through \<^verbatim>\<open>as_mut_packet\<close>.\<close>

definition write_packet :: "nat \<Rightarrow> bytes \<Rightarrow> packet_buf \<Rightarrow> packet_buf option" where
  "write_packet at bs b = do {
     rust_assert (at + length bs \<le> pb_len b);
     Some (b\<lparr>pb_mem := patch (pb_data_offset b + at) bs (pb_mem b)\<rparr>)
   }"

text \<open>Writing anywhere in the frame, headroom and tail included, through \<^verbatim>\<open>as_mut_slice\<close>.\<close>

definition write_frame :: "nat \<Rightarrow> bytes \<Rightarrow> packet_buf \<Rightarrow> packet_buf option" where
  "write_frame at bs b = do {
     rust_assert (at + length bs \<le> pb_capacity b);
     Some (b\<lparr>pb_mem := patch at bs (pb_mem b)\<rparr>)
   }"

definition set_headroom :: "nat \<Rightarrow> packet_buf \<Rightarrow> packet_buf option" where
  "set_headroom headroom b = do {
     rust_assert (headroom \<le> pb_capacity b - pb_len b);
     Some (b\<lparr>pb_data_offset := headroom\<rparr>)
   }"

definition set_len :: "nat \<Rightarrow> packet_buf \<Rightarrow> packet_buf option" where
  "set_len len b = do {
     rust_assert (len \<le> pb_capacity b - pb_data_offset b);
     Some (b\<lparr>pb_len := len\<rparr>)
   }"

definition push_header :: "bytes \<Rightarrow> packet_buf \<Rightarrow> packet_buf option" where
  "push_header bs b = do {
     rust_assert (length bs \<le> pb_data_offset b);
     write_packet 0 bs (b\<lparr>pb_data_offset := pb_data_offset b - length bs,
                          pb_len := pb_len b + length bs\<rparr>)
   }"

definition pull_header :: "nat \<Rightarrow> packet_buf \<Rightarrow> packet_buf option" where
  "pull_header n b = do {
     rust_assert (n \<le> pb_len b);
     Some (b\<lparr>pb_data_offset := pb_data_offset b + n, pb_len := pb_len b - n\<rparr>)
   }"

definition tail_capacity :: "packet_buf \<Rightarrow> nat" where
  "tail_capacity b = pb_capacity b - pb_data_offset b"

text \<open>
  \<^verbatim>\<open>Drop for PacketBuf\<close>: the frame goes back to the pool the handle came from, so a pool is
  affected only by its own handles.
\<close>

definition drop_buf :: "packet_buf \<Rightarrow> frame_pool \<Rightarrow> frame_pool option" where
  "drop_buf b p =
     (if pb_pool b = Some (fp_id p)
      then pool_free (pb_idx b) (p\<lparr>fp_arena := (fp_arena p)[pb_idx b := pb_mem b]\<rparr>)
      else Some p)"

text \<open>
  \<^verbatim>\<open>into_parts\<close> hands the frame to a kernel ring: no handle remains and the index stays in use.
\<close>

definition into_parts :: "packet_buf \<Rightarrow> frame_pool \<Rightarrow> (nat \<times> nat) \<times> frame_pool" where
  "into_parts b p =
     ((pb_idx b, pb_len b),
      if pb_pool b = Some (fp_id p)
      then p\<lparr>fp_arena := (fp_arena p)[pb_idx b := pb_mem b]\<rparr> else p)"

fun packet_bufs :: "nat list \<Rightarrow> frame_pool \<Rightarrow> packet_buf list option" where
  "packet_bufs [] p = Some []"
| "packet_bufs (i # is) p = do {
     b \<leftarrow> packet_buf i 0 p;
     bs \<leftarrow> packet_bufs is p;
     Some (b # bs)
   }"

text \<open>
  \<^verbatim>\<open>alloc_batch\<close> works in chunks of at most 64 indices and stops at the first chunk it cannot fill.
\<close>

function alloc_batch_loop ::
  "nat \<Rightarrow> nat \<Rightarrow> packet_buf list \<Rightarrow> frame_pool \<Rightarrow> (nat \<times> packet_buf list \<times> frame_pool) option"
where
  "alloc_batch_loop want got out p =
     (if got < want then
        (let limit = min 64 (want - got) in
         case pool_alloc_n limit p of
           None \<Rightarrow> None
         | Some (indices, p') \<Rightarrow>
             (case packet_bufs indices p' of
                None \<Rightarrow> None
              | Some bs \<Rightarrow>
                  (if length indices < limit
                   then Some (got + length indices, out @ bs, p')
                   else alloc_batch_loop want (got + length indices) (out @ bs) p')))
      else Some (got, out, p))"
  by pat_completeness auto
termination
  by (relation "measure (\<lambda>(want, got, out, p). want - got)") auto

declare alloc_batch_loop.simps [simp del]

definition pool_alloc_batch ::
  "nat \<Rightarrow> packet_buf list \<Rightarrow> frame_pool \<Rightarrow> (nat \<times> packet_buf list \<times> frame_pool) option"
where
  "pool_alloc_batch want out p = alloc_batch_loop want 0 out p"

text \<open>
  Everything an owner can do to a handle short of dropping it: moving and resizing the packet, and writing into the packet or
  anywhere into the frame.
\<close>

inductive buf_edit :: "packet_buf \<Rightarrow> packet_buf \<Rightarrow> bool" where
  edit_headroom: "set_headroom n b = Some b' \<Longrightarrow> buf_edit b b'"
| edit_len: "set_len n b = Some b' \<Longrightarrow> buf_edit b b'"
| edit_push: "push_header bs b = Some b' \<Longrightarrow> buf_edit b b'"
| edit_pull: "pull_header n b = Some b' \<Longrightarrow> buf_edit b b'"
| edit_write: "write_packet at bs b = Some b' \<Longrightarrow> buf_edit b b'"
| edit_write_frame: "write_frame at bs b = Some b' \<Longrightarrow> buf_edit b b'"

text \<open>
  The runs of a pool and the handles alive beside it: handles come from \<^verbatim>\<open>alloc\<close> or
  \<^verbatim>\<open>alloc_batch\<close>, are edited in place, and go away when they are dropped.
\<close>

inductive frame_run :: "frame_pool \<Rightarrow> packet_buf list \<Rightarrow> bool" where
  run_new: "pool_new pid n sz al = Some p \<Longrightarrow> frame_run p []"
| run_alloc: "frame_run p live \<Longrightarrow> pool_alloc p = Some (Some i, p') \<Longrightarrow>
     packet_buf i len p' = Some b \<Longrightarrow> frame_run p' (b # live)"
| run_batch: "frame_run p live \<Longrightarrow> pool_alloc_batch n [] p = Some (k, bs, p') \<Longrightarrow>
     frame_run p' (bs @ live)"
| run_edit: "frame_run p (xs @ b # ys) \<Longrightarrow> buf_edit b b' \<Longrightarrow> frame_run p (xs @ b' # ys)"
| run_drop: "frame_run p (xs @ b # ys) \<Longrightarrow> drop_buf b p = Some p' \<Longrightarrow> frame_run p' (xs @ ys)"

text \<open>The reference for \<^verbatim>\<open>alloc_n\<close>: that many calls of \<^verbatim>\<open>alloc\<close>.\<close>

fun alloc_times :: "nat \<Rightarrow> frame_pool \<Rightarrow> (nat list \<times> frame_pool) option" where
  "alloc_times 0 p = Some ([], p)"
| "alloc_times (Suc n) p = do {
     (r, p) \<leftarrow> pool_alloc p;
     (case r of
        None \<Rightarrow> Some ([], p)
      | Some i \<Rightarrow> do { (is, p) \<leftarrow> alloc_times n p; Some (i # is, p) })
   }"

section \<open>Invariants\<close>

definition free_frames :: "frame_pool \<Rightarrow> nat set" where
  "free_frames p = set (take (fp_free_count p) (fp_free_list p))"

definition pool_inv :: "frame_pool \<Rightarrow> bool" where
  "pool_inv p \<longleftrightarrow>
     length (fp_free_list p) = fp_num_frames p \<and> length (fp_in_use p) = fp_num_frames p \<and>
     length (fp_arena p) = fp_num_frames p \<and>
     list_all (\<lambda>m. length m = fp_frame_size p) (fp_arena p) \<and>
     fp_free_count p \<le> fp_num_frames p \<and>
     distinct (take (fp_free_count p) (fp_free_list p)) \<and>
     free_frames p \<subseteq> {..<fp_num_frames p} \<and>
     (\<forall>i < fp_num_frames p. fp_in_use p ! i \<longleftrightarrow> i \<notin> free_frames p)"

text \<open>What no operation on a pool changes.\<close>

definition same_shape :: "frame_pool \<Rightarrow> frame_pool \<Rightarrow> bool" where
  "same_shape p q \<longleftrightarrow> fp_id q = fp_id p \<and> fp_num_frames q = fp_num_frames p \<and>
     fp_frame_size q = fp_frame_size p"

definition pb_inv :: "packet_buf \<Rightarrow> bool" where
  "pb_inv b \<longleftrightarrow> length (pb_mem b) = pb_capacity b \<and>
     pb_data_offset b + pb_len b \<le> pb_capacity b"

text \<open>Two states of one handle.\<close>

definition same_frame :: "packet_buf \<Rightarrow> packet_buf \<Rightarrow> bool" where
  "same_frame b b' \<longleftrightarrow> pb_idx b' = pb_idx b \<and> pb_pool b' = pb_pool b \<and> pb_capacity b' = pb_capacity b"

text \<open>A handle of the pool: its frame is one of the pool's, in use, and of the pool's size.\<close>

definition owned_by :: "frame_pool \<Rightarrow> packet_buf \<Rightarrow> bool" where
  "owned_by p b \<longleftrightarrow> pb_inv b \<and> pb_pool b = Some (fp_id p) \<and> pb_capacity b = fp_frame_size p \<and>
     pb_idx b < fp_num_frames p \<and> pb_idx b \<notin> free_frames p"

section \<open>The allocator interface\<close>

text \<open>
  The contract of an allocator of numbered slots, which the frame pool provides. Ownership is a list
  of slots handed out and not yet returned; the lemmas of the locale show that no slot is handed out
  twice.
\<close>

locale slot_allocator =
  fixes alloc :: "'p \<Rightarrow> (nat option \<times> 'p) option"
    and release :: "nat \<Rightarrow> 'p \<Rightarrow> 'p option"
    and free_slots :: "'p \<Rightarrow> nat set"
    and slots :: "'p \<Rightarrow> nat set"
    and ok :: "'p \<Rightarrow> bool"
  assumes finite_slots: "ok p \<Longrightarrow> finite (slots p)"
    and free_sub: "ok p \<Longrightarrow> free_slots p \<subseteq> slots p"
    and alloc_law: "ok p \<Longrightarrow> wp (alloc p) (\<lambda>(r, p').
          ok p' \<and> slots p' = slots p \<and>
          (case r of None \<Rightarrow> free_slots p = {} \<and> p' = p
           | Some i \<Rightarrow> i \<in> free_slots p \<and> free_slots p' = free_slots p - {i}))"
    and release_law: "ok p \<Longrightarrow> i \<in> slots p - free_slots p \<Longrightarrow> wp (release i p) (\<lambda>p'.
          ok p' \<and> slots p' = slots p \<and> free_slots p' = insert i (free_slots p))"
begin

definition exclusive :: "'p \<Rightarrow> nat list \<Rightarrow> bool" where
  "exclusive p owned \<longleftrightarrow> ok p \<and> distinct owned \<and> set owned = slots p - free_slots p"

lemma exclusive_alloc:
  assumes "exclusive p owned"
  shows "wp (alloc p) (\<lambda>(r, p').
    case r of None \<Rightarrow> exclusive p' owned \<and> set owned = slots p
    | Some i \<Rightarrow> i \<notin> set owned \<and> exclusive p' (i # owned))"
proof (rule wp_mono [OF alloc_law])
  show "ok p"
    using assms by (simp add: exclusive_def)
  fix x
  assume "case x of (r, p') \<Rightarrow> ok p' \<and> slots p' = slots p \<and>
    (case r of None \<Rightarrow> free_slots p = {} \<and> p' = p
     | Some i \<Rightarrow> i \<in> free_slots p \<and> free_slots p' = free_slots p - {i})"
  then show "case x of (r, p') \<Rightarrow>
    (case r of None \<Rightarrow> exclusive p' owned \<and> set owned = slots p
     | Some i \<Rightarrow> i \<notin> set owned \<and> exclusive p' (i # owned))"
    using assms free_sub [of p] by (auto simp: exclusive_def split: option.splits)
qed

lemma exclusive_release:
  assumes "exclusive p owned" and "i \<in> set owned"
  shows "wp (release i p) (\<lambda>p'. exclusive p' (remove1 i owned))"
proof (rule wp_mono [OF release_law])
  show "ok p" and "i \<in> slots p - free_slots p"
    using assms by (auto simp: exclusive_def)
  show "\<And>p'. ok p' \<and> slots p' = slots p \<and> free_slots p' = insert i (free_slots p) \<Longrightarrow>
      exclusive p' (remove1 i owned)"
    using assms by (auto simp: exclusive_def)
qed

lemma exclusive_count:
  assumes "exclusive p owned"
  shows "length owned + card (free_slots p) = card (slots p)"
proof -
  have "length owned = card (slots p - free_slots p)"
    using assms distinct_card by (fastforce simp: exclusive_def)
  then show ?thesis
    using assms free_sub finite_slots card_Diff_subset [of "free_slots p" "slots p"]
      card_mono [of "slots p" "free_slots p"] finite_subset
    by (fastforce simp: exclusive_def)
qed

end

section \<open>The free list\<close>

lemma pool_inv_build: "pool_inv (pool_build pid sz n)"
  by (auto simp: pool_inv_def pool_build_def free_frames_def list_all_iff)

lemma pool_new_wp:
  "pool_new pid n sz al = Some p \<Longrightarrow> pool_inv p \<and> available p = n \<and> fp_num_frames p = n \<and>
     fp_frame_size p = sz \<and> fp_id p = pid"
  using pool_inv_build [of pid sz n]
  by (auto simp: pool_new_def rust_assert_def available_def pool_build_def split: if_splits)

lemma free_index_less: "pool_inv p \<Longrightarrow> i \<in> free_frames p \<Longrightarrow> i < fp_num_frames p"
  by (auto simp: pool_inv_def)

lemma card_free_frames: "pool_inv p \<Longrightarrow> card (free_frames p) = available p"
  by (simp add: pool_inv_def free_frames_def available_def distinct_card)

lemma take_minus_one:
  assumes "0 < c" and "c \<le> length xs"
  shows "take c xs = take (c - 1) xs @ [xs ! (c - 1)]"
  using assms take_Suc_conv_app_nth [of "c - 1" xs] by simp

lemma pool_alloc_wp [wp_rules]:
  assumes inv: "pool_inv p"
  shows "wp (pool_alloc p) (\<lambda>(r, p').
    pool_inv p' \<and> same_shape p p' \<and> fp_arena p' = fp_arena p \<and> fp_free_list p' = fp_free_list p \<and>
    (case r of None \<Rightarrow> free_frames p = {} \<and> p' = p
     | Some i \<Rightarrow> i \<in> free_frames p \<and> free_frames p' = free_frames p - {i} \<and>
         available p = Suc (available p') \<and> i = fp_free_list p ! available p'))"
proof (cases "available p = 0")
  case True
  then show ?thesis
    using inv by (simp add: pool_alloc_def same_shape_def free_frames_def available_def)
next
  case False
  let ?c = "fp_free_count p" and ?l = "fp_free_list p"
  let ?i = "?l ! (?c - 1)"
  let ?p' = "p\<lparr>fp_free_count := ?c - 1, fp_in_use := (fp_in_use p)[?i := True]\<rparr>"
  have c: "0 < ?c" "?c \<le> length ?l"
    using False inv by (auto simp: available_def pool_inv_def)
  note split_take = take_minus_one [OF c]
  have dist: "distinct (take (?c - 1) ?l @ [?i])" and
    sub: "set (take (?c - 1) ?l @ [?i]) \<subseteq> {..<fp_num_frames p}"
    using inv split_take by (auto simp: pool_inv_def free_frames_def)
  have free: "free_frames p = insert ?i (set (take (?c - 1) ?l))"
    unfolding free_frames_def split_take by simp
  have free': "free_frames ?p' = free_frames p - {?i}"
    using dist unfolding free by (simp add: free_frames_def)
  have unused: "\<not> fp_in_use p ! ?i" "?i < length (fp_in_use p)"
    using inv free sub by (auto simp: pool_inv_def)
  have "pool_inv ?p'"
    using inv free' free dist sub by (auto simp: pool_inv_def nth_list_update)
  then show ?thesis
    using False c unused free free'
    by (simp add: pool_alloc_def nth_opt_def mark_used_def available_def same_shape_def)
qed

lemma pool_free_wp [wp_rules]:
  assumes inv: "pool_inv p" and i: "i < fp_num_frames p" "i \<notin> free_frames p"
  shows "wp (pool_free i p) (\<lambda>p'.
    pool_inv p' \<and> same_shape p p' \<and> fp_arena p' = fp_arena p \<and>
    free_frames p' = insert i (free_frames p) \<and> available p' = Suc (available p))"
proof -
  let ?c = "fp_free_count p" and ?l = "fp_free_list p"
  have "card (insert i (free_frames p)) \<le> card {..<fp_num_frames p}"
    by (rule card_mono) (use inv i in \<open>auto simp: pool_inv_def\<close>)
  then have less: "?c < fp_num_frames p"
    using i card_free_frames [OF inv] by (simp add: free_frames_def available_def)
  let ?p' = "p\<lparr>fp_in_use := (fp_in_use p)[i := False], fp_free_list := ?l[?c := i],
    fp_free_count := Suc ?c\<rparr>"
  have tk: "take (Suc ?c) (?l[?c := i]) = take ?c ?l @ [i]"
    using less inv by (simp add: take_Suc_conv_app_nth pool_inv_def)
  have free': "free_frames ?p' = insert i (free_frames p)"
    by (simp add: free_frames_def tk)
  have "pool_inv ?p'"
    using inv free' less i tk by (auto simp: pool_inv_def nth_list_update free_frames_def)
  moreover have "fp_in_use p ! i" "i < length (fp_in_use p)"
    using inv i by (auto simp: pool_inv_def)
  ultimately show ?thesis
    using free' less inv
    by (simp add: pool_free_def mark_used_def nth_opt_def available_def same_shape_def pool_inv_def)
qed

interpretation fpool: slot_allocator pool_alloc pool_free free_frames
  "\<lambda>p. {..<fp_num_frames p}" pool_inv
proof
  fix p i
  assume inv: "pool_inv p"
  show "finite {..<fp_num_frames p}"
    by simp
  show "free_frames p \<subseteq> {..<fp_num_frames p}"
    using inv by (simp add: pool_inv_def)
  show "wp (pool_alloc p) (\<lambda>(r, p'). pool_inv p' \<and> {..<fp_num_frames p'} = {..<fp_num_frames p} \<and>
      (case r of None \<Rightarrow> free_frames p = {} \<and> p' = p
       | Some i \<Rightarrow> i \<in> free_frames p \<and> free_frames p' = free_frames p - {i}))"
    by (rule wp_mono [OF pool_alloc_wp [OF inv]]) (auto simp: same_shape_def split: option.splits)
  show "i \<in> {..<fp_num_frames p} - free_frames p \<Longrightarrow> wp (pool_free i p) (\<lambda>p'.
      pool_inv p' \<and> {..<fp_num_frames p'} = {..<fp_num_frames p} \<and>
      free_frames p' = insert i (free_frames p))"
    by (rule wp_mono [OF pool_free_wp [OF inv]]) (auto simp: same_shape_def)
qed

section \<open>Batches\<close>

lemma mark_all_eq:
  assumes "distinct is" and "\<forall>i \<in> set is. i < length (fp_in_use p) \<and> fp_in_use p ! i \<noteq> used"
  shows "mark_all is used p = Some (p\<lparr>fp_in_use :=
    map (\<lambda>j. if j \<in> set is then used else fp_in_use p ! j) [0..<length (fp_in_use p)]\<rparr>)"
  using assms
proof (induction "is" arbitrary: p)
  case Nil
  then show ?case
    by (simp add: map_nth)
next
  case (Cons i "is")
  let ?q = "p\<lparr>fp_in_use := (fp_in_use p)[i := used]\<rparr>"
  have "mark_used i used p = Some ?q"
    using Cons.prems by (auto simp: mark_used_def nth_opt_def rust_assert_def)
  moreover have "\<forall>j \<in> set is. j < length (fp_in_use ?q) \<and> fp_in_use ?q ! j \<noteq> used"
    using Cons.prems by (auto simp: nth_list_update)
  then have "mark_all is used ?q = Some (?q\<lparr>fp_in_use :=
      map (\<lambda>j. if j \<in> set is then used else fp_in_use ?q ! j) [0..<length (fp_in_use ?q)]\<rparr>)"
    using Cons.prems(1) Cons.IH by simp
  moreover have "map (\<lambda>j. if j \<in> set is then used else fp_in_use ?q ! j) [0..<length (fp_in_use ?q)] =
      map (\<lambda>j. if j \<in> set (i # is) then used else fp_in_use p ! j) [0..<length (fp_in_use p)]"
    by (rule map_cong) (auto simp: nth_list_update)
  ultimately show ?case
    by simp
qed

lemma take_split_subslice:
  assumes "n \<le> c" and "c \<le> length xs"
  shows "take c xs = take (c - n) xs @ subslice (c - n) c xs"
proof -
  have "take ((c - n) + n) xs = take (c - n) xs @ take n (drop (c - n) xs)"
    by (rule take_add)
  then show ?thesis
    using assms by (simp add: subslice_def)
qed

definition taken_frames :: "nat \<Rightarrow> frame_pool \<Rightarrow> nat list" where
  "taken_frames n p = subslice (fp_free_count p - n) (fp_free_count p) (fp_free_list p)"

definition after_taking :: "nat \<Rightarrow> frame_pool \<Rightarrow> frame_pool" where
  "after_taking n p = p\<lparr>fp_free_count := fp_free_count p - n, fp_in_use :=
     map (\<lambda>j. if j \<in> set (taken_frames n p) then True else fp_in_use p ! j)
       [0..<length (fp_in_use p)]\<rparr>"

lemma taken_frames_facts:
  assumes "pool_inv p" and "n \<le> available p"
  shows "length (taken_frames n p) = n" and "distinct (taken_frames n p)"
    and "set (taken_frames n p) \<subseteq> free_frames p"
    and "set (take (fp_free_count p - n) (fp_free_list p)) = free_frames p - set (taken_frames n p)"
proof -
  have c: "fp_free_count p \<le> length (fp_free_list p)"
    using assms(1) by (simp add: pool_inv_def)
  note sp = take_split_subslice [OF assms(2) [unfolded available_def] c]
  have d: "distinct (take (fp_free_count p - n) (fp_free_list p) @ taken_frames n p)"
    using assms(1) unfolding pool_inv_def sp taken_frames_def by simp
  show "length (taken_frames n p) = n"
    using assms(2) c by (simp add: taken_frames_def available_def)
  show "distinct (taken_frames n p)" and "set (taken_frames n p) \<subseteq> free_frames p"
    and "set (take (fp_free_count p - n) (fp_free_list p)) = free_frames p - set (taken_frames n p)"
    using d by (auto simp: free_frames_def sp taken_frames_def)
qed

lemma after_taking_inv:
  assumes inv: "pool_inv p" and n: "n \<le> available p"
  shows "pool_inv (after_taking n p)"
    and "free_frames (after_taking n p) = free_frames p - set (taken_frames n p)"
    and "available (after_taking n p) = available p - n"
    and "same_shape p (after_taking n p)"
proof -
  note t = taken_frames_facts [OF assms]
  show ff: "free_frames (after_taking n p) = free_frames p - set (taken_frames n p)"
    using t(4) by (simp add: after_taking_def free_frames_def)
  show "available (after_taking n p) = available p - n" "same_shape p (after_taking n p)"
    by (simp_all add: after_taking_def available_def same_shape_def)
  have "distinct (take (fp_free_count p - n) (fp_free_list p))"
    using inv distinct_take [of "take (fp_free_count p) (fp_free_list p)" "fp_free_count p - n"]
    by (simp add: pool_inv_def min_def split: if_splits)
  then show "pool_inv (after_taking n p)"
    using inv ff t(3) unfolding pool_inv_def by (auto simp: after_taking_def)
qed

lemma pool_alloc_n_eq:
  assumes "pool_inv p"
  shows "pool_alloc_n want p =
    (let n = min want (available p) in Some (taken_frames n p, after_taking n p))"
proof -
  let ?n = "min want (available p)"
  have le: "?n \<le> available p"
    by simp
  note t = taken_frames_facts [OF assms le]
  have "\<forall>i \<in> set (taken_frames ?n p). i < length (fp_in_use p) \<and> fp_in_use p ! i \<noteq> True"
    using assms t(3) by (auto simp: pool_inv_def)
  with t(2) have "mark_all (taken_frames ?n p) True p = Some (p\<lparr>fp_in_use :=
      map (\<lambda>j. if j \<in> set (taken_frames ?n p) then True else fp_in_use p ! j)
        [0..<length (fp_in_use p)]\<rparr>)"
    by (rule mark_all_eq)
  moreover have "fp_free_count p \<le> length (fp_free_list p)"
    using assms by (simp add: pool_inv_def)
  ultimately show ?thesis
    by (simp add: pool_alloc_n_def Let_def taken_frames_def after_taking_def available_def
        rust_assert_def)
qed

lemma pool_alloc_n_wp [wp_rules]:
  assumes "pool_inv p"
  shows "wp (pool_alloc_n want p) (\<lambda>(is, p').
    pool_inv p' \<and> same_shape p p' \<and> fp_arena p' = fp_arena p \<and>
    length is = min want (available p) \<and> distinct is \<and> set is \<subseteq> free_frames p \<and>
    free_frames p' = free_frames p - set is \<and> available p' = available p - length is)"
  using taken_frames_facts [OF assms] after_taking_inv [OF assms]
  by (simp add: pool_alloc_n_eq [OF assms] Let_def after_taking_def)

lemma pool_alloc_step:
  assumes "pool_inv p" and "0 < available p"
  shows "pool_alloc p = Some (Some (fp_free_list p ! (available p - 1)), after_taking 1 p)"
proof -
  have "fp_free_count p \<le> length (fp_free_list p)" and "0 < fp_free_count p"
    using assms by (auto simp: pool_inv_def available_def)
  then have tk: "taken_frames 1 p = [fp_free_list p ! (fp_free_count p - 1)]"
    by (simp add: taken_frames_def subslice_def take_Suc_conv_app_nth)
  have "set (taken_frames 1 p) \<subseteq> free_frames p"
    using taken_frames_facts(3) [OF assms(1)] assms(2) by simp
  then have "fp_free_list p ! (fp_free_count p - 1) < length (fp_in_use p)"
    and "\<not> fp_in_use p ! (fp_free_list p ! (fp_free_count p - 1))"
    using assms(1) tk by (auto simp: pool_inv_def)
  moreover have "(fp_in_use p)[fp_free_list p ! (fp_free_count p - 1) := True] =
      map (\<lambda>j. if j \<in> set (taken_frames 1 p) then True else fp_in_use p ! j)
        [0..<length (fp_in_use p)]"
    unfolding tk by (rule nth_equalityI) (auto simp: nth_list_update)
  ultimately show ?thesis
    using assms(2) \<open>fp_free_count p \<le> length (fp_free_list p)\<close>
    by (simp add: pool_alloc_def nth_opt_def mark_used_def available_def after_taking_def
        rust_assert_def Let_def)
qed

lemma after_taking_Suc:
  assumes "pool_inv p" and "Suc n \<le> available p"
  shows "taken_frames (Suc n) p = taken_frames n (after_taking 1 p) @ taken_frames 1 p"
    and "after_taking (Suc n) p = after_taking n (after_taking 1 p)"
proof -
  let ?c = "fp_free_count p" and ?l = "fp_free_list p"
  have c: "?c \<le> length ?l" "Suc n \<le> ?c"
    using assms by (auto simp: pool_inv_def available_def)
  have "take (Suc n) (drop (?c - Suc n) ?l) = take n (drop (?c - Suc n) ?l) @ [?l ! (?c - 1)]"
    using c take_Suc_conv_app_nth [of n "drop (?c - Suc n) ?l"] by simp
  moreover have "take 1 (drop (?c - 1) ?l) = [?l ! (?c - 1)]"
    using c by (simp add: take_Suc_conv_app_nth)
  ultimately show tk: "taken_frames (Suc n) p = taken_frames n (after_taking 1 p) @ taken_frames 1 p"
    using c by (simp add: taken_frames_def after_taking_def subslice_def)
  show "after_taking (Suc n) p = after_taking n (after_taking 1 p)"
    using tk by (auto simp: after_taking_def)
qed

lemma alloc_times_eq:
  "pool_inv p \<Longrightarrow> alloc_times want p =
     (let n = min want (available p) in Some (rev (taken_frames n p), after_taking n p))"
proof (induction want arbitrary: p)
  case 0
  have "after_taking 0 p = p"
    using 0 by (simp add: after_taking_def taken_frames_def subslice_def map_nth)
  then show ?case
    by (simp add: taken_frames_def subslice_def)
next
  case (Suc want)
  show ?case
  proof (cases "available p = 0")
    case True
    moreover have "after_taking 0 p = p"
      by (simp add: after_taking_def taken_frames_def subslice_def map_nth)
    ultimately show ?thesis
      by (simp add: pool_alloc_def taken_frames_def subslice_def)
  next
    case False
    let ?q = "after_taking 1 p" and ?n = "min want (available p - 1)"
    have q: "pool_inv ?q" "available ?q = available p - 1"
      using after_taking_inv [OF Suc.prems, of 1] False by auto
    have n: "min (Suc want) (available p) = Suc ?n" "Suc ?n \<le> available p"
      using False by auto
    have "taken_frames 1 p = [fp_free_list p ! (available p - 1)]"
      using False Suc.prems
      by (auto simp: taken_frames_def subslice_def take_Suc_conv_app_nth pool_inv_def available_def)
    then show ?thesis
      using Suc.IH [OF q(1)] q(2) False after_taking_Suc [OF Suc.prems n(2)]
      by (simp add: pool_alloc_step [OF Suc.prems] n(1) Let_def)
  qed
qed

section \<open>Handles\<close>

lemma length_as_slice [simp]: "pb_inv b \<Longrightarrow> length (as_slice b) = pb_len b"
  by (simp add: as_slice_def pb_inv_def)

lemma pb_inv_empty_buf [simp]: "pb_inv empty_buf"
  by (simp add: pb_inv_def empty_buf_def)

lemma as_slice_take: "as_slice b = take (pb_len b) (drop (pb_data_offset b) (pb_mem b))"
  by (simp add: as_slice_def subslice_def)

lemma write_packet_SomeD:
  assumes "write_packet at bs b = Some b'" and "pb_inv b"
  shows "pb_inv b'" and "as_slice b' = patch at bs (as_slice b)" and "at + length bs \<le> pb_len b"
    and "b' = b\<lparr>pb_mem := pb_mem b'\<rparr>"
proof -
  have le: "at + length bs \<le> pb_len b"
    and b': "b' = b\<lparr>pb_mem := patch (pb_data_offset b + at) bs (pb_mem b)\<rparr>"
    using assms(1) by (auto simp: write_packet_def rust_assert_def split: if_splits)
  show "at + length bs \<le> pb_len b" and "b' = b\<lparr>pb_mem := pb_mem b'\<rparr>"
    using le b' by auto
  show "pb_inv b'"
    using assms(2) le b' by (auto simp: pb_inv_def)
  have "length (pb_mem b) = pb_capacity b" "pb_data_offset b + pb_len b \<le> pb_capacity b"
    using assms(2) by (auto simp: pb_inv_def)
  then show "as_slice b' = patch at bs (as_slice b)"
    using le unfolding b' as_slice_take
    by (intro nth_equalityI) (auto simp: nth_patch)
qed

lemma push_header_SomeD:
  assumes "push_header bs b = Some b'" and "pb_inv b"
  shows "pb_inv b'" and "as_slice b' = bs @ as_slice b" and "length bs \<le> pb_data_offset b"
    and "pb_data_offset b' = pb_data_offset b - length bs" and "pb_len b' = pb_len b + length bs"
    and "pb_capacity b' = pb_capacity b" and "pb_idx b' = pb_idx b" and "pb_pool b' = pb_pool b"
proof -
  let ?c = "b\<lparr>pb_data_offset := pb_data_offset b - length bs, pb_len := pb_len b + length bs\<rparr>"
  have le: "length bs \<le> pb_data_offset b" and w: "write_packet 0 bs ?c = Some b'"
    using assms(1) by (auto simp: push_header_def rust_assert_def split: if_splits)
  have c: "pb_inv ?c"
    using le assms(2) by (auto simp: pb_inv_def)
  note w' = write_packet_SomeD [OF w c]
  show "pb_inv b'" "length bs \<le> pb_data_offset b"
    using w' le by auto
  show "pb_data_offset b' = pb_data_offset b - length bs" "pb_len b' = pb_len b + length bs"
    "pb_capacity b' = pb_capacity b" "pb_idx b' = pb_idx b" "pb_pool b' = pb_pool b"
    by (subst w'(4), simp)+
  have "drop (length bs) (as_slice ?c) = as_slice b"
    using le assms(2) by (simp add: as_slice_take drop_take pb_inv_def)
  then show "as_slice b' = bs @ as_slice b"
    using w'(2) by (simp add: patch_def)
qed

lemma pull_header_SomeD:
  assumes "pull_header n b = Some b'" and "pb_inv b"
  shows "pb_inv b'" and "as_slice b' = drop n (as_slice b)" and "n \<le> pb_len b"
    and "b' = b\<lparr>pb_data_offset := pb_data_offset b + n, pb_len := pb_len b - n\<rparr>"
  using assms
  by (auto simp: pull_header_def rust_assert_def pb_inv_def as_slice_take drop_take add.commute
      split: if_splits)

lemma set_len_SomeD:
  assumes "set_len n b = Some b'" and "pb_inv b"
  shows "pb_inv b'" and "as_slice b' = take n (drop (pb_data_offset b) (pb_mem b))"
    and "n \<le> tail_capacity b" and "b' = b\<lparr>pb_len := n\<rparr>"
  using assms
  by (auto simp: set_len_def rust_assert_def pb_inv_def as_slice_take tail_capacity_def
      split: if_splits)

lemma set_headroom_SomeD:
  assumes "set_headroom n b = Some b'" and "pb_inv b"
  shows "pb_inv b'" and "n + pb_len b \<le> pb_capacity b" and "b' = b\<lparr>pb_data_offset := n\<rparr>"
  using assms by (auto simp: set_headroom_def rust_assert_def pb_inv_def split: if_splits)

lemma same_frame_refl [simp]: "same_frame b b"
  by (simp add: same_frame_def)

lemma same_frame_trans: "same_frame a b \<Longrightarrow> same_frame b c \<Longrightarrow> same_frame a c"
  by (simp add: same_frame_def)

lemma write_whole_wp:
  assumes "pb_inv b" and "length p = pb_len b"
  shows "wp (write_packet 0 p b) (\<lambda>b'. pb_inv b' \<and> same_frame b b' \<and> as_slice b' = p \<and>
    pb_data_offset b' = pb_data_offset b \<and> pb_len b' = pb_len b)"
proof -
  obtain b' where b': "write_packet 0 p b = Some b'"
    using assms(2) by (simp add: write_packet_def rust_assert_def)
  note w = write_packet_SomeD [OF b' assms(1)]
  have "same_frame b b'" "pb_data_offset b' = pb_data_offset b" "pb_len b' = pb_len b"
    unfolding same_frame_def by (subst w(4), simp)+
  then show ?thesis
    using b' w(1,2) assms by (simp add: patch_def)
qed

lemma set_len_wp:
  assumes "pb_inv b" and "n \<le> tail_capacity b"
  shows "wp (set_len n b) (\<lambda>b'. pb_inv b' \<and> same_frame b b' \<and> pb_len b' = n \<and>
    pb_data_offset b' = pb_data_offset b \<and> take (pb_len b) (as_slice b') = take n (as_slice b))"
  using assms
  by (auto simp: set_len_def tail_capacity_def pb_inv_def same_frame_def as_slice_take min.commute)

lemma pull_header_wp:
  assumes "pb_inv b" and "n \<le> pb_len b"
  shows "wp (pull_header n b) (\<lambda>b'. pb_inv b' \<and> same_frame b b' \<and> pb_len b' = pb_len b - n \<and>
    pb_data_offset b' = pb_data_offset b + n \<and> as_slice b' = drop n (as_slice b))"
  using assms
  by (auto simp: pull_header_def pb_inv_def same_frame_def as_slice_take drop_take add.commute)

lemma push_header_wp:
  assumes "pb_inv b" and "length bs \<le> pb_data_offset b"
  shows "wp (push_header bs b) (\<lambda>b'. pb_inv b' \<and> same_frame b b' \<and> pb_len b' = pb_len b + length bs \<and>
    pb_data_offset b' = pb_data_offset b - length bs \<and> as_slice b' = bs @ as_slice b)"
proof -
  obtain b' where "push_header bs b = Some b'"
    using assms by (simp add: push_header_def write_packet_def rust_assert_def)
  from this push_header_SomeD [OF this assms(1)] show ?thesis
    by (simp add: same_frame_def)
qed

lemma buf_edit_frame:
  assumes "buf_edit b b'" and "pb_inv b"
  shows "pb_inv b' \<and> pb_idx b' = pb_idx b \<and> pb_pool b' = pb_pool b \<and> pb_capacity b' = pb_capacity b"
  using assms
proof (cases rule: buf_edit.cases)
  case (edit_headroom n)
  then show ?thesis
    using set_headroom_SomeD [OF _ assms(2)] by (metis packet_buf.select_convs(3,5,6)
      packet_buf.surjective packet_buf.update_convs(2))
next
  case (edit_len n)
  then show ?thesis
    using set_len_SomeD [OF _ assms(2)] by (metis packet_buf.select_convs(3,5,6)
      packet_buf.surjective packet_buf.update_convs(4))
next
  case (edit_push bs)
  then show ?thesis
    using push_header_SomeD [OF _ assms(2)] by blast
next
  case (edit_pull n)
  then show ?thesis
    using pull_header_SomeD [OF _ assms(2)] by (metis packet_buf.select_convs(3,5,6)
      packet_buf.surjective packet_buf.update_convs(2,4))
next
  case (edit_write at bs)
  then show ?thesis
    using write_packet_SomeD [OF _ assms(2)] by (metis packet_buf.select_convs(3,5,6)
      packet_buf.surjective packet_buf.update_convs(1))
next
  case (edit_write_frame at bs)
  then show ?thesis
    using assms(2) by (auto simp: write_frame_def rust_assert_def pb_inv_def split: if_splits)
qed

lemma packet_buf_SomeD:
  assumes "packet_buf i len p = Some b" and "pool_inv p" and "i \<notin> free_frames p"
  shows "owned_by p b" and "pb_idx b = i" and "pb_len b = len" and "pb_mem b = fp_arena p ! i"
  using assms
  by (auto simp: packet_buf_def rust_assert_def nth_opt_def owned_by_def pb_inv_def pool_inv_def
      list_all_length split: if_splits)

lemma packet_buf_total:
  assumes "pool_inv p" and "i < fp_num_frames p" and "len \<le> fp_frame_size p"
  shows "\<exists>b. packet_buf i len p = Some b"
  using assms by (simp add: packet_buf_def rust_assert_def nth_opt_def pool_inv_def)

lemma packet_bufs_wp [wp_rules]:
  assumes "pool_inv p" and "\<forall>i \<in> set is. i < fp_num_frames p \<and> i \<notin> free_frames p"
  shows "wp (packet_bufs is p) (\<lambda>bs. map pb_idx bs = is \<and> list_all (owned_by p) bs \<and>
    list_all (\<lambda>b. pb_len b = 0) bs)"
  using assms(2)
proof (induction "is")
  case (Cons i "is")
  obtain b where b: "packet_buf i 0 p = Some b"
    using packet_buf_total [OF assms(1)] Cons.prems by fastforce
  show ?case
    using b packet_buf_SomeD [OF b assms(1)] Cons
    by (auto intro!: wp_mono [OF Cons.IH])
qed simp

lemma owned_by_transfer:
  "owned_by p b \<Longrightarrow> same_shape p q \<Longrightarrow> pb_idx b \<notin> free_frames q \<Longrightarrow> owned_by q b"
  by (simp add: owned_by_def same_shape_def)

lemma same_shape_trans [trans]: "same_shape p q \<Longrightarrow> same_shape q r \<Longrightarrow> same_shape p r"
  by (simp add: same_shape_def)

definition batch_post :: "nat \<Rightarrow> frame_pool \<Rightarrow> packet_buf list \<Rightarrow> frame_pool \<Rightarrow> bool" where
  "batch_post n p bs p' \<longleftrightarrow>
     pool_inv p' \<and> same_shape p p' \<and> length bs = min n (available p) \<and>
     distinct (map pb_idx bs) \<and> set (map pb_idx bs) \<subseteq> free_frames p \<and>
     free_frames p' = free_frames p - set (map pb_idx bs) \<and>
     available p' = available p - length bs \<and>
     list_all (owned_by p') bs \<and> list_all (\<lambda>b. pb_len b = 0) bs"

lemma batch_post_join:
  assumes "batch_post n p bs q" and "length bs = n" and "batch_post m q cs r"
  shows "batch_post (n + m) p (bs @ cs) r"
proof -
  have "n \<le> available p"
    using assms(1,2) by (auto simp: batch_post_def)
  moreover have "list_all (owned_by r) bs"
    using assms(1,3) owned_by_transfer [of q _ r]
    by (auto simp: batch_post_def list_all_iff)
  ultimately show ?thesis
    using assms same_shape_trans [of p q r] by (auto simp: batch_post_def)
qed

lemma alloc_chunk:
  assumes "pool_inv p"
  shows "wp (pool_alloc_n n p) (\<lambda>(is, q). length is = min n (available p) \<and>
    wp (packet_bufs is q) (\<lambda>bs. length bs = length is \<and> batch_post n p bs q))"
proof (rule wp_mono [OF pool_alloc_n_wp [OF assms]], unfold split_paired_all prod.case)
  fix "is" q
  assume "pool_inv q \<and> same_shape p q \<and> fp_arena q = fp_arena p \<and>
    length is = min n (available p) \<and> distinct is \<and> set is \<subseteq> free_frames p \<and>
    free_frames q = free_frames p - set is \<and> available q = available p - length is"
  then have q: "pool_inv q" "same_shape p q" "fp_arena q = fp_arena p" "length is = min n (available p)"
    "distinct is" "set is \<subseteq> free_frames p" "free_frames q = free_frames p - set is"
    "available q = available p - length is"
    by auto
  have "\<forall>i \<in> set is. i < fp_num_frames q \<and> i \<notin> free_frames q"
    using q free_index_less [OF assms] by (auto simp: same_shape_def)
  then show "length is = min n (available p) \<and>
      wp (packet_bufs is q) (\<lambda>bs. length bs = length is \<and> batch_post n p bs q)"
    using q by (auto simp: batch_post_def intro!: wp_mono [OF packet_bufs_wp [OF q(1)]])
qed

lemma alloc_batch_loop_wp:
  "pool_inv p \<Longrightarrow> got \<le> want \<Longrightarrow> wp (alloc_batch_loop want got out p) (\<lambda>(t, out', p').
     \<exists>bs. out' = out @ bs \<and> t = got + length bs \<and> batch_post (want - got) p bs p')"
proof (induction want got out p rule: alloc_batch_loop.induct)
  case (1 want got out p)
  show ?case
  proof (cases "got < want")
    case False
    then show ?thesis
      using 1 by (simp add: alloc_batch_loop.simps batch_post_def same_shape_def)
  next
    case True
    let ?limit = "min 64 (want - got)"
    obtain "is" q bs where q: "pool_alloc_n ?limit p = Some (is, q)"
        "length is = min ?limit (available p)" "packet_bufs is q = Some bs"
        "length bs = length is" "batch_post ?limit p bs q"
      using alloc_chunk [OF "1.prems"(1), of ?limit] by (auto simp: wp_eq_Some)
    have inv: "pool_inv q"
      using q(5) by (simp add: batch_post_def)
    show ?thesis
    proof (cases "length is < ?limit")
      case True
      then have "batch_post (want - got) p bs q"
        using q(2,4,5) by (auto simp: batch_post_def min_def split: if_splits)
      then show ?thesis
        using \<open>got < want\<close> True q
        by (subst alloc_batch_loop.simps) (simp add: Let_def)
    next
      case False
      then have len: "length is = ?limit"
        using q(2) min.cobounded1 [of ?limit "available p"] by linarith
      have "wp (alloc_batch_loop want (got + length is) (out @ bs) q) (\<lambda>(t, out', p').
          \<exists>cs. out' = (out @ bs) @ cs \<and> t = got + length is + length cs \<and>
            batch_post (want - (got + length is)) q cs p')"
        using "1.IH" [OF \<open>got < want\<close> refl q(1) refl q(3) False inv] len \<open>got < want\<close> by simp
      then obtain cs r where r: "alloc_batch_loop want (got + length is) (out @ bs) q =
            Some (got + length is + length cs, (out @ bs) @ cs, r)"
          "batch_post (want - (got + length is)) q cs r"
        unfolding wp_eq_Some by blast
      have "batch_post (want - got) p (bs @ cs) r"
        using batch_post_join [OF q(5) _ r(2)] len q(4) \<open>got < want\<close> by simp
      moreover have "alloc_batch_loop want got out p =
          Some (got + length is + length cs, (out @ bs) @ cs, r)"
        by (subst alloc_batch_loop.simps)
          (simp only: Let_def q(1,3) r(1) \<open>got < want\<close> False if_True if_False option.case prod.case)
      ultimately show ?thesis
        using q(4) by simp
    qed
  qed
qed

lemma drop_buf_wp [wp_rules]:
  assumes "pool_inv p" and "owned_by p b"
  shows "wp (drop_buf b p) (\<lambda>p'. pool_inv p' \<and> same_shape p p' \<and>
    free_frames p' = insert (pb_idx b) (free_frames p) \<and> available p' = Suc (available p))"
proof -
  let ?q = "p\<lparr>fp_arena := (fp_arena p)[pb_idx b := pb_mem b]\<rparr>"
  have ff: "free_frames ?q = free_frames p" "available ?q = available p" "same_shape p ?q"
    by (simp_all add: free_frames_def available_def same_shape_def)
  have "pool_inv ?q"
    using assms ff unfolding pool_inv_def
    by (auto simp: owned_by_def pb_inv_def list_all_length nth_list_update)
  moreover have "pb_idx b < fp_num_frames ?q" "pb_idx b \<notin> free_frames ?q"
    using assms ff by (auto simp: owned_by_def)
  ultimately have "wp (pool_free (pb_idx b) ?q) (\<lambda>p'. pool_inv p' \<and> same_shape ?q p' \<and>
      fp_arena p' = fp_arena ?q \<and> free_frames p' = insert (pb_idx b) (free_frames ?q) \<and>
      available p' = Suc (available ?q))"
    by (rule pool_free_wp)
  moreover have "drop_buf b p = pool_free (pb_idx b) ?q"
    using assms(2) by (simp add: drop_buf_def owned_by_def)
  ultimately show ?thesis
    using ff by (auto simp: same_shape_def elim: wp_mono)
qed

section \<open>Exclusive ownership\<close>

definition run_inv :: "frame_pool \<Rightarrow> packet_buf list \<Rightarrow> bool" where
  "run_inv p live \<longleftrightarrow> fpool.exclusive p (map pb_idx live) \<and> list_all (owned_by p) live"

lemma run_inv_pool: "run_inv p live \<Longrightarrow> pool_inv p"
  by (simp add: run_inv_def fpool.exclusive_def)

lemma run_inv_batch:
  assumes "run_inv p live" and "batch_post n p bs p'"
  shows "run_inv p' (bs @ live)"
proof -
  have "list_all (owned_by p') live"
    using assms owned_by_transfer [of p _ p']
    by (auto simp: run_inv_def batch_post_def list_all_iff owned_by_def)
  then show ?thesis
    using assms free_index_less [OF run_inv_pool [OF assms(1)]]
    by (auto simp: run_inv_def batch_post_def fpool.exclusive_def same_shape_def)
qed

lemma run_inv_drop:
  assumes "run_inv p (xs @ b # ys)" and "drop_buf b p = Some p'"
  shows "run_inv p' (xs @ ys)"
proof -
  have b: "owned_by p b" and p: "pool_inv p"
    using assms(1) run_inv_pool [OF assms(1)] by (auto simp: run_inv_def)
  have q: "pool_inv p'" "same_shape p p'" "free_frames p' = insert (pb_idx b) (free_frames p)"
    using drop_buf_wp [OF p b] assms(2) by auto
  have "pb_idx b \<notin> pb_idx ` set (xs @ ys)" and "\<forall>c \<in> set (xs @ ys). owned_by p c"
    using assms(1) by (auto simp: run_inv_def list_all_iff fpool.exclusive_def)
  then have "pb_idx c \<noteq> pb_idx b \<and> owned_by p c" if "c \<in> set (xs @ ys)" for c
    using that by (metis imageI)
  then have "list_all (owned_by p') (xs @ ys)"
    using q by (simp add: list_all_iff owned_by_transfer owned_by_def same_shape_def)
  then show ?thesis
    using assms(1) q by (auto simp: run_inv_def fpool.exclusive_def same_shape_def)
qed

lemma frame_run_inv: "frame_run p live \<Longrightarrow> run_inv p live"
proof (induction rule: frame_run.induct)
  case (run_new pid n sz al p)
  then have "p = pool_build pid sz n"
    by (simp add: pool_new_def rust_assert_def split: if_splits)
  moreover have "free_frames (pool_build pid sz n) = {..<n}" "fp_num_frames (pool_build pid sz n) = n"
    by (auto simp: free_frames_def pool_build_def)
  ultimately show ?case
    by (simp add: run_inv_def fpool.exclusive_def pool_inv_build)
next
  case (run_alloc p live i p' len b)
  have "i \<in> free_frames p" "free_frames p' = free_frames p - {i}" "pool_inv p'" "same_shape p p'"
    "available p = Suc (available p')"
    using pool_alloc_wp [OF run_inv_pool [OF run_alloc.IH]] run_alloc.hyps(2) by auto
  moreover from this have "owned_by p' b" "pb_idx b = i"
    using packet_buf_SomeD [OF run_alloc.hyps(3)] by auto
  moreover have "list_all (owned_by p') live"
    using run_alloc.IH calculation owned_by_transfer [of p _ p']
    by (auto simp: run_inv_def list_all_iff owned_by_def)
  ultimately show ?case
    using run_alloc.IH free_index_less [OF run_inv_pool [OF run_alloc.IH]]
    by (auto simp: run_inv_def fpool.exclusive_def same_shape_def)
next
  case (run_batch p live n k bs p')
  then have "batch_post n p bs p'"
    using alloc_batch_loop_wp [OF run_inv_pool [OF run_batch.IH], of 0 n "[]"]
    by (simp add: pool_alloc_batch_def)
  with run_batch.IH show ?case
    by (rule run_inv_batch)
next
  case (run_edit p xs b ys b')
  then show ?case
    using buf_edit_frame [of b b'] by (auto simp: run_inv_def owned_by_def)
next
  case (run_drop p xs b ys p')
  then show ?case
    using run_inv_drop by blast
qed

section \<open>Properties\<close>

text \<open>
  C2. In every run of a frame pool, the live packet handles own pairwise different frames, none of
  which is on the free list; every live handle can be dropped without tripping the double-free
  assertion; and the live handles and the free frames together are all the frames of the pool.
\<close>

theorem frame_ownership_exclusive:
  assumes "frame_run p live"
  shows "distinct (map pb_idx live) \<and>
    (\<forall>b \<in> set live. pb_idx b \<notin> free_frames p \<and> (\<exists>p'. drop_buf b p = Some p')) \<and>
    length live + available p = fp_num_frames p"
proof (intro conjI)
  have inv: "run_inv p live"
    using assms by (rule frame_run_inv)
  note pool = run_inv_pool [OF inv]
  show "distinct (map pb_idx live)"
    using inv by (simp add: run_inv_def fpool.exclusive_def)
  show "\<forall>b \<in> set live. pb_idx b \<notin> free_frames p \<and> (\<exists>p'. drop_buf b p = Some p')"
    using inv drop_buf_wp [OF pool]
    by (fastforce simp: run_inv_def list_all_iff owned_by_def wp_eq_Some)
  show "length live + available p = fp_num_frames p"
    using inv fpool.exclusive_count card_free_frames [OF pool] by (fastforce simp: run_inv_def)
qed

theorem frame_ownership_exclusive_witness:
  "\<exists>p b. frame_run p [b] \<and> pb_idx b = 0 \<and> distinct (map pb_idx [b]) \<and> pb_idx b \<notin> free_frames p \<and>
     (\<exists>p'. drop_buf b p = Some p') \<and> length [b] + available p = fp_num_frames p"
proof -
  let ?p = "pool_build 7 8 2" and ?q = "(pool_build 7 8 2)\<lparr>fp_free_count := 1, fp_in_use := [True, False]\<rparr>"
  let ?b = "\<lparr>pb_mem = replicate 8 0, pb_data_offset = 2, pb_capacity = 8, pb_len = 0, pb_idx = 0,
    pb_pool = Some 7\<rparr>"
  have "pool_new 7 2 8 4096 = Some ?p"
    by (simp add: pool_new_def rust_assert_def layout_ok_def upt_rec)
  moreover have "pool_alloc ?p = Some (Some 0, ?q)"
    by (simp add: pool_alloc_def pool_build_def available_def nth_opt_def mark_used_def
        rust_assert_def numeral_2_eq_2 Let_def)
  moreover have "packet_buf 0 0 ?q = Some ?b"
    by (simp add: packet_buf_def pool_build_def rust_assert_def nth_opt_def numeral_2_eq_2)
  ultimately have run: "frame_run ?q [?b]"
    by (blast intro: frame_run.intros)
  show ?thesis
    using run frame_ownership_exclusive [OF run] by (intro exI [of _ ?q] exI [of _ ?b]) auto
qed

text \<open>
  C40. \<^verbatim>\<open>alloc_n\<close> is equivalent to calling \<^verbatim>\<open>alloc\<close> that many times: it takes the same frames, in
  the opposite order, and leaves the same pool behind, also when fewer frames are free.
\<close>

theorem alloc_n_is_repeated_alloc:
  assumes "pool_inv p"
  shows "pool_alloc_n want p = map_option (\<lambda>(is, q). (rev is, q)) (alloc_times want p)"
  using assms by (simp add: pool_alloc_n_eq alloc_times_eq Let_def)

theorem alloc_n_is_repeated_alloc_witness:
  "pool_inv (pool_build 0 64 3) \<and> pool_alloc_n 2 (pool_build 0 64 3) =
     map_option (\<lambda>(is, q). (rev is, q)) (alloc_times 2 (pool_build 0 64 3))"
  using alloc_n_is_repeated_alloc [OF pool_inv_build, of 2 0 64 3] pool_inv_build by blast

text \<open>
  Pushing a header that fits the headroom puts it in front of the packet, and pulling as many
  bytes gives the packet and its headroom back; neither step panics.
\<close>

lemma push_pull_header:
  assumes "pb_inv b" and "length h \<le> pb_data_offset b"
  shows "\<exists>b' b''. push_header h b = Some b' \<and> as_slice b' = h @ as_slice b \<and> pb_inv b' \<and>
    pull_header (length h) b' = Some b'' \<and> as_slice b'' = as_slice b \<and>
    pb_data_offset b'' = pb_data_offset b \<and> pb_inv b''"
proof -
  obtain b' where b': "push_header h b = Some b'"
    using assms by (simp add: push_header_def write_packet_def rust_assert_def)
  note f = push_header_SomeD [OF b' assms(1)]
  obtain b'' where b'': "pull_header (length h) b' = Some b''"
    using f by (simp add: pull_header_def rust_assert_def)
  note g = pull_header_SomeD [OF b'' f(1)]
  have "pb_data_offset b'' = pb_data_offset b"
    using g(4) f(3,4) by simp
  then show ?thesis
    using b' b'' f g by auto
qed

lemma push_pull_header_example:
  "\<exists>b' b''. push_header [1, 2] \<lparr>pb_mem = [0, 0, 0, 9], pb_data_offset = 3, pb_capacity = 4, pb_len = 1,
       pb_idx = 0, pb_pool = None\<rparr> = Some b' \<and> as_slice b' = [1, 2, 9] \<and>
     pull_header 2 b' = Some b'' \<and> as_slice b'' = [9]"
proof -
  let ?b = "\<lparr>pb_mem = [0, 0, 0, 9], pb_data_offset = 3, pb_capacity = 4, pb_len = 1, pb_idx = 0,
    pb_pool = None\<rparr> :: packet_buf"
  have "pb_inv ?b" "length [1, 2 :: u8] \<le> pb_data_offset ?b"
    by (simp_all add: pb_inv_def)
  from push_pull_header [OF this] show ?thesis
    by (auto simp: as_slice_def subslice_def numeral_2_eq_2)
qed

end
