(* ===== verification/Device.thy ===== *)
theory Device
  imports Frame_Pool "HOL-Library.Multiset"
begin

text \<open>
  The \<^verbatim>\<open>Device\<close> trait of \<^verbatim>\<open>src/device/mod.rs\<close>. A device is a value of a state type together with a
  record of its operations; protocol layers take the record as a parameter, as the source takes a type
  parameter \<^verbatim>\<open>D: Device\<close>.

  Frames are owned: a packet handle is either inside a device or outside it, and dropping a handle
  returns its frame to the pool it came from. The pools live inside the devices, so the record has one
  more operation than the trait, \<open>dv_drop\<close>, the effect of Rust's drop of a handle on the device state.
  The locale \<open>device\<close> states the documented contract of the trait with this ownership made explicit:
  \<open>held d M\<close> says that \<open>M\<close> is the multiset of handles alive outside the device.
\<close>

section \<open>Operations\<close>

record 'd device_ops =
  dv_poll_at :: "duration \<Rightarrow> 'd \<Rightarrow> (unit io_result \<times> 'd) option"
  dv_recv :: "nat \<Rightarrow> packet_buf list \<Rightarrow> 'd \<Rightarrow> (nat io_result \<times> packet_buf list \<times> 'd) option"
  dv_send :: "packet_buf list \<Rightarrow> 'd \<Rightarrow> (nat io_result \<times> packet_buf list \<times> 'd) option"
  dv_alloc :: "'d \<Rightarrow> (packet_buf option \<times> 'd) option"
  dv_frame_size :: "'d \<Rightarrow> nat"
  dv_drop :: "packet_buf \<Rightarrow> 'd \<Rightarrow> 'd option"

text \<open>The trait's default \<^verbatim>\<open>poll_at\<close> and \<^verbatim>\<open>alloc_batch\<close>.\<close>

definition default_poll_at :: "duration \<Rightarrow> 'd \<Rightarrow> (unit io_result \<times> 'd) option" where
  "default_poll_at now d = Some (Inr (), d)"

fun default_alloc_batch ::
  "'d device_ops \<Rightarrow> nat \<Rightarrow> packet_buf list \<Rightarrow> 'd \<Rightarrow> (nat \<times> packet_buf list \<times> 'd) option"
where
  "default_alloc_batch ops 0 out d = Some (0, out, d)"
| "default_alloc_batch ops (Suc n) out d = do {
     (r, d) \<leftarrow> dv_alloc ops d;
     case r of
       None \<Rightarrow> Some (0, out, d)
     | Some buf \<Rightarrow> do {
         (k, out, d) \<leftarrow> default_alloc_batch ops n (out @ [buf]) d;
         Some (Suc k, out, d)
       }
   }"

text \<open>Dropping handles one after the other: \<^verbatim>\<open>Vec::clear\<close>, \<^verbatim>\<open>drain\<close>, and \<^verbatim>\<open>recycle_frames\<close>.\<close>

fun drop_all :: "('d \<Rightarrow> packet_buf \<Rightarrow> 'd option) \<Rightarrow> packet_buf list \<Rightarrow> 'd \<Rightarrow> 'd option" where
  "drop_all f [] d = Some d"
| "drop_all f (b # bs) d = do { d \<leftarrow> f d b; drop_all f bs d }"

definition recycle_frames :: "('d \<Rightarrow> packet_buf \<Rightarrow> 'd option) \<Rightarrow> packet_buf list \<Rightarrow> 'd \<Rightarrow> (packet_buf list \<times> 'd) option" where
  "recycle_frames f frames d = do {
     d \<leftarrow> drop_all f frames d;
     Some (replicate (length frames) empty_buf, d)
   }"

definition dv_drop_all :: "'d device_ops \<Rightarrow> packet_buf list \<Rightarrow> 'd \<Rightarrow> 'd option" where
  "dv_drop_all ops bs d = drop_all (\<lambda>d b. dv_drop ops b d) bs d"

section \<open>The contract\<close>

locale device =
  fixes ops :: "'d device_ops"
    and held :: "'d \<Rightarrow> packet_buf multiset \<Rightarrow> bool"
  assumes held_inv: "held d M \<Longrightarrow> b \<in># M \<Longrightarrow> pb_inv b"
    and held_empty: "held d (add_mset empty_buf M) \<longleftrightarrow> held d M"
    and held_edit: "held d (add_mset b M) \<Longrightarrow> same_frame b b' \<Longrightarrow> pb_inv b' \<Longrightarrow> held d (add_mset b' M)"
    and poll_law: "held d M \<Longrightarrow> wp (dv_poll_at ops now d) (\<lambda>(r, d'). held d' M)"
    and recv_law: "held d (mset out + M) \<Longrightarrow> wp (dv_recv ops k out d) (\<lambda>(r, out', d').
          held d' (mset out' + M) \<and> (case r of Inl e \<Rightarrow> True | Inr n \<Rightarrow> n = length out' \<and> n \<le> k))"
    and send_law: "held d (mset fs + M) \<Longrightarrow> wp (dv_send ops fs d) (\<lambda>(r, fs', d').
          case r of
            Inl e \<Rightarrow> fs' = fs \<and> held d' (mset fs + M)
          | Inr n \<Rightarrow> n \<le> length fs \<and> fs' = replicate n empty_buf @ drop n fs \<and>
              held d' (mset (drop n fs) + M))"
    and alloc_law: "held d M \<Longrightarrow> wp (dv_alloc ops d) (\<lambda>(r, d').
          case r of None \<Rightarrow> held d' M | Some b \<Rightarrow> held d' (add_mset b M) \<and> pb_len b = 0)"
    and drop_law: "held d (add_mset b M) \<Longrightarrow> wp (dv_drop ops b d) (\<lambda>d'. held d' M)"
begin

lemma drop_all_wp: "held d (mset bs + M) \<Longrightarrow> wp (dv_drop_all ops bs d) (\<lambda>d'. held d' M)"
proof (induction bs arbitrary: d)
  case (Cons b bs)
  then have "wp (dv_drop ops b d) (\<lambda>d'. held d' (mset bs + M))"
    by (intro drop_law) simp
  then show ?case
    using Cons.IH by (auto simp: dv_drop_all_def elim!: wp_mono)
qed (simp add: dv_drop_all_def)

lemma alloc_batch_wp: "held d M \<Longrightarrow> wp (default_alloc_batch ops n out d) (\<lambda>(k, out', d').
  \<exists>bs. out' = out @ bs \<and> k = length bs \<and> k \<le> n \<and> held d' (mset bs + M))"
proof (induction n arbitrary: out d M)
  case (Suc n)
  obtain r d' where r: "dv_alloc ops d = Some (r, d')"
      "case r of None \<Rightarrow> held d' M | Some b \<Rightarrow> held d' (add_mset b M)"
    using alloc_law [OF Suc.prems] by (auto simp: wp_eq_Some split: option.splits)
  show ?case
  proof (cases r)
    case (Some b)
    then have "held d' (add_mset b M)"
      using r(2) by simp
    from Suc.IH [OF this, of "out @ [b]"] obtain k out' d'' bs where
      "default_alloc_batch ops n (out @ [b]) d' = Some (k, out', d'')"
      "out' = out @ [b] @ bs" "k = length bs" "k \<le> n" "held d'' (mset (b # bs) + M)"
      by (auto simp: wp_eq_Some)
    then show ?thesis
      using r(1) Some by (auto intro!: exI [of _ "b # bs"])
  qed (use r in simp)
qed simp

text \<open>Frames edited in place one by one stay held.\<close>

lemma held_edit_list:
  assumes "held d (mset bs + M)" and "list_all2 (\<lambda>b b'. same_frame b b' \<and> pb_inv b') bs bs'"
  shows "held d (mset bs' + M)"
  using assms(2,1)
proof (induction bs bs' arbitrary: M rule: list_all2_induct)
  case (Cons b bs b' bs')
  then have "held d (mset bs + add_mset b M)"
    by (simp add: add_mset_commute)
  then have "held d (add_mset b (mset bs' + M))"
    using Cons.IH [of "add_mset b M"] by (simp add: add_mset_commute)
  then show ?case
    using held_edit Cons.hyps(1) by simp
qed simp

end

section \<open>Handles of one pool\<close>

definition real_handles :: "packet_buf multiset \<Rightarrow> packet_buf multiset" where
  "real_handles M = filter_mset (\<lambda>b. pb_pool b \<noteq> None) M"

definition pool_held :: "frame_pool \<Rightarrow> packet_buf multiset \<Rightarrow> bool" where
  "pool_held p M \<longleftrightarrow> pool_inv p \<and> (\<forall>b \<in># M. pb_inv b \<and> (pb_pool b \<noteq> None \<longrightarrow> owned_by p b)) \<and>
     image_mset pb_idx (real_handles M) + mset_set (free_frames p) = mset_set {..<fp_num_frames p}"

lemma finite_free_frames [simp]: "finite (free_frames p)"
  by (simp add: free_frames_def)

lemma real_handles_add [simp]:
  "real_handles (add_mset b M) = (if pb_pool b \<noteq> None then add_mset b (real_handles M) else real_handles M)"
  by (simp add: real_handles_def)

lemma real_handles_union [simp]: "real_handles (M + N) = real_handles M + real_handles N"
  by (simp add: real_handles_def)

lemma pool_held_inv: "pool_held p M \<Longrightarrow> b \<in># M \<Longrightarrow> pb_inv b"
  by (auto simp: pool_held_def)

lemma pool_held_empty: "pool_held p (add_mset empty_buf M) \<longleftrightarrow> pool_held p M"
proof -
  have "pb_pool empty_buf = None"
    by (simp add: empty_buf_def)
  then show ?thesis
    by (auto simp: pool_held_def)
qed

lemma pool_held_owned: "pool_held p M \<Longrightarrow> b \<in># M \<Longrightarrow> pb_pool b \<noteq> None \<Longrightarrow> owned_by p b"
  by (simp add: pool_held_def)

lemma pool_held_edit:
  assumes "pool_held p (add_mset b M)" and "same_frame b b'" and "pb_inv b'"
  shows "pool_held p (add_mset b' M)"
proof -
  have "image_mset pb_idx (real_handles (add_mset b' M)) = image_mset pb_idx (real_handles (add_mset b M))"
    using assms(2) by (simp add: same_frame_def)
  moreover have "owned_by p b'" if "pb_pool b' \<noteq> None"
    using pool_held_owned [OF assms(1), of b] that assms(2,3) by (simp add: same_frame_def owned_by_def)
  ultimately show ?thesis
    using assms(1,3) unfolding pool_held_def by (simp del: real_handles_add)
qed

lemma pool_held_distinct:
  assumes "pool_held p (add_mset b M)" and "pb_pool b \<noteq> None" and "c \<in># M" and "pb_pool c \<noteq> None"
  shows "pb_idx c \<noteq> pb_idx b"
proof
  assume eq: "pb_idx c = pb_idx b"
  let ?n = "count (image_mset pb_idx (real_handles M)) (pb_idx b)"
  have "c \<in># real_handles M"
    using assms(3,4) by (simp add: real_handles_def)
  then have "0 < ?n"
    using eq by (metis count_greater_zero_iff image_mset_add_mset multi_member_split union_single_eq_member)
  moreover have "count (add_mset (pb_idx b) (image_mset pb_idx (real_handles M)) + mset_set (free_frames p))
      (pb_idx b) = count (mset_set {..<fp_num_frames p}) (pb_idx b)"
    using assms(1,2) by (simp add: pool_held_def)
  then have "Suc ?n + count (mset_set (free_frames p)) (pb_idx b) = count (mset_set {..<fp_num_frames p}) (pb_idx b)"
    by (simp only: count_union count_add_mset simp_thms if_True add_Suc)
  moreover have "count (mset_set {..<fp_num_frames p}) (pb_idx b) \<le> 1"
    by (simp add: count_mset_set')
  ultimately show False
    by linarith
qed

lemma pool_held_drop:
  assumes "pool_held p (add_mset b M)"
  shows "wp (drop_buf b p) (\<lambda>p'. pool_held p' M \<and> same_shape p p')"
proof (cases "pb_pool b = None")
  case True
  then show ?thesis
    using assms by (simp add: drop_buf_def pool_held_def same_shape_def)
next
  case False
  then have inv: "pool_inv p" and own: "owned_by p b"
    using assms by (auto simp: pool_held_def)
  show ?thesis
  proof (rule wp_mono [OF drop_buf_wp [OF inv own]])
    fix p'
    assume p': "pool_inv p' \<and> same_shape p p' \<and> free_frames p' = insert (pb_idx b) (free_frames p) \<and>
      available p' = Suc (available p)"
    have "owned_by p' c" if "c \<in># M" "pb_pool c \<noteq> None" for c
      using that p' pool_held_distinct [OF assms False that] owned_by_transfer [of p c p']
        pool_held_owned [OF assms, of c] by (simp add: owned_by_def)
    then show "pool_held p' M \<and> same_shape p p'"
      using assms False own p' by (auto simp: pool_held_def owned_by_def same_shape_def)
  qed
qed

lemma pool_held_batch:
  assumes "pool_held p M" and "batch_post n p bs p'"
  shows "pool_held p' (mset bs + M)"
proof -
  have bs: "list_all (owned_by p') bs" "distinct (map pb_idx bs)" "pb_idx ` set bs \<subseteq> free_frames p"
      "free_frames p' = free_frames p - pb_idx ` set bs" "pool_inv p'" "same_shape p p'"
    using assms(2) by (auto simp: batch_post_def)
  then have real: "real_handles (mset bs) = mset bs"
    by (auto simp: real_handles_def list_all_iff owned_by_def filter_mset_eq_conv)
  have "image_mset pb_idx (mset bs) = mset_set (pb_idx ` set bs)"
    using bs(2) by (metis list.set_map mset_map mset_set_set)
  moreover have "mset_set (pb_idx ` set bs) + mset_set (free_frames p') = mset_set (free_frames p)"
    using bs(3,4) mset_set_Union [of "pb_idx ` set bs" "free_frames p'"]
    by (simp add: Un_absorb1)
  moreover have "image_mset pb_idx (real_handles (mset bs + M)) + mset_set (free_frames p') =
      (image_mset pb_idx (mset bs) + mset_set (free_frames p')) + image_mset pb_idx (real_handles M)"
    by (simp add: real add_ac)
  ultimately have "image_mset pb_idx (real_handles (mset bs + M)) + mset_set (free_frames p') =
      mset_set (free_frames p) + image_mset pb_idx (real_handles M)"
    by (simp only:)
  also have "\<dots> = mset_set {..<fp_num_frames p'}"
    using assms(1) bs(6) by (simp add: pool_held_def same_shape_def add_ac)
  finally have "image_mset pb_idx (real_handles (mset bs + M)) + mset_set (free_frames p') =
      mset_set {..<fp_num_frames p'}" .
  moreover have "owned_by p' c" if "c \<in># M" "pb_pool c \<noteq> None" for c
    using that pool_held_owned [OF assms(1), of c] bs(4,6) owned_by_transfer [of p c p']
    by (simp add: owned_by_def)
  ultimately show ?thesis
    using assms(1) bs(1,5) by (auto simp: pool_held_def list_all_iff owned_by_def)
qed

lemma pool_held_alloc:
  assumes "pool_held p M"
  shows "wp (pool_alloc p) (\<lambda>(r, p'). same_shape p p' \<and> (case r of
      None \<Rightarrow> pool_held p' M
    | Some i \<Rightarrow> wp (packet_buf i 0 p') (\<lambda>b. pool_held p' (add_mset b M) \<and> pb_len b = 0)))"
proof -
  have inv: "pool_inv p"
    using assms by (simp add: pool_held_def)
  show ?thesis
  proof (rule wp_mono [OF pool_alloc_wp [OF inv]], unfold split_paired_all prod.case)
    fix r p'
    assume p': "pool_inv p' \<and> same_shape p p' \<and> fp_arena p' = fp_arena p \<and> fp_free_list p' = fp_free_list p \<and>
      (case r of None \<Rightarrow> free_frames p = {} \<and> p' = p
       | Some i \<Rightarrow> i \<in> free_frames p \<and> free_frames p' = free_frames p - {i} \<and>
           available p = Suc (available p') \<and> i = fp_free_list p ! available p')"
    show "same_shape p p' \<and> (case r of None \<Rightarrow> pool_held p' M
      | Some i \<Rightarrow> wp (packet_buf i 0 p') (\<lambda>b. pool_held p' (add_mset b M) \<and> pb_len b = 0))"
    proof (cases r)
      case (Some i)
      then have i: "i \<in> free_frames p" "free_frames p' = free_frames p - {i}"
        using p' by auto
      then have "i < fp_num_frames p'"
        using free_index_less [OF inv] p' by (auto simp: same_shape_def)
      then obtain b where b: "packet_buf i 0 p' = Some b"
        using packet_buf_total p' by fastforce
      note f = packet_buf_SomeD [OF b]
      have "batch_post 1 p [b] p'"
        using p' i f Some by (auto simp: batch_post_def)
      from pool_held_batch [OF assms this] show ?thesis
        using p' Some b f i by simp
    qed (use p' assms in auto)
  qed
qed

end
