(* ===== verification/Checksum.thy ===== *)
theory Checksum
  imports Net_Prelude
begin

text \<open>
  The Internet checksum of \<^verbatim>\<open>src/net/mod.rs\<close> (\<open>sum_words\<close>, \<open>finish_sum\<close>, \<open>checksum\<close>) and its two
  pseudo-header variants of \<^verbatim>\<open>src/transport\<close>. The 64-bit accumulator of the source is a \<^typ>\<open>nat\<close>;
  \<open>sum_words_fits_u64\<close> shows that no message up to \<open>2 ^ 48\<close> bytes reaches its width.
\<close>

section \<open>Definitions\<close>

fun sum_words :: "bytes \<Rightarrow> nat" where
  "sum_words [] = 0"
| "sum_words [odd_byte] = unat odd_byte * 256"
| "sum_words (a # b # rest) = unat (u16_from_be_bytes a b) + sum_words rest"

text \<open>The folding loop of \<^verbatim>\<open>finish_sum\<close>; it ends because the high part is added in at weight one.\<close>

function fold_carries :: "nat \<Rightarrow> nat" where
  "fold_carries acc =
     (if acc div 65536 \<noteq> 0 then fold_carries (acc mod 65536 + acc div 65536) else acc)"
  by pat_completeness auto
termination
proof (relation "measure id")
  fix acc :: nat
  assume "acc div 65536 \<noteq> 0"
  moreover have "acc = 65536 * (acc div 65536) + acc mod 65536"
    by simp
  ultimately have "acc mod 65536 + acc div 65536 < acc"
    by linarith
  then show "(acc mod 65536 + acc div 65536, acc) \<in> measure id"
    by simp
qed simp

declare fold_carries.simps [simp del]

definition finish_sum :: "nat \<Rightarrow> u16" where
  "finish_sum acc = NOT (word_of_nat (fold_carries acc))"

definition checksum :: "bytes \<Rightarrow> u16" where
  "checksum b = finish_sum (sum_words b)"

text \<open>\<^verbatim>\<open>transport::udp::ipv4_checksum\<close> and \<^verbatim>\<open>transport::tcp::ipv4_checksum\<close>.\<close>

definition udp_ipv4_checksum :: "bytes \<Rightarrow> bytes \<Rightarrow> bytes \<Rightarrow> u16" where
  "udp_ipv4_checksum source destination datagram =
     finish_sum (sum_words source + sum_words destination + 17 + length datagram + sum_words datagram)"

definition tcp_ipv4_checksum :: "ipv4addr \<Rightarrow> ipv4addr \<Rightarrow> bytes \<Rightarrow> u16" where
  "tcp_ipv4_checksum source destination segment =
     finish_sum (sum_words (octets source) + sum_words (octets destination) + 6 + length segment
       + sum_words segment)"

text \<open>The specification of the fold: addition of 16-bit words modulo \<open>2 ^ 16 - 1\<close>, where a nonzero sum
  is never represented by zero.\<close>

definition ones_complement_sum :: "nat \<Rightarrow> nat" where
  "ones_complement_sum s = (if s = 0 then 0 else if s mod 65535 = 0 then 65535 else s mod 65535)"

section \<open>The fold\<close>

lemma fold_step_cong: "(s mod 65536 + s div 65536) mod 65535 = (s :: nat) mod 65535"
proof -
  have "s = 65536 * (s div 65536) + s mod 65536"
    by simp
  then have "s = 65535 * (s div 65536) + (s mod 65536 + s div 65536)"
    by linarith
  then show ?thesis
    by (metis mod_mult_self4)
qed

lemma fold_carries_ones_complement: "fold_carries s = ones_complement_sum s"
proof (induction s rule: fold_carries.induct)
  case (1 s)
  show ?case
  proof (cases "s div 65536 = 0")
    case True
    then have "s < 65536"
      by (simp add: div_eq_0_iff)
    then have "s mod 65535 = (if s = 65535 then 0 else s)"
      by auto
    with True show ?thesis
      by (simp add: fold_carries.simps [of s] ones_complement_sum_def)
  next
    case False
    then have "s \<noteq> 0" and "s mod 65536 + s div 65536 \<noteq> 0"
      by auto
    with False "1.IH" show ?thesis
      by (simp add: fold_carries.simps [of s] ones_complement_sum_def fold_step_cong)
  qed
qed

lemma ones_complement_sum_le: "ones_complement_sum s \<le> 65535"
  using mod_less_divisor [of 65535 s] by (simp add: ones_complement_sum_def less_imp_le)

lemma ones_complement_sum_mod: "ones_complement_sum s mod 65535 = s mod 65535"
  by (simp add: ones_complement_sum_def)

lemma ones_complement_sum_eq_0 [simp]: "ones_complement_sum s = 0 \<longleftrightarrow> s = 0"
  by (simp add: ones_complement_sum_def)

lemma unat_not_u16: "unat (NOT (w :: u16)) = 65535 - unat w"
proof -
  have "NOT w = - 1 - w"
    by (simp add: not_eq_complement)
  then have "unat (NOT w) = unat (- 1 :: u16) - unat w"
    by (simp only: unat_sub [OF word_order.extremum])
  then show ?thesis
    by (simp add: unsigned_minus_1_eq_mask mask_eq_exp_minus_1)
qed

lemma unat_finish_sum: "unat (finish_sum s) = 65535 - ones_complement_sum s"
proof -
  have "unat (word_of_nat (ones_complement_sum s) :: u16) = ones_complement_sum s"
    using ones_complement_sum_le [of s] by (simp add: unat_of_nat_u16)
  then show ?thesis
    by (simp add: finish_sum_def fold_carries_ones_complement unat_not_u16)
qed

lemma finish_sum_zero_iff: "finish_sum s = 0 \<longleftrightarrow> s \<noteq> 0 \<and> s mod 65535 = 0"
proof -
  have "finish_sum s = 0 \<longleftrightarrow> unat (finish_sum s) = 0"
    by (simp add: unat_eq_0)
  also have "\<dots> \<longleftrightarrow> ones_complement_sum s = 65535"
    using ones_complement_sum_le [of s] by (auto simp: unat_finish_sum)
  also have "\<dots> \<longleftrightarrow> s \<noteq> 0 \<and> s mod 65535 = 0"
    using mod_less_divisor [of 65535 s] by (auto simp: ones_complement_sum_def)
  finally show ?thesis .
qed

lemma finish_sum_complement: "finish_sum (s + unat (finish_sum s)) = 0"
proof -
  let ?r = "ones_complement_sum s"
  have "(s + (65535 - ?r)) mod 65535 = (s mod 65535 + (65535 - ?r)) mod 65535"
    by (simp add: mod_add_left_eq)
  also have "\<dots> = (?r mod 65535 + (65535 - ?r)) mod 65535"
    by (simp add: ones_complement_sum_mod)
  also have "\<dots> = (?r + (65535 - ?r)) mod 65535"
    by (simp add: mod_add_left_eq)
  also have "\<dots> = 0"
    using ones_complement_sum_le [of s] by simp
  finally show ?thesis
    by (cases "s = 0") (auto simp: finish_sum_zero_iff unat_finish_sum ones_complement_sum_def)
qed

text \<open>A transmitted checksum of all ones verifies like the zero it replaces.\<close>

lemma finish_sum_all_ones: "finish_sum s = 0 \<Longrightarrow> finish_sum (s + 65535) = 0"
  by (simp add: finish_sum_zero_iff)

section \<open>Sums of words\<close>

lemma sum_words_Cons2: "sum_words (a # b # rest) = 256 * unat a + unat b + sum_words rest"
  by (simp add: unat_u16_from_be_bytes)

lemma sum_words_append: "even (length xs) \<Longrightarrow> sum_words (xs @ ys) = sum_words xs + sum_words ys"
  by (induction xs rule: sum_words.induct) auto

lemma sum_words_u16 [simp]: "sum_words (u16_to_be_bytes w) = unat w"
  by (simp add: u16_to_be_bytes_def)

lemma sum_words_zeros [simp]: "sum_words (replicate n 0) = 0"
proof (induction n rule: less_induct)
  case (less n)
  consider "n = 0" | "n = 1" | m where "n = Suc (Suc m)"
    by (metis One_nat_def old.nat.exhaust)
  then show ?case
    using less by cases (simp_all add: sum_words_Cons2 del: sum_words.simps(3))
qed

lemma sum_words_patch:
  assumes "even at" and "even (length src)" and "at + length src \<le> length b"
  shows "sum_words (patch at src b) + sum_words (subslice at (at + length src) b)
    = sum_words b + sum_words src"
proof -
  have "sum_words b = sum_words (take at b @ subslice at (at + length src) b @ drop (at + length src) b)"
    using patch_split [OF assms(3)] by simp
  then show ?thesis
    using assms by (simp add: patch_def sum_words_append)
qed

lemma sum_words_bound: "sum_words b \<le> 65535 * ((length b + 1) div 2)"
proof (induction b rule: sum_words.induct)
  case (2 x)
  then show ?case
    using unat_u8_less [of x] by (simp del: unat_u8_less)
next
  case (3 a b rest)
  have "unat (u16_from_be_bytes a b) \<le> 65535"
    using unat_u16_less [of "u16_from_be_bytes a b"] by linarith
  with 3 show ?case
    by (simp del: unat_u16_less)
qed simp

lemma sum_words_fits_u64: "length b \<le> 2 ^ 48 \<Longrightarrow> sum_words b < 2 ^ 64"
  using sum_words_bound [of b] by simp

section \<open>Properties\<close>

text \<open>
  The folding loop of \<^verbatim>\<open>finish_sum\<close> ends on every accumulator and computes the complement of the
  one's-complement sum of RFC 1071.
\<close>

lemma finish_sum_ones_complement:
  "unat (finish_sum s) = 65535 - ones_complement_sum s"
  by (rule unat_finish_sum)

text \<open>
  A message whose checksum field, at any even offset, is filled with the checksum computed over
  the message with that field zeroed, verifies: its checksum is zero.
\<close>

lemma checksum_insertion_verifies:
  assumes "even at" and "at + 2 \<le> length b"
  shows "checksum (patch at (u16_to_be_bytes (checksum (patch at [0, 0] b))) b) = 0"
proof -
  let ?z = "patch at [0, 0] b" and ?rest = "sum_words (subslice at (at + 2) b)"
  have "sum_words (patch at (u16_to_be_bytes w) b) = sum_words ?z + unat w" for w
    using sum_words_patch [of at "u16_to_be_bytes w" b] sum_words_patch [of at "[0, 0]" b] assms
    by (simp add: unat_u16_from_be_bytes)
  then show ?thesis
    by (simp add: checksum_def finish_sum_complement)
qed

lemma checksum_insertion_verifies_example:
  "checksum (patch 2 (u16_to_be_bytes (checksum (patch 2 [0, 0] [8, 0, 7, 7, 1]))) [8, 0, 7, 7, 1]) = 0"
  using checksum_insertion_verifies [of 2 "[8, 0, 7, 7, 1]"] by simp

text \<open>
  Changing one aligned 16-bit word of a message that verifies is detected, unless the old and the
  new value are the two representations of zero.
\<close>

lemma checksum_detects_word_change:
  assumes "checksum b = 0" and "even at" and "at + 2 \<le> length b"
    and "unat w mod 65535 \<noteq> unat (read16 b at) mod 65535"
  shows "checksum (patch at (u16_to_be_bytes w) b) \<noteq> 0"
proof
  let ?old = "unat (read16 b at)" and ?new = "patch at (u16_to_be_bytes w) b"
  have "subslice at (at + 2) b = [b ! at, b ! (at + 1)]"
    using assms(3) by (intro nth_equalityI) (auto simp: less_Suc_eq numeral_2_eq_2)
  then have "sum_words ?new + ?old = sum_words b + unat w"
    using sum_words_patch [of at "u16_to_be_bytes w" b] assms(2,3) by (simp add: read16_def)
  moreover assume "checksum ?new = 0"
  then have "sum_words ?new mod 65535 = 0" and "sum_words b mod 65535 = 0"
    using assms(1) by (auto simp: checksum_def finish_sum_zero_iff)
  ultimately have "?old mod 65535 = unat w mod 65535"
    by (metis add_cancel_right_left mod_add_left_eq)
  with assms(4) show False
    by simp
qed

lemma checksum_detects_word_change_example:
  "checksum (patch 0 (u16_to_be_bytes 2) [0, 1, 255, 254]) \<noteq> 0"
proof -
  have "checksum [0, 1, 255, 254] = 0"
    by (simp add: checksum_def finish_sum_zero_iff unat_u16_from_be_bytes)
  moreover have "unat (2 :: u16) mod 65535 \<noteq> unat (read16 [0, 1, 255, 254] 0) mod 65535"
    by (simp add: read16_def unat_u16_from_be_bytes)
  ultimately show ?thesis
    using checksum_detects_word_change [of "[0, 1, 255, 254]" 0 2] by simp
qed

end
