(* ===== verification/Udp_Wire.thy ===== *)
theory Udp_Wire
  imports Checksum Frame_Pool
begin

text \<open>
  \<^verbatim>\<open>src/transport/udp.rs\<close>: building an IPv4/UDP datagram into a pool frame and parsing a received one.
  Every index and slice of the source is a checked access here, so that \<^term>\<open>None\<close> is a panic and
  "no input makes the parser panic" is a theorem. An array \<^verbatim>\<open>[u8; 4]\<close> is a byte list; the
  properties use it at the octets of an address.
\<close>

section \<open>Definitions\<close>

record datagram =
  dg_source :: sockaddr
  dg_destination :: sockaddr
  dg_payload :: bytes

text \<open>The writes of \<^verbatim>\<open>build_ipv4\<close> into the packet, in the order of the source.\<close>

definition udp_fill ::
  "bytes \<times> u16 \<Rightarrow> bytes \<times> u16 \<Rightarrow> bytes \<Rightarrow> u16 \<Rightarrow> nat \<Rightarrow> bytes \<Rightarrow> bytes option"
where
  "udp_fill source destination payload identification total_len p = do {
     p \<leftarrow> fill_range 0 28 0 p;
     p \<leftarrow> store 0 0x45 p;
     p \<leftarrow> copy_into 2 4 (u16_to_be_bytes (word_of_nat total_len)) p;
     p \<leftarrow> copy_into 4 6 (u16_to_be_bytes identification) p;
     p \<leftarrow> store 6 0x40 p;
     p \<leftarrow> store 8 64 p;
     p \<leftarrow> store 9 17 p;
     p \<leftarrow> copy_into 12 16 (fst source) p;
     p \<leftarrow> copy_into 16 20 (fst destination) p;
     ip_header \<leftarrow> slice_of 0 20 p;
     p \<leftarrow> copy_into 10 12 (u16_to_be_bytes (checksum ip_header)) p;
     p \<leftarrow> copy_into 20 22 (u16_to_be_bytes (snd source)) p;
     p \<leftarrow> copy_into 22 24 (u16_to_be_bytes (snd destination)) p;
     p \<leftarrow> copy_into 24 26 (u16_to_be_bytes (word_of_nat (total_len - 20))) p;
     p \<leftarrow> copy_into 28 (length p) payload p;
     datagram \<leftarrow> slice_from 20 p;
     let csum = udp_ipv4_checksum (fst source) (fst destination) datagram;
     copy_into 26 28 (u16_to_be_bytes (if csum = 0 then 0xffff else csum)) p
   }"

definition udp_build_ipv4 ::
  "packet_buf \<Rightarrow> bytes \<times> u16 \<Rightarrow> bytes \<times> u16 \<Rightarrow> bytes \<Rightarrow> u16 \<Rightarrow> (unit io_result \<times> packet_buf) option"
where
  "udp_build_ipv4 buf source destination payload identification =
     (let total_len = length payload + 28 in
      if \<not> (total_len \<le> 65535 \<and> total_len \<le> tail_capacity buf) then Some (Inl InvalidInput, buf)
      else do {
        buf \<leftarrow> set_len total_len buf;
        p \<leftarrow> udp_fill source destination payload identification total_len (as_slice buf);
        buf \<leftarrow> write_packet 0 p buf;
        Some (Inr (), buf)
      })"

definition udp_parse_ipv4 :: "bytes \<Rightarrow> datagram io_result option" where
  "udp_parse_ipv4 packet =
     (if length packet < 28 then Some (Inl InvalidData)
      else do {
        version \<leftarrow> nth_opt packet 0;
        protocol \<leftarrow> nth_opt packet 9;
        ttl \<leftarrow> nth_opt packet 8;
        if version \<noteq> 0x45 \<or> protocol \<noteq> 17 \<or> ttl = 0 then Some (Inl InvalidData)
        else do {
          total_len \<leftarrow> map_option unat (read16_at packet 2);
          if total_len < 28 \<or> total_len > length packet then Some (Inl InvalidData)
          else do {
            fragment \<leftarrow> read16_at packet 6;
            ip_header \<leftarrow> slice_of 0 20 packet;
            if fragment AND NOT 0x4000 \<noteq> 0 \<or> checksum ip_header \<noteq> 0 then Some (Inl InvalidData)
            else do {
              source \<leftarrow> slice_of 12 16 packet;
              destination \<leftarrow> slice_of 16 20 packet;
              udp \<leftarrow> slice_of 20 total_len packet;
              len \<leftarrow> map_option unat (read16_at udp 4);
              csum \<leftarrow> slice_of 6 8 udp;
              if len \<noteq> length udp \<or> csum \<noteq> [0, 0] \<and> udp_ipv4_checksum source destination udp \<noteq> 0
              then Some (Inl InvalidData)
              else do {
                source_port \<leftarrow> read16_at udp 0;
                destination_port \<leftarrow> read16_at udp 2;
                payload \<leftarrow> slice_from 8 udp;
                Some (Inr \<lparr>dg_source = SocketAddrV4 (ip_of_octets source) source_port,
                           dg_destination = SocketAddrV4 (ip_of_octets destination) destination_port,
                           dg_payload = payload\<rparr>)
              }
            }
          }
        }
      })"

section \<open>The bytes of a built datagram\<close>

definition ipv4_header :: "u8 \<Rightarrow> u16 \<Rightarrow> u16 \<Rightarrow> u16 \<Rightarrow> ipv4addr \<Rightarrow> ipv4addr \<Rightarrow> bytes" where
  "ipv4_header protocol total_len ident csum source destination =
     [0x45, 0, u16_hi total_len, u16_lo total_len, u16_hi ident, u16_lo ident, 0x40, 0, 64, protocol,
      u16_hi csum, u16_lo csum] @ octets source @ octets destination"

definition udp_header :: "u16 \<Rightarrow> u16 \<Rightarrow> u16 \<Rightarrow> u16 \<Rightarrow> bytes" where
  "udp_header source destination len csum =
     [u16_hi source, u16_lo source, u16_hi destination, u16_lo destination, u16_hi len, u16_lo len,
      u16_hi csum, u16_lo csum]"

lemma fill_prefix: "n \<le> length p \<Longrightarrow> fill_range 0 n v p = Some (replicate n v @ drop n p)"
  by (simp add: fill_range_def patch_def)

lemma udp_fill_eq:
  assumes "length p = length payload + 28"
  shows "udp_fill (octets sip, sport) (octets dip, dport) payload ident total_len p =
    (let ip_sum = checksum (ipv4_header 17 (word_of_nat total_len) ident 0 sip dip);
         udp = udp_header sport dport (word_of_nat (total_len - 20));
         csum = udp_ipv4_checksum (octets sip) (octets dip) (udp 0 @ payload)
     in Some (ipv4_header 17 (word_of_nat total_len) ident ip_sum sip dip
              @ udp (if csum = 0 then 0xffff else csum) @ payload))"
proof -
  obtain rest where rest: "fill_range 0 28 0 p = Some (replicate 28 0 @ rest)" "length rest = length payload"
    using assms by (simp add: fill_prefix)
  have zeros: "replicate 28 (0 :: u8) =
      [0, 0, 0, 0, 0, 0, 0, 0, 0, 0, 0, 0, 0, 0, 0, 0, 0, 0, 0, 0, 0, 0, 0, 0, 0, 0, 0, 0]"
    by (simp add: numeral_eq_Suc)
  show ?thesis
    unfolding udp_fill_def rest(1) zeros
    by (simp add: access_defs patch_def subslice_def ipv4_header_def udp_header_def
        octets_bytes u16_bytes Let_def rest(2))
qed

lemma length_headers [simp]:
  "length (ipv4_header pr t i s a b) = 20" "length (udp_header sp dp len s) = 8"
  by (simp_all add: ipv4_header_def udp_header_def)

lemma ipv4_header_sum:
  "sum_words (ipv4_header pr t i s a b) = sum_words (ipv4_header pr t i 0 a b) + unat s"
  by (simp add: ipv4_header_def octets_bytes u16_bytes unat_u16_from_be_bytes [of 0 0])

lemma ipv4_header_verifies:
  "checksum (ipv4_header pr t i (checksum (ipv4_header pr t i 0 a b)) a b) = 0"
  using finish_sum_complement [of "sum_words (ipv4_header pr t i 0 a b)"]
  by (simp add: checksum_def ipv4_header_sum [of pr t i "finish_sum _"])

lemma udp_checksum_split:
  "udp_ipv4_checksum a b (udp_header sp dp len s @ payload) =
     finish_sum (sum_words a + sum_words b + 17 + length (udp_header sp dp len 0 @ payload)
       + sum_words (udp_header sp dp len 0 @ payload) + unat s)"
  by (simp add: udp_ipv4_checksum_def sum_words_append udp_header_def add_ac
      unat_u16_from_be_bytes [of 0 0])

lemma udp_checksum_verifies:
  assumes "c = udp_ipv4_checksum a b (udp_header sp dp len 0 @ payload)"
  shows "udp_ipv4_checksum a b (udp_header sp dp len (if c = 0 then 0xffff else c) @ payload) = 0"
proof -
  let ?s = "sum_words a + sum_words b + 17 + length (udp_header sp dp len 0 @ payload)
       + sum_words (udp_header sp dp len 0 @ payload)"
  have c: "c = finish_sum ?s"
    using assms by (simp add: udp_ipv4_checksum_def)
  show ?thesis
    unfolding udp_checksum_split
    using finish_sum_complement [of ?s] finish_sum_all_ones [of ?s] by (cases "c = 0") (simp_all add: c)
qed

lemma u16_nonzero_bytes: "w \<noteq> 0 \<Longrightarrow> [u16_hi w, u16_lo w] \<noteq> [0, 0]"
  using u16_from_hi_lo [of w] by (auto simp: u16_from_be_bytes_def)

lemma udp_parse_built:
  assumes "checksum (ipv4_header 17 t i s a b) = 0" and "unat t = length payload + 28"
    and "unat len = length payload + 8"
    and "udp_ipv4_checksum (octets a) (octets b) (udp_header sp dp len c @ payload) = 0"
  shows "udp_parse_ipv4 (ipv4_header 17 t i s a b @ udp_header sp dp len c @ payload @ pad) =
    Some (Inr \<lparr>dg_source = SocketAddrV4 a sp, dg_destination = SocketAddrV4 b dp, dg_payload = payload\<rparr>)"
proof -
  have "u16_from_be_bytes 64 0 = 0x4000"
    by (simp add: u16_from_be_bytes_def)
  then show ?thesis
    using assms
    by (simp add: udp_parse_ipv4_def access_defs subslice_def ipv4_header_def udp_header_def octets_bytes
        read16_def ip_of_octets_def read32_def take_Cons')
qed

text \<open>No byte string makes the UDP parser panic: every index and slice it uses is in range.\<close>

lemma udp_parse_total: "\<exists>r. udp_parse_ipv4 packet = Some r"
  by (auto simp: udp_parse_ipv4_def access_defs)

lemma udp_build_ok:
  assumes "pb_inv buf" and "length payload + 28 \<le> 65535" and "length payload + 28 \<le> tail_capacity buf"
  shows "\<exists>buf'. udp_build_ipv4 buf (octets sip, sport) (octets dip, dport) payload ident = Some (Inr (), buf') \<and>
    pb_inv buf' \<and> same_frame buf buf' \<and> pb_data_offset buf' = pb_data_offset buf \<and>
    udp_parse_ipv4 (as_slice buf' @ pad) =
      Some (Inr \<lparr>dg_source = SocketAddrV4 sip sport, dg_destination = SocketAddrV4 dip dport,
                 dg_payload = payload\<rparr>)"
proof -
  let ?n = "length payload + 28"
  let ?t = "word_of_nat ?n :: u16" and ?l = "word_of_nat (?n - 20) :: u16"
  let ?c = "udp_ipv4_checksum (octets sip) (octets dip) (udp_header sport dport ?l 0 @ payload)"
  let ?p = "ipv4_header 17 ?t ident (checksum (ipv4_header 17 ?t ident 0 sip dip)) sip dip
    @ udp_header sport dport ?l (if ?c = 0 then 0xffff else ?c) @ payload"
  have lens: "unat ?t = ?n" "unat ?l = length payload + 8"
    using assms(2) by (subst unat_of_nat_u16; simp)+
  obtain b where b: "set_len ?n buf = Some b" "pb_inv b" "same_frame buf b" "pb_len b = ?n"
      "pb_data_offset b = pb_data_offset buf"
    using set_len_wp [OF assms(1,3)] by (auto simp: wp_eq_Some)
  have "udp_fill (octets sip, sport) (octets dip, dport) payload ident ?n (as_slice b) = Some ?p"
    using udp_fill_eq [of "as_slice b" payload sip sport dip dport ident ?n] b by (simp add: Let_def)
  moreover obtain b' where "write_packet 0 ?p b = Some b'" "pb_inv b'" "same_frame b b'" "as_slice b' = ?p"
      "pb_data_offset b' = pb_data_offset b"
    using write_whole_wp [OF b(2), of ?p] b(4) by (auto simp: wp_eq_Some)
  moreover have "udp_parse_ipv4 (?p @ pad) = Some (Inr \<lparr>dg_source = SocketAddrV4 sip sport,
      dg_destination = SocketAddrV4 dip dport, dg_payload = payload\<rparr>)"
    using udp_parse_built [OF ipv4_header_verifies lens udp_checksum_verifies [OF refl]]
    by (simp only: append_assoc)
  ultimately show ?thesis
    using assms b same_frame_trans by (auto simp: udp_build_ipv4_def Let_def)
qed

lemma udp_build_wp:
  assumes "pb_inv buf"
  shows "wp (udp_build_ipv4 buf (octets sip, sport) (octets dip, dport) payload ident) (\<lambda>(r, buf'). pb_inv buf' \<and> same_frame buf buf' \<and>
    (case r of
       Inl e \<Rightarrow> e = InvalidInput \<and> buf' = buf
     | Inr u \<Rightarrow> udp_parse_ipv4 (as_slice buf') =
         Some (Inr \<lparr>dg_source = SocketAddrV4 sip sport, dg_destination = SocketAddrV4 dip dport, dg_payload = payload\<rparr>)))"
proof (cases "length payload + 28 \<le> 65535 \<and> length payload + 28 \<le> tail_capacity buf")
  case True
  then show ?thesis
    using udp_build_ok [OF assms, of payload sip sport dip dport ident "[]"] by auto
qed (use assms in \<open>auto simp: udp_build_ipv4_def same_frame_def\<close>)

text \<open>
  C28. \<^verbatim>\<open>build_ipv4\<close> writes a datagram that fits the frame without panicking, keeps the handle's frame
  and headroom, and the parser reads back exactly the addresses, ports and payload, whatever link
  padding follows the packet.
\<close>

theorem udp_build_parse:
  assumes "pb_inv buf" and "length payload + 28 \<le> 65535" and "length payload + 28 \<le> tail_capacity buf"
  shows "\<exists>buf'. udp_build_ipv4 buf (octets sip, sport) (octets dip, dport) payload ident = Some (Inr (), buf') \<and>
    pb_inv buf' \<and> same_frame buf buf' \<and> pb_data_offset buf' = pb_data_offset buf \<and>
    udp_parse_ipv4 (as_slice buf' @ pad) =
      Some (Inr \<lparr>dg_source = SocketAddrV4 sip sport, dg_destination = SocketAddrV4 dip dport,
                 dg_payload = payload\<rparr>)"
  using assms by (rule udp_build_ok)

theorem udp_build_parse_witness:
  "\<exists>buf'. udp_build_ipv4 \<lparr>pb_mem = replicate 64 0, pb_data_offset = 4, pb_capacity = 64, pb_len = 0,
        pb_idx = 1, pb_pool = Some 0\<rparr> (octets 0x0A000001, 12345) (octets 0x0A000002, 9000) [104, 105, 33] 3
      = Some (Inr (), buf') \<and>
    udp_parse_ipv4 (as_slice buf' @ [0, 0]) =
      Some (Inr \<lparr>dg_source = SocketAddrV4 0x0A000001 12345, dg_destination = SocketAddrV4 0x0A000002 9000,
                 dg_payload = [104, 105, 33]\<rparr>)"
proof -
  let ?b = "\<lparr>pb_mem = replicate 64 0, pb_data_offset = 4, pb_capacity = 64, pb_len = 0, pb_idx = 1,
    pb_pool = Some 0\<rparr> :: packet_buf"
  have "pb_inv ?b" "length [104, 105, 33 :: u8] + 28 \<le> 65535" "length [104, 105, 33 :: u8] + 28 \<le> tail_capacity ?b"
    by (simp_all add: pb_inv_def tail_capacity_def)
  from udp_build_parse [OF this] show ?thesis
    by blast
qed

end
