(* ===== verification/Tcp_Wire.thy ===== *)
theory Tcp_Wire
  imports Udp_Wire
begin

text \<open>
  \<^verbatim>\<open>src/transport/tcp.rs\<close>: the IPv4/TCP wire format, the option loop of the parser, the builder, and the
  serial-number comparison. Accesses are checked as in the UDP codec.
\<close>

section \<open>Definitions\<close>

definition FIN :: u8 where "FIN = 0x01"
definition SYN :: u8 where "SYN = 0x02"
definition RST :: u8 where "RST = 0x04"
definition PSH :: u8 where "PSH = 0x08"
definition ACK :: u8 where "ACK = 0x10"
definition URG :: u8 where "URG = 0x20"

record segment =
  sg_source :: sockaddr
  sg_destination :: sockaddr
  sg_sequence :: u32
  sg_acknowledgment :: u32
  sg_flags :: u8
  sg_window :: u16
  sg_mss :: "u16 option"
  sg_payload :: bytes

definition has_flag :: "u8 \<Rightarrow> u8 \<Rightarrow> bool" where
  "has_flag flags f \<longleftrightarrow> flags AND f \<noteq> 0"

definition sequence_len :: "segment \<Rightarrow> u32" where
  "sequence_len s = word_of_nat (length (sg_payload s)) + (if has_flag (sg_flags s) SYN then 1 else 0)
     + (if has_flag (sg_flags s) FIN then 1 else 0)"

text \<open>\<^verbatim>\<open>(a.wrapping_sub(b) as i32) < 0\<close>.\<close>

definition before :: "u32 \<Rightarrow> u32 \<Rightarrow> bool" where
  "before a b \<longleftrightarrow> sint (a - b) < 0"

text \<open>The \<^verbatim>\<open>while offset < header_len\<close> loop over the options; it returns the MSS it found.\<close>

function tcp_options :: "bytes \<Rightarrow> nat \<Rightarrow> nat \<Rightarrow> u16 option \<Rightarrow> u16 option io_result option" where
  "tcp_options tcp header_len offset mss =
     (if offset < header_len then
        (case nth_opt tcp offset of
           None \<Rightarrow> None
         | Some kind \<Rightarrow>
             if kind = 0 then Some (Inr mss)
             else if kind = 1 then tcp_options tcp header_len (offset + 1) mss
             else if offset + 2 > header_len then Some (Inl InvalidData)
             else
               (case nth_opt tcp (offset + 1) of
                  None \<Rightarrow> None
                | Some len \<Rightarrow>
                    if unat len < 2 \<or> offset + unat len > header_len then Some (Inl InvalidData)
                    else if kind = 2 then
                      (if unat len \<noteq> 4 \<or> mss \<noteq> None then Some (Inl InvalidData)
                       else
                         (case read16_at tcp (offset + 2) of
                            None \<Rightarrow> None
                          | Some value \<Rightarrow>
                              if value = 0 then Some (Inl InvalidData)
                              else tcp_options tcp header_len (offset + unat len) (Some value)))
                    else tcp_options tcp header_len (offset + unat len) mss))
      else Some (Inr mss))"
  by pat_completeness auto
termination
  by (relation "measure (\<lambda>(tcp, header_len, offset, mss). header_len - offset)") auto

declare tcp_options.simps [simp del]

text \<open>The part of \<^verbatim>\<open>parse_ipv4\<close> after \<^verbatim>\<open>let tcp = &bytes[20..total]\<close>.\<close>

definition tcp_parse_segment :: "ipv4addr \<Rightarrow> ipv4addr \<Rightarrow> bytes \<Rightarrow> segment io_result option" where
  "tcp_parse_segment source destination tcp = do {
     data_offset \<leftarrow> nth_opt tcp 12;
     let header_len = unat (drop_bit 4 data_offset) * 4;
     if header_len < 20 \<or> header_len > length tcp \<or> tcp_ipv4_checksum source destination tcp \<noteq> 0
     then Some (Inl InvalidData)
     else do {
       options \<leftarrow> tcp_options tcp header_len 20 None;
       case options of
         Inl e \<Rightarrow> Some (Inl e)
       | Inr mss \<Rightarrow> do {
           source_port \<leftarrow> read16_at tcp 0;
           destination_port \<leftarrow> read16_at tcp 2;
           seq \<leftarrow> read32_at tcp 4;
           ack \<leftarrow> read32_at tcp 8;
           flags \<leftarrow> nth_opt tcp 13;
           window \<leftarrow> read16_at tcp 14;
           payload \<leftarrow> slice_from header_len tcp;
           Some (Inr \<lparr>sg_source = SocketAddrV4 source source_port,
                      sg_destination = SocketAddrV4 destination destination_port,
                      sg_sequence = seq, sg_acknowledgment = ack, sg_flags = flags,
                      sg_window = window, sg_mss = mss, sg_payload = payload\<rparr>)
         }
     }
   }"

definition tcp_parse_ipv4 :: "bytes \<Rightarrow> segment io_result option" where
  "tcp_parse_ipv4 b =
     (if length b < 40 then Some (Inl InvalidData)
      else do {
        version \<leftarrow> nth_opt b 0;
        protocol \<leftarrow> nth_opt b 9;
        ttl \<leftarrow> nth_opt b 8;
        if version \<noteq> 0x45 \<or> protocol \<noteq> 6 \<or> ttl = 0 then Some (Inl InvalidData)
        else do {
          total_len \<leftarrow> map_option unat (read16_at b 2);
          if total_len < 40 \<or> total_len > length b then Some (Inl InvalidData)
          else do {
            ip_header \<leftarrow> slice_of 0 20 b;
            fragment \<leftarrow> read16_at b 6;
            if checksum ip_header \<noteq> 0 \<or> fragment AND NOT 0x4000 \<noteq> 0 then Some (Inl InvalidData)
            else do {
              source \<leftarrow> map_option ip_of_octets (slice_of 12 16 b);
              destination \<leftarrow> map_option ip_of_octets (slice_of 16 20 b);
              tcp \<leftarrow> slice_of 20 total_len b;
              tcp_parse_segment source destination tcp
            }
          }
        }
      })"

text \<open>
  The writes of \<^verbatim>\<open>build_ipv4\<close>: first the IPv4 header in \<^verbatim>\<open>bytes\<close>, then the segment through the
  subslice \<^verbatim>\<open>tcp = &mut bytes[20..]\<close>.
\<close>

definition tcp_fill_ip :: "segment \<Rightarrow> nat \<Rightarrow> nat \<Rightarrow> bytes \<Rightarrow> bytes option" where
  "tcp_fill_ip s tcp_header total_len b = do {
     b \<leftarrow> fill_range 0 (20 + tcp_header) 0 b;
     b \<leftarrow> store 0 0x45 b;
     b \<leftarrow> copy_into 2 4 (u16_to_be_bytes (word_of_nat total_len)) b;
     b \<leftarrow> store 6 0x40 b;
     b \<leftarrow> store 8 64 b;
     b \<leftarrow> store 9 6 b;
     b \<leftarrow> copy_into 12 16 (octets (sa_ip (sg_source s))) b;
     b \<leftarrow> copy_into 16 20 (octets (sa_ip (sg_destination s))) b;
     ip_header \<leftarrow> slice_of 0 20 b;
     copy_into 10 12 (u16_to_be_bytes (checksum ip_header)) b
   }"

definition tcp_fill_segment :: "segment \<Rightarrow> nat \<Rightarrow> bytes \<Rightarrow> bytes option" where
  "tcp_fill_segment s tcp_header tcp = do {
     tcp \<leftarrow> copy_into 0 2 (u16_to_be_bytes (sa_port (sg_source s))) tcp;
     tcp \<leftarrow> copy_into 2 4 (u16_to_be_bytes (sa_port (sg_destination s))) tcp;
     tcp \<leftarrow> copy_into 4 8 (u32_to_be_bytes (sg_sequence s)) tcp;
     tcp \<leftarrow> copy_into 8 12 (u32_to_be_bytes (sg_acknowledgment s)) tcp;
     tcp \<leftarrow> store 12 (push_bit 4 (word_of_nat (tcp_header div 4))) tcp;
     tcp \<leftarrow> store 13 (sg_flags s) tcp;
     tcp \<leftarrow> copy_into 14 16 (u16_to_be_bytes (sg_window s)) tcp;
     tcp \<leftarrow> (case sg_mss s of
               None \<Rightarrow> Some tcp
             | Some mss \<Rightarrow> do {
                 tcp \<leftarrow> copy_into 20 22 [2, 4] tcp;
                 copy_into 22 24 (u16_to_be_bytes mss) tcp
               });
     tcp \<leftarrow> copy_into tcp_header (length tcp) (sg_payload s) tcp;
     copy_into 16 18
       (u16_to_be_bytes (tcp_ipv4_checksum (sa_ip (sg_source s)) (sa_ip (sg_destination s)) tcp)) tcp
   }"

definition tcp_build_ipv4 :: "packet_buf \<Rightarrow> segment \<Rightarrow> (unit io_result \<times> packet_buf) option" where
  "tcp_build_ipv4 frame s =
     (if sg_mss s = Some 0 \<or> sg_mss s \<noteq> None \<and> \<not> has_flag (sg_flags s) SYN
      then Some (Inl InvalidInput, frame)
      else
        (let tcp_header = (if sg_mss s \<noteq> None then 24 else 20);
             total_len = length (sg_payload s) + (20 + tcp_header) in
         if \<not> (total_len \<le> 65535 \<and> total_len \<le> tail_capacity frame) then Some (Inl InvalidInput, frame)
         else do {
           frame \<leftarrow> set_len total_len frame;
           b \<leftarrow> tcp_fill_ip s tcp_header total_len (as_slice frame);
           tcp \<leftarrow> slice_from 20 b;
           tcp \<leftarrow> tcp_fill_segment s tcp_header tcp;
           frame \<leftarrow> write_packet 0 (take 20 b @ tcp) frame;
           Some (Inr (), frame)
         }))"

section \<open>The bytes of a built segment\<close>

definition tcp_header_bytes :: "segment \<Rightarrow> u16 \<Rightarrow> bytes" where
  "tcp_header_bytes s csum =
     u16_to_be_bytes (sa_port (sg_source s)) @ u16_to_be_bytes (sa_port (sg_destination s))
     @ u32_to_be_bytes (sg_sequence s) @ u32_to_be_bytes (sg_acknowledgment s)
     @ [if sg_mss s = None then 0x50 else 0x60, sg_flags s] @ u16_to_be_bytes (sg_window s)
     @ u16_to_be_bytes csum @ [0, 0]
     @ (case sg_mss s of None \<Rightarrow> [] | Some mss \<Rightarrow> [2, 4] @ u16_to_be_bytes mss)"

definition tcp_header_len :: "segment \<Rightarrow> nat" where
  "tcp_header_len s = (if sg_mss s \<noteq> None then 24 else 20)"

lemma length_tcp_header_bytes [simp]: "length (tcp_header_bytes s c) = tcp_header_len s"
  by (simp add: tcp_header_bytes_def tcp_header_len_def split: option.splits)

lemma zeros_20: "replicate 20 (0 :: u8) = [0, 0, 0, 0, 0, 0, 0, 0, 0, 0, 0, 0, 0, 0, 0, 0, 0, 0, 0, 0]"
  by (simp add: numeral_eq_Suc)

lemma zeros_24:
  "replicate 24 (0 :: u8) = [0, 0, 0, 0, 0, 0, 0, 0, 0, 0, 0, 0, 0, 0, 0, 0, 0, 0, 0, 0, 0, 0, 0, 0]"
  by (simp add: numeral_eq_Suc)

lemma tcp_fill_ip_eq:
  assumes "20 + h \<le> length b"
  shows "tcp_fill_ip s h n b =
    (let header = \<lambda>c. ipv4_header 6 (word_of_nat n) 0 c (sa_ip (sg_source s)) (sa_ip (sg_destination s))
     in Some (header (checksum (header 0)) @ replicate h 0 @ drop (20 + h) b))"
proof -
  have fill: "fill_range 0 (20 + h) 0 b = Some (replicate 20 0 @ replicate h 0 @ drop (20 + h) b)"
    using assms by (simp add: fill_prefix replicate_add)
  show ?thesis
    unfolding tcp_fill_ip_def fill zeros_20
    by (simp add: access_defs patch_def subslice_def ipv4_header_def octets_bytes u16_bytes Let_def)
qed

lemma tcp_fill_segment_eq:
  assumes "length rest = length (sg_payload s)" and "h = tcp_header_len s"
  shows "tcp_fill_segment s h (replicate h 0 @ rest) =
    (let csum = tcp_ipv4_checksum (sa_ip (sg_source s)) (sa_ip (sg_destination s))
       (tcp_header_bytes s 0 @ sg_payload s)
     in Some (tcp_header_bytes s csum @ sg_payload s))"
proof (cases "sg_mss s")
  case None
  then have "h = 20"
    using assms by (simp add: tcp_header_len_def)
  then show ?thesis
    unfolding tcp_fill_segment_def \<open>h = 20\<close> zeros_20
    using None assms(1)
    by (simp add: access_defs patch_def tcp_header_bytes_def u16_bytes u32_bytes Let_def)
next
  case (Some mss)
  then have "h = 24"
    using assms by (simp add: tcp_header_len_def)
  then show ?thesis
    unfolding tcp_fill_segment_def \<open>h = 24\<close> zeros_24
    using Some assms(1)
    by (simp add: access_defs patch_def tcp_header_bytes_def u16_bytes u32_bytes Let_def)
qed

section \<open>Checksums and parsing\<close>

lemma tcp_header_sum:
  "sum_words (tcp_header_bytes s c @ payload) = sum_words (tcp_header_bytes s 0 @ payload) + unat c"
  by (cases "sg_mss s")
    (simp_all add: tcp_header_bytes_def u16_bytes u32_bytes unat_u16_from_be_bytes [of 0 0])

lemma tcp_checksum_verifies:
  "tcp_ipv4_checksum a b (tcp_header_bytes s (tcp_ipv4_checksum a b (tcp_header_bytes s 0 @ p)) @ p) = 0"
proof -
  let ?s = "sum_words (octets a) + sum_words (octets b) + 6 + length (tcp_header_bytes s 0 @ p)
    + sum_words (tcp_header_bytes s 0 @ p)"
  have "tcp_ipv4_checksum a b (tcp_header_bytes s 0 @ p) = finish_sum ?s"
    by (simp add: tcp_ipv4_checksum_def)
  moreover have "tcp_ipv4_checksum a b (tcp_header_bytes s c @ p) = finish_sum (?s + unat c)" for c
    using tcp_header_sum [of s c p] by (simp add: tcp_ipv4_checksum_def add_ac)
  ultimately show ?thesis
    using finish_sum_complement [of ?s] by (simp only:)
qed

lemma tcp_options_total: "header_len \<le> length tcp \<Longrightarrow> \<exists>r. tcp_options tcp header_len offset mss = Some r"
proof (induction tcp header_len offset mss rule: tcp_options.induct)
  case (1 tcp header_len offset mss)
  show ?case
  proof (cases "offset < header_len")
    case True
    then have "offset < length tcp"
      using "1.prems" by simp
    then have kind: "nth_opt tcp offset = Some (tcp ! offset)"
      by (simp add: nth_opt_def)
    show ?thesis
      using 1 True kind
      by (subst tcp_options.simps) (auto simp: nth_opt_def read16_at_def)
  qed (simp add: tcp_options.simps)
qed

lemma segment_surj:
  "\<lparr>sg_source = SocketAddrV4 (sa_ip (sg_source s)) (sa_port (sg_source s)),
    sg_destination = SocketAddrV4 (sa_ip (sg_destination s)) (sa_port (sg_destination s)),
    sg_sequence = sg_sequence s, sg_acknowledgment = sg_acknowledgment s, sg_flags = sg_flags s,
    sg_window = sg_window s, sg_mss = sg_mss s, sg_payload = sg_payload s\<rparr> = s"
  by simp

lemma tcp_options_built:
  assumes "sg_mss s \<noteq> Some 0"
  shows "tcp_options (tcp_header_bytes s c @ payload) (tcp_header_len s) 20 None = Some (Inr (sg_mss s))"
proof (cases "sg_mss s")
  case (Some mss)
  with assms show ?thesis
    by (simp add: tcp_options.simps tcp_header_len_def tcp_header_bytes_def access_defs u16_bytes u32_bytes
        read16_def)
qed (simp add: tcp_options.simps tcp_header_len_def)

lemma tcp_parse_built:
  assumes "checksum (ipv4_header 6 t i ic (sa_ip (sg_source s)) (sa_ip (sg_destination s))) = 0"
    and "unat t = 20 + tcp_header_len s + length (sg_payload s)" and "sg_mss s \<noteq> Some 0"
    and "tcp_ipv4_checksum (sa_ip (sg_source s)) (sa_ip (sg_destination s))
           (tcp_header_bytes s c @ sg_payload s) = 0"
  shows "tcp_parse_ipv4 (ipv4_header 6 t i ic (sa_ip (sg_source s)) (sa_ip (sg_destination s))
      @ tcp_header_bytes s c @ sg_payload s @ pad) = Some (Inr s)"
proof -
  let ?tcp = "tcp_header_bytes s c @ sg_payload s"
  let ?b = "ipv4_header 6 t i ic (sa_ip (sg_source s)) (sa_ip (sg_destination s)) @ ?tcp @ pad"
  have "u16_from_be_bytes 64 0 = 0x4000"
    by (simp add: u16_from_be_bytes_def)
  then have ip: "nth_opt ?b 0 = Some 0x45" "nth_opt ?b 9 = Some 6" "nth_opt ?b 8 = Some 64"
    "read16_at ?b 2 = Some t" "read16_at ?b 6 = Some 0x4000"
    "slice_of 0 20 ?b = Some (ipv4_header 6 t i ic (sa_ip (sg_source s)) (sa_ip (sg_destination s)))"
    "slice_of 12 16 ?b = Some (octets (sa_ip (sg_source s)))"
    "slice_of 16 20 ?b = Some (octets (sa_ip (sg_destination s)))"
    by (simp_all add: access_defs subslice_def ipv4_header_def octets_bytes read16_def)
  have tcp: "nth_opt ?tcp 12 = Some (if sg_mss s = None then 0x50 else 0x60)"
    "read16_at ?tcp 0 = Some (sa_port (sg_source s))" "read16_at ?tcp 2 = Some (sa_port (sg_destination s))"
    "read32_at ?tcp 4 = Some (sg_sequence s)" "read32_at ?tcp 8 = Some (sg_acknowledgment s)"
    "nth_opt ?tcp 13 = Some (sg_flags s)" "read16_at ?tcp 14 = Some (sg_window s)"
    "slice_from (tcp_header_len s) ?tcp = Some (sg_payload s)"
    by (simp_all add: access_defs tcp_header_bytes_def u16_bytes u32_bytes read16_def read32_def
        tcp_header_len_def split: option.splits)
  have hl: "unat (drop_bit 4 (if sg_mss s = None then 0x50 else 0x60 :: u8)) * 4 = tcp_header_len s"
    "20 \<le> tcp_header_len s"
    by (simp_all add: tcp_header_len_def)
  have "slice_of 20 (unat t) ?b = Some ?tcp"
    using assms(2) by (simp add: slice_of_def subslice_def)
  then show ?thesis
    using assms ip tcp hl tcp_options_built [OF assms(3), of c "sg_payload s"]
    by (simp add: tcp_parse_ipv4_def tcp_parse_segment_def)
qed

lemma tcp_parse_segment_total:
  assumes "20 \<le> length tcp"
  shows "\<exists>r. tcp_parse_segment a b tcp = Some r"
proof -
  let ?h = "unat (drop_bit 4 (tcp ! 12)) * 4"
  show ?thesis
  proof (cases "?h < 20 \<or> ?h > length tcp")
    case True
    with assms show ?thesis
      by (auto simp: tcp_parse_segment_def nth_opt_def Let_def)
  next
    case False
    then obtain r where "tcp_options tcp ?h 20 None = Some r"
      using tcp_options_total [of ?h tcp 20 None] by auto
    with assms False show ?thesis
      by (cases r) (auto simp: tcp_parse_segment_def access_defs Let_def)
  qed
qed

section \<open>Building\<close>

lemma tcp_build_ok:
  assumes "pb_inv frame" and "sg_mss s \<noteq> Some 0" and "sg_mss s \<noteq> None \<longrightarrow> has_flag (sg_flags s) SYN"
    and "length (sg_payload s) + (20 + tcp_header_len s) \<le> min 65535 (tail_capacity frame)"
  shows "\<exists>frame'. tcp_build_ipv4 frame s = Some (Inr (), frame') \<and> pb_inv frame' \<and>
    same_frame frame frame' \<and> pb_data_offset frame' = pb_data_offset frame \<and>
    tcp_parse_ipv4 (as_slice frame' @ pad) = Some (Inr s)"
proof -
  let ?h = "tcp_header_len s" and ?a = "sa_ip (sg_source s)" and ?b = "sa_ip (sg_destination s)"
  let ?n = "length (sg_payload s) + (20 + ?h)"
  let ?ip = "\<lambda>c. ipv4_header 6 (word_of_nat ?n) 0 c ?a ?b"
  let ?c = "tcp_ipv4_checksum ?a ?b (tcp_header_bytes s 0 @ sg_payload s)"
  let ?tcp = "tcp_header_bytes s ?c @ sg_payload s"
  let ?p = "?ip (checksum (?ip 0)) @ ?tcp"
  have len: "unat (word_of_nat ?n :: u16) = 20 + ?h + length (sg_payload s)"
    using assms(4) by (subst unat_of_nat_u16) auto
  obtain f where f: "set_len ?n frame = Some f" "pb_inv f" "same_frame frame f" "pb_len f = ?n"
      "pb_data_offset f = pb_data_offset frame"
    using set_len_wp [OF assms(1), of ?n] assms(4) by (auto simp: wp_eq_Some)
  have "tcp_fill_ip s ?h ?n (as_slice f) =
      Some (?ip (checksum (?ip 0)) @ replicate ?h 0 @ drop (20 + ?h) (as_slice f))"
    using tcp_fill_ip_eq [of ?h "as_slice f" s ?n] f by (simp add: Let_def)
  moreover have "tcp_fill_segment s ?h (replicate ?h 0 @ drop (20 + ?h) (as_slice f)) = Some ?tcp"
    using tcp_fill_segment_eq [OF _ refl, of "drop (20 + ?h) (as_slice f)" s] f by (simp add: Let_def)
  moreover obtain f' where f': "write_packet 0 ?p f = Some f'" "pb_inv f'" "same_frame f f'" "as_slice f' = ?p"
      "pb_data_offset f' = pb_data_offset f"
    using write_whole_wp [OF f(2), of ?p] f(4) by (auto simp: wp_eq_Some)
  ultimately have "tcp_build_ipv4 frame s = Some (Inr (), f')"
    using assms f(1) by (auto simp: tcp_build_ipv4_def tcp_header_len_def slice_from_def Let_def)
  moreover have "tcp_parse_ipv4 (?p @ pad) = Some (Inr s)"
    using tcp_parse_built [OF ipv4_header_verifies len assms(2) tcp_checksum_verifies]
    by (simp only: append_assoc)
  ultimately show ?thesis
    using f f' same_frame_trans by auto
qed

text \<open>Building on any frame: a segment that does not fit or has an invalid MSS option is refused.\<close>

lemma tcp_build_wp:
  assumes "pb_inv frame"
  shows "wp (tcp_build_ipv4 frame s) (\<lambda>(r, frame'). pb_inv frame' \<and> same_frame frame frame' \<and>
    (case r of Inl e \<Rightarrow> e = InvalidInput \<and> frame' = frame | Inr u \<Rightarrow> tcp_parse_ipv4 (as_slice frame') = Some (Inr s)))"
proof (cases "sg_mss s = Some 0 \<or> sg_mss s \<noteq> None \<and> \<not> has_flag (sg_flags s) SYN \<or>
    \<not> length (sg_payload s) + (20 + tcp_header_len s) \<le> min 65535 (tail_capacity frame)")
  case True
  then have "tcp_build_ipv4 frame s = Some (Inl InvalidInput, frame)"
    by (auto simp: tcp_build_ipv4_def tcp_header_len_def Let_def)
  then show ?thesis
    using assms by (simp add: same_frame_def)
next
  case False
  then show ?thesis
    using tcp_build_ok [OF assms, of s "[]"] by auto
qed

section \<open>Serial numbers\<close>

lemma before_unat: "before a b \<longleftrightarrow> 2 ^ 31 \<le> unat (a - b)"
proof -
  have "before a b \<longleftrightarrow> bit (a - b) 31"
    using bit_last_iff [of "a - b"] by (simp add: before_def)
  also have "\<dots> \<longleftrightarrow> bit (unat (a - b)) 31"
    by (simp add: bit_unsigned_iff)
  also have "\<dots> \<longleftrightarrow> odd (unat (a - b) div 2 ^ 31)"
    by (simp add: bit_iff_odd)
  also have "\<dots> \<longleftrightarrow> 2 ^ 31 \<le> unat (a - b)"
  proof -
    have "unat (a - b) div 2 ^ 31 < 2"
      using unat_u32_less [of "a - b"] by (simp add: less_mult_imp_div_less del: unat_u32_less)
    then have "unat (a - b) div 2 ^ 31 = 0 \<or> unat (a - b) div 2 ^ 31 = 1"
      by linarith
    then show ?thesis
      by (auto simp: div_eq_0_iff)
  qed
  finally show ?thesis .
qed

lemma unat_neg_u32: "0 < d \<Longrightarrow> d < 4294967296 \<Longrightarrow> unat (- (word_of_nat d :: u32)) = 4294967296 - d"
proof -
  assume d: "0 < d" "d < 4294967296"
  have "- (word_of_nat d :: u32) = word_of_nat (4294967296 - d)"
    using d by (simp add: of_nat_diff)
  then show ?thesis
    using d by (simp only: unat_of_nat_u32 diff_less)
qed

lemma before_add:
  assumes "0 < d" and "d < 2 ^ 31"
  shows "before a (a + word_of_nat d)" and "\<not> before (a + word_of_nat d) a"
  using assms unat_neg_u32 [of d] by (simp_all add: before_unat unat_of_nat_u32)

lemma before_irrefl [simp]: "\<not> before a a"
  by (simp add: before_unat)

section \<open>Properties\<close>

text \<open>
  C32. No byte string makes the TCP parser panic, and its option loop ends on every input.
\<close>

theorem tcp_parse_total: "\<exists>r. tcp_parse_ipv4 b = Some r"
  using tcp_parse_segment_total by (auto simp: tcp_parse_ipv4_def access_defs)

text \<open>
  C11. A segment with a valid MSS option that fits the frame is built without panicking in the handle's
  own frame, and the parser reads the same segment back, whatever link padding follows it.
\<close>

theorem tcp_build_parse:
  assumes "pb_inv frame" and "sg_mss s \<noteq> Some 0" and "sg_mss s \<noteq> None \<longrightarrow> has_flag (sg_flags s) SYN"
    and "length (sg_payload s) + (20 + tcp_header_len s) \<le> min 65535 (tail_capacity frame)"
  shows "\<exists>frame'. tcp_build_ipv4 frame s = Some (Inr (), frame') \<and> pb_inv frame' \<and>
    same_frame frame frame' \<and> pb_data_offset frame' = pb_data_offset frame \<and>
    tcp_parse_ipv4 (as_slice frame' @ pad) = Some (Inr s)"
  using tcp_build_ok [OF assms] .

theorem tcp_build_parse_witness:
  "\<exists>frame'. tcp_build_ipv4 \<lparr>pb_mem = replicate 64 0, pb_data_offset = 14, pb_capacity = 64, pb_len = 0,
        pb_idx = 0, pb_pool = Some 3\<rparr>
      \<lparr>sg_source = SocketAddrV4 1 80, sg_destination = SocketAddrV4 2 5000, sg_sequence = 7,
        sg_acknowledgment = 9, sg_flags = SYN, sg_window = 512, sg_mss = Some 1460, sg_payload = [1, 2]\<rparr>
      = Some (Inr (), frame') \<and>
    tcp_parse_ipv4 (as_slice frame' @ [0]) = Some (Inr
      \<lparr>sg_source = SocketAddrV4 1 80, sg_destination = SocketAddrV4 2 5000, sg_sequence = 7,
        sg_acknowledgment = 9, sg_flags = SYN, sg_window = 512, sg_mss = Some 1460, sg_payload = [1, 2]\<rparr>)"
proof -
  let ?f = "\<lparr>pb_mem = replicate 64 0, pb_data_offset = 14, pb_capacity = 64, pb_len = 0, pb_idx = 0,
    pb_pool = Some 3\<rparr> :: packet_buf"
  let ?s = "\<lparr>sg_source = SocketAddrV4 1 80, sg_destination = SocketAddrV4 2 5000, sg_sequence = 7,
    sg_acknowledgment = 9, sg_flags = SYN, sg_window = 512, sg_mss = Some 1460, sg_payload = [1, 2]\<rparr>"
  have "pb_inv ?f" "sg_mss ?s \<noteq> Some 0" "sg_mss ?s \<noteq> None \<longrightarrow> has_flag (sg_flags ?s) SYN"
    "length (sg_payload ?s) + (20 + tcp_header_len ?s) \<le> min 65535 (tail_capacity ?f)"
    by (simp_all add: pb_inv_def tail_capacity_def tcp_header_len_def has_flag_def SYN_def)
  from tcp_build_parse [OF this] show ?thesis
    by blast
qed

text \<open>
  The wrapping comparison orders any two sequence numbers less than half the sequence space
  apart by their distance, across the wrap-around.
\<close>

lemma before_serial_order:
  assumes "0 < d" and "d < 2 ^ 31"
  shows "before a (a + word_of_nat d) \<and> \<not> before (a + word_of_nat d) a"
  using before_add [OF assms] by simp

lemma before_serial_order_example:
  "before 0xFFFFFFFF 2 \<and> \<not> before 2 0xFFFFFFFF"
proof -
  have "0xFFFFFFFF + word_of_nat 3 = (2 :: u32)"
    by simp
  then show ?thesis
    using before_serial_order [of 3 "0xFFFFFFFF"] by (simp only:) simp
qed

end
