(* ===== verification/Tcp_Connection.thy ===== *)
theory Tcp_Connection
  imports Device Tcp_Wire
begin

text \<open>
  \<^verbatim>\<open>src/api/tcp/connection.rs\<close> and the types of \<^verbatim>\<open>src/api/tcp/mod.rs\<close> it uses: one TCP connection as a
  bounded sliding-window state machine. This theory holds the model; the invariant and the properties are
  in the theories that follow.

  Sequence numbers and windows are words, byte counts are natural numbers. A subtraction of byte counts
  that would underflow panics, so it is \<open>checked_sub\<close>. \<^verbatim>\<open>saturating_add\<close> on \<^verbatim>\<open>usize\<close>, \<^verbatim>\<open>u32\<close> and \<^verbatim>\<open>u64\<close> counters is
  \<open>sat_add\<close> with the bound of the type. \<^verbatim>\<open>Flight\<close> buffers and the byte queues are lists.
\<close>

section \<open>Types\<close>

datatype tcp_state =
    SynSent | SynReceived | Established | FinWait1 | FinWait2 | CloseWait | Closing | LastAck | TimeWait
  | Closed | ResetState | TimedOutState | Failed

definition is_terminal :: "tcp_state \<Rightarrow> bool" where
  "is_terminal s \<longleftrightarrow> s \<in> {Closed, ResetState, TimedOutState, Failed}"

record tcp_config =
  tc_max_connections :: nat
  tc_max_listeners :: nat
  tc_control_capacity :: nat
  tc_send_capacity :: nat
  tc_receive_capacity :: nat
  tc_receive_window_limit :: u16
  tc_initial_cwnd_segments :: u16
  tc_max_cwnd_bytes :: nat
  tc_initial_ssthresh_bytes :: nat
  tc_max_inflight_segments :: nat
  tc_tx_burst :: nat
  tc_verbose_state :: bool
  tc_event_capacity :: nat
  tc_state_report_interval :: duration
  tc_mtu :: nat
  tc_mss :: u16
  tc_initial_rto :: duration
  tc_max_rto :: duration
  tc_max_retransmits :: nat
  tc_handshake_timeout :: duration
  tc_send_timeout :: duration
  tc_close_timeout :: duration
  tc_time_wait :: duration

definition tcp_config_default :: tcp_config where
  "tcp_config_default =
     \<lparr>tc_max_connections = 64, tc_max_listeners = 16, tc_control_capacity = 64, tc_send_capacity = 16 * 1024,
      tc_receive_capacity = 16 * 1024, tc_receive_window_limit = 65535, tc_initial_cwnd_segments = 2,
      tc_max_cwnd_bytes = 16 * 1024, tc_initial_ssthresh_bytes = 65535, tc_max_inflight_segments = 128,
      tc_tx_burst = 32, tc_verbose_state = False, tc_event_capacity = 256,
      tc_state_report_interval = from_millis 250, tc_mtu = 1500, tc_mss = 536, tc_initial_rto = from_secs 1,
      tc_max_rto = from_secs 60, tc_max_retransmits = 8, tc_handshake_timeout = from_secs 30,
      tc_send_timeout = from_secs 120, tc_close_timeout = from_secs 120, tc_time_wait = from_secs 120\<rparr>"

text \<open>The validation of \<^verbatim>\<open>TcpPool::new\<close>. The subtraction \<^verbatim>\<open>mtu - 40\<close> comes after the check of the MTU.\<close>

definition tcp_config_valid :: "tcp_config \<Rightarrow> bool" where
  "tcp_config_valid cfg \<longleftrightarrow>
     \<not> (tc_max_connections cfg = 0 \<or> tc_max_listeners cfg = 0 \<or> tc_control_capacity cfg = 0 \<or>
        tc_send_capacity cfg = 0 \<or> tc_send_capacity cfg > 2 ^ 30 \<or> tc_receive_window_limit cfg = 0 \<or>
        \<not> (1 \<le> tc_initial_cwnd_segments cfg \<and> tc_initial_cwnd_segments cfg \<le> 4) \<or>
        tc_max_cwnd_bytes cfg = 0 \<or> tc_max_cwnd_bytes cfg > 2 ^ 30 \<or>
        tc_initial_ssthresh_bytes cfg = 0 \<or> tc_initial_ssthresh_bytes cfg > 2 ^ 30 \<or>
        tc_max_inflight_segments cfg = 0 \<or> tc_max_inflight_segments cfg > 65535 \<or> tc_tx_burst cfg = 0 \<or>
        tc_verbose_state cfg \<and> (tc_event_capacity cfg = 0 \<or> tc_state_report_interval cfg = 0) \<or>
        tc_receive_capacity cfg = 0 \<or> tc_receive_capacity cfg > 65535 \<or>
        tc_mtu cfg < 68 \<or> tc_mtu cfg > 65535 \<or> tc_mss cfg = 0 \<or> unat (tc_mss cfg) > tc_mtu cfg - 40 \<or>
        unat (tc_mss cfg) > tc_receive_capacity cfg \<or> tc_initial_rto cfg < from_secs 1 \<or>
        tc_max_rto cfg < tc_initial_rto cfg \<or> tc_handshake_timeout cfg = 0 \<or> tc_send_timeout cfg = 0 \<or>
        tc_close_timeout cfg = 0 \<or> tc_time_wait cfg = 0)"

datatype tcp_wait =
    WaitApplication | WaitAcknowledgment | WaitPeerWindow | WaitCongestionWindow | WaitFlightLimit
  | WaitDevice | WaitHandshake | WaitClosing | WaitTerminal | WaitReady

record flow_status =
  fs_advertised_window :: u16
  fs_peer_window :: u16
  fs_congestion_window :: nat
  fs_slow_start_threshold :: nat
  fs_bytes_in_flight :: nat
  fs_outstanding_segments :: nat
  fs_retransmission_timeout :: duration
  fs_timeout_retransmissions :: nat
  fs_wait :: tcp_wait

record connection_status =
  cs_local :: sockaddr
  cs_remote :: sockaddr
  cs_state :: tcp_state
  cs_send_buffered :: nat
  cs_receive_buffered :: nat
  cs_flow :: flow_status
  cs_local_error :: "io_kind option"

record reset =
  rs_local :: sockaddr
  rs_remote :: sockaddr
  rs_sequence :: u32
  rs_acknowledgment :: u32
  rs_flags :: u8

record flight =
  fl_sequence :: u32
  fl_flags :: u8
  fl_payload :: bytes
  fl_created :: duration
  fl_last_sent :: "duration option"
  fl_transmissions :: nat
  fl_rto :: duration
  fl_persist :: bool
  fl_rtt_eligible :: bool

record connection =
  cn_local :: sockaddr
  cn_remote :: sockaddr
  cn_state :: tcp_state
  cn_accepted :: bool
  cn_received :: bytes
  cn_local_error :: "io_kind option"
  cn_queued :: bytes
  cn_flights :: "flight list"
  cn_flight_payload :: nat
  cn_cwnd :: nat
  cn_ssthresh :: nat
  cn_congestion_credit :: nat
  cn_last_data_sent :: "duration option"
  cn_syn_retransmitted :: bool
  cn_timeout_retransmissions :: nat
  cn_device_blocked :: bool
  cn_reported :: "(tcp_state \<times> tcp_wait \<times> nat) option"
  cn_reported_flow :: "flow_status option"
  cn_reported_at :: duration
  cn_send_una :: u32
  cn_send_next :: u32
  cn_send_sent :: u32
  cn_receive_next :: u32
  cn_peer_window :: u16
  cn_window_sequence :: u32
  cn_window_ack :: u32
  cn_peer_mss :: u16
  cn_ack_pending :: bool
  cn_peer_eof :: bool
  cn_write_closed :: bool
  cn_phase_deadline :: "duration option"
  cn_close_deadline :: "duration option"
  cn_rto :: duration
  cn_srtt :: "duration option"
  cn_rttvar :: duration
  cn_window_probe_at :: duration
  cn_probe_pending :: bool

section \<open>Arithmetic\<close>

definition checked_sub :: "nat \<Rightarrow> nat \<Rightarrow> nat option" where
  "checked_sub a b = (if b \<le> a then Some (a - b) else None)"

definition sat_add :: "nat \<Rightarrow> nat \<Rightarrow> nat \<Rightarrow> nat" where
  "sat_add w a b = min (a + b) (2 ^ w - 1)"

section \<open>Flights\<close>

definition fl_end :: "flight \<Rightarrow> u32" where
  "fl_end f = fl_sequence f + word_of_nat (length (fl_payload f))
     + (if has_flag (fl_flags f) SYN then 1 else 0) + (if has_flag (fl_flags f) FIN then 1 else 0)"

definition fl_due :: "flight \<Rightarrow> duration \<Rightarrow> bool" where
  "fl_due f now = (case fl_last_sent f of None \<Rightarrow> True | Some t \<Rightarrow> saturating_add t (fl_rto f) \<le> now)"

definition cn_start_flight :: "u8 \<Rightarrow> bytes \<Rightarrow> bool \<Rightarrow> duration \<Rightarrow> connection \<Rightarrow> connection" where
  "cn_start_flight flags payload persist now c =
     (let f = \<lparr>fl_sequence = cn_send_next c, fl_flags = flags, fl_payload = payload, fl_created = now,
               fl_last_sent = None, fl_transmissions = 0, fl_rto = cn_rto c, fl_persist = persist,
               fl_rtt_eligible = True\<rparr> in
      c\<lparr>cn_send_next := fl_end f, cn_flight_payload := cn_flight_payload c + length payload,
        cn_flights := cn_flights c @ [f]\<rparr>)"

section \<open>Construction\<close>

definition cn_active :: "sockaddr \<Rightarrow> sockaddr \<Rightarrow> u32 \<Rightarrow> duration \<Rightarrow> tcp_config \<Rightarrow> connection" where
  "cn_active local remote iss now cfg =
     cn_start_flight SYN [] False now
     \<lparr>cn_local = local, cn_remote = remote, cn_state = SynSent, cn_accepted = True, cn_received = [],
      cn_local_error = None, cn_queued = [], cn_flights = [], cn_flight_payload = 0,
      cn_cwnd = min (tc_max_cwnd_bytes cfg) (unat (tc_mss cfg)), cn_ssthresh = tc_initial_ssthresh_bytes cfg,
      cn_congestion_credit = 0, cn_last_data_sent = None, cn_syn_retransmitted = False,
      cn_timeout_retransmissions = 0, cn_device_blocked = False, cn_reported = None, cn_reported_flow = None,
      cn_reported_at = now, cn_send_una = iss, cn_send_next = iss, cn_send_sent = iss, cn_receive_next = 0,
      cn_peer_window = 0, cn_window_sequence = 0, cn_window_ack = 0, cn_peer_mss = 536,
      cn_ack_pending = False, cn_peer_eof = False, cn_write_closed = False,
      cn_phase_deadline = Some (saturating_add now (tc_handshake_timeout cfg)), cn_close_deadline = None,
      cn_rto = tc_initial_rto cfg, cn_srtt = None, cn_rttvar = 0, cn_window_probe_at = now,
      cn_probe_pending = False\<rparr>"

definition unwrap_mss :: "segment \<Rightarrow> u16" where
  "unwrap_mss s = (case sg_mss s of None \<Rightarrow> 536 | Some mss \<Rightarrow> mss)"

definition cn_passive :: "segment \<Rightarrow> u32 \<Rightarrow> duration \<Rightarrow> tcp_config \<Rightarrow> connection option" where
  "cn_passive syn iss now cfg = do {
     let c = cn_active (sg_destination syn) (sg_source syn) iss now cfg;
     let c = c\<lparr>cn_state := SynReceived, cn_accepted := False, cn_receive_next := sg_sequence syn + 1,
               cn_peer_window := sg_window syn, cn_peer_mss := unwrap_mss syn,
               cn_window_sequence := sg_sequence syn\<rparr>;
     case cn_flights c of
       [] \<Rightarrow> None
     | f # fs \<Rightarrow> Some (c\<lparr>cn_flights := f\<lparr>fl_flags := SYN OR ACK\<rparr> # fs\<rparr>)
   }"

section \<open>The application's operations\<close>

definition cn_send_buffered :: "connection \<Rightarrow> nat" where
  "cn_send_buffered c = length (cn_queued c) + cn_flight_payload c"

definition cn_write :: "bytes \<Rightarrow> tcp_config \<Rightarrow> connection \<Rightarrow> (nat io_result \<times> connection) option" where
  "cn_write b cfg c =
     (if cn_write_closed c \<or> cn_state c \<notin> {Established, CloseWait} then Some (Inl NotConnected, c)
      else if b = [] then Some (Inr 0, c)
      else do {
        free \<leftarrow> checked_sub (tc_send_capacity cfg) (cn_send_buffered c);
        let n = min (length b) free;
        if n = 0 then Some (Inl WouldBlock, c)
        else Some (Inr n, c\<lparr>cn_queued := cn_queued c @ take n b\<rparr>)
      })"

text \<open>\<open>cn_read n\<close> reads into a buffer of \<open>n\<close> bytes and also returns the bytes it stored.\<close>

definition cn_read :: "nat \<Rightarrow> connection \<Rightarrow> nat io_result \<times> bytes \<times> connection" where
  "cn_read out_len c =
     (if out_len = 0 then (Inr 0, [], c)
      else
        (case cn_local_error c of
           Some kind \<Rightarrow> (Inl kind, [], c)
         | None \<Rightarrow>
             if cn_state c = ResetState then (Inl ConnectionReset, [], c)
             else if cn_state c = TimedOutState then (Inl TimedOut, [], c)
             else
               (let n = min out_len (length (cn_received c));
                    out = take n (cn_received c);
                    c = c\<lparr>cn_received := drop n (cn_received c)\<rparr> in
                if n > 0 then (Inr n, out, c\<lparr>cn_ack_pending := True\<rparr>)
                else if cn_peer_eof c \<or> cn_state c = Closed then (Inr 0, out, c)
                else (Inl WouldBlock, out, c))))"

definition cn_close :: "duration \<Rightarrow> tcp_config \<Rightarrow> connection \<Rightarrow> unit io_result \<times> connection" where
  "cn_close now cfg c =
     (if cn_write_closed c then (Inr (), c)
      else if cn_state c \<notin> {Established, CloseWait} then (Inl InvalidInput, c)
      else (Inr (), c\<lparr>cn_write_closed := True,
                       cn_close_deadline := Some (saturating_add now (tc_close_timeout cfg))\<rparr>))"

definition cn_fail :: "tcp_state \<Rightarrow> connection \<Rightarrow> connection" where
  "cn_fail s c =
     c\<lparr>cn_state := s, cn_local_error := None, cn_queued := [], cn_received := [], cn_flights := [],
       cn_flight_payload := 0, cn_send_una := cn_send_sent c, cn_send_next := cn_send_sent c,
       cn_device_blocked := False, cn_ack_pending := False, cn_phase_deadline := None,
       cn_close_deadline := None\<rparr>"

definition cn_reset_packet :: "connection \<Rightarrow> reset" where
  "cn_reset_packet c =
     \<lparr>rs_local = cn_local c, rs_remote = cn_remote c, rs_sequence = cn_send_sent c,
      rs_acknowledgment = cn_receive_next c,
      rs_flags = (if cn_state c = SynSent then RST else RST OR ACK)\<rparr>"

section \<open>Timers\<close>

definition deadline_passed :: "duration \<Rightarrow> duration option \<Rightarrow> bool" where
  "deadline_passed now deadline = (case deadline of None \<Rightarrow> False | Some t \<Rightarrow> t \<le> now)"

definition cn_tick :: "duration \<Rightarrow> tcp_config \<Rightarrow> connection \<Rightarrow> connection" where
  "cn_tick now cfg c =
     (if is_terminal (cn_state c) then c
      else if cn_state c = TimeWait then
        (if deadline_passed now (cn_phase_deadline c)
         then c\<lparr>cn_state := Closed, cn_phase_deadline := None, cn_ack_pending := False\<rparr> else c)
      else if deadline_passed now (cn_phase_deadline c) \<or> deadline_passed now (cn_close_deadline c) \<or>
              (case cn_flights c of
                 [] \<Rightarrow> False
               | f # _ \<Rightarrow> saturating_add (fl_created f) (tc_send_timeout cfg) \<le> now \<or>
                   \<not> fl_persist f \<and> fl_due f now \<and> tc_max_retransmits cfg < fl_transmissions f)
      then cn_fail TimedOutState c
      else c)"

definition opt_list :: "'a option \<Rightarrow> 'a list" where
  "opt_list x = (case x of None \<Rightarrow> [] | Some a \<Rightarrow> [a])"

definition cn_next_deadline :: "tcp_config \<Rightarrow> connection \<Rightarrow> duration option" where
  "cn_next_deadline cfg c =
     (if is_terminal (cn_state c) then None
      else
        (let flight = (case cn_flights c of
                         [] \<Rightarrow> None
                       | f # _ \<Rightarrow>
                           Some (min (case fl_last_sent f of
                                        None \<Rightarrow> fl_created f | Some t \<Rightarrow> saturating_add t (fl_rto f))
                                     (saturating_add (fl_created f) (tc_send_timeout cfg))));
             probe = (if cn_write_closed c \<and> cn_peer_window c = 0 \<and> cn_flights c = [] \<and>
                         cn_state c \<in> {Established, CloseWait}
                      then Some (cn_window_probe_at c) else None);
             ts = opt_list (cn_phase_deadline c) @ opt_list (cn_close_deadline c) @ opt_list flight @ opt_list probe in
         if ts = [] then None else Some (Min (set ts))))"

section \<open>Windows\<close>

definition cn_send_mss :: "tcp_config \<Rightarrow> connection \<Rightarrow> nat" where
  "cn_send_mss cfg c = unat (min (tc_mss cfg) (max (cn_peer_mss c) 1))"

definition cn_initial_cwnd :: "tcp_config \<Rightarrow> connection \<Rightarrow> nat" where
  "cn_initial_cwnd cfg c =
     (let mss = cn_send_mss cfg c;
          segments = (if cn_syn_retransmitted c then 1 else if mss > 2190 then 2 else if mss > 1095 then 3 else 4) in
      min (mss * min (unat (tc_initial_cwnd_segments cfg)) segments) (tc_max_cwnd_bytes cfg))"

definition cn_advertised_window :: "tcp_config \<Rightarrow> connection \<Rightarrow> u16 option" where
  "cn_advertised_window cfg c = do {
     free \<leftarrow> checked_sub (tc_receive_capacity cfg) (length (cn_received c));
     Some (word_of_nat (min free (unat (tc_receive_window_limit cfg))))
   }"

definition cn_bytes_in_flight :: "connection \<Rightarrow> nat" where
  "cn_bytes_in_flight c = unat (cn_send_sent c - cn_send_una c)"

definition cn_wait :: "tcp_config \<Rightarrow> connection \<Rightarrow> tcp_wait" where
  "cn_wait cfg c =
     (let inflight = cn_bytes_in_flight c in
      if is_terminal (cn_state c) then WaitTerminal
      else if cn_device_blocked c then WaitDevice
      else if cn_state c \<in> {SynSent, SynReceived} then WaitHandshake
      else if cn_queued c \<noteq> [] then
        (if unat (cn_peer_window c) \<le> inflight then WaitPeerWindow
         else if cn_cwnd c \<le> inflight then WaitCongestionWindow
         else if tc_max_inflight_segments cfg \<le> length (cn_flights c) then WaitFlightLimit
         else WaitReady)
      else if cn_peer_window c = 0 \<and> (cn_flights c \<noteq> [] \<or> cn_write_closed c) then WaitPeerWindow
      else if cn_flights c \<noteq> [] then WaitAcknowledgment
      else if cn_write_closed c then WaitClosing
      else WaitApplication)"

definition cn_status :: "tcp_config \<Rightarrow> connection \<Rightarrow> connection_status option" where
  "cn_status cfg c = do {
     window \<leftarrow> cn_advertised_window cfg c;
     Some \<lparr>cs_local = cn_local c, cs_remote = cn_remote c, cs_state = cn_state c,
           cs_send_buffered = cn_send_buffered c, cs_receive_buffered = length (cn_received c),
           cs_flow = \<lparr>fs_advertised_window = window, fs_peer_window = cn_peer_window c,
             fs_congestion_window = cn_cwnd c, fs_slow_start_threshold = cn_ssthresh c,
             fs_bytes_in_flight = cn_bytes_in_flight c, fs_outstanding_segments = length (cn_flights c),
             fs_retransmission_timeout = cn_rto c,
             fs_timeout_retransmissions = cn_timeout_retransmissions c, fs_wait = cn_wait cfg c\<rparr>,
           cs_local_error = cn_local_error c\<rparr>
   }"

section \<open>Acknowledgments\<close>

definition cn_update_rto :: "duration \<Rightarrow> tcp_config \<Rightarrow> connection \<Rightarrow> connection" where
  "cn_update_rto sample cfg c =
     (let (srtt, rttvar) =
        (case cn_srtt c of
           Some srtt \<Rightarrow>
             (let difference = (if sample < srtt then srtt - sample else sample - srtt) in
              (saturating_add (saturating_mul srtt 7 div 8) (sample div 8),
               saturating_add (saturating_mul (cn_rttvar c) 3 div 4) (difference div 4)))
         | None \<Rightarrow> (sample, sample div 2)) in
      c\<lparr>cn_srtt := Some srtt, cn_rttvar := rttvar,
        cn_rto := min (max (saturating_add srtt (max (saturating_mul rttvar 4) (from_millis 1)))
                          (tc_initial_rto cfg))
                      (tc_max_rto cfg)\<rparr>)"

definition cn_enter_time_wait :: "duration \<Rightarrow> tcp_config \<Rightarrow> connection \<Rightarrow> connection" where
  "cn_enter_time_wait now cfg c =
     c\<lparr>cn_state := TimeWait, cn_close_deadline := None,
       cn_phase_deadline := Some (saturating_add now (tc_time_wait cfg))\<rparr>"

text \<open>The locals of the loop of \<^verbatim>\<open>acknowledge\<close>.\<close>

record ack_progress =
  ap_completed_flags :: u8
  ap_sample :: "duration option"
  ap_ambiguous :: bool
  ap_payload :: nat

text \<open>
  The loop over the flights an acknowledgment covers: whether it ran to its end (the source returns from
  the middle of it in one case), the remaining flights, and the locals.
\<close>

fun ack_loop :: "u32 \<Rightarrow> duration \<Rightarrow> flight list \<Rightarrow> ack_progress \<Rightarrow> bool \<times> flight list \<times> ack_progress" where
  "ack_loop ack now [] p = (True, [], p)"
| "ack_loop ack now (f # fs) p =
     (if \<not> before (fl_sequence f) ack then (True, f # fs, p)
      else
        (let p = p\<lparr>ap_ambiguous := ap_ambiguous p \<or> \<not> fl_rtt_eligible f \<or> fl_transmissions f > 1\<rparr> in
         if \<not> before ack (fl_end f) then
           ack_loop ack now fs
             (p\<lparr>ap_completed_flags := ap_completed_flags p OR fl_flags f,
                ap_payload := ap_payload p + length (fl_payload f),
                ap_sample := (if fl_transmissions f = 1 \<and> fl_rtt_eligible f
                              then map_option (\<lambda>t. now - t) (fl_last_sent f) else ap_sample p)\<rparr>)
         else
           (let consumed = unat (ack - fl_sequence f) in
            if consumed > length (fl_payload f) then (False, f # fs, p)
            else
              (True, f\<lparr>fl_payload := drop consumed (fl_payload f), fl_sequence := ack, fl_rtt_eligible := False\<rparr> # fs,
               p\<lparr>ap_payload := ap_payload p + consumed\<rparr>))))"

text \<open>The window update at the start of \<^verbatim>\<open>acknowledge\<close>.\<close>

definition cn_update_window :: "segment \<Rightarrow> connection \<Rightarrow> connection" where
  "cn_update_window s c =
     (if before (cn_window_sequence c) (sg_sequence s) \<or>
         cn_window_sequence c = sg_sequence s \<and> \<not> before (sg_acknowledgment s) (cn_window_ack c)
      then c\<lparr>cn_peer_window := sg_window s, cn_window_sequence := sg_sequence s,
             cn_window_ack := sg_acknowledgment s,
             cn_flights := (if sg_window s > 0 then map (\<lambda>f. f\<lparr>fl_persist := False\<rparr>) (cn_flights c)
                            else cn_flights c)\<rparr>
      else c)"

text \<open>The retransmission timer restarts with the oldest remaining flight.\<close>

definition cn_restart_timer :: "duration \<Rightarrow> connection \<Rightarrow> connection" where
  "cn_restart_timer now c =
     (case cn_flights c of
        [] \<Rightarrow> c
      | f # fs \<Rightarrow>
          if fl_last_sent f \<noteq> None
          then c\<lparr>cn_flights := f\<lparr>fl_last_sent := Some now, fl_rto := cn_rto c, fl_rtt_eligible := False\<rparr> # fs\<rparr>
          else c)"

definition cn_grow_cwnd :: "u8 \<Rightarrow> nat \<Rightarrow> tcp_config \<Rightarrow> connection \<Rightarrow> connection" where
  "cn_grow_cwnd completed acked cfg c =
     (if has_flag completed SYN then
        c\<lparr>cn_cwnd := cn_initial_cwnd cfg c,
          cn_rto := (if cn_syn_retransmitted c then min (max (from_secs 3) (tc_initial_rto cfg)) (tc_max_rto cfg)
                     else cn_rto c)\<rparr>
      else if acked > 0 then
        (let mss = cn_send_mss cfg c;
             c = (if cn_cwnd c < cn_ssthresh c then c\<lparr>cn_cwnd := sat_add 64 (cn_cwnd c) (min acked mss)\<rparr>
                  else
                    (let credit = sat_add 64 (cn_congestion_credit c) acked in
                     if cn_cwnd c \<le> credit
                     then c\<lparr>cn_congestion_credit := credit - cn_cwnd c, cn_cwnd := sat_add 64 (cn_cwnd c) mss\<rparr>
                     else c\<lparr>cn_congestion_credit := credit\<rparr>)) in
         c\<lparr>cn_cwnd := min (cn_cwnd c) (tc_max_cwnd_bytes cfg)\<rparr>)
      else c)"

definition cn_fin_acked :: "duration \<Rightarrow> tcp_config \<Rightarrow> connection \<Rightarrow> connection" where
  "cn_fin_acked now cfg c =
     (case cn_state c of
        FinWait1 \<Rightarrow> c\<lparr>cn_state := FinWait2\<rparr>
      | Closing \<Rightarrow> cn_enter_time_wait now cfg c
      | LastAck \<Rightarrow> c\<lparr>cn_state := Closed, cn_close_deadline := None, cn_ack_pending := False\<rparr>
      | _ \<Rightarrow> c)"

definition cn_acknowledge :: "segment \<Rightarrow> duration \<Rightarrow> tcp_config \<Rightarrow> connection \<Rightarrow> connection option" where
  "cn_acknowledge s now cfg c =
     (let ack = sg_acknowledgment s in
      if before ack (cn_send_una c) then Some c
      else
        (let c = cn_update_window s c in
         if ack = cn_send_una c then Some c
         else
           (let (complete, fs, p) = ack_loop ack now (cn_flights c)
                  \<lparr>ap_completed_flags = 0, ap_sample = None, ap_ambiguous = False, ap_payload = 0\<rparr> in
            if \<not> complete then Some (c\<lparr>cn_flights := fs\<rparr>)
            else do {
              remaining \<leftarrow> checked_sub (cn_flight_payload c) (ap_payload p);
              let c = c\<lparr>cn_flights := fs, cn_flight_payload := remaining, cn_send_una := ack\<rparr>;
              let c = (case ap_sample p of
                         Some sample \<Rightarrow> if ap_ambiguous p then c else cn_update_rto sample cfg c
                       | None \<Rightarrow> c);
              let c = cn_grow_cwnd (ap_completed_flags p) (ap_payload p) cfg (cn_restart_timer now c);
              Some (if has_flag (ap_completed_flags p) FIN then cn_fin_acked now cfg c else c)
            })))"

section \<open>Segments from the peer\<close>

definition cn_peer_fin :: "duration \<Rightarrow> tcp_config \<Rightarrow> connection \<Rightarrow> connection" where
  "cn_peer_fin now cfg c =
     (case cn_state c of
        Established \<Rightarrow> c\<lparr>cn_state := CloseWait\<rparr>
      | FinWait1 \<Rightarrow> c\<lparr>cn_state := Closing\<rparr>
      | FinWait2 \<Rightarrow> cn_enter_time_wait now cfg c
      | _ \<Rightarrow> c)"

definition cn_receive_data :: "segment \<Rightarrow> duration \<Rightarrow> tcp_config \<Rightarrow> connection \<Rightarrow> connection option" where
  "cn_receive_data s now cfg c =
     (if sg_payload s = [] \<and> \<not> has_flag (sg_flags s) FIN then Some c
      else
        (let c = c\<lparr>cn_ack_pending := True\<rparr> in
         if cn_peer_eof c \<or> cn_state c \<notin> {Established, FinWait1, FinWait2} then Some c
         else if before (cn_receive_next c) (sg_sequence s) then Some c
         else do {
           window \<leftarrow> map_option unat (cn_advertised_window cfg c);
           let skip = unat (cn_receive_next c - sg_sequence s);
           if skip > length (sg_payload s) then Some c
           else do {
             let count = min (length (sg_payload s) - skip) window;
             new_bytes \<leftarrow> slice_of skip (skip + count) (sg_payload s);
             let c = c\<lparr>cn_received := cn_received c @ new_bytes,
                       cn_receive_next := cn_receive_next c + word_of_nat count\<rparr>;
             let fin_sequence = sg_sequence s + word_of_nat (length (sg_payload s));
             if has_flag (sg_flags s) FIN \<and> fin_sequence = cn_receive_next c \<and> count < window
             then Some (cn_peer_fin now cfg
               (c\<lparr>cn_receive_next := cn_receive_next c + 1, cn_peer_eof := True\<rparr>))
             else Some c
           }
         }))"

definition cn_syn_sent :: "segment \<Rightarrow> duration \<Rightarrow> tcp_config \<Rightarrow> connection \<Rightarrow> connection option" where
  "cn_syn_sent s now cfg c =
     (let valid_ack = (has_flag (sg_flags s) ACK \<and> sg_acknowledgment s = cn_send_sent c \<and>
                       cn_send_sent c \<noteq> cn_send_una c) in
      if has_flag (sg_flags s) RST then Some (if valid_ack then cn_fail ResetState c else c)
      else if \<not> valid_ack \<or> \<not> has_flag (sg_flags s) SYN \<or> has_flag (sg_flags s) FIN then Some c
      else do {
        c \<leftarrow> cn_acknowledge s now cfg
          (c\<lparr>cn_receive_next := sg_sequence s + 1, cn_peer_window := sg_window s, cn_peer_mss := unwrap_mss s,
             cn_window_sequence := sg_sequence s, cn_window_ack := sg_acknowledgment s\<rparr>);
        let c = c\<lparr>cn_state := Established, cn_phase_deadline := None, cn_ack_pending := True\<rparr>;
        if sg_payload s \<noteq> []
        then cn_receive_data (s\<lparr>sg_sequence := sg_sequence s + 1, sg_flags := sg_flags s AND NOT SYN\<rparr>) now cfg c
        else Some c
      })"

text \<open>The acceptability test of RFC 9293 as the source writes it, in \<^verbatim>\<open>i64\<close>.\<close>

definition segment_acceptable :: "segment \<Rightarrow> nat \<Rightarrow> connection \<Rightarrow> bool" where
  "segment_acceptable s window c =
     (let relative = sint (sg_sequence s - cn_receive_next c); len = int (unat (sequence_len s)) in
      if len = 0 then relative = 0 \<or> 0 < relative \<and> relative < int window
      else 0 < window \<and> relative < int window \<and> 0 < relative + len)"

text \<open>The synchronized part of \<^verbatim>\<open>input\<close>, after the handshake and TIME-WAIT cases.\<close>

definition cn_synchronized :: "segment \<Rightarrow> duration \<Rightarrow> tcp_config \<Rightarrow> connection \<Rightarrow> connection option" where
  "cn_synchronized s now cfg c = do {
     window \<leftarrow> map_option unat (cn_advertised_window cfg c);
     if \<not> segment_acceptable s window c then
       Some (if has_flag (sg_flags s) RST then c else c\<lparr>cn_ack_pending := True\<rparr>)
     else if has_flag (sg_flags s) RST then
       Some (if sg_sequence s = cn_receive_next c then cn_fail ResetState c else c\<lparr>cn_ack_pending := True\<rparr>)
     else if has_flag (sg_flags s) SYN then Some (c\<lparr>cn_ack_pending := True\<rparr>)
     else if \<not> has_flag (sg_flags s) ACK then Some c
     else if before (cn_send_sent c) (sg_acknowledgment s) then Some (c\<lparr>cn_ack_pending := True\<rparr>)
     else if cn_state c = SynReceived \<and>
             (sg_acknowledgment s \<noteq> cn_send_sent c \<or> cn_send_sent c = cn_send_una c) then Some c
     else do {
       let c = (if cn_state c = SynReceived then c\<lparr>cn_state := Established, cn_phase_deadline := None\<rparr> else c);
       c \<leftarrow> cn_acknowledge s now cfg c;
       if is_terminal (cn_state c) then Some c else cn_receive_data s now cfg c
     }
   }"

definition cn_input :: "segment \<Rightarrow> duration \<Rightarrow> tcp_config \<Rightarrow> connection \<Rightarrow> connection option" where
  "cn_input s now cfg c =
     (if is_terminal (cn_state c) then Some c
      else if cn_state c = SynSent then cn_syn_sent s now cfg c
      else if cn_state c = TimeWait then
        Some (if has_flag (sg_flags s) RST then c
              else
                (let c = c\<lparr>cn_ack_pending := True\<rparr> in
                 if has_flag (sg_flags s) FIN \<and> sg_sequence s + sequence_len s = cn_receive_next c
                 then c\<lparr>cn_phase_deadline := Some (saturating_add now (tc_time_wait cfg))\<rparr> else c))
      else if cn_state c = SynReceived \<and> sg_flags s AND (SYN OR ACK OR RST) = SYN \<and>
              sg_sequence s + 1 = cn_receive_next c then
        Some (case cn_flights c of
                [] \<Rightarrow> c
              | f # fs \<Rightarrow> c\<lparr>cn_flights := f\<lparr>fl_last_sent := None\<rparr> # fs\<rparr>)
      else cn_synchronized s now cfg c)"

section \<open>Segments to the peer\<close>

definition last_unsent :: "connection \<Rightarrow> bool" where
  "last_unsent c \<longleftrightarrow> cn_flights c \<noteq> [] \<and> fl_transmissions (last (cn_flights c)) = 0"

definition cn_prepare_data :: "duration \<Rightarrow> tcp_config \<Rightarrow> connection \<Rightarrow> connection" where
  "cn_prepare_data now cfg c =
     (let c = (if cn_flights c = [] \<and>
                  deadline_passed now (map_option (\<lambda>t. saturating_add t (cn_rto c)) (cn_last_data_sent c))
               then c\<lparr>cn_cwnd := min (cn_cwnd c) (cn_initial_cwnd cfg c), cn_congestion_credit := 0\<rparr> else c);
          persist = (cn_peer_window c = 0 \<and> cn_flights c = []);
          reserved = unat (cn_send_next c - cn_send_una c);
          room = (if persist then 1 else min (cn_cwnd c) (unat (cn_peer_window c)) - reserved);
          n = min (min (length (cn_queued c)) (cn_send_mss cfg c)) room in
      if n = 0 then c
      else cn_start_flight (ACK OR PSH) (take n (cn_queued c)) persist now
             (c\<lparr>cn_queued := drop n (cn_queued c)\<rparr>))"

definition cn_prepare :: "duration \<Rightarrow> tcp_config \<Rightarrow> connection \<Rightarrow> connection" where
  "cn_prepare now cfg c =
     (if cn_state c \<notin> {Established, CloseWait} \<or> tc_max_inflight_segments cfg \<le> length (cn_flights c) \<or>
         last_unsent c then c
      else if cn_queued c \<noteq> [] then cn_prepare_data now cfg c
      else if cn_flights c = [] \<and> cn_write_closed c then
        (if cn_peer_window c > 0 then
           (cn_start_flight (FIN OR ACK) [] False now c)
             \<lparr>cn_state := (if cn_state c = CloseWait then LastAck else FinWait1)\<rparr>
         else if cn_window_probe_at c \<le> now then c\<lparr>cn_probe_pending := True\<rparr>
         else c)
      else c)"

definition cn_flight_index :: "duration \<Rightarrow> connection \<Rightarrow> nat option" where
  "cn_flight_index now c =
     (case cn_flights c of
        [] \<Rightarrow> None
      | f # _ \<Rightarrow> if fl_due f now then Some 0
                 else if last_unsent c then Some (length (cn_flights c) - 1) else None)"

text \<open>
  Recheck of both windows before an unsent flight is submitted: it is held back, or cut to what the windows
  admit, with the rest returned to the front of the queue.
\<close>

definition cn_recheck :: "nat \<Rightarrow> duration \<Rightarrow> connection \<Rightarrow> (nat option \<times> connection) option" where
  "cn_recheck index now c = do {
     f \<leftarrow> nth_opt (cn_flights c) index;
     if fl_transmissions f \<noteq> 0 \<or> has_flag (fl_flags f) SYN then Some (Some index, c)
     else do {
       let inflight = cn_bytes_in_flight c;
       let persist = (cn_peer_window c = 0 \<and> inflight = 0);
       let room = (if persist then 1 else min (cn_cwnd c) (unat (cn_peer_window c)) - inflight);
       if room = 0 \<or> persist \<and> has_flag (fl_flags f) FIN then
         Some (None, if persist \<and> cn_window_probe_at c \<le> now then c\<lparr>cn_probe_pending := True\<rparr> else c)
       else if length (fl_payload f) > room then do {
         let kept = f\<lparr>fl_payload := take room (fl_payload f)\<rparr>;
         let removed = unat (cn_send_next c - fl_end kept);
         remaining \<leftarrow> checked_sub (cn_flight_payload c) removed;
         Some (Some index,
           c\<lparr>cn_queued := drop room (fl_payload f) @ cn_queued c, cn_flight_payload := remaining,
             cn_send_next := fl_end kept,
             cn_flights := (cn_flights c)[index := kept\<lparr>fl_persist := persist\<rparr>]\<rparr>)
       }
       else Some (Some index, c\<lparr>cn_flights := (cn_flights c)[index := f\<lparr>fl_persist := persist\<rparr>]\<rparr>)
     }
   }"

definition cn_segment :: "nat option \<Rightarrow> u16 \<Rightarrow> tcp_config \<Rightarrow> connection \<Rightarrow> segment option" where
  "cn_segment index window cfg c = do {
     (sequence, flags, payload) \<leftarrow>
       (case index of
          Some k \<Rightarrow> map_option (\<lambda>f. (fl_sequence f, fl_flags f, fl_payload f)) (nth_opt (cn_flights c) k)
        | None \<Rightarrow> Some (if cn_probe_pending c \<and> \<not> cn_ack_pending c then cn_send_sent c - 1 else cn_send_sent c,
                         ACK, []));
     Some \<lparr>sg_source = cn_local c, sg_destination = cn_remote c, sg_sequence = sequence,
           sg_acknowledgment = cn_receive_next c, sg_flags = flags, sg_window = window,
           sg_mss = (if has_flag flags SYN then Some (tc_mss cfg) else None), sg_payload = payload\<rparr>
   }"

text \<open>The bookkeeping for a submitted flight; it returns whether this was a retransmission.\<close>

definition cn_retransmitted :: "nat \<Rightarrow> flight \<Rightarrow> duration \<Rightarrow> tcp_config \<Rightarrow> connection \<Rightarrow> flight \<times> connection" where
  "cn_retransmitted inflight f now cfg c =
     (let mss = cn_send_mss cfg c;
          timed_out = deadline_passed now (map_option (\<lambda>t. saturating_add t (fl_rto f)) (fl_last_sent f));
          rto = min (saturating_mul (fl_rto f) 2) (tc_max_rto cfg);
          c = c\<lparr>cn_syn_retransmitted := cn_syn_retransmitted c \<or> has_flag (fl_flags f) SYN, cn_rto := rto\<rparr>;
          c = (if \<not> fl_persist f \<and> timed_out
               then c\<lparr>cn_ssthresh := (if fl_transmissions f = 1 then max (inflight div 2) (2 * mss)
                                      else cn_ssthresh c),
                      cn_cwnd := min mss (tc_max_cwnd_bytes cfg), cn_congestion_credit := 0,
                      cn_timeout_retransmissions := sat_add 64 (cn_timeout_retransmissions c) 1\<rparr>
               else c) in
      (f\<lparr>fl_rto := rto, fl_rtt_eligible := False\<rparr>, c))"

definition cn_submitted :: "nat \<Rightarrow> duration \<Rightarrow> tcp_config \<Rightarrow> connection \<Rightarrow> (bool \<times> connection) option" where
  "cn_submitted index now cfg c = do {
     f \<leftarrow> nth_opt (cn_flights c) index;
     let again = fl_transmissions f > 0;
     let (f, c) = (if again then cn_retransmitted (cn_bytes_in_flight c) f now cfg c else (f, c));
     let f = f\<lparr>fl_transmissions := sat_add 32 (fl_transmissions f) 1, fl_last_sent := Some now\<rparr>;
     let fs = (cn_flights c)[index := f];
     Some (again,
       c\<lparr>cn_flights := (if again then map (\<lambda>f. f\<lparr>fl_rtt_eligible := False\<rparr>) fs else fs),
         cn_send_sent := (if before (cn_send_sent c) (fl_end f) then fl_end f else cn_send_sent c),
         cn_last_data_sent := (if fl_payload f \<noteq> [] then Some now else cn_last_data_sent c)\<rparr>)
   }"

definition cn_after_send :: "nat option \<Rightarrow> u8 \<Rightarrow> duration \<Rightarrow> tcp_config \<Rightarrow> connection \<Rightarrow> (bool \<times> connection) option" where
  "cn_after_send index flags now cfg c = do {
     (again, c) \<leftarrow> (case index of None \<Rightarrow> Some (False, c) | Some k \<Rightarrow> cn_submitted k now cfg c);
     let c = (if has_flag flags ACK then c\<lparr>cn_ack_pending := False\<rparr> else c);
     Some (again,
       if cn_probe_pending c
       then c\<lparr>cn_probe_pending := False, cn_window_probe_at := saturating_add now (cn_rto c)\<rparr> else c)
   }"

text \<open>The frame left in the slot after \<^verbatim>\<open>send\<close> is dropped at the end of the function, on every path.\<close>

definition cn_emit ::
  "'d device_ops \<Rightarrow> nat option \<Rightarrow> packet_buf \<Rightarrow> duration \<Rightarrow> tcp_config \<Rightarrow> connection \<Rightarrow> 'd \<Rightarrow>
     ((bool \<times> bool) io_result \<times> connection \<times> 'd) option"
where
  "cn_emit ops index frame now cfg c d = do {
     window \<leftarrow> cn_advertised_window cfg c;
     s \<leftarrow> cn_segment index window cfg c;
     (built, frame) \<leftarrow> tcp_build_ipv4 frame s;
     case built of
       Inl e \<Rightarrow> do { d \<leftarrow> dv_drop ops frame d; Some (Inl e, c, d) }
     | Inr _ \<Rightarrow> do {
         (r, slot, d) \<leftarrow> dv_send ops [frame] d;
         d \<leftarrow> dv_drop_all ops slot d;
         case (case r of Inl e \<Rightarrow> if e = WouldBlock then Inr 0 else Inl e | Inr n \<Rightarrow> Inr n) of
           Inl e \<Rightarrow> Some (Inl e, c, d)
         | Inr n \<Rightarrow>
             if n = 0 then Some (Inr (False, False), c\<lparr>cn_device_blocked := True\<rparr>, d)
             else do {
               (again, c) \<leftarrow> cn_after_send index (sg_flags s) now cfg c;
               Some (Inr (True, again), c, d)
             }
       }
   }"

definition cn_transmit ::
  "'d device_ops \<Rightarrow> duration \<Rightarrow> tcp_config \<Rightarrow> connection \<Rightarrow> 'd \<Rightarrow> ((bool \<times> bool) io_result \<times> connection \<times> 'd) option"
where
  "cn_transmit ops now cfg c d =
     (if is_terminal (cn_state c) then Some (Inr (False, False), c, d)
      else do {
        let c = cn_prepare now cfg c;
        (index, c) \<leftarrow> (case cn_flight_index now c of None \<Rightarrow> Some (None, c) | Some k \<Rightarrow> cn_recheck k now c);
        let c = c\<lparr>cn_device_blocked := False\<rparr>;
        if index = None \<and> \<not> cn_ack_pending c \<and> \<not> cn_probe_pending c then Some (Inr (False, False), c, d)
        else do {
          (r, d) \<leftarrow> dv_alloc ops d;
          case r of
            None \<Rightarrow> Some (Inr (False, False), c\<lparr>cn_device_blocked := True\<rparr>, d)
          | Some frame \<Rightarrow> cn_emit ops index frame now cfg c d
        }
      })"

end
