(* ===== verification/Tcp_Flights.thy ===== *)
theory Tcp_Flights
  imports Tcp_Connection
begin

text \<open>
  The retransmission queue of a connection. Its flights cover the sequence space from the oldest
  unacknowledged byte to the next one without gaps (\<open>chain\<close>), so an acknowledgment can be read as a number of
  sequence positions, and the loop of \<open>cn_acknowledge\<close> as dropping that many.
\<close>

section \<open>Sequence arithmetic\<close>

lemma unat_offset_diff:
  assumes "k \<le> j" and "j < 4294967296"
  shows "unat ((u + word_of_nat j) - (u + word_of_nat k) :: u32) = j - k"
proof -
  have "(u + word_of_nat j) - (u + word_of_nat k) = (word_of_nat (j - k) :: u32)"
    using assms(1) by (simp add: of_nat_diff)
  then show ?thesis
    using assms by (simp only: unat_of_nat_u32)
qed

lemma before_offset:
  assumes "j < 2 ^ 31" and "k < 2 ^ 31"
  shows "before (u + word_of_nat k) (u + word_of_nat j) \<longleftrightarrow> k < j"
proof (cases "k < j")
  case True
  then have eq: "u + word_of_nat j = (u + word_of_nat k) + word_of_nat (j - k)"
    by (simp add: of_nat_diff)
  have "0 < j - k" "j - k < 2 ^ 31"
    using True assms by auto
  from before_add(1) [OF this, of "u + word_of_nat k"] True show ?thesis
    by (simp only: eq simp_thms)
next
  case False
  then have "unat ((u + word_of_nat k) - (u + word_of_nat j)) = k - j"
    using assms by (intro unat_offset_diff) auto
  then show ?thesis
    using False assms by (simp add: before_unat)
qed

lemma before_offset0: "j < 2 ^ 31 \<Longrightarrow> before u (u + word_of_nat j) \<longleftrightarrow> 0 < j"
  using before_offset [of j 0 u] by simp

lemma offset_inj: "j < 4294967296 \<Longrightarrow> k < 4294967296 \<Longrightarrow> u + word_of_nat j = (u + word_of_nat k :: u32) \<longleftrightarrow> j = k"
  by (metis add_left_cancel unat_of_nat_u32)

text \<open>An acknowledgment that is neither old nor of unsent data lies between the two bounds.\<close>

lemma ack_between:
  assumes "\<not> before ack una" and "\<not> before sent ack" and "sent = una + word_of_nat n" and "n < 2 ^ 31"
  obtains k where "ack = una + word_of_nat k" and "k \<le> n"
proof -
  define k where "k = unat (ack - una)"
  have ack: "ack = una + word_of_nat k"
    by (simp add: k_def)
  have "k < 2 ^ 31"
    using assms(1) by (simp add: before_unat k_def)
  then have "\<not> n < k"
    using assms(2-4) before_offset [of k n una] ack by simp
  then show thesis
    using that [OF ack] by simp
qed

section \<open>Chains of flights\<close>

definition fl_len :: "flight \<Rightarrow> nat" where
  "fl_len f = length (fl_payload f) + (if has_flag (fl_flags f) SYN then 1 else 0)
     + (if has_flag (fl_flags f) FIN then 1 else 0)"

text \<open>A flight carries data, or a SYN, or a FIN.\<close>

definition data_flight :: "flight \<Rightarrow> bool" where
  "data_flight f \<longleftrightarrow> fl_payload f \<noteq> [] \<and> \<not> has_flag (fl_flags f) SYN \<and> \<not> has_flag (fl_flags f) FIN"

definition syn_flight :: "flight \<Rightarrow> bool" where
  "syn_flight f \<longleftrightarrow> fl_payload f = [] \<and> has_flag (fl_flags f) SYN \<and> \<not> has_flag (fl_flags f) FIN"

definition fin_flight :: "flight \<Rightarrow> bool" where
  "fin_flight f \<longleftrightarrow> fl_payload f = [] \<and> \<not> has_flag (fl_flags f) SYN \<and> has_flag (fl_flags f) FIN"

definition pure_flight :: "flight \<Rightarrow> bool" where
  "pure_flight f \<longleftrightarrow> data_flight f \<or> syn_flight f \<or> fin_flight f"

lemmas flight_kinds = pure_flight_def data_flight_def syn_flight_def fin_flight_def

fun chain :: "u32 \<Rightarrow> flight list \<Rightarrow> u32 \<Rightarrow> bool" where
  "chain u [] v \<longleftrightarrow> u = v"
| "chain u (f # fs) v \<longleftrightarrow> fl_sequence f = u \<and> pure_flight f \<and> chain (fl_end f) fs v"

definition span :: "flight list \<Rightarrow> nat" where
  "span fs = sum_list (map fl_len fs)"

definition fl_bytes :: "flight list \<Rightarrow> bytes" where
  "fl_bytes fs = concat (map fl_payload fs)"

lemma span_simps [simp]: "span [] = 0" "span (f # fs) = fl_len f + span fs" "span (fs @ gs) = span fs + span gs"
  by (simp_all add: span_def)

lemma fl_bytes_simps [simp]: "fl_bytes [] = []" "fl_bytes (f # fs) = fl_payload f @ fl_bytes fs"
  "fl_bytes (fs @ gs) = fl_bytes fs @ fl_bytes gs"
  by (simp_all add: fl_bytes_def)

lemma fl_end_len: "fl_end f = fl_sequence f + word_of_nat (fl_len f)"
  by (simp add: fl_end_def fl_len_def)

lemma fl_len_pos: "pure_flight f \<Longrightarrow> 0 < fl_len f"
  by (auto simp: flight_kinds fl_len_def)

lemma data_flight_len: "data_flight f \<Longrightarrow> fl_len f = length (fl_payload f)"
  by (simp add: data_flight_def fl_len_def)

lemma chain_end: "chain u fs v \<Longrightarrow> v = u + word_of_nat (span fs)"
proof (induction fs arbitrary: u)
  case (Cons f fs)
  then have "v = fl_end f + word_of_nat (span fs)" "fl_sequence f = u"
    by auto
  then show ?case
    by (simp add: fl_end_len add.assoc)
qed simp

lemma chain_append: "chain u (fs @ gs) v \<longleftrightarrow> (\<exists>w. chain u fs w \<and> chain w gs v)"
  by (induction fs arbitrary: u) auto

lemma chain_snoc: "chain u (fs @ [f]) v \<longleftrightarrow> chain u fs (fl_sequence f) \<and> pure_flight f \<and> v = fl_end f"
  by (auto simp: chain_append)

lemma chain_pure: "chain u fs v \<Longrightarrow> list_all pure_flight fs"
  by (induction fs arbitrary: u) auto

text \<open>Changing bookkeeping fields only.\<close>

definition same_wire :: "flight \<Rightarrow> flight \<Rightarrow> bool" where
  "same_wire f g \<longleftrightarrow> fl_sequence g = fl_sequence f \<and> fl_flags g = fl_flags f \<and> fl_payload g = fl_payload f"

lemma same_wire_simps:
  assumes "same_wire f g"
  shows "fl_end g = fl_end f" "fl_len g = fl_len f" "pure_flight g = pure_flight f" "data_flight g = data_flight f"
    "syn_flight g = syn_flight f" "fin_flight g = fin_flight f"
  using assms by (simp_all add: same_wire_def fl_end_def fl_len_def flight_kinds)

lemma chain_same_wire: "list_all2 same_wire fs gs \<Longrightarrow> chain u gs v = chain u fs v"
proof (induction fs gs arbitrary: u rule: list_all2_induct)
  case (Cons f fs g gs)
  then show ?case
    by (simp add: same_wire_simps [OF Cons.hyps(1)] same_wire_def)
qed simp

lemma span_same_wire: "list_all2 same_wire fs gs \<Longrightarrow> span gs = span fs"
proof (induction fs gs rule: list_all2_induct)
  case (Cons f fs g gs)
  then show ?case
    by (simp add: same_wire_simps [OF Cons.hyps(1)])
qed simp

lemma bytes_same_wire: "list_all2 same_wire fs gs \<Longrightarrow> fl_bytes gs = fl_bytes fs"
proof (induction fs gs rule: list_all2_induct)
  case (Cons f fs g gs)
  then show ?case
    by (simp add: same_wire_def)
qed simp

lemma same_wire_update:
  "k < length fs \<Longrightarrow> same_wire (fs ! k) g \<Longrightarrow> list_all2 same_wire fs (fs[k := g])"
  by (auto simp: list_all2_conv_all_nth nth_list_update same_wire_def)

lemma same_wire_map: "(\<And>f. same_wire f (h f)) \<Longrightarrow> list_all2 same_wire fs (map h fs)"
  by (simp add: list_all2_conv_all_nth)

section \<open>The acknowledgment loop\<close>

text \<open>Dropping \<open>k\<close> positions from the front of a chain.\<close>

fun trim :: "nat \<Rightarrow> flight list \<Rightarrow> flight list" where
  "trim k [] = []"
| "trim k (f # fs) =
     (if k = 0 then f # fs
      else if fl_len f \<le> k then trim (k - fl_len f) fs
      else f\<lparr>fl_payload := drop k (fl_payload f), fl_sequence := fl_sequence f + word_of_nat k,
             fl_rtt_eligible := False\<rparr> # fs)"

lemma ack_loop_trim:
  assumes "chain u fs v" and "k \<le> span fs" and "span fs < 2 ^ 31"
  shows "\<exists>p'. ack_loop (u + word_of_nat k) now fs p = (True, trim k fs, p') \<and>
    ap_payload p' + length (fl_bytes (trim k fs)) = ap_payload p + length (fl_bytes fs) \<and>
    fl_bytes (trim k fs) = drop (ap_payload p' - ap_payload p) (fl_bytes fs)"
  using assms
proof (induction fs arbitrary: u k p)
  case (Cons f fs)
  have seq: "fl_sequence f = u" "pure_flight f" "chain (fl_end f) fs v"
    using Cons.prems(1) by auto
  have lt: "k < 2 ^ 31" "fl_len f < 2 ^ 31"
    using Cons.prems(2,3) by simp_all
  show ?case
  proof (cases "k = 0")
    case True
    then show ?thesis
      using seq by simp
  next
    case False
    then have b1: "before (fl_sequence f) (u + word_of_nat k)"
      using before_offset0 [OF lt(1)] seq(1) by simp
    show ?thesis
    proof (cases "fl_len f \<le> k")
      case True
      have b2: "\<not> before (u + word_of_nat k) (fl_end f)"
        using before_offset [OF lt(2,1)] True seq(1) by (simp add: fl_end_len)
      have ack: "u + word_of_nat k = fl_end f + word_of_nat (k - fl_len f)"
        using True seq(1) by (simp add: fl_end_len of_nat_diff)
      have "k - fl_len f \<le> span fs" "span fs < 2 ^ 31"
        using Cons.prems(2,3) by auto
      define p1 where "p1 = p\<lparr>ap_ambiguous := ap_ambiguous p \<or> \<not> fl_rtt_eligible f \<or> fl_transmissions f > 1,
        ap_completed_flags := ap_completed_flags p OR fl_flags f, ap_payload := ap_payload p + length (fl_payload f),
        ap_sample := (if fl_transmissions f = 1 \<and> fl_rtt_eligible f then map_option (\<lambda>t. now - t) (fl_last_sent f)
          else ap_sample p)\<rparr>"
      obtain p' where p': "ack_loop (u + word_of_nat k) now fs p1 = (True, trim (k - fl_len f) fs, p')"
          "ap_payload p' + length (fl_bytes (trim (k - fl_len f) fs)) = ap_payload p1 + length (fl_bytes fs)"
          "fl_bytes (trim (k - fl_len f) fs) = drop (ap_payload p' - ap_payload p1) (fl_bytes fs)"
        using Cons.IH [OF seq(3) \<open>k - fl_len f \<le> span fs\<close> \<open>span fs < 2 ^ 31\<close>, of p1] unfolding ack by blast
      have "ack_loop (u + word_of_nat k) now (f # fs) p = ack_loop (u + word_of_nat k) now fs p1"
        using b1 b2 by (simp add: p1_def Let_def)
      moreover have "length (fl_bytes (trim (k - fl_len f) fs)) \<le> length (fl_bytes fs)"
        unfolding p'(3) by simp
      ultimately show ?thesis
        using False True p' by (auto simp: p1_def)
    next
      case False
      have "data_flight f"
        using False \<open>k \<noteq> 0\<close> seq(2) by (auto simp: flight_kinds fl_len_def)
      then have len: "fl_len f = length (fl_payload f)"
        by (rule data_flight_len)
      have b2: "before (u + word_of_nat k) (fl_end f)"
        using before_offset [OF lt(2,1)] False seq(1) by (simp add: fl_end_len)
      have "unat (u + word_of_nat k - fl_sequence f) = k"
        using unat_offset_diff [of 0 k u] lt(1) seq(1) by simp
      then show ?thesis
        using False \<open>k \<noteq> 0\<close> b1 b2 seq(1) len by (auto simp: Let_def)
    qed
  qed
qed simp

lemma has_flag_or: "has_flag (a OR b) x \<longleftrightarrow> has_flag a x \<or> has_flag b x"
  by (auto simp: has_flag_def bit_eq_iff bit_simps)

lemma ack_loop_flags:
  assumes "ack_loop ack now fs p = (b, fs', p')" and "list_all (\<lambda>f. \<not> has_flag (fl_flags f) x) fs"
  shows "has_flag (ap_completed_flags p') x = has_flag (ap_completed_flags p) x"
  using assms
  by (induction fs arbitrary: p) (auto simp: Let_def has_flag_or split: if_split_asm)

lemma trim_chain:
  assumes "chain u fs v" and "k \<le> span fs" and "span fs < 2 ^ 31"
  shows "chain (u + word_of_nat k) (trim k fs) v" and "span (trim k fs) = span fs - k"
proof -
  have "chain (u + word_of_nat k) (trim k fs) v \<and> span (trim k fs) = span fs - k"
    using assms
  proof (induction fs arbitrary: u k)
    case (Cons f fs)
    have seq: "fl_sequence f = u" "pure_flight f" "chain (fl_end f) fs v"
      using Cons.prems(1) by auto
    consider "k = 0" | "k \<noteq> 0" "fl_len f \<le> k" | "k \<noteq> 0" "k < fl_len f"
      by linarith
    then show ?case
    proof cases
      case 1
      then show ?thesis
        using seq by simp
    next
      case 2
      have ack: "u + word_of_nat k = fl_end f + word_of_nat (k - fl_len f)"
        using 2 seq(1) by (simp add: fl_end_len of_nat_diff)
      have "k - fl_len f \<le> span fs" "span fs < 2 ^ 31"
        using Cons.prems(2,3) by auto
      from Cons.IH [OF seq(3) this] have "chain (u + word_of_nat k) (trim (k - fl_len f) fs) v"
          "span (trim (k - fl_len f) fs) = span fs - (k - fl_len f)"
        unfolding ack by blast+
      then show ?thesis
        using 2 by simp
    next
      case 3
      then have d: "data_flight f"
        using seq(2) by (auto simp: flight_kinds fl_len_def)
      let ?g = "f\<lparr>fl_payload := drop k (fl_payload f), fl_sequence := u + word_of_nat k, fl_rtt_eligible := False\<rparr>"
      have "data_flight ?g" "fl_len ?g = fl_len f - k"
        using d 3 by (auto simp: data_flight_def fl_len_def)
      moreover have "fl_end ?g = fl_end f"
        using d 3 seq(1) by (simp add: fl_end_len data_flight_def fl_len_def of_nat_diff)
      ultimately show ?thesis
        using 3 seq by (simp add: pure_flight_def)
    qed
  qed simp
  then show "chain (u + word_of_nat k) (trim k fs) v" "span (trim k fs) = span fs - k"
    by simp_all
qed

text \<open>What trimming leaves of the flights.\<close>

lemma trim_data: "list_all data_flight fs \<Longrightarrow> list_all data_flight (trim k fs)"
  by (induction fs arbitrary: k) (simp_all add: data_flight_def fl_len_def)

lemma trim_rto: "list_all (\<lambda>f. Q (fl_rto f)) fs \<Longrightarrow> list_all (\<lambda>f. Q (fl_rto f)) (trim k fs)"
  by (induction fs arbitrary: k) simp_all

lemma trim_last: "trim k fs \<noteq> [] \<Longrightarrow> fl_transmissions (last (trim k fs)) = fl_transmissions (last fs)"
proof (induction fs arbitrary: k)
  case (Cons f fs)
  then show ?case
    by (cases "fs = []") (auto split: if_split_asm)
qed simp

lemma trim_butlast:
  "list_all (\<lambda>f. Q (fl_transmissions f)) (butlast fs) \<Longrightarrow> list_all (\<lambda>f. Q (fl_transmissions f)) (butlast (trim k fs))"
proof (induction fs arbitrary: k)
  case (Cons f fs)
  then show ?case
    by (cases "fs = []") (auto split: if_split_asm)
qed simp

lemma trim_all: "list_all pure_flight fs \<Longrightarrow> trim (span fs) fs = []"
  by (induction fs) (auto dest: fl_len_pos)

end
