(* ===== verification/Tcp_Invariant.thy ===== *)
theory Tcp_Invariant
  imports Tcp_Flights
begin

text \<open>
  The invariant of a TCP connection and its preservation: the retransmission queue is a chain from the
  oldest unacknowledged position to the next one, the kinds of flights match the state, the byte counts are
  exact and within the configured capacities, the windows and timeouts are within their bounds, and every
  phase that must end has a deadline.
\<close>

section \<open>Invariant\<close>

definition sent_ok :: "u32 \<Rightarrow> u32 \<Rightarrow> flight list \<Rightarrow> bool" where
  "sent_ok nxt sent fs \<longleftrightarrow> list_all (\<lambda>f. 0 < fl_transmissions f) (butlast fs) \<and>
     sent = (if fs \<noteq> [] \<and> fl_transmissions (last fs) = 0 then fl_sequence (last fs) else nxt)"

definition phase_ok :: "tcp_state \<Rightarrow> bool \<Rightarrow> flight list \<Rightarrow> bytes \<Rightarrow> bool" where
  "phase_ok st closed fs queued \<longleftrightarrow>
     (if st \<in> {SynSent, SynReceived} then list_all syn_flight fs \<and> length fs = 1 \<and> queued = [] \<and> \<not> closed
      else if st \<in> {Established, CloseWait} then list_all data_flight fs
      else if st \<in> {FinWait1, Closing, LastAck} then list_all fin_flight fs \<and> length fs = 1 \<and> queued = []
      else fs = [] \<and> queued = [])"

text \<open>No duration exceeds \<open>duration_max\<close>; the configuration is only known to keep its initial timeout below the largest one.\<close>

definition rto_ok :: "tcp_config \<Rightarrow> duration \<Rightarrow> bool" where
  "rto_ok cfg r \<longleftrightarrow> min (tc_initial_rto cfg) duration_max \<le> r \<and> r \<le> tc_max_rto cfg"

definition queue_inv :: "tcp_config \<Rightarrow> u32 \<Rightarrow> u32 \<Rightarrow> u32 \<Rightarrow> flight list \<Rightarrow> nat \<Rightarrow> bytes \<Rightarrow> bool" where
  "queue_inv cfg una nxt sent fs payload queued \<longleftrightarrow> chain una fs nxt \<and> sent_ok nxt sent fs \<and>
     payload = length (fl_bytes fs) \<and> length queued + payload \<le> tc_send_capacity cfg \<and>
     span fs \<le> length (fl_bytes fs) + 1 \<and> list_all (\<lambda>f. rto_ok cfg (fl_rto f)) fs"

definition eof_ok :: "tcp_state \<Rightarrow> bool \<Rightarrow> bool" where
  "eof_ok st eof \<longleftrightarrow> (st \<in> {CloseWait, Closing, LastAck, TimeWait, Closed} \<longrightarrow> eof) \<and>
     (st \<in> {SynSent, SynReceived, Established, FinWait1, FinWait2} \<longrightarrow> \<not> eof)"

definition timers_ok :: "tcp_state \<Rightarrow> bool \<Rightarrow> duration option \<Rightarrow> duration option \<Rightarrow> bool" where
  "timers_ok st closed phase_deadline close_deadline \<longleftrightarrow>
     (st \<in> {SynSent, SynReceived, TimeWait} \<longrightarrow> phase_deadline \<noteq> None) \<and>
     (st \<in> {FinWait1, FinWait2, Closing, LastAck} \<or> st \<in> {Established, CloseWait} \<and> closed \<longrightarrow>
        close_deadline \<noteq> None)"

definition cwnd_ok :: "tcp_config \<Rightarrow> nat \<Rightarrow> nat \<Rightarrow> bool" where
  "cwnd_ok cfg cwnd ssthresh \<longleftrightarrow> 0 < cwnd \<and> cwnd \<le> tc_max_cwnd_bytes cfg \<and> 0 < ssthresh"

definition cn_queue_inv :: "tcp_config \<Rightarrow> connection \<Rightarrow> bool" where
  "cn_queue_inv cfg c \<longleftrightarrow> queue_inv cfg (cn_send_una c) (cn_send_next c) (cn_send_sent c) (cn_flights c)
     (cn_flight_payload c) (cn_queued c)"

definition cn_inv :: "tcp_config \<Rightarrow> connection \<Rightarrow> bool" where
  "cn_inv cfg c \<longleftrightarrow> cn_queue_inv cfg c \<and> phase_ok (cn_state c) (cn_write_closed c) (cn_flights c) (cn_queued c) \<and>
     length (cn_received c) \<le> tc_receive_capacity cfg \<and> cwnd_ok cfg (cn_cwnd c) (cn_ssthresh c) \<and>
     rto_ok cfg (cn_rto c) \<and> eof_ok (cn_state c) (cn_peer_eof c) \<and>
     timers_ok (cn_state c) (cn_write_closed c) (cn_phase_deadline c) (cn_close_deadline c)"

lemmas cn_inv_defs = cn_inv_def cn_queue_inv_def

text \<open>Flags.\<close>

lemma flag_simps [simp]:
  "has_flag SYN SYN" "\<not> has_flag SYN FIN" "\<not> has_flag SYN ACK" "has_flag (SYN OR ACK) SYN"
  "\<not> has_flag (SYN OR ACK) FIN" "\<not> has_flag (ACK OR PSH) SYN" "\<not> has_flag (ACK OR PSH) FIN"
  "has_flag (ACK OR PSH) ACK" "has_flag (FIN OR ACK) FIN" "\<not> has_flag (FIN OR ACK) SYN"
  "has_flag (FIN OR ACK) ACK" "has_flag (SYN OR ACK) ACK" "\<not> has_flag ACK SYN" "has_flag ACK ACK" "\<not> has_flag ACK FIN"
  by (simp_all add: has_flag_def SYN_def FIN_def ACK_def PSH_def)

section \<open>Queue lemmas\<close>

lemma queue_inv_span:
  assumes "queue_inv cfg una nxt sent fs payload queued" and "tcp_config_valid cfg"
  shows "span fs < 2 ^ 31" and "nxt = una + word_of_nat (span fs)"
proof -
  have "tc_send_capacity cfg \<le> 2 ^ 30"
    using assms(2) by (simp add: tcp_config_valid_def)
  then show "span fs < 2 ^ 31"
    using assms(1) by (simp add: queue_inv_def)
  show "nxt = una + word_of_nat (span fs)"
    using assms(1) chain_end by (auto simp: queue_inv_def)
qed

lemma queue_inv_sent:
  assumes "queue_inv cfg una nxt sent fs payload queued" and "tcp_config_valid cfg"
  obtains n where "sent = una + word_of_nat n" and "n \<le> span fs"
    and "fs \<noteq> [] \<and> fl_transmissions (last fs) = 0 \<longrightarrow> n = span (butlast fs)"
    and "\<not> (fs \<noteq> [] \<and> fl_transmissions (last fs) = 0) \<longrightarrow> n = span fs"
proof (cases "fs \<noteq> [] \<and> fl_transmissions (last fs) = 0")
  case True
  then have fs: "fs = butlast fs @ [last fs]"
    by simp
  have "chain una (butlast fs @ [last fs]) nxt"
    using assms(1) fs by (simp add: queue_inv_def)
  then have "chain una (butlast fs) (fl_sequence (last fs))"
    by (simp only: chain_snoc)
  then have "fl_sequence (last fs) = una + word_of_nat (span (butlast fs))"
    by (rule chain_end)
  moreover have "span (butlast fs) \<le> span fs"
    by (subst (2) fs) (simp only: span_simps)
  ultimately show thesis
    using that [of "span (butlast fs)"] True assms(1) by (auto simp: queue_inv_def sent_ok_def)
next
  case False
  then show thesis
    using that [of "span fs"] assms(1) queue_inv_span [OF assms] by (auto simp: queue_inv_def sent_ok_def)
qed

text \<open>Bookkeeping that leaves sequence numbers, data and transmission counts alone.\<close>

definition same_sent :: "flight \<Rightarrow> flight \<Rightarrow> bool" where
  "same_sent f g \<longleftrightarrow> same_wire f g \<and> fl_transmissions g = fl_transmissions f"

lemma same_sent_wire: "list_all2 same_sent fs gs \<Longrightarrow> list_all2 same_wire fs gs"
  by (auto simp: same_sent_def elim: list_all2_mono)

lemma same_sent_kinds:
  assumes "list_all2 same_sent fs gs"
  shows "list_all data_flight gs = list_all data_flight fs" "list_all syn_flight gs = list_all syn_flight fs"
    "list_all fin_flight gs = list_all fin_flight fs" "length gs = length fs" "(gs = []) = (fs = [])"
    "sent_ok nxt sent gs = sent_ok nxt sent fs"
proof -
  have nth: "same_sent (fs ! i) (gs ! i)" if "i < length fs" for i
    using assms that by (simp add: list_all2_conv_all_nth)
  show len: "length gs = length fs"
    using list_all2_lengthD [OF assms] by simp
  then show nil: "(gs = []) = (fs = [])"
    by auto
  have kinds: "data_flight (gs ! i) = data_flight (fs ! i)" "syn_flight (gs ! i) = syn_flight (fs ! i)"
      "fin_flight (gs ! i) = fin_flight (fs ! i)" if "i < length fs" for i
    using same_wire_simps [of "fs ! i" "gs ! i"] nth [OF that] by (simp_all add: same_sent_def)
  show "list_all data_flight gs = list_all data_flight fs" "list_all syn_flight gs = list_all syn_flight fs"
    "list_all fin_flight gs = list_all fin_flight fs"
    using kinds len by (simp_all add: list_all_length)
  have "list_all (\<lambda>f. 0 < fl_transmissions f) (butlast gs) = list_all (\<lambda>f. 0 < fl_transmissions f) (butlast fs)"
    using nth len by (auto simp: list_all_length nth_butlast same_sent_def)
  moreover have "fs \<noteq> [] \<Longrightarrow> same_sent (last fs) (last gs)"
    using nth [of "length fs - 1"] len by (simp add: last_conv_nth nil)
  ultimately show "sent_ok nxt sent gs = sent_ok nxt sent fs"
    by (auto simp: sent_ok_def nil same_sent_def same_wire_def)
qed

lemma queue_inv_same:
  assumes "queue_inv cfg una nxt sent fs payload queued" and "list_all2 same_sent fs gs"
    and "list_all (\<lambda>f. rto_ok cfg (fl_rto f)) gs"
  shows "queue_inv cfg una nxt sent gs payload queued"
  using assms chain_same_wire [OF same_sent_wire [OF assms(2)]] span_same_wire [OF same_sent_wire [OF assms(2)]]
    bytes_same_wire [OF same_sent_wire [OF assms(2)]] same_sent_kinds(6) [OF assms(2)]
  by (simp add: queue_inv_def)

lemma phase_ok_same: "list_all2 same_sent fs gs \<Longrightarrow> phase_ok st closed gs queued = phase_ok st closed fs queued"
  by (simp add: phase_ok_def same_sent_kinds)

text \<open>A flight appended to a fully sent queue.\<close>

lemma queue_inv_start:
  assumes "queue_inv cfg una nxt sent fs payload queued" and "fs = [] \<or> fl_transmissions (last fs) \<noteq> 0"
    and "fl_sequence f = nxt" and "fl_transmissions f = 0" and "pure_flight f" and "rto_ok cfg (fl_rto f)"
    and "data_flight f \<or> fs = []"
  shows "queue_inv cfg una (fl_end f) sent (fs @ [f]) (payload + length (fl_payload f)) queued'
    \<longleftrightarrow> length queued' + (payload + length (fl_payload f)) \<le> tc_send_capacity cfg"
proof -
  have c: "chain una fs nxt" "sent = nxt" "list_all (\<lambda>f. 0 < fl_transmissions f) (butlast fs)"
    using assms(1,2) by (auto simp: queue_inv_def sent_ok_def)
  have "chain una (fs @ [f]) (fl_end f)"
    using c(1) assms(3,5) by (simp add: chain_snoc)
  moreover have "list_all (\<lambda>f. 0 < fl_transmissions f) fs"
    using c(3) assms(2) by (cases fs rule: rev_cases) auto
  moreover have "fl_len f \<le> length (fl_payload f) + 1" "data_flight f \<Longrightarrow> fl_len f = length (fl_payload f)"
    using assms(5) by (auto simp: flight_kinds fl_len_def)
  ultimately show ?thesis
    using assms c(2) by (auto simp: queue_inv_def sent_ok_def)
qed

section \<open>Construction and the application's operations\<close>

lemma cn_active_inv:
  assumes "tcp_config_valid cfg"
  shows "cn_inv cfg (cn_active local remote iss now cfg)"
  using assms
  by (simp add: cn_active_def cn_start_flight_def cn_inv_defs queue_inv_def sent_ok_def phase_ok_def rto_ok_def
      eof_ok_def timers_ok_def cwnd_ok_def flight_kinds fl_len_def tcp_config_valid_def unat_gt_0 Let_def)

lemma cn_passive_inv:
  assumes "tcp_config_valid cfg"
  shows "wp (cn_passive syn iss now cfg) (\<lambda>c. cn_inv cfg c \<and> cn_local c = sg_destination syn \<and>
    cn_remote c = sg_source syn \<and> cn_state c = SynReceived \<and> \<not> cn_accepted c)"
  using assms
  by (simp add: cn_passive_def cn_active_def cn_start_flight_def cn_inv_defs queue_inv_def sent_ok_def phase_ok_def
      rto_ok_def eof_ok_def timers_ok_def cwnd_ok_def flight_kinds fl_len_def fl_end_def tcp_config_valid_def unat_gt_0 Let_def)

lemma cn_write_wp:
  assumes "cn_inv cfg c"
  shows "wp (cn_write b cfg c) (\<lambda>(r, c'). cn_inv cfg c' \<and>
    (case r of
       Inl e \<Rightarrow> c' = c
     | Inr n \<Rightarrow> n \<le> length b \<and> c' = c\<lparr>cn_queued := cn_queued c @ take n b\<rparr>))"
proof -
  have q: "length (cn_queued c) + cn_flight_payload c \<le> tc_send_capacity cfg"
    using assms by (simp add: cn_inv_defs queue_inv_def)
  define n where "n = min (length b) (tc_send_capacity cfg - cn_send_buffered c)"
  let ?c = "c\<lparr>cn_queued := cn_queued c @ take n b\<rparr>"
  have "cn_inv cfg ?c" if "cn_state c \<in> {Established, CloseWait}"
  proof -
    have "cn_queue_inv cfg ?c"
      using assms q by (simp add: cn_inv_defs queue_inv_def n_def cn_send_buffered_def)
    moreover have "phase_ok (cn_state c) (cn_write_closed c) (cn_flights c) (cn_queued ?c)"
      using assms that by (auto simp: cn_inv_def phase_ok_def)
    ultimately show ?thesis
      using assms by (simp add: cn_inv_def)
  qed
  then show ?thesis
    using assms q by (simp add: cn_write_def checked_sub_def cn_send_buffered_def n_def Let_def)
qed

lemma cn_read_inv:
  assumes "cn_inv cfg c" and "cn_read n c = (r, out, c')"
  shows "cn_inv cfg c'"
  using assms by (auto simp: cn_read_def cn_inv_defs Let_def split: option.split_asm if_split_asm)

lemma cn_close_inv:
  assumes "cn_inv cfg c" and "cn_close now cfg c = (r, c')"
  shows "cn_inv cfg c'"
proof (cases "c' = c")
  case False
  then have "c' = c\<lparr>cn_write_closed := True, cn_close_deadline := Some (saturating_add now (tc_close_timeout cfg))\<rparr>"
      "cn_state c \<in> {Established, CloseWait}"
    using assms(2) by (simp_all add: cn_close_def split: if_split_asm)
  then show ?thesis
    using assms(1) by (simp add: cn_inv_defs phase_ok_def timers_ok_def) (elim disjE; simp)
qed (use assms in simp)

lemma cn_fail_inv:
  assumes "cn_inv cfg c" and "st \<in> {ResetState, TimedOutState, Failed}"
  shows "cn_inv cfg (cn_fail st c)"
  using assms
  by (simp add: cn_fail_def cn_inv_defs queue_inv_def sent_ok_def phase_ok_def eof_ok_def timers_ok_def)
    (elim disjE; simp)

lemma cn_tick_inv:
  assumes "cn_inv cfg c"
  shows "cn_inv cfg (cn_tick now cfg c)"
proof -
  have "cn_inv cfg (c\<lparr>cn_state := Closed, cn_phase_deadline := None, cn_ack_pending := False\<rparr>)" if "cn_state c = TimeWait"
    using assms that by (simp add: cn_inv_defs) (simp add: phase_ok_def eof_ok_def timers_ok_def)
  then show ?thesis
    using assms cn_fail_inv [OF assms] by (simp add: cn_tick_def)
qed

section \<open>Data from the peer\<close>

lemma cn_peer_fin_simps [simp]:
  "cn_received (cn_peer_fin now cfg c) = cn_received c" "cn_queued (cn_peer_fin now cfg c) = cn_queued c"
  "cn_flights (cn_peer_fin now cfg c) = cn_flights c" "cn_flight_payload (cn_peer_fin now cfg c) = cn_flight_payload c"
  "cn_send_una (cn_peer_fin now cfg c) = cn_send_una c" "cn_send_next (cn_peer_fin now cfg c) = cn_send_next c"
  "cn_send_sent (cn_peer_fin now cfg c) = cn_send_sent c" "cn_cwnd (cn_peer_fin now cfg c) = cn_cwnd c"
  "cn_ssthresh (cn_peer_fin now cfg c) = cn_ssthresh c" "cn_rto (cn_peer_fin now cfg c) = cn_rto c"
  "cn_receive_next (cn_peer_fin now cfg c) = cn_receive_next c" "cn_peer_eof (cn_peer_fin now cfg c) = cn_peer_eof c"
  "cn_write_closed (cn_peer_fin now cfg c) = cn_write_closed c"
  by (simp_all add: cn_peer_fin_def cn_enter_time_wait_def split: tcp_state.split)

lemma cn_peer_fin_inv:
  assumes "cn_inv cfg c" and "cn_state c \<in> {Established, FinWait1, FinWait2}"
  shows "cn_inv cfg (cn_peer_fin now cfg (c\<lparr>cn_receive_next := n, cn_peer_eof := True\<rparr>))"
  using assms
  by (elim insertE; simp add: cn_inv_defs; simp add: cn_peer_fin_def cn_enter_time_wait_def phase_ok_def eof_ok_def timers_ok_def)

text \<open>The data a segment adds: the bytes between what was already received and the end of the window.\<close>

definition rx_window :: "tcp_config \<Rightarrow> connection \<Rightarrow> nat" where
  "rx_window cfg c = min (tc_receive_capacity cfg - length (cn_received c)) (unat (tc_receive_window_limit cfg))"

definition rx_skip :: "segment \<Rightarrow> connection \<Rightarrow> nat" where
  "rx_skip s c = unat (cn_receive_next c - sg_sequence s)"

definition rx_count :: "segment \<Rightarrow> tcp_config \<Rightarrow> connection \<Rightarrow> nat" where
  "rx_count s cfg c = min (length (sg_payload s) - rx_skip s c) (rx_window cfg c)"

definition rx_deliver :: "segment \<Rightarrow> tcp_config \<Rightarrow> connection \<Rightarrow> connection" where
  "rx_deliver s cfg c = c\<lparr>cn_ack_pending := True,
     cn_received := cn_received c @ take (rx_count s cfg c) (drop (rx_skip s c) (sg_payload s)),
     cn_receive_next := cn_receive_next c + word_of_nat (rx_count s cfg c)\<rparr>"

definition rx_ignored :: "segment \<Rightarrow> connection \<Rightarrow> bool" where
  "rx_ignored s c \<longleftrightarrow> cn_peer_eof c \<or> cn_state c \<notin> {Established, FinWait1, FinWait2} \<or>
     before (cn_receive_next c) (sg_sequence s) \<or> rx_skip s c > length (sg_payload s)"

lemma window_word:
  assumes "length (cn_received c) \<le> tc_receive_capacity cfg"
  obtains w where "cn_advertised_window cfg c = Some w" and "unat w = rx_window cfg c"
proof -
  have "rx_window cfg c < 65536"
    using unat_u16_less [of "tc_receive_window_limit cfg"] by (simp add: rx_window_def min_less_iff_disj)
  then show thesis
    using assms that [of "word_of_nat (rx_window cfg c)"]
    by (simp add: cn_advertised_window_def checked_sub_def rx_window_def unat_of_nat_u16)
qed

lemma cn_receive_data_eq:
  assumes "length (cn_received c) \<le> tc_receive_capacity cfg"
  shows "cn_receive_data s now cfg c = Some
    (if sg_payload s = [] \<and> \<not> has_flag (sg_flags s) FIN then c
     else if rx_ignored s c then c\<lparr>cn_ack_pending := True\<rparr>
     else
       (let d = rx_deliver s cfg c in
        if has_flag (sg_flags s) FIN \<and> sg_sequence s + word_of_nat (length (sg_payload s)) = cn_receive_next d \<and>
           rx_count s cfg c < rx_window cfg c
        then cn_peer_fin now cfg (d\<lparr>cn_receive_next := cn_receive_next d + 1, cn_peer_eof := True\<rparr>) else d))"
proof -
  let ?c = "c\<lparr>cn_ack_pending := True\<rparr>"
  obtain w where w: "cn_advertised_window cfg ?c = Some w" "unat w = rx_window cfg c"
    using window_word [of ?c cfg] assms by (auto simp: rx_window_def)
  have sl: "slice_of (rx_skip s c) (rx_skip s c + rx_count s cfg c) (sg_payload s) =
      Some (take (rx_count s cfg c) (drop (rx_skip s c) (sg_payload s)))"
    if "\<not> length (sg_payload s) < rx_skip s c"
    using that by (auto simp: slice_of_def subslice_def rx_count_def)
  consider "sg_payload s = [] \<and> \<not> has_flag (sg_flags s) FIN" | "\<not> (sg_payload s = [] \<and> \<not> has_flag (sg_flags s) FIN)" "rx_ignored s c"
    | "\<not> (sg_payload s = [] \<and> \<not> has_flag (sg_flags s) FIN)" "\<not> rx_ignored s c"
    by blast
  then show ?thesis
  proof cases
    case 1
    then show ?thesis
      by (simp add: cn_receive_data_def)
  next
    case 2
    from 2(2) have "cn_receive_data s now cfg c = Some ?c"
      unfolding rx_ignored_def rx_skip_def using 2(1)
      by (cases "sg_payload s = []"; elim disjE) (simp_all add: cn_receive_data_def Let_def w)
    then show ?thesis
      by (simp only: if_not_P [OF 2(1)] if_P [OF 2(2)])
  next
    case 3
    then have "\<not> length (sg_payload s) < rx_skip s c"
      by (simp add: rx_ignored_def)
    note sl = sl [OF this]
    have skip: "unat (cn_receive_next c - sg_sequence s) = rx_skip s c"
        "min (length (sg_payload s) - rx_skip s c) (rx_window cfg c) = rx_count s cfg c"
      by (simp_all add: rx_skip_def rx_count_def)
    have open_state: "\<not> (cn_peer_eof ?c \<or> cn_state ?c \<notin> {Established, FinWait1, FinWait2})"
      using 3 by (simp add: rx_ignored_def)
    have not: "\<not> before (cn_receive_next c) (sg_sequence s)" "\<not> length (sg_payload s) < rx_skip s c"
      using 3 by (simp_all add: rx_ignored_def)
    let ?fin = "has_flag (sg_flags s) FIN \<and> sg_sequence s + word_of_nat (length (sg_payload s)) =
      cn_receive_next c + word_of_nat (rx_count s cfg c) \<and> rx_count s cfg c < rx_window cfg c"
    have "cn_receive_data s now cfg c =
        (if ?fin then Some (cn_peer_fin now cfg ((rx_deliver s cfg c)\<lparr>cn_receive_next := cn_receive_next c +
            word_of_nat (rx_count s cfg c) + 1, cn_peer_eof := True\<rparr>)) else Some (rx_deliver s cfg c))"
      unfolding cn_receive_data_def Let_def if_not_P [OF 3(1)] if_not_P [OF open_state]
      using not by (simp add: w skip sl rx_deliver_def split del: if_split cong: if_cong)
    moreover have "cn_receive_next (rx_deliver s cfg c) = cn_receive_next c + word_of_nat (rx_count s cfg c)"
      by (simp add: rx_deliver_def)
    ultimately show ?thesis
      by (simp only: if_not_P [OF 3(1)] if_not_P [OF 3(2)] Let_def if_distrib [of Some])
  qed
qed

lemma rx_deliver_simps [simp]:
  "cn_queue_inv cfg' (rx_deliver s cfg c) = cn_queue_inv cfg' c" "cn_state (rx_deliver s cfg c) = cn_state c"
  "cn_write_closed (rx_deliver s cfg c) = cn_write_closed c" "cn_flights (rx_deliver s cfg c) = cn_flights c"
  "cn_queued (rx_deliver s cfg c) = cn_queued c" "cn_cwnd (rx_deliver s cfg c) = cn_cwnd c"
  "cn_ssthresh (rx_deliver s cfg c) = cn_ssthresh c" "cn_rto (rx_deliver s cfg c) = cn_rto c"
  "cn_peer_eof (rx_deliver s cfg c) = cn_peer_eof c" "cn_phase_deadline (rx_deliver s cfg c) = cn_phase_deadline c"
  "cn_close_deadline (rx_deliver s cfg c) = cn_close_deadline c"
  by (simp_all add: rx_deliver_def cn_queue_inv_def)

lemma rx_deliver_inv:
  assumes "cn_inv cfg c"
  shows "cn_inv cfg (rx_deliver s cfg c)"
proof -
  have "rx_count s cfg c \<le> tc_receive_capacity cfg - length (cn_received c)"
    by (simp add: rx_count_def rx_window_def)
  moreover have "length (cn_received c) \<le> tc_receive_capacity cfg"
    using assms by (simp add: cn_inv_def)
  ultimately have "length (cn_received (rx_deliver s cfg c)) \<le> tc_receive_capacity cfg"
    by (simp add: rx_deliver_def)
  then show ?thesis
    using assms unfolding cn_inv_def rx_deliver_simps by blast
qed

lemma cn_receive_data_wp:
  assumes "cn_inv cfg c"
  shows "wp (cn_receive_data s now cfg c) (cn_inv cfg)"
proof -
  have "length (cn_received c) \<le> tc_receive_capacity cfg"
    using assms by (simp add: cn_inv_def)
  note eq = cn_receive_data_eq [OF this]
  have "cn_state (rx_deliver s cfg c) = cn_state c" "cn_inv cfg (c\<lparr>cn_ack_pending := True\<rparr>)"
    using assms by (simp_all add: rx_deliver_def cn_inv_defs)
  then show ?thesis
    using assms rx_deliver_inv [OF assms] cn_peer_fin_inv [OF rx_deliver_inv [OF assms]]
    by (simp add: eq Let_def rx_ignored_def)
qed

section \<open>Acknowledgments\<close>

text \<open>What the steps of an acknowledgment leave alone.\<close>

definition same_core :: "connection \<Rightarrow> connection \<Rightarrow> bool" where
  "same_core c c' \<longleftrightarrow> cn_state c' = cn_state c \<and> cn_write_closed c' = cn_write_closed c \<and> cn_queued c' = cn_queued c \<and>
     cn_flight_payload c' = cn_flight_payload c \<and> cn_send_una c' = cn_send_una c \<and> cn_send_next c' = cn_send_next c \<and>
     cn_send_sent c' = cn_send_sent c \<and> cn_received c' = cn_received c \<and> cn_peer_eof c' = cn_peer_eof c \<and>
     cn_phase_deadline c' = cn_phase_deadline c \<and> cn_close_deadline c' = cn_close_deadline c \<and>
     cn_receive_next c' = cn_receive_next c \<and> cn_local c' = cn_local c \<and> cn_remote c' = cn_remote c \<and>
     cn_accepted c' = cn_accepted c"

lemma same_core_refl [simp]: "same_core c c"
  by (simp add: same_core_def)

lemma same_core_trans: "same_core c d \<Longrightarrow> same_core d e \<Longrightarrow> same_core c e"
  by (simp add: same_core_def)

lemma list_all2_same_sent_refl [simp]: "list_all2 same_sent fs fs"
  by (simp add: list_all2_conv_all_nth same_sent_def same_wire_def)

lemma list_all2_same_sent_trans:
  "list_all2 same_sent fs gs \<Longrightarrow> list_all2 same_sent gs hs \<Longrightarrow> list_all2 same_sent fs hs"
  by (erule (1) list_all2_trans [rotated]) (simp add: same_sent_def same_wire_def)

definition rtos_ok :: "tcp_config \<Rightarrow> connection \<Rightarrow> bool" where
  "rtos_ok cfg c \<longleftrightarrow> rto_ok cfg (cn_rto c) \<and> list_all (\<lambda>f. rto_ok cfg (fl_rto f)) (cn_flights c)"

lemma cn_update_window_same:
  "same_core c (cn_update_window s c)" "list_all2 same_sent (cn_flights c) (cn_flights (cn_update_window s c))"
  "cn_rto (cn_update_window s c) = cn_rto c" "cn_cwnd (cn_update_window s c) = cn_cwnd c"
  "cn_ssthresh (cn_update_window s c) = cn_ssthresh c" "rtos_ok cfg c \<Longrightarrow> rtos_ok cfg (cn_update_window s c)"
  "cn_srtt (cn_update_window s c) = cn_srtt c"
proof -
  have m: "list_all2 same_sent fs (map (\<lambda>f. f\<lparr>fl_persist := False\<rparr>) fs)" for fs
    by (simp add: list_all2_conv_all_nth same_sent_def same_wire_def)
  show "same_core c (cn_update_window s c)" "list_all2 same_sent (cn_flights c) (cn_flights (cn_update_window s c))"
    "cn_rto (cn_update_window s c) = cn_rto c" "cn_cwnd (cn_update_window s c) = cn_cwnd c"
    "cn_ssthresh (cn_update_window s c) = cn_ssthresh c" "cn_srtt (cn_update_window s c) = cn_srtt c"
    using m by (simp_all add: cn_update_window_def same_core_def)
  show "rtos_ok cfg c \<Longrightarrow> rtos_ok cfg (cn_update_window s c)"
    by (simp add: cn_update_window_def rtos_ok_def list_all_iff)
qed

lemma cn_update_rto_same:
  "same_core c (cn_update_rto sample cfg c)" "cn_flights (cn_update_rto sample cfg c) = cn_flights c"
  "cn_cwnd (cn_update_rto sample cfg c) = cn_cwnd c" "cn_ssthresh (cn_update_rto sample cfg c) = cn_ssthresh c"
  by (simp_all add: cn_update_rto_def Let_def same_core_def split: prod.split)

lemma rto_ok_clamp: "tcp_config_valid cfg \<Longrightarrow> rto_ok cfg (min (max r (tc_initial_rto cfg)) (tc_max_rto cfg))"
  by (auto simp: rto_ok_def tcp_config_valid_def)

lemma cn_update_rto_ok: "tcp_config_valid cfg \<Longrightarrow> rto_ok cfg (cn_rto (cn_update_rto sample cfg c))"
  by (simp add: cn_update_rto_def Let_def rto_ok_clamp split: prod.split)

lemma cn_restart_timer_same:
  "same_core c (cn_restart_timer now c)" "list_all2 same_sent (cn_flights c) (cn_flights (cn_restart_timer now c))"
  "cn_cwnd (cn_restart_timer now c) = cn_cwnd c" "cn_ssthresh (cn_restart_timer now c) = cn_ssthresh c"
  "cn_rto (cn_restart_timer now c) = cn_rto c" "rtos_ok cfg c \<Longrightarrow> rtos_ok cfg (cn_restart_timer now c)"
proof -
  show "same_core c (cn_restart_timer now c)" "cn_cwnd (cn_restart_timer now c) = cn_cwnd c"
    "cn_ssthresh (cn_restart_timer now c) = cn_ssthresh c" "cn_rto (cn_restart_timer now c) = cn_rto c"
    by (simp_all add: cn_restart_timer_def same_core_def split: list.split)
  show "list_all2 same_sent (cn_flights c) (cn_flights (cn_restart_timer now c))"
    by (cases "cn_flights c") (simp_all add: cn_restart_timer_def same_sent_def same_wire_def)
  show "rtos_ok cfg c \<Longrightarrow> rtos_ok cfg (cn_restart_timer now c)"
    by (cases "cn_flights c") (simp_all add: cn_restart_timer_def rtos_ok_def)
qed

lemma send_mss_pos: "tcp_config_valid cfg \<Longrightarrow> 0 < cn_send_mss cfg c"
proof -
  assume v: "tcp_config_valid cfg"
  have "max (cn_peer_mss c) 1 \<noteq> 0"
    by (metis max.cobounded2 word_le_0_iff zero_neq_one)
  moreover have "tc_mss cfg \<noteq> 0"
    using v by (simp add: tcp_config_valid_def)
  ultimately show ?thesis
    by (simp add: cn_send_mss_def min_def unat_gt_0)
qed

lemma initial_cwnd_ok: "tcp_config_valid cfg \<Longrightarrow> 0 < cn_initial_cwnd cfg c \<and> cn_initial_cwnd cfg c \<le> tc_max_cwnd_bytes cfg"
proof -
  assume v: "tcp_config_valid cfg"
  then have "0 < unat (tc_initial_cwnd_segments cfg)" "0 < tc_max_cwnd_bytes cfg"
    by (auto simp: tcp_config_valid_def unat_gt_0)
  then show ?thesis
    using send_mss_pos [OF v, of c] by (simp add: cn_initial_cwnd_def Let_def)
qed

lemma cn_grow_cwnd_same:
  "same_core c (cn_grow_cwnd flags n cfg c)" "cn_flights (cn_grow_cwnd flags n cfg c) = cn_flights c"
  "cn_ssthresh (cn_grow_cwnd flags n cfg c) = cn_ssthresh c"
  by (simp_all add: cn_grow_cwnd_def Let_def same_core_def)

lemma cn_grow_cwnd_ok:
  assumes "tcp_config_valid cfg" and "cwnd_ok cfg (cn_cwnd c) (cn_ssthresh c)" and "rto_ok cfg (cn_rto c)"
  shows "cwnd_ok cfg (cn_cwnd (cn_grow_cwnd flags n cfg c)) (cn_ssthresh c)"
    and "rto_ok cfg (cn_rto (cn_grow_cwnd flags n cfg c))"
proof -
  have "0 < tc_max_cwnd_bytes cfg"
    using assms(1) by (simp add: tcp_config_valid_def)
  moreover have "0 < sat_add 64 (cn_cwnd c) m" for m
    using assms(2) by (simp add: sat_add_def cwnd_ok_def)
  ultimately show "cwnd_ok cfg (cn_cwnd (cn_grow_cwnd flags n cfg c)) (cn_ssthresh c)"
    using assms(2) initial_cwnd_ok [OF assms(1), of c] by (simp add: cn_grow_cwnd_def Let_def cwnd_ok_def)
  show "rto_ok cfg (cn_rto (cn_grow_cwnd flags n cfg c))"
    using assms(3) rto_ok_clamp [OF assms(1)] by (simp add: cn_grow_cwnd_def Let_def)
qed

end
