(* ===== verification/Tcp_Engine.thy ===== *)
theory Tcp_Engine
  imports Tcp_Invariant
begin

text \<open>
  The parts of a TCP connection that move sequence numbers: acknowledgments, arriving segments, and
  transmission over a device. They preserve the invariant and do not panic.
\<close>

section \<open>Trimming\<close>

lemma trim_append: "k \<le> span fs \<Longrightarrow> trim k (fs @ gs) = trim k fs @ gs"
proof (induction fs arbitrary: k)
  case Nil
  then show ?case
    by (cases gs) simp_all
qed simp

lemma trim_transmissions: "list_all (\<lambda>f. Q (fl_transmissions f)) fs \<Longrightarrow> list_all (\<lambda>f. Q (fl_transmissions f)) (trim k fs)"
  by (induction fs arbitrary: k) simp_all

lemma trim_extra:
  assumes "list_all pure_flight fs"
  shows "span (trim k fs) + length (fl_bytes fs) \<le> span fs + length (fl_bytes (trim k fs))"
  using assms
proof (induction fs arbitrary: k)
  case (Cons f fs)
  consider "k = 0" | "fl_len f \<le> k" "k \<noteq> 0" | "0 < k" "k < fl_len f"
    by linarith
  then show ?case
  proof cases
    case 2
    have "length (fl_payload f) \<le> fl_len f"
      by (simp add: fl_len_def)
    then show ?thesis
      using 2 Cons.IH [of "k - fl_len f"] Cons.prems by simp
  next
    case 3
    let ?g = "f\<lparr>fl_payload := drop k (fl_payload f), fl_sequence := fl_sequence f + word_of_nat k, fl_rtt_eligible := False\<rparr>"
    have "fl_len f = length (fl_payload f)"
      using 3 Cons.prems by (auto simp: flight_kinds fl_len_def)
    moreover from this have "fl_len ?g = fl_len f - k"
      by (simp add: fl_len_def)
    ultimately show ?thesis
      using 3 by simp
  qed simp
qed simp

lemma trim_same_sent: "list_all2 same_sent fs gs \<Longrightarrow> list_all2 same_sent (trim k fs) (trim k gs)"
proof (induction fs gs arbitrary: k rule: list_all2_induct)
  case (Cons f fs g gs)
  have w: "same_wire f g" "fl_transmissions g = fl_transmissions f"
    using Cons.hyps(1) by (simp_all add: same_sent_def)
  have "fl_len g = fl_len f"
    using same_wire_simps(2) [OF w(1)] .
  then show ?case
    using Cons w by (simp add: same_sent_def same_wire_def)
qed simp

lemma trim_sent_ok:
  assumes "queue_inv cfg una nxt sent fs payload queued" and "tcp_config_valid cfg"
    and "sent = una + word_of_nat n" and "n \<le> span fs" and "k \<le> n"
  shows "sent_ok nxt sent (trim k fs)"
proof -
  note span = queue_inv_span [OF assms(1,2)]
  have ch: "chain una fs nxt" and so: "sent_ok nxt sent fs"
    using assms(1) by (simp_all add: queue_inv_def)
  obtain m where m: "sent = una + word_of_nat m" "m \<le> span fs"
      "fs \<noteq> [] \<and> fl_transmissions (last fs) = 0 \<longrightarrow> m = span (butlast fs)"
      "\<not> (fs \<noteq> [] \<and> fl_transmissions (last fs) = 0) \<longrightarrow> m = span fs"
    using queue_inv_sent [OF assms(1,2)] by metis
  have "m = n"
    using m(1,2) assms(3,4) span(1) offset_inj [of m n una] by simp
  show ?thesis
  proof (cases "fs \<noteq> [] \<and> fl_transmissions (last fs) = 0")
    case True
    then have fs: "fs = butlast fs @ [last fs]"
      by simp
    have "k \<le> span (butlast fs)"
      using m(3) True \<open>m = n\<close> assms(5) by simp
    then have t: "trim k fs = trim k (butlast fs) @ [last fs]"
      by (subst fs) (rule trim_append)
    have "list_all (\<lambda>f. 0 < fl_transmissions f) (trim k (butlast fs))"
      using so trim_transmissions [of "\<lambda>n. 0 < n"] by (simp add: sent_ok_def)
    then show ?thesis
      using so True by (simp add: sent_ok_def t)
  next
    case False
    then have "sent = nxt"
      using so by (auto simp: sent_ok_def)
    moreover have "\<not> (trim k fs \<noteq> [] \<and> fl_transmissions (last (trim k fs)) = 0)"
      using False trim_last by (metis trim.simps(1))
    ultimately show ?thesis
      using so trim_butlast [of "\<lambda>n. 0 < n" fs k] by (auto simp: sent_ok_def)
  qed
qed

lemma queue_inv_trim:
  assumes "queue_inv cfg una nxt sent fs payload queued" and "tcp_config_valid cfg"
    and "sent = una + word_of_nat n" and "n \<le> span fs" and "k \<le> n"
  shows "queue_inv cfg (una + word_of_nat k) nxt sent (trim k fs) (length (fl_bytes (trim k fs))) queued"
proof -
  note span = queue_inv_span [OF assms(1,2)]
  have ch: "chain una fs nxt"
    using assms(1) by (simp add: queue_inv_def)
  have k: "k \<le> span fs"
    using assms(4,5) by simp
  have "length (fl_bytes (trim k fs)) \<le> length (fl_bytes fs)"
    using ack_loop_trim [OF ch k span(1), of undefined "\<lparr>ap_completed_flags = 0, ap_sample = None, ap_ambiguous = False, ap_payload = 0\<rparr>"]
    by auto
  then show ?thesis
    using assms(1) trim_chain(1) [OF ch k span(1)] trim_sent_ok [OF assms]
      trim_extra [OF chain_pure [OF ch], of k] trim_rto [of "rto_ok cfg" fs k]
    by (auto simp: queue_inv_def)
qed

section \<open>Acknowledgments\<close>

text \<open>
  An acceptable acknowledgment is old, repeats the last one, or acknowledges \<open>k\<close> more positions. In the last
  case it trims the queue by \<open>k\<close> and then only adjusts timers, windows and, for a FIN, the state.
\<close>

lemma cn_acknowledge_cases:
  assumes v: "tcp_config_valid cfg" and q: "cn_queue_inv cfg c" and r: "rtos_ok cfg c"
    and w: "cwnd_ok cfg (cn_cwnd c) (cn_ssthresh c)" and a: "\<not> before (cn_send_sent c) (sg_acknowledgment s)"
  obtains (old) "before (sg_acknowledgment s) (cn_send_una c)" and "cn_acknowledge s now cfg c = Some c"
  | (window) "sg_acknowledgment s = cn_send_una c" and "cn_acknowledge s now cfg c = Some (cn_update_window s c)"
  | (progress) k p c' where "0 < k" and "k \<le> span (cn_flights c)" and "sg_acknowledgment s = cn_send_una c + word_of_nat k"
      and "k \<le> unat (cn_send_sent c - cn_send_una c)"
      and "ack_loop (sg_acknowledgment s) now (cn_flights (cn_update_window s c))
        \<lparr>ap_completed_flags = 0, ap_sample = None, ap_ambiguous = False, ap_payload = 0\<rparr> =
          (True, trim k (cn_flights (cn_update_window s c)), p)"
      and "ap_payload p \<le> length (fl_bytes (cn_flights c))"
      and "fl_bytes (cn_flights c') = drop (ap_payload p) (fl_bytes (cn_flights c))"
      and "list_all2 same_sent (trim k (cn_flights c)) (cn_flights c')"
      and "cn_queue_inv cfg c'" and "rtos_ok cfg c'" and "cwnd_ok cfg (cn_cwnd c') (cn_ssthresh c')"
      and "same_core (c\<lparr>cn_send_una := sg_acknowledgment s,
        cn_flight_payload := cn_flight_payload c - ap_payload p\<rparr>) c'"
      and "cn_acknowledge s now cfg c = Some (if has_flag (ap_completed_flags p) FIN then cn_fin_acked now cfg c' else c')"
proof -
  let ?ack = "sg_acknowledgment s"
  define u where "u = cn_update_window s c"
  note u = cn_update_window_same [where c = c and s = s, folded u_def]
  have uq: "queue_inv cfg (cn_send_una c) (cn_send_next c) (cn_send_sent c) (cn_flights u) (cn_flight_payload c) (cn_queued c)"
    using queue_inv_same [OF q [unfolded cn_queue_inv_def] u(2)] u(6) [OF r] by (simp add: rtos_ok_def)
  consider "before ?ack (cn_send_una c)" | "\<not> before ?ack (cn_send_una c)" "?ack = cn_send_una c"
    | "\<not> before ?ack (cn_send_una c)" "?ack \<noteq> cn_send_una c"
    by blast
  then show thesis
  proof cases
    case 1
    then show ?thesis
      using old by (simp add: cn_acknowledge_def)
  next
    case 2
    then show ?thesis
      using window u(1) by (simp add: cn_acknowledge_def u_def same_core_def)
  next
    case 3
    obtain n where n: "cn_send_sent c = cn_send_una c + word_of_nat n" "n \<le> span (cn_flights u)"
      using queue_inv_sent [OF uq v] by metis
    have sp: "span (cn_flights u) < 2 ^ 31"
      using queue_inv_span [OF uq v] by simp
    obtain k where k: "?ack = cn_send_una c + word_of_nat k" "k \<le> n"
      using ack_between [OF 3(1) a n(1)] n(2) sp by auto
    have kn: "k \<le> span (cn_flights u)" "0 < k"
      using k n(2) 3(2) by (auto intro: gr0I)
    have ch: "chain (cn_send_una c) (cn_flights u) (cn_send_next c)"
      using uq by (simp add: queue_inv_def)
    let ?p0 = "\<lparr>ap_completed_flags = 0, ap_sample = None, ap_ambiguous = False, ap_payload = 0\<rparr> :: ack_progress"
    obtain p where p: "ack_loop ?ack now (cn_flights u) ?p0 = (True, trim k (cn_flights u), p)"
        "ap_payload p + length (fl_bytes (trim k (cn_flights u))) = length (fl_bytes (cn_flights u))"
        "fl_bytes (trim k (cn_flights u)) = drop (ap_payload p) (fl_bytes (cn_flights u))"
      using ack_loop_trim [OF ch kn(1) sp, of now ?p0] k(1) by auto
    have pay: "cn_flight_payload u = length (fl_bytes (cn_flights u))" "cn_flight_payload u = cn_flight_payload c"
      using uq u(1) by (simp_all add: queue_inv_def same_core_def)
    define c1 where "c1 = u\<lparr>cn_flights := trim k (cn_flights u), cn_flight_payload := cn_flight_payload c - ap_payload p,
      cn_send_una := ?ack\<rparr>"
    define c2 where "c2 = (case ap_sample p of Some sample \<Rightarrow> if ap_ambiguous p then c1 else cn_update_rto sample cfg c1 | None \<Rightarrow> c1)"
    define c' where "c' = cn_grow_cwnd (ap_completed_flags p) (ap_payload p) cfg (cn_restart_timer now c2)"
    have eq: "cn_acknowledge s now cfg c = Some (if has_flag (ap_completed_flags p) FIN then cn_fin_acked now cfg c' else c')"
    proof -
      have "checked_sub (cn_flight_payload u) (ap_payload p) = Some (cn_flight_payload c - ap_payload p)"
          "cn_send_una u = cn_send_una c"
        using p(2) pay u(1) by (simp_all add: checked_sub_def same_core_def)
      then show ?thesis
        using 3 unfolding cn_acknowledge_def Let_def u_def [symmetric]
        by (simp add: p(1) c1_def [symmetric] c2_def [symmetric] c'_def [symmetric] cong: option.case_cong if_cong)
    qed
    have c1: "same_core (c\<lparr>cn_send_una := ?ack, cn_flight_payload := cn_flight_payload c - ap_payload p\<rparr>) c1"
        "cn_flights c1 = trim k (cn_flights u)" "cn_cwnd c1 = cn_cwnd c" "cn_ssthresh c1 = cn_ssthresh c" "rtos_ok cfg c1"
      using u trim_rto [of "rto_ok cfg" "cn_flights u" k] u(6) [OF r] by (simp_all add: c1_def same_core_def rtos_ok_def)
    have c2: "same_core c1 c2" "cn_flights c2 = cn_flights c1" "cn_cwnd c2 = cn_cwnd c1" "cn_ssthresh c2 = cn_ssthresh c1"
        "rtos_ok cfg c2"
      using c1(5) cn_update_rto_same [where c = c1 and cfg = cfg] cn_update_rto_ok [OF v, of _ c1]
      by (auto simp: c2_def rtos_ok_def split: option.split)
    note rt = cn_restart_timer_same [where c = c2 and now = now]
    have c': "same_core c1 c'" "list_all2 same_sent (trim k (cn_flights u)) (cn_flights c')"
        "cwnd_ok cfg (cn_cwnd c') (cn_ssthresh c')" "rtos_ok cfg c'"
    proof -
      show "same_core c1 c'"
        unfolding c'_def using c2(1) rt(1) cn_grow_cwnd_same(1) same_core_trans by blast
      show "list_all2 same_sent (trim k (cn_flights u)) (cn_flights c')"
        using rt(2) c2(2) c1(2) by (simp add: c'_def cn_grow_cwnd_same)
      have ok: "cwnd_ok cfg (cn_cwnd (cn_restart_timer now c2)) (cn_ssthresh (cn_restart_timer now c2))"
          "rtos_ok cfg (cn_restart_timer now c2)"
        using w rt(3-5) rt(6) [OF c2(5)] c1(3,4) c2(3,4) by simp_all
      then show "cwnd_ok cfg (cn_cwnd c') (cn_ssthresh c')" "rtos_ok cfg c'"
        using cn_grow_cwnd_ok [OF v, of "cn_restart_timer now c2" "ap_completed_flags p" "ap_payload p"]
        by (simp_all add: c'_def cn_grow_cwnd_same rtos_ok_def)
    qed
    have core: "same_core (c\<lparr>cn_send_una := ?ack, cn_flight_payload := cn_flight_payload c - ap_payload p\<rparr>) c'"
      using same_core_trans [OF c1(1) c'(1)] .
    have "queue_inv cfg ?ack (cn_send_next c) (cn_send_sent c) (trim k (cn_flights u))
        (cn_flight_payload c - ap_payload p) (cn_queued c)"
    proof -
      have "cn_flight_payload c - ap_payload p = length (fl_bytes (trim k (cn_flights u)))"
        using p(2) pay by simp
      then show ?thesis
        using queue_inv_trim [OF uq v n k(2)] k(1) by simp
    qed
    from queue_inv_same [OF this c'(2)] have "cn_queue_inv cfg c'"
      using core c'(4) by (simp add: cn_queue_inv_def same_core_def rtos_ok_def)
    moreover have "fl_bytes (cn_flights c') = drop (ap_payload p) (fl_bytes (cn_flights c))"
      using bytes_same_wire [OF same_sent_wire [OF c'(2)]] p(3) bytes_same_wire [OF same_sent_wire [OF u(2)]] by simp
    moreover have "list_all2 same_sent (trim k (cn_flights c)) (cn_flights c')"
      using list_all2_same_sent_trans [OF trim_same_sent [OF u(2)] c'(2)] .
    moreover have "ap_payload p \<le> length (fl_bytes (cn_flights c))" "k \<le> span (cn_flights c)"
      using p(2) bytes_same_wire [OF same_sent_wire [OF u(2)]] span_same_wire [OF same_sent_wire [OF u(2)]] kn(1) by simp_all
    moreover have "k \<le> unat (cn_send_sent c - cn_send_una c)"
      using n k(2) sp unat_offset_diff [of 0 n "cn_send_una c"] by simp
    ultimately show ?thesis
      using progress [of k p c'] k(1) kn(2) p(1) c'(3,4) core eq by (simp add: u_def)
  qed
qed

lemma cn_inv_rtos: "cn_inv cfg c \<Longrightarrow> rtos_ok cfg c"
  by (simp add: cn_inv_defs queue_inv_def rtos_ok_def)

text \<open>What an acknowledgment leaves of the receiving side.\<close>

definition same_receiver :: "connection \<Rightarrow> connection \<Rightarrow> bool" where
  "same_receiver c c' \<longleftrightarrow> cn_received c' = cn_received c \<and> cn_receive_next c' = cn_receive_next c \<and>
     cn_peer_eof c' = cn_peer_eof c \<and> cn_local c' = cn_local c \<and> cn_remote c' = cn_remote c \<and>
     cn_accepted c' = cn_accepted c"

lemma same_receiver_refl [simp]: "same_receiver c c"
  by (simp add: same_receiver_def)

lemma same_receiver_simps [simp]:
  "same_receiver c (c'\<lparr>cn_ack_pending := b\<rparr>) = same_receiver c c'" "same_receiver c (c'\<lparr>cn_phase_deadline := t\<rparr>) = same_receiver c c'"
  "same_receiver c (c'\<lparr>cn_flights := fs\<rparr>) = same_receiver c c'"
  by (simp_all add: same_receiver_def)

lemma same_receiver_trans: "same_receiver c d \<Longrightarrow> same_receiver d e \<Longrightarrow> same_receiver c e"
  by (simp add: same_receiver_def)

lemma same_core_receiver: "same_core c c' \<Longrightarrow> same_receiver c c'"
  by (simp add: same_core_def same_receiver_def)

lemma cn_inv_same:
  assumes "cn_inv cfg c" and "same_core c c'" and "list_all2 same_sent (cn_flights c) (cn_flights c')"
    and "rtos_ok cfg c'" and "cwnd_ok cfg (cn_cwnd c') (cn_ssthresh c')"
  shows "cn_inv cfg c'"
proof -
  have "queue_inv cfg (cn_send_una c) (cn_send_next c) (cn_send_sent c) (cn_flights c') (cn_flight_payload c) (cn_queued c)"
    using queue_inv_same assms(1,3,4) by (auto simp: cn_inv_defs rtos_ok_def)
  moreover have "phase_ok (cn_state c) (cn_write_closed c) (cn_flights c') (cn_queued c)"
    using assms(1) phase_ok_same [OF assms(3)] by (simp add: cn_inv_def)
  ultimately show ?thesis
    using assms(1,2,4,5) by (simp add: cn_inv_defs same_core_def rtos_ok_def)
qed

lemma cn_fin_acked_simps [simp]:
  "cn_queue_inv cfg' (cn_fin_acked now cfg c) = cn_queue_inv cfg' c" "same_receiver c' (cn_fin_acked now cfg c) = same_receiver c' c"
  "cn_write_closed (cn_fin_acked now cfg c) = cn_write_closed c" "cn_flights (cn_fin_acked now cfg c) = cn_flights c"
  "cn_queued (cn_fin_acked now cfg c) = cn_queued c" "cn_received (cn_fin_acked now cfg c) = cn_received c"
  "cn_cwnd (cn_fin_acked now cfg c) = cn_cwnd c" "cn_ssthresh (cn_fin_acked now cfg c) = cn_ssthresh c"
  "cn_rto (cn_fin_acked now cfg c) = cn_rto c" "cn_peer_eof (cn_fin_acked now cfg c) = cn_peer_eof c"
  "cn_send_una (cn_fin_acked now cfg c) = cn_send_una c" "cn_send_sent (cn_fin_acked now cfg c) = cn_send_sent c"
  by (simp_all add: cn_fin_acked_def cn_enter_time_wait_def cn_queue_inv_def same_receiver_def split: tcp_state.split)

section \<open>The byte streams\<close>

text \<open>
  The bytes the peer has not acknowledged, and how they move: a step of the engine aborts the connection or
  drops a prefix of them, and the oldest unacknowledged position moves by the length of that prefix, by one for
  our SYN and by one for our FIN. The deadline of a handshake and that of a close stay as they were set.
\<close>

definition unacked :: "connection \<Rightarrow> bytes" where
  "unacked c = fl_bytes (cn_flights c) @ cn_queued c"

definition syn_pending :: "tcp_state \<Rightarrow> bool" where
  "syn_pending st \<longleftrightarrow> st \<in> {SynSent, SynReceived}"

definition fin_started :: "tcp_state \<Rightarrow> bool" where
  "fin_started st \<longleftrightarrow> st \<in> {FinWait1, FinWait2, Closing, LastAck, TimeWait, Closed}"

definition fin_done :: "tcp_state \<Rightarrow> bool" where
  "fin_done st \<longleftrightarrow> st \<in> {FinWait2, TimeWait, Closed}"

definition aborted :: "tcp_state \<Rightarrow> bool" where
  "aborted st \<longleftrightarrow> st \<in> {ResetState, TimedOutState, Failed}"

definition ended :: "tcp_state \<Rightarrow> bool" where
  "ended st \<longleftrightarrow> is_terminal st \<or> st = TimeWait"

lemmas state_defs = syn_pending_def fin_started_def fin_done_def aborted_def ended_def is_terminal_def

definition una_shift :: "tcp_state \<Rightarrow> u32" where
  "una_shift st = (if syn_pending st then 0 else 1) + (if fin_done st then 1 else 0)"

definition phase_kept :: "connection \<Rightarrow> connection \<Rightarrow> bool" where
  "phase_kept c c' \<longleftrightarrow> (fin_started (cn_state c) \<longrightarrow> fin_started (cn_state c')) \<and>
     (syn_pending (cn_state c') \<longrightarrow> syn_pending (cn_state c) \<and> cn_phase_deadline c' = cn_phase_deadline c) \<and>
     (ended (cn_state c) \<longrightarrow> ended (cn_state c')) \<and>
     (cn_write_closed c \<and> \<not> ended (cn_state c') \<longrightarrow> cn_write_closed c' \<and> cn_close_deadline c' = cn_close_deadline c)"

lemma phase_kept_trans: "phase_kept c d \<Longrightarrow> phase_kept d e \<Longrightarrow> phase_kept c e"
  unfolding phase_kept_def by (intro conjI impI; metis)

definition snd_step :: "connection \<Rightarrow> connection \<Rightarrow> bool" where
  "snd_step c c' \<longleftrightarrow> aborted (cn_state c') \<or> \<not> aborted (cn_state c) \<and> phase_kept c c' \<and>
     (\<exists>k \<le> length (unacked c). unacked c' = drop k (unacked c) \<and>
        cn_send_una c' - una_shift (cn_state c') = cn_send_una c - una_shift (cn_state c) + word_of_nat k)"

lemma snd_step_same:
  assumes "unacked c' = unacked c" and "cn_send_una c' = cn_send_una c"
    and "una_shift (cn_state c') = una_shift (cn_state c)" and "fin_started (cn_state c) \<Longrightarrow> fin_started (cn_state c')"
    and "syn_pending (cn_state c') \<Longrightarrow> syn_pending (cn_state c) \<and> cn_phase_deadline c' = cn_phase_deadline c"
    and "ended (cn_state c) \<Longrightarrow> ended (cn_state c')"
    and "cn_write_closed c \<Longrightarrow> \<not> ended (cn_state c') \<Longrightarrow> cn_write_closed c' \<and> cn_close_deadline c' = cn_close_deadline c"
    and "\<not> aborted (cn_state c) \<or> aborted (cn_state c')"
  shows "snd_step c c'"
proof -
  have "phase_kept c c'"
    using assms(4-7) by (simp add: phase_kept_def)
  then show ?thesis
    using assms(1-3,8) by (auto simp: snd_step_def intro: exI [of _ 0])
qed

lemma snd_step_refl [simp]: "snd_step c c"
  by (rule snd_step_same) auto

lemma snd_step_trans:
  assumes "snd_step c d" and "snd_step d e"
  shows "snd_step c e"
proof (cases "aborted (cn_state e)")
  case False
  then obtain j where j: "\<not> aborted (cn_state d)" "phase_kept d e" "j \<le> length (unacked d)" "unacked e = drop j (unacked d)"
      "cn_send_una e - una_shift (cn_state e) = cn_send_una d - una_shift (cn_state d) + word_of_nat j"
    using assms(2) by (auto simp: snd_step_def)
  then obtain k where k: "\<not> aborted (cn_state c)" "phase_kept c d" "k \<le> length (unacked c)" "unacked d = drop k (unacked c)"
      "cn_send_una d - una_shift (cn_state d) = cn_send_una c - una_shift (cn_state c) + word_of_nat k"
    using assms(1) by (auto simp: snd_step_def)
  have "k + j \<le> length (unacked c)" "unacked e = drop (k + j) (unacked c)"
      "cn_send_una e - una_shift (cn_state e) = cn_send_una c - una_shift (cn_state c) + word_of_nat (k + j)"
    using j k by (simp_all add: add.commute)
  then show ?thesis
    using k(1) phase_kept_trans [OF k(2) j(2)] unfolding snd_step_def by auto
qed (simp add: snd_step_def)

lemma snd_step_fail: "aborted st \<Longrightarrow> snd_step c (cn_fail st c)"
  by (simp add: snd_step_def cn_fail_def)

lemma snd_step_simps [simp]:
  "snd_step c (c'\<lparr>cn_ack_pending := b\<rparr>) = snd_step c c'" "snd_step (c\<lparr>cn_ack_pending := b\<rparr>) c' = snd_step c c'"
  by (simp_all add: snd_step_def phase_kept_def unacked_def)

text \<open>
  What a segment does to the receiving side: nothing, or it appends the bytes at the expected position and, when
  its FIN is next, marks the end of the peer's stream.
\<close>

definition rcv_step :: "segment \<Rightarrow> connection \<Rightarrow> connection \<Rightarrow> bool" where
  "rcv_step s c c' \<longleftrightarrow> same_receiver c c' \<or>
     \<not> cn_peer_eof c \<and> \<not> before (cn_receive_next c) (sg_sequence s) \<and> rx_skip s c \<le> length (sg_payload s) \<and>
     cn_local c' = cn_local c \<and> cn_remote c' = cn_remote c \<and> cn_accepted c' = cn_accepted c \<and>
     (\<exists>n \<le> length (sg_payload s) - rx_skip s c.
        cn_received c' = cn_received c @ take n (drop (rx_skip s c) (sg_payload s)) \<and>
        (\<not> cn_peer_eof c' \<and> cn_receive_next c' = cn_receive_next c + word_of_nat n \<or>
         cn_peer_eof c' \<and> has_flag (sg_flags s) FIN \<and>
         sg_sequence s + word_of_nat (length (sg_payload s)) = cn_receive_next c + word_of_nat n \<and>
         cn_receive_next c' = cn_receive_next c + word_of_nat n + 1))"

text \<open>A segment from the peer: it aborts the connection, it completes our active open, or it is a receive step.\<close>

definition input_step :: "segment \<Rightarrow> connection \<Rightarrow> connection \<Rightarrow> bool" where
  "input_step s c c' \<longleftrightarrow> c' = c \<or>
     aborted (cn_state c') \<and> cn_received c' = [] \<and> cn_local c' = cn_local c \<and> cn_remote c' = cn_remote c \<or>
     \<not> aborted (cn_state c) \<and> \<not> aborted (cn_state c') \<and>
       (cn_state c = SynSent \<and> cn_state c' = SynSent \<and> same_receiver c c' \<or>
        cn_state c \<noteq> SynSent \<and> cn_state c' \<noteq> SynSent \<and> rcv_step s c c' \<or>
        cn_state c = SynSent \<and> cn_state c' \<noteq> SynSent \<and> has_flag (sg_flags s) SYN \<and>
          rcv_step (s\<lparr>sg_sequence := sg_sequence s + 1\<rparr>) (c\<lparr>cn_receive_next := sg_sequence s + 1\<rparr>) c')"

lemma input_step_refl [simp]: "input_step s c c"
  by (simp add: input_step_def)

lemma input_step_keep: "same_receiver c c' \<Longrightarrow> cn_state c' = cn_state c \<Longrightarrow> \<not> is_terminal (cn_state c) \<Longrightarrow> input_step s c c'"
  by (auto simp: input_step_def rcv_step_def is_terminal_def aborted_def)

lemma input_step_fail: "aborted st \<Longrightarrow> input_step s c (cn_fail st c)"
  by (simp add: input_step_def cn_fail_def)

lemma rcv_step_after: "same_receiver c d \<Longrightarrow> rcv_step s d e \<Longrightarrow> rcv_step s c e"
  by (simp add: rcv_step_def same_receiver_def rx_skip_def)

lemma rcv_step_flags: "has_flag flags' FIN = has_flag (sg_flags s) FIN \<Longrightarrow>
  rcv_step (s\<lparr>sg_sequence := n, sg_flags := flags'\<rparr>) = rcv_step (s\<lparr>sg_sequence := n\<rparr>)"
  by (intro ext) (simp add: rcv_step_def rx_skip_def)

lemma rx_deliver_una [simp]: "cn_send_una (rx_deliver s cfg c) = cn_send_una c"
  by (simp add: rx_deliver_def)

lemma cn_receive_data_step:
  assumes "cn_inv cfg c" and "\<not> aborted (cn_state c)" and "\<not> syn_pending (cn_state c)"
  shows "wp (cn_receive_data s now cfg c) (\<lambda>c'. cn_inv cfg c' \<and> snd_step c c' \<and> rcv_step s c c' \<and> \<not> syn_pending (cn_state c') \<and>
    \<not> aborted (cn_state c'))"
proof -
  have "length (cn_received c) \<le> tc_receive_capacity cfg"
    using assms(1) by (simp add: cn_inv_def)
  note eq = cn_receive_data_eq [OF this]
  obtain c' where c': "cn_receive_data s now cfg c = Some c'" "cn_inv cfg c'"
    using cn_receive_data_wp [OF assms(1), of s now] by (auto simp: wp_eq_Some)
  let ?d = "rx_deliver s cfg c"
  let ?fin = "has_flag (sg_flags s) FIN \<and> sg_sequence s + word_of_nat (length (sg_payload s)) = cn_receive_next ?d \<and>
    rx_count s cfg c < rx_window cfg c"
  let ?f = "cn_peer_fin now cfg (?d\<lparr>cn_receive_next := cn_receive_next ?d + 1, cn_peer_eof := True\<rparr>)"
  have c'_eq: "c' = (if sg_payload s = [] \<and> \<not> has_flag (sg_flags s) FIN then c
      else if rx_ignored s c then c\<lparr>cn_ack_pending := True\<rparr> else if ?fin then ?f else ?d)"
    using eq [of s now] c'(1) by (simp only: Let_def option.inject)
  consider "c' = c" | "c' = c\<lparr>cn_ack_pending := True\<rparr>" | "\<not> rx_ignored s c" "\<not> ?fin" "c' = ?d"
    | "\<not> rx_ignored s c" "?fin" "c' = ?f"
    using c'_eq by (metis (full_types))
  then have "snd_step c c' \<and> rcv_step s c c' \<and> \<not> syn_pending (cn_state c') \<and> \<not> aborted (cn_state c')"
  proof cases
    case 3
    have "snd_step c ?d"
      by (rule snd_step_same) (simp_all add: unacked_def rx_deliver_def)
    moreover have "rcv_step s c ?d"
      using 3(1) unfolding rcv_step_def rx_ignored_def
      by (intro conjI exI [of _ "rx_count s cfg c"] disjI2 [where P = "same_receiver _ _"])
        (simp_all add: rx_deliver_def rx_count_def)
    ultimately show ?thesis
      using 3(3) assms(2,3) by simp
  next
    case 4
    have st: "cn_state c \<in> {Established, FinWait1, FinWait2}"
      using 4(1) by (simp add: rx_ignored_def)
    have "una_shift (cn_state ?f) = una_shift (cn_state c)" "fin_started (cn_state ?f) = fin_started (cn_state c)"
        "\<not> syn_pending (cn_state ?f)" "\<not> aborted (cn_state ?f)"
      using st by (elim insertE; simp add: cn_peer_fin_def cn_enter_time_wait_def una_shift_def state_defs)+
    moreover have "\<not> ended (cn_state c)" "\<not> ended (cn_state ?f) \<Longrightarrow> cn_close_deadline ?f = cn_close_deadline c"
      using st by (elim insertE; simp add: cn_peer_fin_def cn_enter_time_wait_def state_defs)+
    moreover from calculation have "snd_step c ?f"
      using assms(2) by (intro snd_step_same) (simp_all add: unacked_def)
    moreover have "cn_local ?f = cn_local c" "cn_remote ?f = cn_remote c" "cn_accepted ?f = cn_accepted c"
      by (simp_all add: cn_peer_fin_def cn_enter_time_wait_def rx_deliver_def split: tcp_state.split)
    then have "rcv_step s c ?f"
      using 4(1,2) unfolding rcv_step_def rx_ignored_def
      by (intro conjI exI [of _ "rx_count s cfg c"] disjI2 [where P = "same_receiver _ _"])
        (simp_all add: rx_deliver_def rx_count_def)
    ultimately show ?thesis
      using 4(3) by simp
  qed (use assms(2,3) in \<open>simp_all add: rcv_step_def same_receiver_def\<close>)
  then show ?thesis
    using c' by simp
qed

lemma data_span: "list_all data_flight fs \<Longrightarrow> span fs = length (fl_bytes fs)"
  by (induction fs) (simp_all add: data_flight_len)

lemma unacked_wire: "list_all2 same_sent (cn_flights c) (cn_flights c') \<Longrightarrow> cn_queued c' = cn_queued c \<Longrightarrow> unacked c' = unacked c"
  by (simp add: unacked_def bytes_same_wire same_sent_wire)

text \<open>An acknowledged FIN.\<close>

lemma fin_acked_inv:
  assumes "cn_queue_inv cfg c'" and "cn_flights c' = []" and "cn_queued c' = []" and "length (cn_received c') \<le> tc_receive_capacity cfg"
    and "cwnd_ok cfg (cn_cwnd c') (cn_ssthresh c')" and "rto_ok cfg (cn_rto c')" and "eof_ok (cn_state c') (cn_peer_eof c')"
    and "timers_ok (cn_state c') (cn_write_closed c') (cn_phase_deadline c') (cn_close_deadline c')"
    and "cn_state c' \<in> {FinWait1, Closing, LastAck}"
  shows "cn_inv cfg (cn_fin_acked now cfg c')"
proof -
  have "phase_ok (cn_state (cn_fin_acked now cfg c')) (cn_write_closed c') [] []"
      "eof_ok (cn_state (cn_fin_acked now cfg c')) (cn_peer_eof c')"
      "timers_ok (cn_state (cn_fin_acked now cfg c')) (cn_write_closed c')
        (cn_phase_deadline (cn_fin_acked now cfg c')) (cn_close_deadline (cn_fin_acked now cfg c'))"
    using assms(7-9)
    by (elim insertE; simp add: cn_fin_acked_def cn_enter_time_wait_def phase_ok_def eof_ok_def timers_ok_def)+
  then show ?thesis
    using assms(1-6) by (simp add: cn_inv_def)
qed

lemma ack_loop_single:
  assumes "ack_loop ack now [f] p = (True, [], p')"
  shows "ap_completed_flags p' = ap_completed_flags p OR fl_flags f"
  using assms by (auto simp: Let_def split: if_split_asm)

lemma cn_acknowledge_inv:
  assumes v: "tcp_config_valid cfg" and inv: "cn_inv cfg c" and a: "\<not> before (cn_send_sent c) (sg_acknowledgment s)"
    and st: "cn_state c \<notin> {SynSent, SynReceived}"
  shows "wp (cn_acknowledge s now cfg c) (\<lambda>c'. cn_inv cfg c' \<and> same_receiver c c' \<and> snd_step c c' \<and>
    cn_state c' \<notin> {SynSent, SynReceived} \<and> (aborted (cn_state c') \<longrightarrow> aborted (cn_state c)))"
proof -
  have i: "cn_queue_inv cfg c" "cwnd_ok cfg (cn_cwnd c) (cn_ssthresh c)"
      "phase_ok (cn_state c) (cn_write_closed c) (cn_flights c) (cn_queued c)"
    using inv by (simp_all add: cn_inv_def)
  show ?thesis
  proof (cases rule: cn_acknowledge_cases [OF v i(1) cn_inv_rtos [OF inv] i(2) a, of now, case_names old window progress])
    case old
    then show ?thesis
      using inv st by simp
  next
    case window
    note u = cn_update_window_same [where c = c and s = s]
    have "cn_inv cfg (cn_update_window s c)"
      using cn_inv_same [OF inv u(1,2) u(6) [OF cn_inv_rtos [OF inv]]] u(4,5) i(2) by simp
    moreover have "snd_step c (cn_update_window s c)"
      using u(1) unacked_wire [OF u(2)] by (intro snd_step_same) (simp_all add: same_core_def)
    ultimately show ?thesis
      using window(2) same_core_receiver [OF u(1)] u(1) st by (simp add: same_core_def)
  next
    case (progress k p c')
    have core: "cn_state c' = cn_state c" "cn_write_closed c' = cn_write_closed c" "cn_queued c' = cn_queued c"
        "cn_received c' = cn_received c" "cn_peer_eof c' = cn_peer_eof c" "cn_phase_deadline c' = cn_phase_deadline c"
        "cn_close_deadline c' = cn_close_deadline c" "same_receiver c c'" "cn_send_una c' = cn_send_una c + word_of_nat k"
      using progress(3,12) by (simp_all add: same_core_def same_receiver_def)
    have rest: "length (cn_received c') \<le> tc_receive_capacity cfg" "rto_ok cfg (cn_rto c')"
        "eof_ok (cn_state c') (cn_peer_eof c')"
        "timers_ok (cn_state c') (cn_write_closed c') (cn_phase_deadline c') (cn_close_deadline c')"
      using inv core progress(10) by (simp_all add: cn_inv_def rtos_ok_def)
    consider "cn_state c \<in> {Established, CloseWait}" | "cn_state c \<in> {FinWait1, Closing, LastAck}"
      | "cn_flights c = []"
      using i(3) st by (auto simp: phase_ok_def split: if_split_asm)
    then show ?thesis
    proof cases
      case 1
      then have data: "list_all data_flight (cn_flights c)"
        using i(3) by (auto simp: phase_ok_def)
      have "list_all data_flight (cn_flights (cn_update_window s c))"
        using data same_sent_kinds(1) [OF cn_update_window_same(2) [where c = c and s = s]] by simp
      then have "list_all (\<lambda>f. \<not> has_flag (fl_flags f) FIN) (cn_flights (cn_update_window s c))"
        by (simp add: list_all_iff data_flight_def)
      from ack_loop_flags [OF progress(5) this] have "\<not> has_flag (ap_completed_flags p) FIN"
        by (simp add: has_flag_def)
      moreover have "list_all data_flight (cn_flights c')"
        using same_sent_kinds(1) [OF progress(8)] trim_data [OF data] by simp
      then have "cn_inv cfg c'"
        using 1 rest progress(9,11) core by (auto simp: cn_inv_def phase_ok_def)
      moreover have "snd_step c c'"
      proof -
        have ch: "chain (cn_send_una c) (cn_flights c) (cn_send_next c)"
          using i(1) by (simp add: cn_queue_inv_def queue_inv_def)
        have "span (cn_flights c') = span (cn_flights c) - k"
          using trim_chain(2) [OF ch progress(2) queue_inv_span(1) [OF i(1) [unfolded cn_queue_inv_def] v]]
            span_same_wire [OF same_sent_wire [OF progress(8)]] by simp
        then have "ap_payload p = k"
          using data_span [OF data] data_span [OF \<open>list_all data_flight (cn_flights c')\<close>] progress(2,6,7) by simp
        then have "unacked c' = drop k (unacked c)" "k \<le> length (unacked c)"
          using progress(6,7) core(3) by (simp_all add: unacked_def)
        then show ?thesis
          using core(1,2,7,9) 1 unfolding snd_step_def phase_kept_def by (auto simp: state_defs intro!: exI [of _ k])
      qed
      ultimately show ?thesis
        using progress(13) core(1,8) st by simp
    next
      case 2
      then obtain f where f: "cn_flights c = [f]" "fin_flight f" "cn_queued c = []"
        using i(3) by (auto simp: phase_ok_def length_Suc_conv)
      then have "fl_len f = 1"
        by (simp add: fin_flight_def fl_len_def)
      then have "k = 1"
        using progress(1,2) f(1) by simp
      then have nil: "cn_flights c' = []"
        using progress(8) f(1) \<open>fl_len f = 1\<close> by simp
      obtain g where g: "cn_flights (cn_update_window s c) = [g]" "same_sent f g"
        using cn_update_window_same(2) [where c = c and s = s] f(1) by (auto simp: list_all2_Cons1)
      then have "same_wire f g"
        by (simp add: same_sent_def)
      then have fin: "has_flag (fl_flags g) FIN" "fl_len g = 1"
        using f(2) same_wire_simps(2,6) [of f g] \<open>fl_len f = 1\<close> by (simp_all add: fin_flight_def)
      have "ack_loop (sg_acknowledgment s) now [g]
          \<lparr>ap_completed_flags = 0, ap_sample = None, ap_ambiguous = False, ap_payload = 0\<rparr> = (True, [], p)"
        using progress(5) g(1) \<open>k = 1\<close> fin(2) by simp
      from ack_loop_single [OF this] have "has_flag (ap_completed_flags p) FIN"
        using fin(1) by simp
      moreover have "cn_inv cfg (cn_fin_acked now cfg c')"
        using fin_acked_inv [OF progress(9) nil _ rest(1) progress(11) rest(2-4)] 2 f(3) core(1,3) by simp
      moreover have "cn_state (cn_fin_acked now cfg c') \<notin> {SynSent, SynReceived}" "\<not> aborted (cn_state (cn_fin_acked now cfg c'))"
        using 2 core(1) by (elim insertE; simp add: cn_fin_acked_def cn_enter_time_wait_def aborted_def)+
      moreover have "snd_step c (cn_fin_acked now cfg c')"
      proof -
        have "unacked c = []" "unacked (cn_fin_acked now cfg c') = []"
          using f nil core(3) by (simp_all add: unacked_def fin_flight_def)
        then show ?thesis
          using 2 core(1,2,7,9) \<open>k = 1\<close> unfolding snd_step_def phase_kept_def
          by (elim insertE) (simp_all add: cn_fin_acked_def cn_enter_time_wait_def una_shift_def state_defs)
      qed
      ultimately show ?thesis
        using progress(13) core(8) by simp
    next
      case 3
      then show ?thesis
        using progress(1,2) by simp
    qed
  qed
qed

text \<open>The acknowledgment of our SYN empties the queue.\<close>

lemma ack_handshake:
  assumes v: "tcp_config_valid cfg" and q: "cn_queue_inv cfg c" and r: "rtos_ok cfg c"
    and w: "cwnd_ok cfg (cn_cwnd c) (cn_ssthresh c)" and f: "cn_flights c = [f]" "syn_flight f"
    and a: "sg_acknowledgment s = cn_send_sent c" "cn_send_sent c \<noteq> cn_send_una c"
  shows "wp (cn_acknowledge s now cfg c) (\<lambda>c'. cn_queue_inv cfg c' \<and> cn_flights c' = [] \<and> rtos_ok cfg c' \<and>
    cwnd_ok cfg (cn_cwnd c') (cn_ssthresh c') \<and> cn_state c' = cn_state c \<and> cn_write_closed c' = cn_write_closed c \<and>
    cn_queued c' = cn_queued c \<and> same_receiver c c' \<and> cn_send_una c' = cn_send_una c + 1 \<and> cn_send_sent c' = cn_send_sent c)"
proof -
  have len: "fl_len f = 1"
    using f(2) by (simp add: syn_flight_def fl_len_def)
  have nb: "\<not> before (cn_send_sent c) (sg_acknowledgment s)"
    using a(1) by simp
  obtain n where n: "cn_send_sent c = cn_send_una c + word_of_nat n" "n \<le> span (cn_flights c)"
    using queue_inv_sent [OF q [unfolded cn_queue_inv_def] v] by metis
  then have "n = 1"
    using a(2) f(1) len by (cases n) auto
  show ?thesis
  proof (cases rule: cn_acknowledge_cases [OF v q r w nb, of now, case_names old window progress])
    case old
    then show ?thesis
      using a(1) n(1) \<open>n = 1\<close> before_add(2) [of 1 "cn_send_una c"] by simp
  next
    case window
    then show ?thesis
      using a by simp
  next
    case (progress k p c')
    have "k = 1"
      using progress(1,2) f(1) len by simp
    then have nil: "cn_flights c' = []"
      using progress(8) f(1) len by simp
    obtain g where g: "cn_flights (cn_update_window s c) = [g]" "same_sent f g"
      using cn_update_window_same(2) [where c = c and s = s] f(1) by (auto simp: list_all2_Cons1)
    then have "\<not> has_flag (fl_flags g) FIN"
      using f(2) by (simp add: same_sent_def same_wire_def syn_flight_def)
    then have "\<not> has_flag (ap_completed_flags p) FIN"
      using ack_loop_flags [OF progress(5), of FIN] g(1) by (simp add: has_flag_def)
    then show ?thesis
      using progress nil \<open>k = 1\<close> by (simp add: same_core_def same_receiver_def)
  qed
qed

lemma established_inv:
  assumes "cn_queue_inv cfg c" and "cn_flights c = []" and "rtos_ok cfg c" and "cwnd_ok cfg (cn_cwnd c) (cn_ssthresh c)"
    and "\<not> cn_write_closed c" and "\<not> cn_peer_eof c" and "length (cn_received c) \<le> tc_receive_capacity cfg"
    and "cn_state c = Established"
  shows "cn_inv cfg c"
  using assms by (simp add: cn_inv_def phase_ok_def eof_ok_def timers_ok_def rtos_ok_def)

text \<open>The step from an open in progress to an established connection.\<close>

lemma established_step:
  assumes "cn_inv cfg c" and "syn_pending (cn_state c)" and "cn_flights c' = []" and "cn_queued c' = cn_queued c"
    and "cn_send_una c' = cn_send_una c + 1" and "cn_write_closed c' = cn_write_closed c" and "cn_state c' = Established"
  shows "snd_step c c'"
proof -
  obtain f where f: "cn_flights c = [f]" "syn_flight f" "cn_queued c = []" and "\<not> cn_write_closed c"
    using assms(1,2) by (auto simp: cn_inv_def phase_ok_def syn_pending_def length_Suc_conv)
  then have "unacked c = []" "unacked c' = []"
    using assms(3,4) by (simp_all add: unacked_def syn_flight_def)
  then show ?thesis
    using assms(2,5-7) \<open>\<not> cn_write_closed c\<close> by (auto simp: snd_step_def phase_kept_def una_shift_def state_defs)
qed

lemma fin_and_not_syn: "has_flag (f AND NOT SYN) FIN = has_flag f FIN"
proof -
  have "NOT SYN AND FIN = FIN"
    by (simp add: SYN_def FIN_def)
  then show ?thesis
    by (simp add: has_flag_def and.assoc)
qed

lemma cn_syn_sent_wp:
  assumes v: "tcp_config_valid cfg" and inv: "cn_inv cfg c" and st: "cn_state c = SynSent"
  shows "wp (cn_syn_sent s now cfg c) (\<lambda>c'. cn_inv cfg c' \<and> snd_step c c' \<and> input_step s c c')"
proof -
  let ?valid = "has_flag (sg_flags s) ACK \<and> sg_acknowledgment s = cn_send_sent c \<and> cn_send_sent c \<noteq> cn_send_una c"
  let ?open = "\<not> has_flag (sg_flags s) RST \<and> ?valid \<and> has_flag (sg_flags s) SYN \<and> \<not> has_flag (sg_flags s) FIN"
  let ?c = "c\<lparr>cn_receive_next := sg_sequence s + 1, cn_peer_window := sg_window s, cn_peer_mss := unwrap_mss s,
    cn_window_sequence := sg_sequence s, cn_window_ack := sg_acknowledgment s\<rparr>"
  show ?thesis
  proof (cases ?open)
    case False
    then have "cn_syn_sent s now cfg c = Some c \<or> cn_syn_sent s now cfg c = Some (cn_fail ResetState c)"
      by (auto simp: cn_syn_sent_def Let_def)
    then show ?thesis
      using inv by (elim disjE) (simp_all add: input_step_keep input_step_fail cn_fail_inv snd_step_fail aborted_def)
  next
    case True
    obtain f where f: "cn_flights c = [f]" "syn_flight f"
      using inv st by (auto simp: cn_inv_def phase_ok_def length_Suc_conv)
    have q: "cn_queue_inv cfg ?c" "rtos_ok cfg ?c" "cwnd_ok cfg (cn_cwnd ?c) (cn_ssthresh ?c)"
      using inv cn_inv_rtos [OF inv] by (simp_all add: cn_inv_defs rtos_ok_def)
    obtain d where d: "cn_acknowledge s now cfg ?c = Some d" "cn_queue_inv cfg d" "cn_flights d = []" "rtos_ok cfg d"
        "cwnd_ok cfg (cn_cwnd d) (cn_ssthresh d)" "cn_write_closed d = cn_write_closed c" "same_receiver ?c d"
        "cn_queued d = cn_queued c" "cn_send_una d = cn_send_una c + 1"
      using ack_handshake [OF v q, of f s now] f True unfolding wp_eq_Some by auto
    let ?d = "d\<lparr>cn_state := Established, cn_phase_deadline := None, cn_ack_pending := True\<rparr>"
    have dinv: "cn_inv cfg ?d"
    proof (rule established_inv)
      have "\<not> cn_write_closed c" "\<not> cn_peer_eof c" "length (cn_received c) \<le> tc_receive_capacity cfg"
        using inv st by (auto simp: cn_inv_def phase_ok_def eof_ok_def)
      then show "\<not> cn_write_closed ?d" "\<not> cn_peer_eof ?d" "length (cn_received ?d) \<le> tc_receive_capacity cfg"
        using d(6,7) by (simp_all add: same_receiver_def)
    qed (use d in \<open>simp_all add: cn_queue_inv_def rtos_ok_def\<close>)
    have dstep: "snd_step c ?d"
      using established_step [OF inv, of ?d] st d by (simp add: syn_pending_def)
    let ?s = "s\<lparr>sg_sequence := sg_sequence s + 1, sg_flags := sg_flags s AND NOT SYN\<rparr>"
    have opened: "input_step s c e" if "rcv_step ?s ?d e" "\<not> syn_pending (cn_state e)" "\<not> aborted (cn_state e)" for e
    proof -
      have "same_receiver (c\<lparr>cn_receive_next := sg_sequence s + 1\<rparr>) ?d"
        using d(7) by (simp add: same_receiver_def)
      from rcv_step_after [OF this that(1)] show ?thesis
        using st True that(2,3) by (simp add: input_step_def rcv_step_flags fin_and_not_syn state_defs)
    qed
    show ?thesis
    proof (cases "sg_payload s = []")
      case nil: True
      have "rcv_step ?s ?d ?d"
        by (simp add: rcv_step_def)
      then show ?thesis
        using True nil d(1) dinv dstep opened [of ?d] by (simp add: cn_syn_sent_def Let_def state_defs)
    next
      case False
      obtain e where e: "cn_receive_data ?s now cfg ?d = Some e" "cn_inv cfg e" "snd_step ?d e" "rcv_step ?s ?d e"
          "\<not> syn_pending (cn_state e)" "\<not> aborted (cn_state e)"
        using cn_receive_data_step [OF dinv, of ?s now] unfolding wp_eq_Some by (auto simp: state_defs)
      then have "cn_syn_sent s now cfg c = Some e"
        using True False d(1) by (simp add: cn_syn_sent_def Let_def)
      then show ?thesis
        using e snd_step_trans [OF dstep e(3)] opened by simp
    qed
  qed
qed

lemma cn_synchronized_wp:
  assumes v: "tcp_config_valid cfg" and inv: "cn_inv cfg c" and st: "cn_state c \<noteq> SynSent" "\<not> is_terminal (cn_state c)"
  shows "wp (cn_synchronized s now cfg c) (\<lambda>c'. cn_inv cfg c' \<and> snd_step c c' \<and> input_step s c c')"
proof -
  have "length (cn_received c) \<le> tc_receive_capacity cfg"
    using inv by (simp add: cn_inv_def)
  then obtain w where w: "cn_advertised_window cfg c = Some w"
    using window_word by blast
  have ap: "cn_inv cfg (c\<lparr>cn_ack_pending := True\<rparr>)"
    using inv by (simp add: cn_inv_defs)
  define c0 where "c0 = (if cn_state c = SynReceived then c\<lparr>cn_state := Established, cn_phase_deadline := None\<rparr> else c)"
  let ?go = "segment_acceptable s (unat w) c \<and> \<not> has_flag (sg_flags s) RST \<and> \<not> has_flag (sg_flags s) SYN \<and>
    has_flag (sg_flags s) ACK \<and> \<not> before (cn_send_sent c) (sg_acknowledgment s) \<and>
    \<not> (cn_state c = SynReceived \<and> (sg_acknowledgment s \<noteq> cn_send_sent c \<or> cn_send_sent c = cn_send_una c))"
  show ?thesis
  proof (cases ?go)
    case False
    then have "cn_synchronized s now cfg c \<in> {Some c, Some (c\<lparr>cn_ack_pending := True\<rparr>), Some (cn_fail ResetState c)}"
      using w by (auto simp: cn_synchronized_def)
    then show ?thesis
      using inv ap st(2)
      by (elim insertE) (simp_all add: input_step_keep input_step_fail cn_fail_inv snd_step_fail aborted_def)
  next
    case True
    obtain d where d: "cn_acknowledge s now cfg c0 = Some d" "cn_inv cfg d" "snd_step c d" "same_receiver c d"
      "\<not> syn_pending (cn_state d)" "\<not> aborted (cn_state d)"
    proof (cases "cn_state c = SynReceived")
      case rec: True
      obtain f where f: "cn_flights c = [f]" "syn_flight f"
        using inv rec by (auto simp: cn_inv_def phase_ok_def length_Suc_conv)
      have q: "cn_queue_inv cfg c0" "rtos_ok cfg c0" "cwnd_ok cfg (cn_cwnd c0) (cn_ssthresh c0)"
        using inv cn_inv_rtos [OF inv] by (simp_all add: c0_def cn_inv_defs rtos_ok_def)
      obtain d where d: "cn_acknowledge s now cfg c0 = Some d" "cn_queue_inv cfg d" "cn_flights d = []" "rtos_ok cfg d"
          "cwnd_ok cfg (cn_cwnd d) (cn_ssthresh d)" "cn_write_closed d = cn_write_closed c0" "same_receiver c0 d"
          "cn_state d = cn_state c0" "cn_queued d = cn_queued c0" "cn_send_una d = cn_send_una c0 + 1"
        using ack_handshake [OF v q, of f s now] f True rec unfolding wp_eq_Some by (auto simp: c0_def)
      have "cn_inv cfg d"
      proof (rule established_inv)
        have "\<not> cn_write_closed c" "\<not> cn_peer_eof c" "length (cn_received c) \<le> tc_receive_capacity cfg"
          using inv rec by (auto simp: cn_inv_def phase_ok_def eof_ok_def)
        then show "\<not> cn_write_closed d" "\<not> cn_peer_eof d" "length (cn_received d) \<le> tc_receive_capacity cfg"
          using d(6,7) by (simp_all add: same_receiver_def c0_def)
      qed (use d rec in \<open>simp_all add: c0_def\<close>)
      moreover have "snd_step c d"
        using established_step [OF inv, of d] rec d by (simp add: syn_pending_def c0_def)
      ultimately show thesis
        using that d rec by (simp add: c0_def same_receiver_def state_defs)
    next
      case False
      then show thesis
        using that cn_acknowledge_inv [OF v inv, of s now] True st unfolding wp_eq_Some
        by (auto simp: c0_def is_terminal_def state_defs)
    qed
    have eq: "cn_synchronized s now cfg c = (if is_terminal (cn_state d) then Some d else cn_receive_data s now cfg d)"
      using True w d(1) by (auto simp: cn_synchronized_def Let_def c0_def)
    show ?thesis
    proof (cases "is_terminal (cn_state d)")
      case True
      then show ?thesis
        using eq d st by (auto simp: input_step_def rcv_step_def is_terminal_def state_defs)
    next
      case False
      then obtain e where e: "cn_receive_data s now cfg d = Some e" "cn_inv cfg e" "snd_step d e" "rcv_step s d e"
          "\<not> syn_pending (cn_state e)" "\<not> aborted (cn_state e)"
        using cn_receive_data_step [OF d(2,6,5), of s now] unfolding wp_eq_Some by blast
      then show ?thesis
        using False eq st snd_step_trans [OF d(3) e(3)] rcv_step_after [OF d(4) e(4)]
        by (auto simp: input_step_def is_terminal_def state_defs)
    qed
  qed
qed

lemma cn_input_wp:
  assumes "tcp_config_valid cfg" and inv: "cn_inv cfg c"
  shows "wp (cn_input s now cfg c) (\<lambda>c'. cn_inv cfg c' \<and> snd_step c c' \<and> input_step s c c')"
proof -
  have tw: "cn_inv cfg (c\<lparr>cn_ack_pending := True\<rparr>)"
      "cn_state c = TimeWait \<Longrightarrow> cn_inv cfg (c\<lparr>cn_ack_pending := True, cn_phase_deadline := Some t\<rparr>)" for t
    using inv by (simp_all add: cn_inv_defs timers_ok_def)
  have tw_step: "snd_step c (c\<lparr>cn_ack_pending := True, cn_phase_deadline := Some t\<rparr>)" if "cn_state c = TimeWait" for t
    by (rule snd_step_same) (simp_all add: that state_defs unacked_def)
  have syn: "cn_inv cfg (c\<lparr>cn_flights := f\<lparr>fl_last_sent := None\<rparr> # fs\<rparr>) \<and>
      snd_step c (c\<lparr>cn_flights := f\<lparr>fl_last_sent := None\<rparr> # fs\<rparr>)" if "cn_flights c = f # fs" for f fs
  proof
    let ?c = "c\<lparr>cn_flights := f\<lparr>fl_last_sent := None\<rparr> # fs\<rparr>"
    have same: "list_all2 same_sent (cn_flights c) (cn_flights ?c)"
      using that by (simp add: same_sent_def same_wire_def)
    show "cn_inv cfg ?c"
      by (rule cn_inv_same [OF inv _ same])
        (use inv cn_inv_rtos [OF inv] that in \<open>simp_all add: same_core_def cn_inv_def rtos_ok_def\<close>)
    show "snd_step c ?c"
      using unacked_wire [OF same] by (intro snd_step_same) simp_all
  qed
  show ?thesis
    using assms tw tw_step syn cn_syn_sent_wp [OF assms] cn_synchronized_wp [OF assms]
    by (simp add: cn_input_def Let_def input_step_keep split: list.split)
qed

end
