(* ===== verification/Tcp_Transmit.thy ===== *)
theory Tcp_Transmit
  imports Tcp_Engine
begin

text \<open>
  Preparation and transmission: what \<^verbatim>\<open>prepare\<close> and \<^verbatim>\<open>transmit\<close> of \<^verbatim>\<open>src/api/tcp/connection.rs\<close> keep of
  the invariant and of the two byte streams, which segment they hand to the device, and that new sequence
  space is only used within the windows.
\<close>

section \<open>Preparation\<close>

lemma cn_inv_cwnd:
  assumes "cn_inv cfg c" and "cwnd_ok cfg w (cn_ssthresh c)"
  shows "cn_inv cfg (c\<lparr>cn_cwnd := w, cn_congestion_credit := n\<rparr>)"
  using assms by (simp add: cn_inv_defs)

lemma cn_inv_simps [simp]:
  "cn_inv cfg (c\<lparr>cn_device_blocked := b\<rparr>) = cn_inv cfg c" "cn_inv cfg (c\<lparr>cn_probe_pending := b\<rparr>) = cn_inv cfg c"
  "cn_inv cfg (c\<lparr>cn_ack_pending := b\<rparr>) = cn_inv cfg c" "cn_inv cfg (c\<lparr>cn_window_probe_at := t\<rparr>) = cn_inv cfg c"
  "cn_inv cfg (c\<lparr>cn_last_data_sent := l\<rparr>) = cn_inv cfg c" "cn_inv cfg (c\<lparr>cn_accepted := a\<rparr>) = cn_inv cfg c"
  "cn_inv cfg (c\<lparr>cn_reported := x, cn_reported_flow := y, cn_reported_at := t\<rparr>) = cn_inv cfg c"
  "cn_inv cfg (c\<lparr>cn_local_error := e\<rparr>) = cn_inv cfg c"
  by (simp_all add: cn_inv_defs)

text \<open>What a step of the sender leaves alone.\<close>

definition tx_step :: "connection \<Rightarrow> connection \<Rightarrow> bool" where
  "tx_step c c' \<longleftrightarrow> snd_step c c' \<and> same_receiver c c' \<and> cn_send_una c' = cn_send_una c \<and>
     cn_peer_window c' = cn_peer_window c \<and> unacked c' = unacked c \<and> is_terminal (cn_state c') = is_terminal (cn_state c) \<and>
     aborted (cn_state c') = aborted (cn_state c) \<and> syn_pending (cn_state c') = syn_pending (cn_state c) \<and> (cn_state c' = SynSent \<longleftrightarrow> cn_state c = SynSent)"

lemma tx_step_same:
  assumes "unacked c' = unacked c" and "cn_send_una c' = cn_send_una c" and "cn_state c' = cn_state c"
    and "same_receiver c c'" and "cn_peer_window c' = cn_peer_window c" and "cn_phase_deadline c' = cn_phase_deadline c"
    and "cn_close_deadline c' = cn_close_deadline c" and "cn_write_closed c' = cn_write_closed c"
  shows "tx_step c c'"
  using assms snd_step_same [OF assms(1,2)] by (simp add: tx_step_def)

lemma tx_step_refl [simp]: "tx_step c c"
  by (rule tx_step_same) simp_all

lemma tx_step_trans: "tx_step c d \<Longrightarrow> tx_step d e \<Longrightarrow> tx_step c e"
  unfolding tx_step_def using snd_step_trans same_receiver_trans by metis

lemma start_flight_inv:
  assumes "cn_inv cfg c" and "cn_state c \<in> {Established, CloseWait}" and "\<not> last_unsent c"
    and "payload \<noteq> []" and "cn_queued c = payload @ rest"
  shows "cn_inv cfg (cn_start_flight (ACK OR PSH) payload persist now (c\<lparr>cn_queued := rest\<rparr>))"
proof -
  define f where "f = \<lparr>fl_sequence = cn_send_next c, fl_flags = ACK OR PSH, fl_payload = payload, fl_created = now,
    fl_last_sent = None, fl_transmissions = 0, fl_rto = cn_rto c, fl_persist = persist, fl_rtt_eligible = True\<rparr>"
  have f: "fl_sequence f = cn_send_next c" "fl_transmissions f = 0" "data_flight f" "fl_rto f = cn_rto c" "fl_payload f = payload"
    using assms(4) by (simp_all add: f_def data_flight_def)
  have q: "queue_inv cfg (cn_send_una c) (cn_send_next c) (cn_send_sent c) (cn_flights c) (cn_flight_payload c) (cn_queued c)"
      "rto_ok cfg (cn_rto c)" "list_all data_flight (cn_flights c)"
    using assms(1,2) by (auto simp: cn_inv_defs phase_ok_def)
  have "queue_inv cfg (cn_send_una c) (fl_end f) (cn_send_sent c) (cn_flights c @ [f]) (cn_flight_payload c + length payload) rest"
    using queue_inv_start [OF q(1) _ f(1,2) _ _ disjI1 [OF f(3)], of rest] assms(3,5) q(1,2) f
    by (auto simp: last_unsent_def pure_flight_def queue_inv_def)
  moreover have "cn_start_flight (ACK OR PSH) payload persist now (c\<lparr>cn_queued := rest\<rparr>) =
      c\<lparr>cn_queued := rest, cn_send_next := fl_end f, cn_flight_payload := cn_flight_payload c + length payload,
        cn_flights := cn_flights c @ [f]\<rparr>"
    by (simp add: cn_start_flight_def Let_def f_def)
  ultimately show ?thesis
    using assms(1,2) q(3) f(3) by (auto simp: cn_inv_defs phase_ok_def)
qed

lemma start_fin_inv:
  assumes "cn_inv cfg c" and "cn_state c \<in> {Established, CloseWait}" and "cn_flights c = []" and "cn_queued c = []"
    and "cn_write_closed c"
  shows "cn_inv cfg ((cn_start_flight (FIN OR ACK) [] False now c)
    \<lparr>cn_state := (if cn_state c = CloseWait then LastAck else FinWait1)\<rparr>)"
proof -
  define f where "f = \<lparr>fl_sequence = cn_send_next c, fl_flags = FIN OR ACK, fl_payload = [], fl_created = now,
    fl_last_sent = None, fl_transmissions = 0, fl_rto = cn_rto c, fl_persist = False, fl_rtt_eligible = True\<rparr>"
  have f: "fl_sequence f = cn_send_next c" "fl_transmissions f = 0" "fin_flight f" "fl_rto f = cn_rto c" "fl_payload f = []"
    by (simp_all add: f_def fin_flight_def)
  have q: "queue_inv cfg (cn_send_una c) (cn_send_next c) (cn_send_sent c) (cn_flights c) (cn_flight_payload c) (cn_queued c)"
      "rto_ok cfg (cn_rto c)"
    using assms(1) by (auto simp: cn_inv_defs)
  have "queue_inv cfg (cn_send_una c) (fl_end f) (cn_send_sent c) (cn_flights c @ [f]) (cn_flight_payload c) []"
    using queue_inv_start [OF q(1) _ f(1,2), of "[]"] assms(3,4) q f by (auto simp: pure_flight_def queue_inv_def)
  moreover have "cn_start_flight (FIN OR ACK) [] False now c = c\<lparr>cn_send_next := fl_end f, cn_flights := [f]\<rparr>"
    using assms(3) by (simp add: cn_start_flight_def Let_def f_def)
  ultimately show ?thesis
    using assms(2) assms(1,3-5) f(3)
    by (elim insertE; simp add: cn_inv_defs; simp add: phase_ok_def timers_ok_def eof_ok_def)
qed

lemma cn_prepare_wp:
  assumes v: "tcp_config_valid cfg" and inv: "cn_inv cfg c"
  shows "cn_inv cfg (cn_prepare now cfg c) \<and> tx_step c (cn_prepare now cfg c) \<and>
    cn_send_sent (cn_prepare now cfg c) = cn_send_sent c"
proof -
  let ?open = "cn_state c \<in> {Established, CloseWait} \<and> \<not> tc_max_inflight_segments cfg \<le> length (cn_flights c) \<and> \<not> last_unsent c"
  let ?fin = "(cn_start_flight (FIN OR ACK) [] False now c)\<lparr>cn_state := (if cn_state c = CloseWait then LastAck else FinWait1)\<rparr>"
  have "cn_prepare now cfg c \<in> {c, c\<lparr>cn_probe_pending := True\<rparr>} \<or>
      ?open \<and> cn_queued c \<noteq> [] \<and> cn_prepare now cfg c = cn_prepare_data now cfg c \<or>
      ?open \<and> cn_queued c = [] \<and> cn_flights c = [] \<and> cn_write_closed c \<and> cn_prepare now cfg c = ?fin"
    by (cases ?open; cases "cn_queued c = []"; cases "cn_flights c = []"; cases "cn_write_closed c";
        cases "0 < cn_peer_window c") (simp_all add: cn_prepare_def)
  then consider (same) "cn_prepare now cfg c \<in> {c, c\<lparr>cn_probe_pending := True\<rparr>}"
    | (data) "?open" "cn_queued c \<noteq> []" "cn_prepare now cfg c = cn_prepare_data now cfg c"
    | (fin) "?open" "cn_queued c = []" "cn_flights c = []" "cn_write_closed c" "cn_prepare now cfg c = ?fin"
    by blast
  then show ?thesis
  proof cases
    case same
    then show ?thesis
      using inv by (elim insertE) (simp_all add: tx_step_same unacked_def same_receiver_def)
  next
    case data
    define c1 where "c1 = (if cn_flights c = [] \<and>
        deadline_passed now (map_option (\<lambda>t. saturating_add t (cn_rto c)) (cn_last_data_sent c))
      then c\<lparr>cn_cwnd := min (cn_cwnd c) (cn_initial_cwnd cfg c), cn_congestion_credit := 0\<rparr> else c)"
    have "cwnd_ok cfg (min (cn_cwnd c) (cn_initial_cwnd cfg c)) (cn_ssthresh c)"
      using inv initial_cwnd_ok [OF v, of c] by (auto simp: cn_inv_def cwnd_ok_def)
    then have c1: "cn_inv cfg c1" "tx_step c c1" "cn_send_sent c1 = cn_send_sent c" "cn_queued c1 = cn_queued c"
        "cn_state c1 = cn_state c" "last_unsent c1 = last_unsent c"
      using inv cn_inv_cwnd [OF inv] by (simp_all add: c1_def tx_step_same unacked_def same_receiver_def last_unsent_def)
    obtain n persist where n: "cn_prepare_data now cfg c = (if n = 0 then c1
        else cn_start_flight (ACK OR PSH) (take n (cn_queued c1)) persist now (c1\<lparr>cn_queued := drop n (cn_queued c1)\<rparr>))"
      unfolding cn_prepare_data_def c1_def [symmetric] Let_def by blast
    let ?d = "cn_start_flight (ACK OR PSH) (take n (cn_queued c1)) persist now (c1\<lparr>cn_queued := drop n (cn_queued c1)\<rparr>)"
    have "cn_inv cfg ?d" if "n \<noteq> 0"
      using start_flight_inv [OF c1(1), of "take n (cn_queued c1)" "drop n (cn_queued c1)" persist now] data(1,2) c1(4-6) that
      by simp
    moreover have "tx_step c1 ?d"
      by (rule tx_step_same) (simp_all add: cn_start_flight_def Let_def unacked_def same_receiver_def)
    ultimately show ?thesis
      using n c1 data(3) tx_step_trans [OF c1(2)] by (simp add: cn_start_flight_def Let_def)
  next
    case fin
    let ?d = ?fin
    have st: "una_shift (cn_state ?d) = una_shift (cn_state c)" "\<not> aborted (cn_state c)" "\<not> aborted (cn_state ?d)" "\<not> fin_started (cn_state c)"
        "is_terminal (cn_state ?d) = is_terminal (cn_state c)" "syn_pending (cn_state ?d) = syn_pending (cn_state c)"
        "(cn_state ?d = SynSent) = (cn_state c = SynSent)" "\<not> ended (cn_state c)"
      using fin(1) by (auto simp: una_shift_def state_defs is_terminal_def)
    have rest: "unacked ?d = unacked c" "cn_send_una ?d = cn_send_una c" "same_receiver c ?d" "cn_peer_window ?d = cn_peer_window c"
        "cn_send_sent ?d = cn_send_sent c" "cn_phase_deadline ?d = cn_phase_deadline c"
        "cn_close_deadline ?d = cn_close_deadline c" "cn_write_closed ?d = cn_write_closed c"
      by (simp_all add: cn_start_flight_def Let_def unacked_def same_receiver_def)
    then have "tx_step c ?d"
      using st snd_step_same [of ?d c] by (simp add: tx_step_def)
    then show ?thesis
      using start_fin_inv [OF inv _ fin(3,2,4), of now] fin(1,5) rest(5) by simp
  qed
qed

section \<open>The window recheck\<close>

lemma chain_nth: "chain u fs v \<Longrightarrow> k < length fs \<Longrightarrow> fl_sequence (fs ! k) = u + word_of_nat (span (take k fs))"
proof (induction fs arbitrary: u k)
  case (Cons f fs)
  show ?case
  proof (cases k)
    case (Suc j)
    then have "fl_sequence (fs ! j) = fl_end f + word_of_nat (span (take j fs))"
      using Cons by simp
    then show ?thesis
      using Suc Cons.prems(1) by (simp add: fl_end_len add.assoc)
  qed (use Cons.prems in simp)
qed simp

lemma span_take_Suc: "k < length fs \<Longrightarrow> span (take (Suc k) fs) = span (take k fs) + fl_len (fs ! k)"
  by (simp add: take_Suc_conv_app_nth)

lemma span_take_le: "span (take k fs) \<le> span fs"
  by (metis append_take_drop_id le_add1 span_simps(3))

text \<open>Only the last flight can be unsent.\<close>

lemma sent_ok_unsent: "sent_ok nxt sent fs \<Longrightarrow> k < length fs \<Longrightarrow> fl_transmissions (fs ! k) = 0 \<Longrightarrow> Suc k = length fs"
proof (rule ccontr)
  assume a: "sent_ok nxt sent fs" "k < length fs" "fl_transmissions (fs ! k) = 0" "Suc k \<noteq> length fs"
  then have "k < length (butlast fs)"
    by simp
  then have "0 < fl_transmissions (butlast fs ! k)"
    using a(1) by (simp only: sent_ok_def list_all_length)
  then show False
    using a(3) \<open>k < length (butlast fs)\<close> by (simp add: nth_butlast)
qed

lemma queue_inv_cut:
  assumes q: "queue_inv cfg una nxt sent (gs @ [f]) payload queued" and v: "tcp_config_valid cfg"
    and f: "data_flight f" "fl_transmissions f = 0" and r: "0 < r" "r < length (fl_payload f)"
    and g: "g = f\<lparr>fl_payload := take r (fl_payload f), fl_persist := b\<rparr>"
  shows "queue_inv cfg una (fl_end g) sent (gs @ [g]) (payload - (length (fl_payload f) - r)) (drop r (fl_payload f) @ queued)"
    and "unat (nxt - fl_end g) = length (fl_payload f) - r" and "length (fl_payload f) \<le> payload"
proof -
  have g': "data_flight g" "fl_len g = r" "fl_sequence g = fl_sequence f" "fl_transmissions g = 0" "fl_rto g = fl_rto f"
      "length (fl_payload g) = r" "fl_end g = fl_sequence f + word_of_nat r"
    using f r by (simp_all add: g data_flight_def fl_len_def fl_end_def)
  have ch: "chain una gs (fl_sequence f)" "nxt = fl_end f"
    using q by (simp_all add: queue_inv_def chain_snoc)
  have lenf: "fl_len f = length (fl_payload f)"
    by (rule data_flight_len [OF f(1)])
  have pay: "payload = length (fl_bytes gs) + length (fl_payload f)"
    using q by (simp add: queue_inv_def)
  then show "length (fl_payload f) \<le> payload"
    by simp
  have "length (fl_payload f) < 4294967296"
    using queue_inv_span(1) [OF q v] lenf by simp
  then show "unat (nxt - fl_end g) = length (fl_payload f) - r"
    using unat_offset_diff [of r "length (fl_payload f)" "fl_sequence f"] r(2) ch(2) g'(7) lenf by (simp add: fl_end_len)
  show "queue_inv cfg una (fl_end g) sent (gs @ [g]) (payload - (length (fl_payload f) - r)) (drop r (fl_payload f) @ queued)"
    using q r ch(1) g' pay f(2) lenf by (simp add: queue_inv_def chain_snoc sent_ok_def pure_flight_def)
qed

definition tx_room :: "connection \<Rightarrow> nat" where
  "tx_room c = (if cn_peer_window c = 0 \<and> cn_bytes_in_flight c = 0 then 1
     else min (cn_cwnd c) (unat (cn_peer_window c)) - cn_bytes_in_flight c)"

lemma tx_room_same:
  "cn_peer_window c' = cn_peer_window c \<Longrightarrow> cn_send_una c' = cn_send_una c \<Longrightarrow> cn_send_sent c' = cn_send_sent c \<Longrightarrow>
    cn_cwnd c' = cn_cwnd c \<Longrightarrow> tx_room c' = tx_room c"
  by (simp add: tx_room_def cn_bytes_in_flight_def)

lemma persist_inv:
  assumes "cn_inv cfg c" and "k < length (cn_flights c)"
  shows "cn_inv cfg (c\<lparr>cn_flights := (cn_flights c)[k := (cn_flights c ! k)\<lparr>fl_persist := b\<rparr>]\<rparr>)" (is "cn_inv cfg ?c")
    and "tx_step c (c\<lparr>cn_flights := (cn_flights c)[k := (cn_flights c ! k)\<lparr>fl_persist := b\<rparr>]\<rparr>)"
proof -
  have same: "list_all2 same_sent (cn_flights c) (cn_flights ?c)"
    using assms(2) by (auto simp: list_all2_conv_all_nth nth_list_update same_sent_def same_wire_def)
  have "list_all (\<lambda>f. rto_ok cfg (fl_rto f)) (cn_flights ?c)"
    using cn_inv_rtos [OF assms(1)] assms(2) by (auto simp: rtos_ok_def list_all_length nth_list_update)
  then show "cn_inv cfg ?c"
    by (intro cn_inv_same [OF assms(1) _ same]) (use assms(1) cn_inv_rtos [OF assms(1)] in \<open>simp_all add: same_core_def cn_inv_def rtos_ok_def\<close>)
  show "tx_step c ?c"
    using unacked_wire [OF same] by (intro tx_step_same) simp_all
qed

lemma cn_recheck_wp:
  assumes v: "tcp_config_valid cfg" and inv: "cn_inv cfg c" and k: "k < length (cn_flights c)"
  shows "wp (cn_recheck k now c) (\<lambda>(index, c'). cn_inv cfg c' \<and> tx_step c c' \<and> cn_send_sent c' = cn_send_sent c \<and>
    cn_cwnd c' = cn_cwnd c \<and> (index = None \<or> index = Some k \<and> k < length (cn_flights c') \<and>
      (fl_transmissions (cn_flights c' ! k) = 0 \<and> \<not> has_flag (fl_flags (cn_flights c' ! k)) SYN \<longrightarrow>
         fl_len (cn_flights c' ! k) \<le> tx_room c')))"
proof -
  define f where "f = cn_flights c ! k"
  define persist where "persist \<longleftrightarrow> cn_peer_window c = 0 \<and> cn_bytes_in_flight c = 0"
  have nth: "nth_opt (cn_flights c) k = Some f"
    using k by (simp add: nth_opt_def f_def)
  have room: "(if persist then 1 else min (cn_cwnd c) (unat (cn_peer_window c)) - cn_bytes_in_flight c) = tx_room c"
    by (simp add: tx_room_def persist_def)
  have q: "queue_inv cfg (cn_send_una c) (cn_send_next c) (cn_send_sent c) (cn_flights c) (cn_flight_payload c) (cn_queued c)"
    using inv by (simp add: cn_inv_defs)
  have pure: "list_all pure_flight (cn_flights c)"
    by (rule chain_pure [where v = "cn_send_next c" and u = "cn_send_una c"]) (use q in \<open>simp add: queue_inv_def\<close>)
  have eq: "cn_recheck k now c =
     (if fl_transmissions f \<noteq> 0 \<or> has_flag (fl_flags f) SYN then Some (Some k, c)
      else if tx_room c = 0 \<or> persist \<and> has_flag (fl_flags f) FIN then
         Some (None, if persist \<and> cn_window_probe_at c \<le> now then c\<lparr>cn_probe_pending := True\<rparr> else c)
      else if length (fl_payload f) > tx_room c then do {
         let kept = f\<lparr>fl_payload := take (tx_room c) (fl_payload f)\<rparr>;
         let removed = unat (cn_send_next c - fl_end kept);
         remaining \<leftarrow> checked_sub (cn_flight_payload c) removed;
         Some (Some k,
           c\<lparr>cn_queued := drop (tx_room c) (fl_payload f) @ cn_queued c, cn_flight_payload := remaining,
             cn_send_next := fl_end kept, cn_flights := (cn_flights c)[k := kept\<lparr>fl_persist := persist\<rparr>]\<rparr>)
       }
      else Some (Some k, c\<lparr>cn_flights := (cn_flights c)[k := f\<lparr>fl_persist := persist\<rparr>]\<rparr>))"
    unfolding cn_recheck_def nth Let_def persist_def [symmetric] room by simp
  consider (sent) "fl_transmissions f \<noteq> 0 \<or> has_flag (fl_flags f) SYN"
    | (held) "fl_transmissions f = 0" "\<not> has_flag (fl_flags f) SYN" "tx_room c = 0 \<or> persist \<and> has_flag (fl_flags f) FIN"
    | (cut) "fl_transmissions f = 0" "\<not> has_flag (fl_flags f) SYN" "0 < tx_room c" "length (fl_payload f) > tx_room c"
        "\<not> (tx_room c = 0 \<or> persist \<and> has_flag (fl_flags f) FIN)"
    | (whole) "fl_transmissions f = 0" "\<not> has_flag (fl_flags f) SYN" "0 < tx_room c" "\<not> length (fl_payload f) > tx_room c"
        "\<not> (tx_room c = 0 \<or> persist \<and> has_flag (fl_flags f) FIN)"
    by blast
  then show ?thesis
  proof cases
    case sent
    then show ?thesis
      using eq inv k by (auto simp: f_def)
  next
    case held
    then have "cn_recheck k now c = Some (None, c) \<or> cn_recheck k now c = Some (None, c\<lparr>cn_probe_pending := True\<rparr>)"
      using eq by simp
    then show ?thesis
      using inv by (elim disjE) (simp_all add: tx_step_same unacked_def same_receiver_def)
  next
    case whole
    let ?c = "c\<lparr>cn_flights := (cn_flights c)[k := f\<lparr>fl_persist := persist\<rparr>]\<rparr>"
    have "cn_recheck k now c = Some (Some k, ?c)"
      using whole eq by simp
    moreover have "pure_flight f"
      using pure k by (simp add: list_all_length f_def)
    then have "fl_len f \<le> tx_room c"
      using whole(2-4) by (auto simp: flight_kinds fl_len_def)
    moreover have "fl_len (f\<lparr>fl_persist := persist\<rparr>) = fl_len f"
      by (simp add: fl_len_def)
    moreover have "tx_room ?c = tx_room c"
      by (rule tx_room_same) simp_all
    ultimately show ?thesis
      using persist_inv [OF inv k, of persist] k by (simp add: f_def)
  next
    case cut
    have "Suc k = length (cn_flights c)"
      using sent_ok_unsent [of _ _ "cn_flights c" k] q k cut(1) by (auto simp: queue_inv_def f_def)
    then have fs: "cn_flights c = butlast (cn_flights c) @ [f]" "k = length (butlast (cn_flights c))"
      using k by (metis append_butlast_last_id diff_Suc_1 f_def last_conv_nth length_butlast list.size(3) not_less_zero)+
    then obtain gs where gs: "cn_flights c = gs @ [f]" "k = length gs"
      by blast
    have "pure_flight f"
      using pure gs(1) by simp
    then have data: "data_flight f"
      using cut(4) by (auto simp: flight_kinds)
    then have st: "cn_state c \<in> {Established, CloseWait}"
      using inv gs by (auto simp: cn_inv_def phase_ok_def flight_kinds split: if_split_asm)
    define g where "g = f\<lparr>fl_payload := take (tx_room c) (fl_payload f), fl_persist := persist\<rparr>"
    note cuts = queue_inv_cut [OF q [unfolded gs(1)] v data cut(1,3,4) g_def]
    let ?c = "c\<lparr>cn_queued := drop (tx_room c) (fl_payload f) @ cn_queued c,
      cn_flight_payload := cn_flight_payload c - (length (fl_payload f) - tx_room c), cn_send_next := fl_end g, cn_flights := gs @ [g]\<rparr>"
    have "fl_end (f\<lparr>fl_payload := take (tx_room c) (fl_payload f)\<rparr>) = fl_end g"
        "f\<lparr>fl_payload := take (tx_room c) (fl_payload f)\<rparr>\<lparr>fl_persist := persist\<rparr> = g"
      by (simp_all add: g_def fl_end_def)
    then have "cn_recheck k now c = Some (Some k, ?c)"
      using cut(1,2,4,5) eq cuts(2,3) gs by (simp add: Let_def checked_sub_def)
    moreover have "cn_inv cfg ?c"
      using inv st cuts(1) data gs cut(3,4) by (auto simp: cn_inv_defs phase_ok_def g_def data_flight_def)
    moreover have "tx_step c ?c"
      using gs by (intro tx_step_same) (simp_all add: unacked_def g_def same_receiver_def)
    moreover have "fl_len g \<le> tx_room c"
      using data by (simp add: g_def fl_len_def data_flight_def)
    moreover have "tx_room ?c = tx_room c"
      by (rule tx_room_same) simp_all
    ultimately show ?thesis
      using gs by simp
  qed
qed

section \<open>After a submission\<close>

lemma rto_backoff_ok: "rto_ok cfg r \<Longrightarrow> rto_ok cfg (min (saturating_mul r 2) (tc_max_rto cfg))"
  by (auto simp: rto_ok_def saturating_mul_def)

lemma cn_retransmitted_same:
  assumes "tcp_config_valid cfg" and "cn_inv cfg c" and "rto_ok cfg (fl_rto f)"
    and "cn_retransmitted n f now cfg c = (f', c')"
  shows "same_core c c'" and "cn_flights c' = cn_flights c" and "cwnd_ok cfg (cn_cwnd c') (cn_ssthresh c')"
    and "rto_ok cfg (cn_rto c')" and "same_sent f f'" and "rto_ok cfg (fl_rto f')" and "cn_peer_window c' = cn_peer_window c"
proof -
  have cwnd: "cwnd_ok cfg (cn_cwnd c) (cn_ssthresh c)"
    using assms(2) by (simp add: cn_inv_def)
  have res: "f' = fst (cn_retransmitted n f now cfg c)" "c' = snd (cn_retransmitted n f now cfg c)"
    using assms(4) by simp_all
  have "0 < cn_send_mss cfg c" "0 < tc_max_cwnd_bytes cfg"
    using send_mss_pos [OF assms(1)] assms(1) by (simp_all add: tcp_config_valid_def)
  then show "cwnd_ok cfg (cn_cwnd c') (cn_ssthresh c')"
    using cwnd by (simp add: res cn_retransmitted_def Let_def cwnd_ok_def less_max_iff_disj)
  show "same_core c c'" "cn_flights c' = cn_flights c" "same_sent f f'" "cn_peer_window c' = cn_peer_window c"
      "rto_ok cfg (cn_rto c')" "rto_ok cfg (fl_rto f')"
    using rto_backoff_ok [OF assms(3)]
    by (simp_all add: res cn_retransmitted_def Let_def same_core_def same_sent_def same_wire_def)
qed

text \<open>
  A submitted flight counts as sent. A retransmission leaves the highest submitted position alone; the last
  flight moves it to the end of the queue.
\<close>

lemma queue_inv_submit:
  assumes q: "queue_inv cfg una nxt sent fs payload queued" and v: "tcp_config_valid cfg" and k: "k < length fs"
    and wire: "list_all2 same_wire fs gs" and rto: "list_all (\<lambda>f. rto_ok cfg (fl_rto f)) gs"
    and sent: "\<forall>i < length fs. 0 < fl_transmissions (gs ! i) \<longleftrightarrow> i = k \<or> 0 < fl_transmissions (fs ! i)"
    and sent': "sent' = (if before sent (fl_end (fs ! k)) then fl_end (fs ! k) else sent)"
  shows "queue_inv cfg una nxt sent' gs payload queued"
    and "0 < fl_transmissions (fs ! k) \<Longrightarrow> sent' = sent"
    and "fl_transmissions (fs ! k) = 0 \<Longrightarrow> sent' = sent + word_of_nat (fl_len (fs ! k)) \<and>
      unat (sent' - una) = unat (sent - una) + fl_len (fs ! k)"
proof -
  note span = queue_inv_span [OF q v]
  have len: "length gs = length fs"
    using list_all2_lengthD [OF wire] by simp
  have ch: "chain una fs nxt" and so: "sent_ok nxt sent fs"
    using q by (simp_all add: queue_inv_def)
  have pos: "0 < fl_len (fs ! k)"
    using chain_pure [OF ch] k by (intro fl_len_pos) (simp add: list_all_length)
  have seq: "fl_sequence (fs ! k) = una + word_of_nat (span (take k fs))"
    by (rule chain_nth [OF ch k])
  have fin: "fl_end (fs ! k) = una + word_of_nat (span (take (Suc k) fs))"
    using seq k by (simp add: fl_end_len span_take_Suc)
  have le: "span (take (Suc k) fs) \<le> span fs"
    by (rule span_take_le)
  obtain n where n: "sent = una + word_of_nat n" "n \<le> span fs"
      "fs \<noteq> [] \<and> fl_transmissions (last fs) = 0 \<longrightarrow> n = span (butlast fs)"
      "\<not> (fs \<noteq> [] \<and> fl_transmissions (last fs) = 0) \<longrightarrow> n = span fs"
    using queue_inv_sent [OF q v] by metis
  have ne: "fs \<noteq> []" "gs \<noteq> []"
    using k len by auto
  have bef: "before sent (fl_end (fs ! k)) \<longleftrightarrow> n < span (take (Suc k) fs)"
    unfolding n(1) fin using before_offset n(2) le span(1) by simp
  have butlast: "list_all (\<lambda>f. 0 < fl_transmissions f) (butlast gs)"
    using so sent len by (auto simp: sent_ok_def list_all_length nth_butlast)
  have last_seq: "fl_sequence (last gs) = fl_sequence (last fs)"
    using list_all2_nthD [OF wire, of "length fs - 1"] ne len by (simp add: last_conv_nth same_wire_def)
  have last_tx: "0 < fl_transmissions (last gs) \<longleftrightarrow> Suc k = length fs \<or> 0 < fl_transmissions (last fs)"
    using spec [OF sent, of "length fs - 1"] ne len k by (auto simp: last_conv_nth)
  have "sent_ok nxt sent' gs \<and> (0 < fl_transmissions (fs ! k) \<longrightarrow> sent' = sent) \<and>
    (fl_transmissions (fs ! k) = 0 \<longrightarrow> sent' = sent + word_of_nat (fl_len (fs ! k)) \<and>
      unat (sent' - una) = unat (sent - una) + fl_len (fs ! k))"
  proof (cases "fl_transmissions (fs ! k) = 0")
    case True
    then have k': "Suc k = length fs"
      using sent_ok_unsent [OF so k] by simp
    then have lst: "fs ! k = last fs" "take (Suc k) fs = fs" "butlast fs = take k fs"
      using ne by (simp_all add: last_conv_nth butlast_conv_take flip: k')
    then have nk: "n = span (take k fs)" "span fs = n + fl_len (fs ! k)"
      using n(3) True ne span_take_Suc [OF k] by simp_all
    have nxt: "sent' = nxt" "nxt = una + word_of_nat (span fs)"
      using sent' bef lst(2) nk(2) pos fin span(2) by simp_all
    have "unat (nxt - una) = span fs" "unat (sent - una) = n"
      using unat_offset_diff [of 0 "span fs" una] unat_offset_diff [of 0 n una] span n(1,2) by simp_all
    then have "sent' = sent + word_of_nat (fl_len (fs ! k))" "unat (sent' - una) = unat (sent - una) + fl_len (fs ! k)"
      using nxt n(1) nk(2) by (simp_all only: of_nat_add add.assoc)
    moreover have "sent_ok nxt sent' gs"
      unfolding sent_ok_def using butlast last_tx k' nxt(1) by auto
    ultimately show ?thesis
      using True by simp
  next
    case False
    have "span (take (Suc k) fs) \<le> n"
    proof (cases "fl_transmissions (last fs) = 0")
      case True
      then have "Suc k \<noteq> length fs"
        using False k ne by (auto simp: last_conv_nth dest: arg_cong [of _ _ "\<lambda>n. n - 1"])
      then have "take (Suc k) fs = take (Suc k) (butlast fs)"
        using k by (simp add: take_butlast)
      then show ?thesis
        using n(3) True ne span_take_le [of "Suc k" "butlast fs"] by simp
    next
      case False
      then show ?thesis
        using n(4) le by simp
    qed
    then have "sent' = sent"
      using sent' bef by simp
    moreover have "(fl_transmissions (last gs) = 0) = (fl_transmissions (last fs) = 0)"
    proof (cases "Suc k = length fs")
      case True
      then have "last fs = fs ! k"
        using ne by (simp add: last_conv_nth flip: True)
      then show ?thesis
        using False last_tx True by simp
    qed (use last_tx in auto)
    ultimately show ?thesis
      using False so butlast last_seq ne by (simp add: sent_ok_def)
  qed
  then show "0 < fl_transmissions (fs ! k) \<Longrightarrow> sent' = sent"
    "fl_transmissions (fs ! k) = 0 \<Longrightarrow> sent' = sent + word_of_nat (fl_len (fs ! k)) \<and>
      unat (sent' - una) = unat (sent - una) + fl_len (fs ! k)"
    by blast+
  show "queue_inv cfg una nxt sent' gs payload queued"
    using \<open>sent_ok nxt sent' gs \<and> _\<close> q chain_same_wire [OF wire] span_same_wire [OF wire] bytes_same_wire [OF wire] rto
    by (simp add: queue_inv_def)
qed

lemma cn_submitted_wp:
  assumes v: "tcp_config_valid cfg" and inv: "cn_inv cfg c" and k: "k < length (cn_flights c)"
  shows "wp (cn_submitted k now cfg c) (\<lambda>(again, c'). cn_inv cfg c' \<and> tx_step c c' \<and> cn_state c' = cn_state c \<and>
    (if fl_transmissions (cn_flights c ! k) = 0
     then cn_bytes_in_flight c' = cn_bytes_in_flight c + fl_len (cn_flights c ! k) \<and> cn_cwnd c' = cn_cwnd c
     else cn_send_sent c' = cn_send_sent c))"
proof -
  define f where "f = cn_flights c ! k"
  define again where "again \<longleftrightarrow> 0 < fl_transmissions f"
  obtain f1 c1 where r: "(if again then cn_retransmitted (cn_bytes_in_flight c) f now cfg c else (f, c)) = (f1, c1)"
    by (cases "if again then cn_retransmitted (cn_bytes_in_flight c) f now cfg c else (f, c)")
  have rf: "rto_ok cfg (fl_rto f)"
    using cn_inv_rtos [OF inv] k by (simp add: rtos_ok_def list_all_length f_def)
  have c1: "same_core c c1" "cn_flights c1 = cn_flights c" "cwnd_ok cfg (cn_cwnd c1) (cn_ssthresh c1)" "rto_ok cfg (cn_rto c1)"
      "same_sent f f1" "rto_ok cfg (fl_rto f1)" "cn_peer_window c1 = cn_peer_window c"
    using r cn_retransmitted_same [OF v inv rf, of "cn_bytes_in_flight c" now f1 c1] inv rf
    by (auto simp: same_sent_def same_wire_def cn_inv_def split: if_split_asm)
  define f2 where "f2 = f1\<lparr>fl_transmissions := sat_add 32 (fl_transmissions f1) 1, fl_last_sent := Some now\<rparr>"
  have f2: "same_wire f f2" "0 < fl_transmissions f2" "rto_ok cfg (fl_rto f2)"
    using c1(5,6) by (simp_all add: f2_def same_sent_def same_wire_def sat_add_def)
  define gs where "gs = (if again then map (\<lambda>f. f\<lparr>fl_rtt_eligible := False\<rparr>) ((cn_flights c)[k := f2]) else (cn_flights c)[k := f2])"
  have len: "length gs = length (cn_flights c)"
    by (simp add: gs_def)
  have nth: "gs ! i = (if again then g\<lparr>fl_rtt_eligible := False\<rparr> else g)" if "i < length (cn_flights c)" "g = (if i = k then f2 else cn_flights c ! i)" for i g
    using that by (simp add: gs_def nth_list_update)
  have wire: "list_all2 same_wire (cn_flights c) gs"
    using nth f2(1) len by (auto simp: list_all2_conv_all_nth same_wire_def f_def)
  have rto: "list_all (\<lambda>f. rto_ok cfg (fl_rto f)) gs"
    using nth f2(3) len cn_inv_rtos [OF inv] by (auto simp: list_all_length rtos_ok_def)
  have tx: "\<forall>i < length (cn_flights c). 0 < fl_transmissions (gs ! i) \<longleftrightarrow> i = k \<or> 0 < fl_transmissions (cn_flights c ! i)"
    using nth f2(2) by simp
  have q: "queue_inv cfg (cn_send_una c) (cn_send_next c) (cn_send_sent c) (cn_flights c) (cn_flight_payload c) (cn_queued c)"
    using inv by (simp add: cn_inv_defs)
  define sent where "sent = (if before (cn_send_sent c) (fl_end f) then fl_end f else cn_send_sent c)"
  note sub = queue_inv_submit [OF q v k wire rto tx sent_def [unfolded f_def], folded f_def]
  define c' where "c' = c1\<lparr>cn_flights := gs, cn_send_sent := sent,
    cn_last_data_sent := (if fl_payload f2 \<noteq> [] then Some now else cn_last_data_sent c1)\<rparr>"
  have ends: "fl_end f2 = fl_end f" "fl_transmissions f1 = fl_transmissions f" "cn_send_sent c1 = cn_send_sent c"
    using same_wire_simps(1) [OF f2(1)] c1(1,5) by (simp_all add: same_sent_def same_core_def)
  have eq: "cn_submitted k now cfg c = Some (again, c')"
  proof -
    have "nth_opt (cn_flights c) k = Some f"
      using k by (simp add: nth_opt_def f_def)
    then show ?thesis
      unfolding cn_submitted_def Let_def
      by (simp only: bind.bind_lunit again_def [symmetric] r prod.case f2_def [symmetric] c1(2) gs_def [symmetric] ends(1,3) sent_def [symmetric] c'_def)
  qed
  have kinds: "list_all data_flight gs = list_all data_flight (cn_flights c)" "list_all syn_flight gs = list_all syn_flight (cn_flights c)"
      "list_all fin_flight gs = list_all fin_flight (cn_flights c)" "(gs = []) = (cn_flights c = [])"
    using wire len same_wire_simps(4-6) [OF list_all2_nthD [OF wire]] by (auto simp: list_all_length)
  have "cn_inv cfg c'"
    using inv sub(1) c1(1,3,4) kinds len by (simp add: cn_inv_defs c'_def phase_ok_def same_core_def)
  moreover have "tx_step c c'"
    using c1(1,7) bytes_same_wire [OF wire]
    by (intro tx_step_same) (simp_all add: c'_def same_core_def unacked_def same_receiver_def)
  moreover have "cn_cwnd c1 = cn_cwnd c" if "\<not> again"
    using that r by simp
  ultimately show ?thesis
    using eq sub(2,3) c1(1) by (auto simp: c'_def same_core_def cn_bytes_in_flight_def f_def [symmetric] again_def)
qed

text \<open>
  New sequence space is used only within both windows, apart from the SYN and a probe of one byte into a
  closed window.
\<close>

definition within_windows :: "connection \<Rightarrow> connection \<Rightarrow> bool" where
  "within_windows c c' \<longleftrightarrow> cn_send_sent c' = cn_send_sent c \<or> syn_pending (cn_state c) \<or>
     cn_bytes_in_flight c' \<le> min (cn_cwnd c') (unat (cn_peer_window c')) \<or>
     cn_peer_window c' = 0 \<and> cn_bytes_in_flight c' = 1"

definition index_ok :: "nat option \<Rightarrow> connection \<Rightarrow> bool" where
  "index_ok index c \<longleftrightarrow> (case index of None \<Rightarrow> True | Some k \<Rightarrow> k < length (cn_flights c) \<and>
     (fl_transmissions (cn_flights c ! k) = 0 \<and> \<not> has_flag (fl_flags (cn_flights c ! k)) SYN \<longrightarrow>
        fl_len (cn_flights c ! k) \<le> tx_room c))"

lemma syn_flight_pending:
  assumes "cn_inv cfg c" and "f \<in> set (cn_flights c)" and "has_flag (fl_flags f) SYN"
  shows "syn_pending (cn_state c)"
  using assms by (auto simp: cn_inv_def phase_ok_def syn_pending_def list_all_iff flight_kinds split: if_split_asm)

lemma room_within:
  assumes "cn_bytes_in_flight c' = cn_bytes_in_flight c + n" and "0 < n" and "n \<le> tx_room c"
    and "cn_cwnd c' = cn_cwnd c" and "cn_peer_window c' = cn_peer_window c"
  shows "within_windows c c'"
  using assms by (auto simp: within_windows_def tx_room_def split: if_split_asm)

lemma cn_after_send_wp:
  assumes v: "tcp_config_valid cfg" and inv: "cn_inv cfg c" and index: "index_ok index c"
  shows "wp (cn_after_send index flags now cfg c) (\<lambda>(again, c'). cn_inv cfg c' \<and> tx_step c c' \<and> within_windows c c')"
proof -
  have "wp (case index of None \<Rightarrow> Some (False, c) | Some k \<Rightarrow> cn_submitted k now cfg c)
    (\<lambda>(again, c'). cn_inv cfg c' \<and> tx_step c c' \<and> within_windows c c')"
  proof (cases index)
    case (Some k)
    then have k: "k < length (cn_flights c)" "fl_transmissions (cn_flights c ! k) = 0 \<Longrightarrow>
        \<not> has_flag (fl_flags (cn_flights c ! k)) SYN \<Longrightarrow> fl_len (cn_flights c ! k) \<le> tx_room c"
      using index by (auto simp: index_ok_def)
    obtain again c' where c': "cn_submitted k now cfg c = Some (again, c')" "cn_inv cfg c'" "tx_step c c'"
        "if fl_transmissions (cn_flights c ! k) = 0
         then cn_bytes_in_flight c' = cn_bytes_in_flight c + fl_len (cn_flights c ! k) \<and> cn_cwnd c' = cn_cwnd c
         else cn_send_sent c' = cn_send_sent c"
      using cn_submitted_wp [OF v inv k(1), of now] unfolding wp_eq_Some by blast
    have "chain (cn_send_una c) (cn_flights c) (cn_send_next c)"
      using inv by (simp add: cn_inv_defs queue_inv_def)
    then have "0 < fl_len (cn_flights c ! k)"
      using chain_pure k(1) by (intro fl_len_pos) (simp add: list_all_length)
    then have "within_windows c c'"
    proof (cases "fl_transmissions (cn_flights c ! k) = 0 \<and> \<not> has_flag (fl_flags (cn_flights c ! k)) SYN")
      case True
      then show ?thesis
        using room_within [of c' c] c'(3,4) k(2) \<open>0 < fl_len (cn_flights c ! k)\<close> by (simp add: tx_step_def)
    next
      case False
      then show ?thesis
        using c'(4) syn_flight_pending [OF inv nth_mem [OF k(1)]] by (auto simp: within_windows_def split: if_split_asm)
    qed
    then show ?thesis
      using Some c' by simp
  qed (use inv in \<open>simp add: within_windows_def\<close>)
  then obtain again c' where c': "(case index of None \<Rightarrow> Some (False, c) | Some k \<Rightarrow> cn_submitted k now cfg c) = Some (again, c')"
      "cn_inv cfg c'" "tx_step c c'" "within_windows c c'"
    unfolding wp_eq_Some by blast
  define e where "e = (if has_flag flags ACK then c'\<lparr>cn_ack_pending := False\<rparr> else c')"
  define e' where "e' = (if cn_probe_pending e
       then e\<lparr>cn_probe_pending := False, cn_window_probe_at := saturating_add now (cn_rto e)\<rparr> else e)"
  have "cn_after_send index flags now cfg c = Some (again, e')"
    by (simp add: cn_after_send_def c'(1) Let_def e_def [symmetric] e'_def)
  moreover have "tx_step c' e'"
    by (rule tx_step_same) (simp_all add: e'_def e_def unacked_def same_receiver_def)
  moreover have "cn_inv cfg e'" "within_windows c e'"
    using c'(2,4) by (simp_all add: e'_def e_def within_windows_def cn_bytes_in_flight_def)
  ultimately show ?thesis
    using tx_step_trans [OF c'(3)] by simp
qed

section \<open>The emitted segment\<close>

definition emits :: "connection \<Rightarrow> segment \<Rightarrow> bool" where
  "emits c s \<longleftrightarrow> sg_source s = cn_local c \<and> sg_destination s = cn_remote c \<and> sg_acknowledgment s = cn_receive_next c \<and>
     ((\<exists>f \<in> set (cn_flights c). sg_sequence s = fl_sequence f \<and> sg_flags s = fl_flags f \<and> sg_payload s = fl_payload f) \<or>
      sg_flags s = ACK \<and> sg_payload s = [])"

lemma cn_segment_emits:
  assumes "index_ok index c"
  obtains s where "cn_segment index window cfg c = Some s" and "emits c s" and "sg_window s = window"
proof -
  have "\<exists>s. cn_segment index window cfg c = Some s \<and> emits c s \<and> sg_window s = window"
  proof (cases index)
    case (Some k)
    then have "k < length (cn_flights c)"
      using assms by (simp add: index_ok_def)
    then show ?thesis
      using Some by (auto simp: cn_segment_def emits_def nth_opt_def intro!: bexI [of _ "cn_flights c ! k"])
  qed (simp add: cn_segment_def emits_def)
  then show thesis
    using that by blast
qed

text \<open>
  A device with a record of the packets it accepted, used to state what reaches the network.
\<close>

definition tap_ops :: "'d device_ops \<Rightarrow> ('d \<times> bytes list) device_ops" where
  "tap_ops ops =
     \<lparr>dv_poll_at = (\<lambda>now (d, log). map_option (\<lambda>(r, d). (r, d, log)) (dv_poll_at ops now d)),
      dv_recv = (\<lambda>k out (d, log). map_option (\<lambda>(r, out, d). (r, out, d, log)) (dv_recv ops k out d)),
      dv_send = (\<lambda>fs (d, log). map_option (\<lambda>(r, fs', d). (r, fs', d,
        case r of Inl e \<Rightarrow> log | Inr n \<Rightarrow> log @ map as_slice (take n fs))) (dv_send ops fs d)),
      dv_alloc = (\<lambda>(d, log). map_option (\<lambda>(r, d). (r, d, log)) (dv_alloc ops d)),
      dv_frame_size = (\<lambda>(d, log). dv_frame_size ops d),
      dv_drop = (\<lambda>b (d, log). map_option (\<lambda>d. (d, log)) (dv_drop ops b d))\<rparr>"

definition tap_held :: "('d \<Rightarrow> packet_buf multiset \<Rightarrow> bool) \<Rightarrow> 'd \<times> bytes list \<Rightarrow> packet_buf multiset \<Rightarrow> bool" where
  "tap_held held d M \<longleftrightarrow> held (fst d) M"

lemma tap_drop_all:
  "dv_drop_all (tap_ops ops) bs (d, log) = map_option (\<lambda>d. (d, log)) (dv_drop_all ops bs d)"
proof (induction bs arbitrary: d)
  case (Cons b bs)
  then show ?case
    by (cases "dv_drop ops b d") (simp_all add: dv_drop_all_def tap_ops_def)
qed (simp add: dv_drop_all_def)

text \<open>The record does not influence the device.\<close>

lemma tap_emit:
  "cn_emit ops index frame now cfg c d =
     map_option (\<lambda>(r, c, d, log). (r, c, d)) (cn_emit (tap_ops ops) index frame now cfg c (d, log))"
proof -
  obtain send drop1 where ops: "dv_send ops = send" "dv_drop ops = drop1"
    by blast
  have tap: "dv_send (tap_ops ops) fs (d, log) = map_option (\<lambda>(r, fs', d). (r, fs', d,
        case r of Inl e \<Rightarrow> log | Inr n \<Rightarrow> log @ map as_slice (take n fs))) (send fs d)"
      "dv_drop (tap_ops ops) b (d, log) = map_option (\<lambda>d. (d, log)) (drop1 b d)" for fs b d log
    by (simp_all add: tap_ops_def ops)
  have step: "do {
       (r, slot, x) \<leftarrow> send fs d;
       x \<leftarrow> dv_drop_all ops slot x;
       F r x
     } = map_option (\<lambda>(r, c, d, log). (r, c, d)) (do {
       (r, slot, x) \<leftarrow> dv_send (tap_ops ops) fs (d, log);
       x \<leftarrow> dv_drop_all (tap_ops ops) slot x;
       G r x
     })" if "\<And>r d log. F r d = map_option (\<lambda>(r, c, d, log). (r, c, d)) (G r (d, log))" for F G fs d log
  proof (cases "send fs d")
    case (Some x)
    then obtain r slot d' where "send fs d = Some (r, slot, d')"
      by (cases x) auto
    then show ?thesis
      by (cases "dv_drop_all ops slot d'") (simp_all add: tap tap_drop_all that)
  qed (simp add: tap)
  have drop: "do { d \<leftarrow> drop1 b d; Some (r, c, d) } = map_option (\<lambda>(r, c, d, log). (r, c, d))
      (do { x \<leftarrow> dv_drop (tap_ops ops) b (d, log); Some (r, c, x) })" for r c b d log
    by (cases "drop1 b d") (simp_all add: tap)
  show ?thesis
  proof (cases "cn_advertised_window cfg c")
    case w: (Some w)
    show ?thesis
    proof (cases "cn_segment index w cfg c")
      case s: (Some s)
      show ?thesis
      proof (cases "tcp_build_ipv4 frame s")
        case (Some b)
        then obtain built frame' where b: "tcp_build_ipv4 frame s = Some (built, frame')"
          by (cases b) auto
        note red = cn_emit_def w s b bind.bind_lunit prod.case sum.case ops
        show ?thesis
        proof (cases built)
          case (Inl e)
          show ?thesis
            unfolding Inl red by (rule drop)
        next
          case (Inr u)
          have after: "do { (again, e) \<leftarrow> cn_after_send index (sg_flags s) now cfg c; Some (Inr (True, again), e, d) } =
              map_option (\<lambda>(r, c, d, log). (r, c, d))
                (do { (again, e) \<leftarrow> cn_after_send index (sg_flags s) now cfg c; Some (Inr (True, again), e, d, log) })" for d :: 'a and log
            by (cases "cn_after_send index (sg_flags s) now cfg c") (simp_all add: case_prod_beta)
          show ?thesis
            unfolding Inr red by (rule step) (simp add: after split: sum.split)
        qed
      qed (simp add: cn_emit_def w s)
    qed (simp add: cn_emit_def w)
  qed (simp add: cn_emit_def)
qed

lemma tap_transmit:
  "cn_transmit ops now cfg c d =
     map_option (\<lambda>(r, c, d, log). (r, c, d)) (cn_transmit (tap_ops ops) now cfg c (d, log))"
proof (cases "is_terminal (cn_state c)")
  case False
  define c1 where "c1 = cn_prepare now cfg c"
  have tap: "dv_alloc (tap_ops ops) (d, log) = map_option (\<lambda>(r, d). (r, d, log)) (dv_alloc ops d)"
    by (simp add: tap_ops_def)
  show ?thesis
  proof (cases "case cn_flight_index now c1 of None \<Rightarrow> Some (None, c1) | Some k \<Rightarrow> cn_recheck k now c1")
    case None
    show ?thesis
      unfolding cn_transmit_def if_not_P [OF False] Let_def c1_def [symmetric] None by simp
  next
    case (Some ic)
    then obtain index c2 where c2: "(case cn_flight_index now c1 of None \<Rightarrow> Some (None, c1) | Some k \<Rightarrow> cn_recheck k now c1) = Some (index, c2)"
      by (cases ic) auto
    note red = cn_transmit_def if_not_P [OF False] Let_def c1_def [symmetric] c2 bind.bind_lunit prod.case
    show ?thesis
    proof (cases "dv_alloc ops d")
      case None
      then show ?thesis
        unfolding red by (simp add: tap)
    next
      case (Some rd)
      then obtain r d1 where r: "dv_alloc ops d = Some (r, d1)"
        by (cases rd) auto
      show ?thesis
        unfolding red using r tap_emit [of ops index _ now cfg _ d1 log] by (simp add: tap split: option.split)
    qed
  qed
qed (simp add: cn_transmit_def)

section \<open>Transmission over a device\<close>

text \<open>
  A transmission keeps the connection's invariant and every frame handle, and the packet the device accepts,
  if any, parses to a segment of the connection. An error leaves the connection as it was before the frame
  was built.
\<close>

definition tx_post ::
  "('d \<Rightarrow> packet_buf multiset \<Rightarrow> bool) \<Rightarrow> packet_buf multiset \<Rightarrow> tcp_config \<Rightarrow> bytes list \<Rightarrow> connection \<Rightarrow>
     (bool \<times> bool) io_result \<times> connection \<times> 'd \<times> bytes list \<Rightarrow> bool"
where
  "tx_post held M cfg log c = (\<lambda>(r, c', d', log'). held d' M \<and> cn_inv cfg c' \<and> tx_step c c' \<and> within_windows c c' \<and>
     (log' = log \<or> (\<exists>p s e. log' = log @ [p] \<and> tcp_parse_ipv4 p = Some (Inr s) \<and> cn_inv cfg e \<and> tx_step c e \<and> tx_step e c' \<and> emits e s)) \<and>
     (case r of Inl e \<Rightarrow> log' = log \<and> cn_send_sent c' = cn_send_sent c | Inr (sent, again) \<Rightarrow> sent = (log' \<noteq> log)))"

lemma tx_post_after:
  assumes "tx_step c e" and "cn_send_sent e = cn_send_sent c" and "tx_post held M cfg log e x"
  shows "tx_post held M cfg log c x"
proof -
  obtain r c' d' log' where x: "x = (r, c', d', log')"
    by (cases x)
  have "within_windows e c' \<Longrightarrow> within_windows c c'"
    using assms(1,2) by (simp add: within_windows_def tx_step_def)
  moreover have "tx_step e f \<Longrightarrow> tx_step c f" for f
    using tx_step_trans [OF assms(1)] .
  ultimately show ?thesis
    using assms(2,3) unfolding x tx_post_def prod.case by (auto split: sum.splits; blast)
qed

context device
begin

lemma cn_emit_tap_wp:
  assumes v: "tcp_config_valid cfg" and inv: "cn_inv cfg c" and index: "index_ok index c" and held: "held d (add_mset frame M)"
  shows "wp (cn_emit (tap_ops ops) index frame now cfg c (d, log)) (tx_post held M cfg log c)"
proof -
  obtain w where w: "cn_advertised_window cfg c = Some w"
    using window_word [of c cfg] inv by (auto simp: cn_inv_def)
  obtain s where s: "cn_segment index w cfg c = Some s" "emits c s"
    using cn_segment_emits [OF index] by blast
  have "pb_inv frame"
    using held_inv [OF held] by simp
  then obtain built frame' where b: "tcp_build_ipv4 frame s = Some (built, frame')" "pb_inv frame'" "same_frame frame frame'"
      "case built of Inl e \<Rightarrow> e = InvalidInput \<and> frame' = frame | Inr u \<Rightarrow> tcp_parse_ipv4 (as_slice frame') = Some (Inr s)"
    using tcp_build_wp [of frame s] unfolding wp_eq_Some by blast
  have held': "held d (add_mset frame' M)"
    by (rule held_edit [OF held b(3,2)])
  show ?thesis
  proof (cases built)
    case (Inl e)
    obtain d' where "dv_drop ops frame' d = Some d'" "held d' M"
      using drop_law [OF held'] by (auto simp: wp_eq_Some)
    then show ?thesis
      using w s b(1) Inl inv by (simp add: cn_emit_def tx_post_def tap_ops_def within_windows_def)
  next
    case (Inr u)
    have "held d (mset [frame'] + M)"
      using held' by simp
    from send_law [OF this] obtain r slot d1 where r: "dv_send ops [frame'] d = Some (r, slot, d1)"
        "case r of Inl e \<Rightarrow> slot = [frame'] \<and> held d1 (mset [frame'] + M)
         | Inr n \<Rightarrow> n \<le> length [frame'] \<and> slot = replicate n empty_buf @ drop n [frame'] \<and> held d1 (mset (drop n [frame']) + M)"
      unfolding wp_eq_Some by blast
    have "held d1 (mset slot + M)"
      using r(2) held_empty by (cases r) (auto simp: le_Suc_eq)
    then obtain d2 where d2: "dv_drop_all ops slot d1 = Some d2" "held d2 M"
      using drop_all_wp unfolding wp_eq_Some by blast
    have send: "dv_send (tap_ops ops) [frame'] (d, log) =
        Some (r, slot, d1, case r of Inl e \<Rightarrow> log | Inr n \<Rightarrow> log @ map as_slice (take n [frame']))"
      using r(1) by (simp add: tap_ops_def)
    consider (err) e where "r = Inl e" "e \<noteq> WouldBlock" | (blocked) "r = Inl WouldBlock \<or> r = Inr 0" | (sent) "r = Inr 1"
      using r(2) by (cases r) (auto simp: le_Suc_eq)
    then show ?thesis
    proof cases
      case err
      then show ?thesis
        using w s b(1) Inr send d2 inv by (simp add: cn_emit_def tx_post_def tap_drop_all within_windows_def)
    next
      case blocked
      have "tx_step c (c\<lparr>cn_device_blocked := True\<rparr>)"
        by (rule tx_step_same) (simp_all add: unacked_def same_receiver_def)
      then show ?thesis
        using blocked w s b(1) Inr send d2 inv
        by (elim disjE) (simp_all add: cn_emit_def tx_post_def tap_drop_all within_windows_def)
    next
      case sent
      obtain again c' where c': "cn_after_send index (sg_flags s) now cfg c = Some (again, c')" "cn_inv cfg c'" "tx_step c c'"
          "within_windows c c'"
        using cn_after_send_wp [OF v inv index, of "sg_flags s" now] unfolding wp_eq_Some by blast
      have "tcp_parse_ipv4 (as_slice frame') = Some (Inr s)"
        using b(4) Inr by simp
      then show ?thesis
        using sent w s b(1) Inr send d2 inv c'
        by (auto simp: cn_emit_def tx_post_def tap_drop_all intro!: exI [of _ "as_slice frame'"] exI [of _ s] exI [of _ c])
    qed
  qed
qed

lemma cn_transmit_tap_wp:
  assumes v: "tcp_config_valid cfg" and inv: "cn_inv cfg c" and held: "held d M"
  shows "wp (cn_transmit (tap_ops ops) now cfg c (d, log)) (tx_post held M cfg log c)"
proof (cases "is_terminal (cn_state c)")
  case True
  then show ?thesis
    using inv held by (simp add: cn_transmit_def tx_post_def within_windows_def)
next
  case False
  define c1 where "c1 = cn_prepare now cfg c"
  have c1: "cn_inv cfg c1" "tx_step c c1" "cn_send_sent c1 = cn_send_sent c"
    using cn_prepare_wp [OF v inv, of now] by (simp_all add: c1_def)
  have "wp (case cn_flight_index now c1 of None \<Rightarrow> Some (None, c1) | Some k \<Rightarrow> cn_recheck k now c1)
    (\<lambda>(index, c'). cn_inv cfg c' \<and> tx_step c1 c' \<and> cn_send_sent c' = cn_send_sent c1 \<and> index_ok index c')"
  proof (cases "cn_flight_index now c1")
    case (Some k)
    then have "k < length (cn_flights c1)"
      by (auto simp: cn_flight_index_def split: list.split_asm if_split_asm)
    from cn_recheck_wp [OF v c1(1) this, of now] show ?thesis
      using Some by (auto simp: index_ok_def elim!: wp_mono)
  qed (simp add: c1 index_ok_def)
  then obtain index c2 where c2: "(case cn_flight_index now c1 of None \<Rightarrow> Some (None, c1) | Some k \<Rightarrow> cn_recheck k now c1) = Some (index, c2)"
      "cn_inv cfg c2" "tx_step c1 c2" "cn_send_sent c2 = cn_send_sent c1" "index_ok index c2"
    unfolding wp_eq_Some by blast
  define c3 where "c3 = c2\<lparr>cn_device_blocked := False\<rparr>"
  have "tx_step c2 c3"
    by (rule tx_step_same) (simp_all add: c3_def unacked_def same_receiver_def)
  moreover have "tx_room c3 = tx_room c2"
    by (rule tx_room_same) (simp_all add: c3_def)
  ultimately have c3: "cn_inv cfg c3" "tx_step c c3" "cn_send_sent c3 = cn_send_sent c" "index_ok index c3"
    using c1(3) c2(2,4,5) tx_step_trans [OF tx_step_trans [OF c1(2) c2(3)]]
    by (simp_all add: c3_def index_ok_def cong: option.case_cong)
  note lift = tx_post_after [OF c3(2,3), where held = held and M = M and cfg = cfg and log = log]
  have eq: "cn_transmit (tap_ops ops) now cfg c (d, log) =
      (if index = None \<and> \<not> cn_ack_pending c3 \<and> \<not> cn_probe_pending c3 then Some (Inr (False, False), c3, d, log)
       else do {
         (r, d) \<leftarrow> dv_alloc (tap_ops ops) (d, log);
         case r of None \<Rightarrow> Some (Inr (False, False), c3\<lparr>cn_device_blocked := True\<rparr>, d)
         | Some frame \<Rightarrow> cn_emit (tap_ops ops) index frame now cfg c3 d })"
    by (simp only: cn_transmit_def if_not_P [OF False] Let_def c1_def [symmetric] c2(1) bind.bind_lunit prod.case c3_def [symmetric])
  obtain r d1 where r: "dv_alloc ops d = Some (r, d1)" "case r of None \<Rightarrow> held d1 M | Some b \<Rightarrow> held d1 (add_mset b M)"
    using alloc_law [OF held] unfolding wp_eq_Some by (fastforce split: option.splits)
  have alloc: "dv_alloc (tap_ops ops) (d, log) = Some (r, d1, log)"
    using r(1) by (simp add: tap_ops_def)
  have idle: "tx_post held M cfg log c3 (Inr (False, False), c3\<lparr>cn_device_blocked := b\<rparr>, d', log)" if "held d' M" for b d'
  proof -
    have "tx_step c3 (c3\<lparr>cn_device_blocked := b\<rparr>)"
      by (rule tx_step_same) (simp_all add: unacked_def same_receiver_def)
    then show ?thesis
      using that c3(1) by (simp add: tx_post_def within_windows_def)
  qed
  have c3_same: "c3\<lparr>cn_device_blocked := False\<rparr> = c3"
    by (simp add: c3_def)
  show ?thesis
  proof (cases "index = None \<and> \<not> cn_ack_pending c3 \<and> \<not> cn_probe_pending c3")
    case True
    then show ?thesis
      using eq lift [OF idle [OF held, of False, unfolded c3_same]] by simp
  next
    case send: False
    show ?thesis
    proof (cases r)
      case None
      then show ?thesis
        unfolding eq if_not_P [OF send] using alloc r(2) lift [OF idle [of d1 True]] by simp
    next
      case (Some frame)
      then have "held d1 (add_mset frame M)"
        using r(2) by simp
      from cn_emit_tap_wp [OF v c3(1,4) this, of now log] show ?thesis
        unfolding eq if_not_P [OF send] using alloc Some lift by (auto elim!: wp_mono)
    qed
  qed
qed

lemma cn_transmit_wp:
  assumes "tcp_config_valid cfg" and "cn_inv cfg c" and "held d M"
  shows "wp (cn_transmit ops now cfg c d) (\<lambda>(r, c', d'). held d' M \<and> cn_inv cfg c' \<and> tx_step c c' \<and> within_windows c c')"
proof -
  obtain r c' d' log' where "cn_transmit (tap_ops ops) now cfg c (d, []) = Some (r, c', d', log')"
      "tx_post held M cfg [] c (r, c', d', log')"
    using cn_transmit_tap_wp [OF assms, of now "[]"] unfolding wp_eq_Some by (metis prod.collapse)
  then show ?thesis
    using tap_transmit [of ops now cfg c d "[]"] by (simp add: tx_post_def)
qed

end

end
