(* ===== verification/Tcp_Stream.thy ===== *)
theory Tcp_Stream
  imports Tcp_Transmit "HOL-Library.Sublist"
begin

text \<open>
  Runs of one connection under arbitrary application calls, packets and times, and what they say about the two
  byte streams: what a connection puts on the network is always the written stream at its sequence numbers,
  and what it delivers from such segments is a prefix of the peer's stream.
\<close>

section \<open>Runs\<close>

text \<open>
  A call on a connection with its time: the application's operations, the timer, a packet from the network as
  \<^verbatim>\<open>TcpPool::poll\<close> hands it over, a transmission, the local abort and the local failure.
\<close>

datatype cn_call =
    CallWrite bytes
  | CallRead nat
  | CallClose
  | CallTick
  | CallPacket bytes
  | CallTransmit
  | CallAbort
  | CallFail io_kind

text \<open>The run also records the bytes accepted by writes and the bytes returned by reads.\<close>

type_synonym 'd cn_run_state = "connection \<times> 'd \<times> bytes \<times> bytes"

fun cn_exec :: "'d device_ops \<Rightarrow> tcp_config \<Rightarrow> duration \<times> cn_call \<Rightarrow> 'd cn_run_state \<Rightarrow> 'd cn_run_state option" where
  "cn_exec ops cfg (now, CallWrite b) (c, d, w, r) =
     map_option (\<lambda>(n, c). (c, d, w @ (case n of Inl e \<Rightarrow> [] | Inr n \<Rightarrow> take n b), r)) (cn_write b cfg c)"
| "cn_exec ops cfg (now, CallRead n) (c, d, w, r) =
     (case cn_read n c of (_, out, c) \<Rightarrow> Some (c, d, w, r @ out))"
| "cn_exec ops cfg (now, CallClose) (c, d, w, r) = Some (snd (cn_close now cfg c), d, w, r)"
| "cn_exec ops cfg (now, CallTick) (c, d, w, r) = Some (cn_tick now cfg c, d, w, r)"
| "cn_exec ops cfg (now, CallPacket p) (c, d, w, r) = do {
     parsed \<leftarrow> tcp_parse_ipv4 p;
     case parsed of
       Inl e \<Rightarrow> Some (c, d, w, r)
     | Inr s \<Rightarrow> map_option (\<lambda>c. (c, d, w, r)) (cn_input s now cfg c)
   }"
| "cn_exec ops cfg (now, CallTransmit) (c, d, w, r) =
     map_option (\<lambda>(_, c, d). (c, d, w, r)) (cn_transmit ops now cfg c d)"
| "cn_exec ops cfg (now, CallAbort) (c, d, w, r) = Some (cn_fail ResetState c, d, w, r)"
| "cn_exec ops cfg (now, CallFail e) (c, d, w, r) = Some ((cn_fail Failed c)\<lparr>cn_local_error := Some e\<rparr>, d, w, r)"

fun cn_run :: "'d device_ops \<Rightarrow> tcp_config \<Rightarrow> (duration \<times> cn_call) list \<Rightarrow> 'd cn_run_state \<Rightarrow> 'd cn_run_state option" where
  "cn_run ops cfg [] s = Some s"
| "cn_run ops cfg (e # es) s = do { s \<leftarrow> cn_exec ops cfg e s; cn_run ops cfg es s }"

text \<open>A connection as \<^verbatim>\<open>connect\<close> or an accepted SYN creates it.\<close>

definition cn_opened :: "u32 \<Rightarrow> tcp_config \<Rightarrow> connection \<Rightarrow> bool" where
  "cn_opened iss cfg c \<longleftrightarrow> (\<exists>local remote now. c = cn_active local remote iss now cfg) \<or>
     (\<exists>syn now. cn_passive syn iss now cfg = Some c)"

section \<open>The sent stream\<close>

definition stream_ok :: "u32 \<Rightarrow> bytes \<Rightarrow> connection \<Rightarrow> bool" where
  "stream_ok iss w c \<longleftrightarrow> aborted (cn_state c) \<or> (syn_pending (cn_state c) \<longrightarrow> w = []) \<and>
     (\<exists>acked \<le> length w. unacked c = drop acked w \<and>
        cn_send_una c - una_shift (cn_state c) = iss + word_of_nat acked)"

text \<open>A segment that carries the stream \<open>w\<close> of a sender with initial sequence number \<open>iss\<close>.\<close>

definition at_stream :: "bytes \<Rightarrow> nat \<Rightarrow> bytes \<Rightarrow> bool" where
  "at_stream w k p \<longleftrightarrow> k + length p \<le> length w \<and> p = take (length p) (drop k w)"

lemma at_stream_append: "at_stream w k p \<Longrightarrow> at_stream (w @ v) k p"
  by (simp add: at_stream_def)

definition carries :: "u32 \<Rightarrow> bytes \<Rightarrow> segment \<Rightarrow> bool" where
  "carries iss w s \<longleftrightarrow>
     (if has_flag (sg_flags s) SYN then sg_sequence s = iss \<and> sg_payload s = [] \<and> \<not> has_flag (sg_flags s) FIN
      else sg_payload s = [] \<and> \<not> has_flag (sg_flags s) FIN \<or>
        (\<exists>k. sg_sequence s = iss + 1 + word_of_nat k \<and> at_stream w k (sg_payload s) \<and>
           (has_flag (sg_flags s) FIN \<longrightarrow> k + length (sg_payload s) = length w)))"

lemma carries_append:
  assumes "carries iss w s" and "\<not> has_flag (sg_flags s) FIN"
  shows "carries iss (w @ v) s"
  using assms at_stream_append [of w _ _ v] unfolding carries_def by (auto; blast)

lemma stream_ok_step:
  assumes "stream_ok iss w c" and "snd_step c c'"
  shows "stream_ok iss w c'"
proof (cases "aborted (cn_state c')")
  case False
  then obtain k where k: "\<not> aborted (cn_state c)" "syn_pending (cn_state c') \<longrightarrow> syn_pending (cn_state c)"
      "k \<le> length (unacked c)" "unacked c' = drop k (unacked c)"
      "cn_send_una c' - una_shift (cn_state c') = cn_send_una c - una_shift (cn_state c) + word_of_nat k"
    using assms(2) by (auto simp: snd_step_def phase_kept_def)
  then obtain a where a: "a \<le> length w" "unacked c = drop a w" "syn_pending (cn_state c) \<longrightarrow> w = []"
      "cn_send_una c - una_shift (cn_state c) = iss + word_of_nat a"
    using assms(1) by (auto simp: stream_ok_def)
  have "a + k \<le> length w" "unacked c' = drop (a + k) w"
      "cn_send_una c' - una_shift (cn_state c') = iss + word_of_nat (a + k)"
    using a k by (simp_all add: add.commute)
  then show ?thesis
    using k(2) a(3) unfolding stream_ok_def by blast
qed (simp add: stream_ok_def)

lemma stream_ok_opened:
  assumes "cn_opened iss cfg c"
  shows "stream_ok iss [] c"
proof -
  have "unacked c = []" "cn_send_una c = iss" "syn_pending (cn_state c)"
    using assms
    by (auto simp: cn_opened_def cn_passive_def cn_active_def cn_start_flight_def Let_def unacked_def syn_pending_def)
  then show ?thesis
    by (simp add: stream_ok_def una_shift_def state_defs) (auto simp: syn_pending_def)
qed

lemma emits_carries:
  assumes inv: "cn_inv cfg c" and ok: "stream_ok iss w c" and "emits c s"
  shows "carries iss w s"
proof (cases "sg_flags s = ACK \<and> sg_payload s = []")
  case False
  then obtain f where f: "f \<in> set (cn_flights c)" "sg_sequence s = fl_sequence f" "sg_flags s = fl_flags f" "sg_payload s = fl_payload f"
    using assms(3) by (auto simp: emits_def)
  then obtain k where k: "k < length (cn_flights c)" "f = cn_flights c ! k"
    by (metis in_set_conv_nth)
  have ch: "chain (cn_send_una c) (cn_flights c) (cn_send_next c)"
    using inv by (simp add: cn_inv_defs queue_inv_def)
  have seq: "fl_sequence f = cn_send_una c + word_of_nat (span (take k (cn_flights c)))"
    using chain_nth [OF ch k(1)] k(2) by simp
  have phase: "phase_ok (cn_state c) (cn_write_closed c) (cn_flights c) (cn_queued c)"
    using inv by (simp add: cn_inv_def)
  then have "\<not> aborted (cn_state c)"
    using f(1) by (auto simp: phase_ok_def aborted_def)
  then obtain a where a: "a \<le> length w" "unacked c = drop a w" "syn_pending (cn_state c) \<longrightarrow> w = []"
      "cn_send_una c - una_shift (cn_state c) = iss + word_of_nat a"
    using ok by (auto simp: stream_ok_def)
  consider (syn) "syn_pending (cn_state c)" "cn_flights c = [f]" "syn_flight f" "cn_queued c = []"
    | (data) "una_shift (cn_state c) = 1" "list_all data_flight (cn_flights c)"
    | (fin) "una_shift (cn_state c) = 1" "cn_flights c = [f]" "fin_flight f" "cn_queued c = []"
    using phase f(1) by (auto simp: phase_ok_def una_shift_def state_defs length_Suc_conv split: if_split_asm)
  then show ?thesis
  proof cases
    case syn
    then have "w = []" "cn_send_una c = iss"
      using a by (simp_all add: una_shift_def state_defs) (auto simp: syn_pending_def)
    then show ?thesis
      using syn(2,3) f k(1) seq by (simp add: carries_def syn_flight_def)
  next
    case fin
    then have "length w = a" "cn_send_una c = iss + 1 + word_of_nat a"
      using a by (simp_all add: unacked_def fin_flight_def diff_eq_eq add.commute)
    then show ?thesis
      using fin(2,3) f k(1) seq by (auto simp: carries_def fin_flight_def at_stream_def)
  next
    case data
    let ?j = "length (fl_bytes (take k (cn_flights c)))" and ?rest = "fl_bytes (drop (Suc k) (cn_flights c)) @ cn_queued c"
    have "data_flight f" "span (take k (cn_flights c)) = ?j"
      using data(2) f(1) data_span [of "take k (cn_flights c)"] by (auto simp: list_all_iff dest: in_set_takeD)
    then have pos: "fl_sequence f = iss + 1 + word_of_nat (a + ?j)"
      using seq a(4) data(1) by (simp add: diff_eq_eq add_ac)
    have "cn_flights c = take k (cn_flights c) @ f # drop (Suc k) (cn_flights c)"
      using id_take_nth_drop [OF k(1)] k(2) by simp
    then have "drop a w = fl_bytes (take k (cn_flights c)) @ fl_payload f @ ?rest"
      using a(2) unfolding unacked_def by (metis append.assoc fl_bytes_simps(2,3))
    then have "drop (a + ?j) w = fl_payload f @ ?rest"
      by (metis add.commute append_eq_conv_conj drop_drop)
    moreover from this have "a + ?j + length (fl_payload f) \<le> length w"
      using \<open>data_flight f\<close> by (cases "a + ?j \<le> length w") (auto simp: data_flight_def dest: arg_cong [of _ _ length])
    ultimately have "at_stream w (a + ?j) (fl_payload f)"
      by (simp add: at_stream_def)
    then have "\<exists>k. sg_sequence s = iss + 1 + word_of_nat k \<and> at_stream w k (sg_payload s)"
      using f(2,4) pos by metis
    then show ?thesis
      using \<open>data_flight f\<close> f by (simp add: carries_def data_flight_def)
  qed
qed (simp add: carries_def)

text \<open>The packets a connection has put on the network.\<close>

definition log_ok :: "u32 \<Rightarrow> bytes \<Rightarrow> tcp_state \<Rightarrow> bytes list \<Rightarrow> bool" where
  "log_ok iss w st log \<longleftrightarrow> (\<forall>p \<in> set log. \<exists>s. tcp_parse_ipv4 p = Some (Inr s) \<and> carries iss w s \<and>
     (has_flag (sg_flags s) FIN \<longrightarrow> fin_started st \<or> aborted st))"

lemma log_ok_step:
  assumes "log_ok iss w (cn_state c) log" and "snd_step c c'"
  shows "log_ok iss w (cn_state c') log"
  using assms unfolding log_ok_def snd_step_def phase_kept_def by meson

lemma log_ok_write:
  assumes "log_ok iss w st log" and "\<not> fin_started st" and "\<not> aborted st"
  shows "log_ok iss (w @ v) st log"
  using assms carries_append unfolding log_ok_def by meson

lemma log_ok_emit:
  assumes "log_ok iss w (cn_state c') log" and "tcp_parse_ipv4 p = Some (Inr s)" and "carries iss w s"
    and "cn_inv cfg e" and "emits e s" and "fin_started (cn_state e) \<Longrightarrow> fin_started (cn_state c') \<or> aborted (cn_state c')"
  shows "log_ok iss w (cn_state c') (log @ [p])"
proof -
  have "fin_started (cn_state e)" if fin: "has_flag (sg_flags s) FIN"
  proof -
    obtain f where "f \<in> set (cn_flights e)" "has_flag (fl_flags f) FIN"
      using fin assms(5) by (auto simp: emits_def)
    then show ?thesis
      using assms(4) by (auto simp: cn_inv_def phase_ok_def list_all_iff flight_kinds fin_started_def split: if_split_asm)
  qed
  then show ?thesis
    using assms(1-3,6) by (auto simp: log_ok_def)
qed

section \<open>The received stream\<close>

definition rcv_ok :: "u32 \<Rightarrow> bytes \<Rightarrow> bytes \<Rightarrow> connection \<Rightarrow> bool" where
  "rcv_ok irs w r c \<longleftrightarrow>
     (if cn_state c = SynSent then r = [] \<and> cn_received c = [] \<and> \<not> cn_peer_eof c
      else if aborted (cn_state c) then cn_received c = [] \<and> prefix r w
      else \<exists>n \<le> length w. r @ cn_received c = take n w \<and> (cn_peer_eof c \<longrightarrow> n = length w) \<and>
        cn_receive_next c = irs + 1 + word_of_nat n + (if cn_peer_eof c then 1 else 0))"

lemma rcv_ok_prefix: "rcv_ok irs w r c \<Longrightarrow> prefix r w"
  unfolding rcv_ok_def
  by (metis Nil_prefix append_prefixD take_is_prefix)

lemma rcv_ok_same:
  assumes "rcv_ok irs w r c" and "same_receiver c c'" and "cn_state c' = SynSent \<longleftrightarrow> cn_state c = SynSent"
    and "aborted (cn_state c') = aborted (cn_state c)"
  shows "rcv_ok irs w r c'"
  using assms by (simp add: rcv_ok_def same_receiver_def)

lemma rcv_ok_fail: "rcv_ok irs w r c \<Longrightarrow> aborted st \<Longrightarrow> rcv_ok irs w r (cn_fail st c)"
  using rcv_ok_prefix [of irs w r c] by (auto simp: rcv_ok_def cn_fail_def aborted_def)

text \<open>The position of a segment relative to what was received, without wrap-around.\<close>

lemma skip_offset:
  assumes "\<not> before (irs + 1 + word_of_nat n) (irs + 1 + word_of_nat k :: u32)" and "n < 2 ^ 31" and "k < 2 ^ 31"
  shows "k \<le> n" and "unat ((irs + 1 + word_of_nat n) - (irs + 1 + word_of_nat k) :: u32) = n - k"
proof -
  show "k \<le> n"
    using assms before_offset [of k n "irs + 1"] by simp
  then show "unat ((irs + 1 + word_of_nat n) - (irs + 1 + word_of_nat k) :: u32) = n - k"
    using assms(2) unat_offset_diff [of k n "irs + 1"] by simp
qed

lemma at_stream_take:
  assumes "at_stream w k p" and "k \<le> n" and "n - k \<le> length p" and "m \<le> length p - (n - k)"
  shows "take n w @ take m (drop (n - k) p) = take (n + m) w" and "n + m \<le> length w"
proof -
  have p: "p = take (length p) (drop k w)" "k + length p \<le> length w"
    using assms(1) by (simp_all add: at_stream_def)
  have "drop (n - k) p = take (length p - (n - k)) (drop n w)"
    using assms(2) by (subst p(1)) (simp add: drop_take)
  then have "take m (drop (n - k) p) = take m (drop n w)"
    using assms(4) by simp
  then show "take n w @ take m (drop (n - k) p) = take (n + m) w"
    by (simp add: take_add)
  show "n + m \<le> length w"
    using assms(2-4) p(2) by linarith
qed

lemma rcv_step_ok:
  assumes ok: "n \<le> length w" "r @ cn_received c = take n w" "cn_peer_eof c \<longrightarrow> n = length w"
      "cn_receive_next c = irs + 1 + word_of_nat n + (if cn_peer_eof c then 1 else 0)"
    and s: "sg_payload s = [] \<and> \<not> has_flag (sg_flags s) FIN \<or>
        (\<exists>k. sg_sequence s = irs + 1 + word_of_nat k \<and> at_stream w k (sg_payload s) \<and>
           (has_flag (sg_flags s) FIN \<longrightarrow> k + length (sg_payload s) = length w))"
    and step: "rcv_step s c c'" and w: "length w < 2 ^ 31"
  shows "\<exists>n \<le> length w. r @ cn_received c' = take n w \<and> (cn_peer_eof c' \<longrightarrow> n = length w) \<and>
    cn_receive_next c' = irs + 1 + word_of_nat n + (if cn_peer_eof c' then 1 else 0)"
proof (cases "same_receiver c c'")
  case True
  then show ?thesis
    using ok by (auto simp: same_receiver_def)
next
  case False
  then obtain m where m: "\<not> cn_peer_eof c" "\<not> before (cn_receive_next c) (sg_sequence s)" "rx_skip s c \<le> length (sg_payload s)"
      "m \<le> length (sg_payload s) - rx_skip s c" "cn_received c' = cn_received c @ take m (drop (rx_skip s c) (sg_payload s))"
      "\<not> cn_peer_eof c' \<and> cn_receive_next c' = cn_receive_next c + word_of_nat m \<or>
       cn_peer_eof c' \<and> has_flag (sg_flags s) FIN \<and>
         sg_sequence s + word_of_nat (length (sg_payload s)) = cn_receive_next c + word_of_nat m \<and>
         cn_receive_next c' = cn_receive_next c + word_of_nat m + 1"
    using step by (auto simp: rcv_step_def)
  have rnext: "cn_receive_next c = irs + 1 + word_of_nat n"
    using ok(4) m(1) by simp
  from s show ?thesis
  proof
    assume "sg_payload s = [] \<and> \<not> has_flag (sg_flags s) FIN"
    then have "cn_received c' = cn_received c" "\<not> cn_peer_eof c'" "cn_receive_next c' = cn_receive_next c"
      using m(4-6) by auto
    then show ?thesis
      using ok(1,2) rnext by auto
  next
    assume "\<exists>k. sg_sequence s = irs + 1 + word_of_nat k \<and> at_stream w k (sg_payload s) \<and>
      (has_flag (sg_flags s) FIN \<longrightarrow> k + length (sg_payload s) = length w)"
    then obtain k where k: "sg_sequence s = irs + 1 + word_of_nat k" "at_stream w k (sg_payload s)"
        "has_flag (sg_flags s) FIN \<longrightarrow> k + length (sg_payload s) = length w"
      by blast
    have kw: "k + length (sg_payload s) \<le> length w"
      using k(2) by (simp add: at_stream_def)
    then have skip: "k \<le> n" "rx_skip s c = n - k"
      using skip_offset [of irs n k] m(2) ok(1) w unfolding rnext k(1) rx_skip_def by simp_all
    note more = at_stream_take [OF k(2) skip(1) m(3) [unfolded skip(2)] m(4) [unfolded skip(2)]]
    have "r @ cn_received c' = take (n + m) w"
      using m(5) ok(2) more(1) skip(2) by (metis append.assoc)
    moreover have "cn_peer_eof c' \<longrightarrow> n + m = length w"
    proof
      assume "cn_peer_eof c'"
      then have eof: "(irs + 1 + word_of_nat k) + word_of_nat (length (sg_payload s)) = (irs + 1 + word_of_nat n) + word_of_nat m"
          "k + length (sg_payload s) = length w"
        using m(6) k(3) unfolding rnext k(1) by simp_all
      from eof(1) have "irs + 1 + word_of_nat (k + length (sg_payload s)) = irs + 1 + word_of_nat (n + m)"
        by (simp only: of_nat_add add.assoc)
      then show "n + m = length w"
        using offset_inj [of "k + length (sg_payload s)" "n + m" "irs + 1"] eof(2) more(2) w by simp
    qed
    moreover have "cn_receive_next c' = irs + 1 + word_of_nat (n + m) + (if cn_peer_eof c' then 1 else 0)"
      using m(6) rnext by (auto simp: add.assoc)
    ultimately show ?thesis
      using more(2) by blast
  qed
qed

lemma rcv_ok_input:
  assumes ok: "rcv_ok irs w r c" and s: "carries irs w s" and step: "input_step s c c'" and w: "length w < 2 ^ 31"
  shows "rcv_ok irs w r c'"
proof (cases "aborted (cn_state c') \<or> c' = c")
  case True
  then show ?thesis
    using step ok rcv_ok_prefix [OF ok] by (auto simp: rcv_ok_def input_step_def aborted_def)
next
  case False
  have data: "sg_payload s = [] \<and> \<not> has_flag (sg_flags s) FIN \<or>
      (\<exists>k. sg_sequence s = irs + 1 + word_of_nat k \<and> at_stream w k (sg_payload s) \<and>
         (has_flag (sg_flags s) FIN \<longrightarrow> k + length (sg_payload s) = length w))"
    using s by (auto simp: carries_def split: if_split_asm)
  consider (same) "cn_state c \<noteq> SynSent" "cn_state c' \<noteq> SynSent" "rcv_step s c c'"
    | (syn) "cn_state c = SynSent" "cn_state c' = SynSent" "same_receiver c c'"
    | (opened) "cn_state c = SynSent" "cn_state c' \<noteq> SynSent" "has_flag (sg_flags s) SYN"
        "rcv_step (s\<lparr>sg_sequence := sg_sequence s + 1\<rparr>) (c\<lparr>cn_receive_next := sg_sequence s + 1\<rparr>) c'"
    using step False by (auto simp: input_step_def)
  then show ?thesis
  proof cases
    case same
    then obtain n where "n \<le> length w" "r @ cn_received c = take n w" "cn_peer_eof c \<longrightarrow> n = length w"
        "cn_receive_next c = irs + 1 + word_of_nat n + (if cn_peer_eof c then 1 else 0)"
      using ok step False by (auto simp: rcv_ok_def input_step_def)
    from rcv_step_ok [OF this data same(3) w] show ?thesis
      using same(2) False by (simp add: rcv_ok_def)
  next
    case syn
    then show ?thesis
      using ok by (simp add: rcv_ok_def same_receiver_def)
  next
    case opened
    then have c0: "0 \<le> length w" "r @ cn_received (c\<lparr>cn_receive_next := sg_sequence s + 1\<rparr>) = take 0 w"
        "\<not> cn_peer_eof c" "sg_sequence s = irs" "sg_payload s = []" "\<not> has_flag (sg_flags s) FIN"
      using ok s by (simp_all add: rcv_ok_def carries_def)
    then show ?thesis
      using rcv_step_ok [of 0 w r "c\<lparr>cn_receive_next := sg_sequence s + 1\<rparr>" irs "s\<lparr>sg_sequence := sg_sequence s + 1\<rparr>" c'] opened(2,4) w False
      by (simp add: rcv_ok_def)
  qed
qed

section \<open>Steps of a run\<close>

lemma cn_read_step:
  assumes "cn_read n c = (res, out, c')"
  shows "snd_step c c'" and "cn_received c = out @ cn_received c'" and "cn_receive_next c' = cn_receive_next c"
    and "cn_peer_eof c' = cn_peer_eof c" and "cn_state c' = cn_state c"
proof -
  define k where "k = min n (length (cn_received c))"
  define c1 where "c1 = c\<lparr>cn_received := drop k (cn_received c)\<rparr>"
  have step: "snd_step c (e\<lparr>cn_ack_pending := b\<rparr>)" if "e = c \<or> e = c1" for e b
    using that by (elim disjE; simp; intro snd_step_same) (simp_all add: c1_def unacked_def)
  have "snd_step c c' \<and> cn_received c = out @ cn_received c' \<and> cn_receive_next c' = cn_receive_next c \<and>
      cn_peer_eof c' = cn_peer_eof c \<and> cn_state c' = cn_state c"
  proof (cases "n = 0 \<or> cn_local_error c \<noteq> None \<or> cn_state c = ResetState \<or> cn_state c = TimedOutState")
    case True
    then have "snd (cn_read n c) = ([], c)"
      unfolding cn_read_def by (elim disjE; cases "cn_local_error c"; simp)
    then have "out = []" "c' = c"
      using assms by simp_all
    then show ?thesis
      by simp
  next
    case False
    then have nc: "n \<noteq> 0" "cn_local_error c = None" "cn_state c \<noteq> ResetState" "cn_state c \<noteq> TimedOutState"
      by simp_all
    have "cn_read n c = (if k > 0 then (Inr k, take k (cn_received c), c1\<lparr>cn_ack_pending := True\<rparr>)
        else if cn_peer_eof c1 \<or> cn_state c1 = Closed then (Inr 0, take k (cn_received c), c1)
        else (Inl WouldBlock, take k (cn_received c), c1))"
      by (simp only: cn_read_def Let_def k_def [symmetric] c1_def [symmetric] nc if_False option.case)
    then have "out = take k (cn_received c)" "c' = c1 \<or> c' = c1\<lparr>cn_ack_pending := True\<rparr>"
      using assms by (simp_all split: if_split_asm)
    then show ?thesis
      using step [of c1] step [of c1 "cn_ack_pending c"] by (elim disjE) (simp_all add: c1_def)
  qed
  then show "snd_step c c'" "cn_received c = out @ cn_received c'" "cn_receive_next c' = cn_receive_next c"
      "cn_peer_eof c' = cn_peer_eof c" "cn_state c' = cn_state c"
    by simp_all
qed

lemma cn_close_step: "snd_step c (snd (cn_close now cfg c))" "same_receiver c (snd (cn_close now cfg c))"
  "cn_state (snd (cn_close now cfg c)) = cn_state c"
proof -
  show st: "cn_state (snd (cn_close now cfg c)) = cn_state c" "same_receiver c (snd (cn_close now cfg c))"
    by (simp_all add: cn_close_def same_receiver_def)
  show "snd_step c (snd (cn_close now cfg c))"
    using st by (intro snd_step_same) (simp_all add: cn_close_def unacked_def)
qed

lemma cn_tick_result:
  "cn_tick now cfg c = c \<or> cn_tick now cfg c = cn_fail TimedOutState c \<or>
     cn_state c = TimeWait \<and> cn_tick now cfg c = c\<lparr>cn_state := Closed, cn_phase_deadline := None, cn_ack_pending := False\<rparr>"
  by (cases "cn_state c = TimeWait") (simp_all add: cn_tick_def)

lemma cn_tick_step: "snd_step c (cn_tick now cfg c)"
proof -
  have "snd_step c (c\<lparr>cn_state := Closed, cn_phase_deadline := None, cn_ack_pending := False\<rparr>)" if "cn_state c = TimeWait"
    by (rule snd_step_same) (simp_all add: that una_shift_def state_defs unacked_def)
  then show ?thesis
    using cn_tick_result [of now cfg c] by (elim disjE conjE) (simp_all add: snd_step_fail aborted_def)
qed

lemma stream_ok_write:
  assumes "stream_ok iss w c" and "cn_state c \<in> {Established, CloseWait}"
  shows "stream_ok iss (w @ v) (c\<lparr>cn_queued := cn_queued c @ v\<rparr>)"
proof -
  have st: "\<not> aborted (cn_state c)" "\<not> syn_pending (cn_state c)"
    using assms(2) by (auto simp: state_defs)
  then obtain a where a: "a \<le> length w" "unacked c = drop a w" "cn_send_una c - una_shift (cn_state c) = iss + word_of_nat a"
    using assms(1) by (auto simp: stream_ok_def)
  have "unacked (c\<lparr>cn_queued := cn_queued c @ v\<rparr>) = unacked c @ v"
    by (simp add: unacked_def)
  then show ?thesis
    using a st unfolding stream_ok_def by (auto intro!: exI [of _ a])
qed

text \<open>
  The effect of a call on a connection and on the two records: a write appends to the queue, every other call
  is a step of the sender, and of the receiving side it does one of four things.
\<close>

definition call_step ::
  "cn_call \<Rightarrow> connection \<times> bytes \<times> bytes \<Rightarrow> connection \<times> bytes \<times> bytes \<Rightarrow> bool"
where
  "call_step call = (\<lambda>(c, w, r) (c', w', r').
     (\<exists>v. w' = w @ v \<and> r' = r \<and> c' = c\<lparr>cn_queued := cn_queued c @ v\<rparr> \<and> cn_state c \<in> {Established, CloseWait}) \<or>
     snd_step c c' \<and> w' = w \<and>
       (r' = r \<and> same_receiver c c' \<and> (cn_state c' = SynSent \<longleftrightarrow> cn_state c = SynSent) \<and> aborted (cn_state c') = aborted (cn_state c) \<or>
        r' = r \<and> aborted (cn_state c') \<and> cn_received c' = [] \<or>
        (\<exists>out. r' = r @ out \<and> cn_received c = out @ cn_received c' \<and> cn_receive_next c' = cn_receive_next c \<and>
           cn_peer_eof c' = cn_peer_eof c \<and> cn_state c' = cn_state c) \<or>
        (\<exists>p s. r' = r \<and> call = CallPacket p \<and> tcp_parse_ipv4 p = Some (Inr s) \<and> input_step s c c')))"

lemma call_step_refl: "call_step call (c, w, r) (c, w, r)"
  by (simp add: call_step_def)

lemma call_step_kept:
  assumes "call_step call (c, w, r) (c', w', r')"
  shows "aborted (cn_state c') \<or> \<not> aborted (cn_state c) \<and> phase_kept c c'"
proof -
  from assms consider v where "c' = c\<lparr>cn_queued := cn_queued c @ v\<rparr>" "cn_state c \<in> {Established, CloseWait}" | "snd_step c c'"
    by (auto simp: call_step_def)
  then show ?thesis
    by cases (auto simp: phase_kept_def snd_step_def aborted_def)
qed

lemma call_step_stream:
  assumes "call_step call (c, w, r) (c', w', r')" and "stream_ok iss w c"
  shows "stream_ok iss w' c'"
proof -
  from assms(1) consider v where "w' = w @ v" "c' = c\<lparr>cn_queued := cn_queued c @ v\<rparr>" "cn_state c \<in> {Established, CloseWait}"
    | "snd_step c c'" "w' = w"
    by (auto simp: call_step_def)
  then show ?thesis
    by cases (use stream_ok_write stream_ok_step assms(2) in blast)+
qed

lemma call_step_log:
  assumes "call_step call (c, w, r) (c', w', r')" and "log_ok iss w (cn_state c) log"
  shows "log_ok iss w' (cn_state c') log"
proof -
  from assms(1) consider v where "w' = w @ v" "cn_state c' = cn_state c" "cn_state c \<in> {Established, CloseWait}"
    | "snd_step c c'" "w' = w"
    by (auto simp: call_step_def)
  then show ?thesis
  proof cases
    case 1
    then show ?thesis
      using log_ok_write [OF assms(2)] by (auto simp: state_defs)
  qed (use log_ok_step assms(2) in blast)
qed

text \<open>A packet that carries the stream, whatever it parses to.\<close>

definition packet_carries :: "u32 \<Rightarrow> bytes \<Rightarrow> bytes \<Rightarrow> bool" where
  "packet_carries irs w p \<longleftrightarrow> (\<forall>s. tcp_parse_ipv4 p = Some (Inr s) \<longrightarrow> carries irs w s)"

lemma call_step_receive:
  assumes "call_step call (c, w, r) (c', w', r')" and ok: "rcv_ok irs peer r c"
    and p: "\<And>p. call = CallPacket p \<Longrightarrow> packet_carries irs peer p" and len: "length peer < 2 ^ 31"
  shows "rcv_ok irs peer r' c'"
proof -
  from assms(1) consider
      (keep) "r' = r" "same_receiver c c'" "cn_state c' = SynSent \<longleftrightarrow> cn_state c = SynSent" "aborted (cn_state c') = aborted (cn_state c)"
    | (abort) "r' = r" "aborted (cn_state c')" "cn_received c' = []"
    | (read) out where "r' = r @ out" "cn_received c = out @ cn_received c'" "cn_receive_next c' = cn_receive_next c"
        "cn_peer_eof c' = cn_peer_eof c" "cn_state c' = cn_state c"
    | (packet) q s where "r' = r" "call = CallPacket q" "tcp_parse_ipv4 q = Some (Inr s)" "input_step s c c'"
    unfolding call_step_def prod.case by (auto simp: same_receiver_def)
  then show ?thesis
  proof cases
    case keep
    then show ?thesis
      using rcv_ok_same [OF ok] by blast
  next
    case abort
    then show ?thesis
      using rcv_ok_prefix [OF ok] by (auto simp: rcv_ok_def aborted_def)
  next
    case read
    then show ?thesis
      using ok by (auto simp: rcv_ok_def)
  next
    case packet
    then show ?thesis
      using rcv_ok_input [OF ok _ packet(4) len] p by (auto simp: packet_carries_def)
  qed
qed

lemma tcp_parse_some: "\<exists>r. tcp_parse_ipv4 b = Some r"
  using tcp_parse_segment_total by (auto simp: tcp_parse_ipv4_def access_defs)

lemma cn_write_step:
  assumes "cn_inv cfg c"
  shows "wp (cn_write b cfg c) (\<lambda>(n, c'). cn_inv cfg c' \<and>
    call_step (CallWrite b) (c, w, r) (c', w @ (case n of Inl e \<Rightarrow> [] | Inr n \<Rightarrow> take n b), r))"
proof -
  obtain res c' where c': "cn_write b cfg c = Some (res, c')" "cn_inv cfg c'"
      "case res of Inl e \<Rightarrow> c' = c | Inr n \<Rightarrow> n \<le> length b \<and> c' = c\<lparr>cn_queued := cn_queued c @ take n b\<rparr>"
    using cn_write_wp [OF assms, of b] unfolding wp_eq_Some by blast
  have "cn_state c \<in> {Established, CloseWait}" if "res = Inr n" for n
    using c'(1) that by (auto simp: cn_write_def split: if_split_asm)
  then show ?thesis
    using c' call_step_refl [of "CallWrite b" c w r] by (cases res) (auto simp: call_step_def)
qed

lemma cn_tick_call: "call_step CallTick (c, w, r) (cn_tick now cfg c, w, r)"
proof -
  have "same_receiver c (c\<lparr>cn_state := Closed, cn_phase_deadline := None, cn_ack_pending := False\<rparr>)"
      "cn_received (cn_fail TimedOutState c) = []" "cn_state (cn_fail TimedOutState c) = TimedOutState"
    by (simp_all add: same_receiver_def cn_fail_def)
  then show ?thesis
    using cn_tick_result [of now cfg c] cn_tick_step [of c now cfg]
    by (elim disjE conjE) (simp_all add: call_step_def aborted_def)
qed

text \<open>A run keeps what each of its calls keeps.\<close>

lemma cn_run_inv:
  assumes "P s" and "\<And>e s. e \<in> set es \<Longrightarrow> P s \<Longrightarrow> wp (cn_exec ops cfg e s) P"
  shows "wp (cn_run ops cfg es s) P"
  using assms
proof (induction es arbitrary: s)
  case (Cons e es)
  have "wp (cn_exec ops cfg e s) P"
    using Cons.prems by simp
  moreover have "wp (cn_run ops cfg es x) P" if "P x" for x
    using Cons.IH [OF that] Cons.prems(2) by simp
  ultimately show ?case
    by (simp add: wp_mono [of "cn_exec ops cfg e s" P])
qed simp

definition run_step :: "connection \<Rightarrow> connection \<Rightarrow> bool" where
  "run_step c c' \<longleftrightarrow> aborted (cn_state c') \<or> \<not> aborted (cn_state c) \<and> phase_kept c c'"

lemma run_step_trans: "run_step c d \<Longrightarrow> run_step d e \<Longrightarrow> run_step c e"
  unfolding run_step_def using phase_kept_trans by blast

text \<open>The invariant of a run over a recording device.\<close>

definition sender_inv ::
  "('d \<Rightarrow> packet_buf multiset \<Rightarrow> bool) \<Rightarrow> u32 \<Rightarrow> tcp_config \<Rightarrow> packet_buf multiset \<Rightarrow> ('d \<times> bytes list) cn_run_state \<Rightarrow> bool"
where
  "sender_inv held iss cfg M = (\<lambda>(c, (d, log), w, r). held d M \<and> cn_inv cfg c \<and> stream_ok iss w c \<and>
     log_ok iss w (cn_state c) log)"

context device
begin

lemma cn_exec_wp:
  assumes v: "tcp_config_valid cfg" and inv: "cn_inv cfg c" and held: "held d M"
  shows "wp (cn_exec ops cfg (now, call) (c, d, w, r)) (\<lambda>(c', d', w', r').
    held d' M \<and> cn_inv cfg c' \<and> call_step call (c, w, r) (c', w', r'))"
proof (cases call)
  case (CallWrite b)
  obtain res c' where "cn_write b cfg c = Some (res, c')" "cn_inv cfg c'"
      "call_step (CallWrite b) (c, w, r) (c', w @ (case res of Inl e \<Rightarrow> [] | Inr n \<Rightarrow> take n b), r)"
    using cn_write_step [OF inv, of b w r] unfolding wp_eq_Some by blast
  then show ?thesis
    using CallWrite held by simp
next
  case (CallRead n)
  obtain res out c' where c': "cn_read n c = (res, out, c')"
    by (metis prod.collapse)
  note step = cn_read_step [OF c']
  have "call_step call (c, w, r) (c', w, r @ out)"
    unfolding call_step_def prod.case using step by blast
  then show ?thesis
    using CallRead c' held cn_read_inv [OF inv c'] by simp
next
  case CallClose
  have "cn_inv cfg (snd (cn_close now cfg c))"
    using cn_close_inv [OF inv] by (metis prod.collapse)
  then show ?thesis
    using CallClose held cn_close_step [where c = c and now = now and cfg = cfg] by (simp add: call_step_def)
next
  case CallTick
  then show ?thesis
    using held cn_tick_inv [OF inv] cn_tick_call by simp
next
  case (CallPacket p)
  obtain res where res: "tcp_parse_ipv4 p = Some res"
    using tcp_parse_some by blast
  show ?thesis
  proof (cases res)
    case (Inr seg)
    obtain c' where c': "cn_input seg now cfg c = Some c'" "cn_inv cfg c'" "snd_step c c'" "input_step seg c c'"
      using cn_input_wp [OF v inv, of seg now] unfolding wp_eq_Some by blast
    then have "call_step call (c, w, r) (c', w, r)"
      unfolding call_step_def prod.case using CallPacket res Inr by blast
    then show ?thesis
      using CallPacket res Inr c'(1,2) held by simp
  qed (use CallPacket res inv held call_step_refl in simp)
next
  case CallTransmit
  obtain res c' d' where "cn_transmit ops now cfg c d = Some (res, c', d')" "held d' M" "cn_inv cfg c'" "tx_step c c'"
    using cn_transmit_wp [OF v inv held, of now] unfolding wp_eq_Some by auto
  then show ?thesis
    using CallTransmit by (simp add: call_step_def tx_step_def)
next
  case CallAbort
  then show ?thesis
    using held cn_fail_inv [OF inv, of ResetState] snd_step_fail [of ResetState c]
    by (simp add: call_step_def aborted_def) (simp add: cn_fail_def)
next
  case (CallFail k)
  have "snd_step c ((cn_fail Failed c)\<lparr>cn_local_error := Some k\<rparr>)" "cn_inv cfg ((cn_fail Failed c)\<lparr>cn_local_error := Some k\<rparr>)"
    using cn_fail_inv [OF inv, of Failed] by (simp_all add: snd_step_def aborted_def) (simp add: cn_fail_def)
  then show ?thesis
    using CallFail held by (simp add: call_step_def aborted_def) (simp add: cn_fail_def)
qed

lemma tap_device: "device (tap_ops ops) (tap_held held)"
proof
  fix d :: "'d \<times> bytes list" and M :: "packet_buf multiset" and b b' out fs now k
  obtain x log where d: "d = (x, log)"
    by (cases d)
  show "tap_held held d M \<Longrightarrow> b \<in># M \<Longrightarrow> pb_inv b"
    unfolding tap_held_def by (rule held_inv)
  show "tap_held held d (add_mset empty_buf M) = tap_held held d M"
    unfolding tap_held_def by (rule held_empty)
  show "tap_held held d (add_mset b M) \<Longrightarrow> same_frame b b' \<Longrightarrow> pb_inv b' \<Longrightarrow> tap_held held d (add_mset b' M)"
    unfolding tap_held_def by (rule held_edit)
  show "tap_held held d M \<Longrightarrow> wp (dv_poll_at (tap_ops ops) now d) (\<lambda>(r, d'). tap_held held d' M)"
    using poll_law [of x M now] by (simp add: tap_held_def tap_ops_def d case_prod_unfold cong: sum.case_cong option.case_cong)
  show "tap_held held d (mset out + M) \<Longrightarrow> wp (dv_recv (tap_ops ops) k out d) (\<lambda>(r, out', d').
      tap_held held d' (mset out' + M) \<and> (case r of Inl e \<Rightarrow> True | Inr n \<Rightarrow> n = length out' \<and> n \<le> k))"
    using recv_law [of x out M k] by (simp add: tap_held_def tap_ops_def d case_prod_unfold cong: sum.case_cong option.case_cong)
  show "tap_held held d (mset fs + M) \<Longrightarrow> wp (dv_send (tap_ops ops) fs d) (\<lambda>(r, fs', d').
      case r of Inl e \<Rightarrow> fs' = fs \<and> tap_held held d' (mset fs + M)
      | Inr n \<Rightarrow> n \<le> length fs \<and> fs' = replicate n empty_buf @ drop n fs \<and> tap_held held d' (mset (drop n fs) + M))"
    using send_law [of x fs M] by (simp add: tap_held_def tap_ops_def d case_prod_unfold cong: sum.case_cong option.case_cong)
  show "tap_held held d M \<Longrightarrow> wp (dv_alloc (tap_ops ops) d) (\<lambda>(r, d').
      case r of None \<Rightarrow> tap_held held d' M | Some b \<Rightarrow> tap_held held d' (add_mset b M) \<and> pb_len b = 0)"
    using alloc_law [of x M] by (simp add: tap_held_def tap_ops_def d case_prod_unfold cong: sum.case_cong option.case_cong)
  show "tap_held held d (add_mset b M) \<Longrightarrow> wp (dv_drop (tap_ops ops) b d) (\<lambda>d'. tap_held held d' M)"
    using drop_law [of x b M] by (simp add: tap_held_def tap_ops_def d)
qed

lemma cn_run_wp:
  assumes v: "tcp_config_valid cfg" and inv: "cn_inv cfg c" and held: "held d M"
  shows "wp (cn_run ops cfg es (c, d, w, r)) (\<lambda>(c', d', w', r'). held d' M \<and> cn_inv cfg c' \<and> run_step c c')"
proof (rule cn_run_inv)
  show "case (c, d, w, r) of (c', d', w', r') \<Rightarrow> held d' M \<and> cn_inv cfg c' \<and> run_step c c'"
    using inv held by (auto simp: run_step_def phase_kept_def)
next
  fix e :: "duration \<times> cn_call" and s :: "'d cn_run_state"
  assume s: "case s of (c', d', w', r') \<Rightarrow> held d' M \<and> cn_inv cfg c' \<and> run_step c c'"
  obtain now call c1 d1 w1 r1 where eq: "e = (now, call)" "s = (c1, d1, w1, r1)"
    by (metis prod.collapse)
  then have h: "cn_inv cfg c1" "held d1 M" "run_step c c1"
    using s by simp_all
  show "wp (cn_exec ops cfg e s) (\<lambda>(c', d', w', r'). held d' M \<and> cn_inv cfg c' \<and> run_step c c')"
    unfolding eq
    by (rule wp_mono [OF cn_exec_wp [OF v h(1,2), of now call w1 r1]])
      (use call_step_kept run_step_trans [OF h(3)] in \<open>auto simp: run_step_def [of c1]\<close>)
qed

lemma cn_run_receiver:
  assumes v: "tcp_config_valid cfg" and inv: "cn_inv cfg c" and held: "held d M" and ok: "rcv_ok irs peer r c"
    and len: "length peer < 2 ^ 31" and p: "\<And>t p. (t, CallPacket p) \<in> set es \<Longrightarrow> packet_carries irs peer p"
  shows "wp (cn_run ops cfg es (c, d, w, r)) (\<lambda>(c', d', w', r'). held d' M \<and> cn_inv cfg c' \<and> rcv_ok irs peer r' c')"
proof (rule cn_run_inv)
  fix e :: "duration \<times> cn_call" and s :: "'d cn_run_state"
  assume e: "e \<in> set es" and s: "case s of (c', d', w', r') \<Rightarrow> held d' M \<and> cn_inv cfg c' \<and> rcv_ok irs peer r' c'"
  obtain now call c1 d1 w1 r1 where eq: "e = (now, call)" "s = (c1, d1, w1, r1)"
    by (metis prod.collapse)
  then have h: "cn_inv cfg c1" "held d1 M" "rcv_ok irs peer r1 c1"
    using s by simp_all
  have pk: "call = CallPacket q \<Longrightarrow> packet_carries irs peer q" for q
    using p e eq(1) by blast
  show "wp (cn_exec ops cfg e s) (\<lambda>(c', d', w', r'). held d' M \<and> cn_inv cfg c' \<and> rcv_ok irs peer r' c')"
    unfolding eq
    by (rule wp_mono [OF cn_exec_wp [OF v h(1,2), of now call w1 r1]]) (use call_step_receive [OF _ h(3) pk len] in auto)
qed (use inv held ok in simp)

text \<open>What reaches the network.\<close>

lemma cn_exec_log:
  assumes v: "tcp_config_valid cfg" and inv: "cn_inv cfg c" and held: "held d M"
    and e: "cn_exec (tap_ops ops) cfg (now, call) (c, (d, log), w, r) = Some (c', (d', log'), w', r')"
  shows "log' = log \<or> w' = w \<and> (\<exists>p s e. log' = log @ [p] \<and> tcp_parse_ipv4 p = Some (Inr s) \<and> cn_inv cfg e \<and> tx_step c e \<and>
    tx_step e c' \<and> emits e s)"
proof (cases call)
  case CallTransmit
  then obtain res where "cn_transmit (tap_ops ops) now cfg c (d, log) = Some (res, c', d', log')" "w' = w"
    using e by auto
  then show ?thesis
    using cn_transmit_tap_wp [OF v inv held, of now log] by (simp add: tx_post_def)
next
  case (CallPacket p)
  then obtain res :: "segment io_result" where "(case res of Inl e \<Rightarrow> Some (c, (d, log), w, r)
      | Inr s \<Rightarrow> map_option (\<lambda>c. (c, (d, log), w, r)) (cn_input s now cfg c)) = Some (c', (d', log'), w', r')"
    using e by (auto simp: bind_eq_Some_conv)
  then show ?thesis
    by (cases res) auto
qed (use e in \<open>auto simp: case_prod_beta\<close>)

lemma cn_run_sender:
  assumes v: "tcp_config_valid cfg" and inv: "sender_inv held iss cfg M s"
  shows "wp (cn_run (tap_ops ops) cfg es s) (sender_inv held iss cfg M)"
proof (rule cn_run_inv [where P = "sender_inv held iss cfg M"])
  fix e :: "duration \<times> cn_call" and s :: "('d \<times> bytes list) cn_run_state"
  assume s: "sender_inv held iss cfg M s"
  obtain now call c d log w r where eq: "e = (now, call)" "s = (c, (d, log), w, r)"
    by (metis prod.collapse)
  have h: "cn_inv cfg c" "held d M" "tap_held held (d, log) M" "stream_ok iss w c" "log_ok iss w (cn_state c) log"
    using s by (simp_all add: sender_inv_def eq tap_held_def)
  obtain c' d' log' w' r' where x: "cn_exec (tap_ops ops) cfg (now, call) (c, (d, log), w, r) = Some (c', (d', log'), w', r')"
      "held d' M" "cn_inv cfg c'" "call_step call (c, w, r) (c', w', r')"
    using device.cn_exec_wp [OF tap_device v h(1,3), of now call w r] unfolding wp_eq_Some by (auto simp: tap_held_def)
  note old = call_step_log [OF x(4) h(5)]
  have "log_ok iss w' (cn_state c') log'"
  proof (cases "log' = log")
    case False
    then obtain p seg e where p: "w' = w" "log' = log @ [p]" "tcp_parse_ipv4 p = Some (Inr seg)" "cn_inv cfg e" "tx_step c e"
        "tx_step e c'" "emits e seg"
      using cn_exec_log [OF v h(1,2) x(1)] by blast
    have "fin_started (cn_state e) \<Longrightarrow> fin_started (cn_state c') \<or> aborted (cn_state c')"
      using p(6) by (auto simp: tx_step_def snd_step_def phase_kept_def)
    moreover have "carries iss w seg"
      using emits_carries [OF p(4) stream_ok_step [OF h(4)] p(7)] p(5) by (simp add: tx_step_def)
    ultimately show ?thesis
      using log_ok_emit [OF old p(3) _ p(4,7)] p(1,2) by blast
  qed (use old in simp)
  then show "wp (cn_exec (tap_ops ops) cfg e s) (sender_inv held iss cfg M)"
    using x call_step_stream [OF x(4) h(4)] by (simp add: eq sender_inv_def)
qed (rule inv)

end

end
