(* ===== verification/Ordered_Map.thy ===== *)
theory Ordered_Map
  imports Net_Prelude "HOL-Library.Multiset"
begin

text \<open>
  \<^verbatim>\<open>std::collections::BTreeMap\<close> and \<^verbatim>\<open>BTreeSet\<close> as the stack uses them. Iteration order matters
  to the sources (timers run in address order, a lookup by tuple returns the first match, fair
  queueing orders peers), so a map is its list of entries in increasing key order. The locale
  \<open>ordered_map\<close> is the interface the protocol components rely on; it is interpreted on the entry
  lists at the end of the theory.
\<close>

type_synonym ('k, 'v) btree_map = "('k \<times> 'v) list"

definition bt_inv :: "('k :: linorder, 'v) btree_map \<Rightarrow> bool" where
  "bt_inv m = sorted_wrt (<) (map fst m)"

definition bt_get :: "('k, 'v) btree_map \<Rightarrow> 'k \<Rightarrow> 'v option" where
  "bt_get m k = map_of m k"

definition bt_contains :: "('k, 'v) btree_map \<Rightarrow> 'k \<Rightarrow> bool" where
  "bt_contains m k = (bt_get m k \<noteq> None)"

fun bt_insert :: "'k :: linorder \<Rightarrow> 'v \<Rightarrow> ('k, 'v) btree_map \<Rightarrow> ('k, 'v) btree_map" where
  "bt_insert k v [] = [(k, v)]"
| "bt_insert k v ((k', v') # m) =
     (if k < k' then (k, v) # (k', v') # m
      else if k = k' then (k, v) # m
      else (k', v') # bt_insert k v m)"

definition bt_remove :: "'k \<Rightarrow> ('k, 'v) btree_map \<Rightarrow> ('k, 'v) btree_map" where
  "bt_remove k m = filter (\<lambda>(k', _). k' \<noteq> k) m"

definition bt_retain :: "('k \<Rightarrow> 'v \<Rightarrow> bool) \<Rightarrow> ('k, 'v) btree_map \<Rightarrow> ('k, 'v) btree_map" where
  "bt_retain P m = filter (\<lambda>(k, v). P k v) m"

definition bt_keys :: "('k, 'v) btree_map \<Rightarrow> 'k list" where
  "bt_keys m = map fst m"

definition bt_values :: "('k, 'v) btree_map \<Rightarrow> 'v list" where
  "bt_values m = map snd m"

section \<open>The interface\<close>

locale ordered_map =
  fixes get :: "'m \<Rightarrow> 'k :: linorder \<Rightarrow> 'v option"
    and ins :: "'k \<Rightarrow> 'v \<Rightarrow> 'm \<Rightarrow> 'm"
    and del :: "'k \<Rightarrow> 'm \<Rightarrow> 'm"
    and keep :: "('k \<Rightarrow> 'v \<Rightarrow> bool) \<Rightarrow> 'm \<Rightarrow> 'm"
    and entries :: "'m \<Rightarrow> ('k \<times> 'v) list"
    and ok :: "'m \<Rightarrow> bool"
  assumes get_entries: "ok m \<Longrightarrow> get m k = map_of (entries m) k"
    and sorted_entries: "ok m \<Longrightarrow> sorted_wrt (<) (map fst (entries m))"
    and get_ins: "ok m \<Longrightarrow> get (ins k v m) k' = (if k' = k then Some v else get m k')"
    and get_del: "ok m \<Longrightarrow> get (del k m) k' = (if k' = k then None else get m k')"
    and get_keep: "ok m \<Longrightarrow> get (keep P m) k =
          (case get m k of None \<Rightarrow> None | Some v \<Rightarrow> if P k v then Some v else None)"
    and ok_ins: "ok m \<Longrightarrow> ok (ins k v m)"
    and ok_del: "ok m \<Longrightarrow> ok (del k m)"
    and ok_keep: "ok m \<Longrightarrow> ok (keep P m)"
begin

lemma distinct_entries: "ok m \<Longrightarrow> distinct (map fst (entries m))"
  using sorted_entries strict_sorted_iff by blast

lemma in_entries_iff: "ok m \<Longrightarrow> (k, v) \<in> set (entries m) \<longleftrightarrow> get m k = Some v"
  using distinct_entries get_entries by (metis map_of_eq_Some_iff)

lemma dom_entries: "ok m \<Longrightarrow> fst ` set (entries m) = dom (get m)"
  using get_entries by (metis dom_map_of_conv_image_fst ext)

lemma finite_dom: "ok m \<Longrightarrow> finite (dom (get m))"
  by (metis dom_entries finite_imageI finite_set)

lemma count_dom: "ok m \<Longrightarrow> length (entries m) = card (dom (get m))"
  by (metis distinct_card distinct_entries dom_entries length_map list.set_map)

lemma count_ins:
  assumes "ok m"
  shows "length (entries (ins k v m)) =
    (if get m k = None then Suc (length (entries m)) else length (entries m))"
proof -
  have "dom (get (ins k v m)) = insert k (dom (get m))"
    using get_ins [OF assms] by (auto simp: dom_def split: if_splits)
  then show ?thesis
    using assms count_dom finite_dom ok_ins by (simp add: card_insert_if domIff)
qed

lemma count_del_le: "ok m \<Longrightarrow> length (entries (del k m)) \<le> length (entries m)"
proof -
  assume m: "ok m"
  have "dom (get (del k m)) \<subseteq> dom (get m)"
    using get_del [OF m] by (auto simp: dom_def split: if_splits)
  then show ?thesis
    using m count_dom finite_dom ok_del by (simp add: card_mono)
qed

lemma count_keep_le: "ok m \<Longrightarrow> length (entries (keep P m)) \<le> length (entries m)"
proof -
  assume m: "ok m"
  have "dom (get (keep P m)) \<subseteq> dom (get m)"
    using get_keep [OF m] by (auto simp: dom_def split: option.splits)
  then show ?thesis
    using m count_dom finite_dom ok_keep by (simp add: card_mono)
qed

text \<open>The guard every bounded table of the stack uses before it inserts.\<close>

lemma bounded_ins:
  assumes "ok m" and "length (entries m) \<le> cap"
    and "get m k \<noteq> None \<or> length (entries m) \<noteq> cap"
  shows "length (entries (ins k v m)) \<le> cap"
  using assms count_ins by auto

end

section \<open>Entry lists implement it\<close>

lemma set_keys_bt_insert: "set (map fst (bt_insert k v m)) = insert k (set (map fst m))"
  by (induction k v m rule: bt_insert.induct) auto

lemma bt_inv_insert: "bt_inv m \<Longrightarrow> bt_inv (bt_insert k v m)"
proof (induction k v m rule: bt_insert.induct)
  case (2 k v k' v' m)
  then show ?case
    using set_keys_bt_insert [of k v m] by (fastforce simp: bt_inv_def)
qed (simp add: bt_inv_def)

lemma bt_get_insert:
  "bt_inv m \<Longrightarrow> bt_get (bt_insert k v m) k' = (if k' = k then Some v else bt_get m k')"
  by (induction k v m rule: bt_insert.induct) (auto simp: bt_get_def bt_inv_def)

lemma bt_inv_filter: "bt_inv m \<Longrightarrow> bt_inv (filter P m)"
  by (auto simp: bt_inv_def sorted_wrt_map sorted_wrt_filter)

lemma bt_get_filter:
  "bt_inv m \<Longrightarrow> bt_get (filter P m) k =
     (case bt_get m k of None \<Rightarrow> None | Some v \<Rightarrow> if P (k, v) then Some v else None)"
proof (induction m)
  case (Cons e m)
  have "bt_inv m" and "\<forall>k' \<in> set (map fst m). fst e < k'"
    using Cons.prems by (auto simp: bt_inv_def)
  moreover from this have "fst e = k \<Longrightarrow> bt_get m k = None"
    by (force simp: bt_get_def map_of_eq_None_iff)
  ultimately show ?case
    using Cons.IH by (cases e) (auto simp: bt_get_def split: option.splits)
qed (simp add: bt_get_def)

interpretation btm: ordered_map bt_get bt_insert bt_remove bt_retain "\<lambda>m. m" bt_inv
proof
  fix m :: "('k :: linorder, 'v) btree_map" and k k' :: 'k and v :: 'v and P :: "'k \<Rightarrow> 'v \<Rightarrow> bool"
  assume m: "bt_inv m"
  show "bt_get m k = map_of m k"
    by (simp add: bt_get_def)
  show "sorted_wrt (<) (map fst m)"
    using m by (simp add: bt_inv_def)
  show "bt_get (bt_insert k v m) k' = (if k' = k then Some v else bt_get m k')"
    using m by (rule bt_get_insert)
  show "bt_get (bt_remove k m) k' = (if k' = k then None else bt_get m k')"
    unfolding bt_remove_def bt_get_filter [OF m] by (simp split: option.splits)
  show "bt_get (bt_retain P m) k =
      (case bt_get m k of None \<Rightarrow> None | Some v \<Rightarrow> if P k v then Some v else None)"
    unfolding bt_retain_def bt_get_filter [OF m] by (simp split: option.splits)
  show "bt_inv (bt_insert k v m)"
    using m by (rule bt_inv_insert)
  show "bt_inv (bt_remove k m)" and "bt_inv (bt_retain P m)"
    using m by (simp_all add: bt_remove_def bt_retain_def bt_inv_filter)
qed

lemma bt_inv_Nil [simp]: "bt_inv []"
  by (simp add: bt_inv_def)

lemma bt_get_Nil [simp]: "bt_get [] k = None"
  by (simp add: bt_get_def)

lemma bt_remove_absent: "bt_get m k = None \<Longrightarrow> bt_remove k m = m"
  by (force simp: bt_get_def bt_remove_def map_of_eq_None_iff intro!: filter_True)

lemma set_bt_insert: "set (bt_insert k v m) \<subseteq> insert (k, v) (set m)"
  by (induction k v m rule: bt_insert.induct) auto

text \<open>Replacing the value of a key that is present.\<close>

lemma bt_insert_present:
  assumes "bt_inv m" and "bt_get m i = Some c"
  shows "bt_insert i c' m = map (\<lambda>(j, d). (j, if j = i then c' else d)) m"
  using assms
proof (induction m)
  case (Cons e m)
  obtain j d where e: "e = (j, d)"
    by (cases e)
  have m: "bt_inv m" "\<forall>k \<in> set (map fst m). j < k"
    using Cons.prems(1) by (auto simp: bt_inv_def e)
  show ?case
  proof (cases "i = j")
    case True
    then have "map (\<lambda>(j, d). (j, if j = i then c' else d)) m = m"
      using m(2) by (intro map_idI) force
    then show ?thesis
      using True by (simp add: e)
  next
    case False
    then have "bt_get m i = Some c"
      using Cons.prems(2) by (simp add: bt_get_def e)
    then show ?thesis
      using Cons.IH m False by (force simp: e bt_get_def dest!: map_of_SomeD)
  qed
qed simp

lemma bt_insert_same: "bt_inv m \<Longrightarrow> bt_get m i = Some c \<Longrightarrow> bt_insert i c m = m"
proof -
  assume m: "bt_inv m" "bt_get m i = Some c"
  have "map (\<lambda>(j, d). (j, if j = i then c else d)) m = m"
    using btm.in_entries_iff [OF m(1)] m(2) by (intro map_idI) auto
  then show ?thesis
    using bt_insert_present [OF m] by simp
qed

lemmas bt_simps = btm.get_ins btm.get_del btm.get_keep
lemmas bt_inv_rules = btm.ok_ins btm.ok_del btm.ok_keep

text \<open>The keys after removing, adding and replacing an entry.\<close>

lemma keys_remove:
  assumes "bt_inv m" and "bt_get m i = Some q"
  shows "mset (map fst m) = add_mset i (mset (map fst (bt_remove i m)))"
  using assms
proof (induction m)
  case (Cons e m)
  obtain j d where e: "e = (j, d)"
    by (cases e)
  have m: "bt_inv m" "j \<notin> fst ` set m"
    using Cons.prems(1) by (auto simp: bt_inv_def e)
  show ?case
  proof (cases "j = i")
    case True
    then have "bt_remove i m = m"
      using m(2) by (intro bt_remove_absent) (simp add: bt_get_def map_of_eq_None_iff)
    then show ?thesis
      using True by (simp add: e bt_remove_def)
  next
    case False
    then show ?thesis
      using Cons.IH [OF m(1)] Cons.prems(2) by (simp add: e bt_remove_def bt_get_def)
  qed
qed simp

lemma keys_insert:
  assumes "bt_get m i = None"
  shows "mset (map fst (bt_insert i q m)) = add_mset i (mset (map fst m))"
  using assms by (induction i q m rule: bt_insert.induct) (auto simp: bt_get_def split: if_split_asm)

lemma keys_replace: "bt_inv m \<Longrightarrow> bt_get m i = Some q \<Longrightarrow> map fst (bt_insert i q' m) = map fst m"
  by (simp add: bt_insert_present case_prod_unfold)

lemma find_entry: "bt_inv m \<Longrightarrow> find P m = Some (i, q) \<Longrightarrow> bt_get m i = Some q"
  using find_SomeD btm.in_entries_iff by fastforce

end
