(* ===== verification/Tcp_Pool.thy ===== *)
theory Tcp_Pool
  imports Tcp_Stream Ordered_Map
begin

text \<open>
  \<^verbatim>\<open>src/api/tcp/mod.rs\<close>: the pool of TCP connections over one device. This theory holds the model; its
  invariant and properties follow in the next theories.

  Connections are a \<^verbatim>\<open>BTreeMap\<close> in the order of their identifiers and listeners a \<^verbatim>\<open>BTreeSet\<close>, here entry
  lists. Initial sequence numbers come from the operating system: \<open>entropy\<close> is the result of each
  successive read, and \<open>tp_draws\<close> counts the reads. Statistics wrap as \<^verbatim>\<open>u64\<close>, except the saturating count of
  overwritten events.
\<close>

section \<open>Types\<close>

type_synonym connection_id = u64

record tcp_stats =
  ts_received :: u64
  ts_malformed :: u64
  ts_ignored :: u64
  ts_submitted :: u64
  ts_retransmitted :: u64
  ts_resets_submitted :: u64
  ts_control_drops :: u64
  ts_connection_overflow :: u64
  ts_events_overwritten :: nat

definition tcp_stats_default :: tcp_stats where
  "tcp_stats_default = \<lparr>ts_received = 0, ts_malformed = 0, ts_ignored = 0, ts_submitted = 0, ts_retransmitted = 0,
     ts_resets_submitted = 0, ts_control_drops = 0, ts_connection_overflow = 0, ts_events_overwritten = 0\<rparr>"

record tcp_event =
  te_at :: duration
  te_connection :: connection_id
  te_status :: connection_status

record 'd tcp_pool =
  tp_device :: 'd
  tp_config :: tcp_config
  tp_connections :: "(connection_id, connection) btree_map"
  tp_listeners :: "(sockaddr, unit) btree_map"
  tp_resets :: "reset list"
  tp_rx :: "packet_buf list"
  tp_now :: duration
  tp_next_id :: u64
  tp_stats :: tcp_stats
  tp_events :: "tcp_event list"
  tp_draws :: nat

type_synonym entropy = "nat \<Rightarrow> u32 io_result"

definition tcp_pool_new :: "'d \<Rightarrow> tcp_config \<Rightarrow> 'd tcp_pool io_result" where
  "tcp_pool_new d cfg =
     (if \<not> tcp_config_valid cfg then Inl InvalidInput
      else Inr \<lparr>tp_device = d, tp_config = cfg, tp_connections = [], tp_listeners = [], tp_resets = [], tp_rx = [],
                tp_now = 0, tp_next_id = 1, tp_stats = tcp_stats_default, tp_events = [], tp_draws = 0\<rparr>)"

definition validate_address :: "sockaddr \<Rightarrow> unit io_result" where
  "validate_address a =
     (if sa_port a = 0 \<or> is_unspecified (sa_ip a) \<or> is_broadcast (sa_ip a) \<or> is_multicast (sa_ip a)
      then Inl InvalidInput else Inr ())"

section \<open>Listeners, opens and lookups\<close>

definition tp_listen :: "sockaddr \<Rightarrow> 'd tcp_pool \<Rightarrow> unit io_result \<times> 'd tcp_pool" where
  "tp_listen local p =
     (case validate_address local of
        Inl e \<Rightarrow> (Inl e, p)
      | Inr _ \<Rightarrow>
          if bt_contains (tp_listeners p) local then (Inl AddrInUse, p)
          else if length (tp_listeners p) = tc_max_listeners (tp_config p) then (Inl WouldBlock, p)
          else (Inr (), p\<lparr>tp_listeners := bt_insert local () (tp_listeners p)\<rparr>))"

definition tp_unlisten :: "sockaddr \<Rightarrow> 'd tcp_pool \<Rightarrow> 'd tcp_pool" where
  "tp_unlisten local p =
     p\<lparr>tp_listeners := bt_remove local (tp_listeners p),
       tp_connections := bt_retain (\<lambda>_ c. cn_accepted c \<or> cn_local c \<noteq> local) (tp_connections p)\<rparr>"

definition tp_find :: "sockaddr \<Rightarrow> sockaddr \<Rightarrow> 'd tcp_pool \<Rightarrow> connection_id option" where
  "tp_find local remote p =
     map_option fst (find (\<lambda>(_, c). cn_local c = local \<and> cn_remote c = remote \<and> \<not> is_terminal (cn_state c))
       (tp_connections p))"

definition initial_sequence :: "entropy \<Rightarrow> 'd tcp_pool \<Rightarrow> u32 io_result \<times> 'd tcp_pool" where
  "initial_sequence entropy p = (entropy (tp_draws p), p\<lparr>tp_draws := Suc (tp_draws p)\<rparr>)"

definition allocate_id :: "'d tcp_pool \<Rightarrow> connection_id io_result \<times> 'd tcp_pool" where
  "allocate_id p =
     (if tp_next_id p = 0xFFFFFFFFFFFFFFFF then (Inl InvalidInput, p)
      else (Inr (tp_next_id p), p\<lparr>tp_next_id := tp_next_id p + 1\<rparr>))"

definition tp_connect :: "entropy \<Rightarrow> sockaddr \<Rightarrow> sockaddr \<Rightarrow> 'd tcp_pool \<Rightarrow> connection_id io_result \<times> 'd tcp_pool" where
  "tp_connect entropy local remote p =
     (case validate_address local of
        Inl e \<Rightarrow> (Inl e, p)
      | Inr _ \<Rightarrow>
          (case validate_address remote of
             Inl e \<Rightarrow> (Inl e, p)
           | Inr _ \<Rightarrow>
               if local = remote then (Inl InvalidInput, p)
               else if length (tp_connections p) = tc_max_connections (tp_config p) then (Inl WouldBlock, p)
               else if tp_find local remote p \<noteq> None then (Inl AddrInUse, p)
               else
                 (case initial_sequence entropy p of
                    (Inl e, p) \<Rightarrow> (Inl e, p)
                  | (Inr iss, p) \<Rightarrow>
                      (case allocate_id p of
                         (Inl e, p) \<Rightarrow> (Inl e, p)
                       | (Inr i, p) \<Rightarrow>
                           (Inr i, p\<lparr>tp_connections := bt_insert i
                              (cn_active local remote iss (tp_now p) (tp_config p)) (tp_connections p)\<rparr>)))))"

definition acceptable :: "sockaddr \<Rightarrow> connection \<Rightarrow> bool" where
  "acceptable local c \<longleftrightarrow> cn_local c = local \<and> \<not> cn_accepted c \<and> cn_state c \<in> {Established, CloseWait}"

definition tp_accept :: "sockaddr \<Rightarrow> 'd tcp_pool \<Rightarrow> connection_id option io_result \<times> 'd tcp_pool" where
  "tp_accept local p =
     (if \<not> bt_contains (tp_listeners p) local then (Inl InvalidInput, p)
      else
        (case find (\<lambda>(_, c). acceptable local c) (tp_connections p) of
           None \<Rightarrow> (Inr None, p)
         | Some (i, c) \<Rightarrow>
             (Inr (Some i), p\<lparr>tp_connections := bt_insert i (c\<lparr>cn_accepted := True\<rparr>) (tp_connections p)\<rparr>)))"

section \<open>Status and events\<close>

definition tp_status :: "connection_id \<Rightarrow> 'd tcp_pool \<Rightarrow> connection_status io_result option" where
  "tp_status i p =
     (case bt_get (tp_connections p) i of
        None \<Rightarrow> Some (Inl NotFound)
      | Some c \<Rightarrow> map_option Inr (cn_status (tp_config p) c))"

definition tp_pop_event :: "'d tcp_pool \<Rightarrow> tcp_event option \<times> 'd tcp_pool" where
  "tp_pop_event p =
     (case tp_events p of [] \<Rightarrow> (None, p) | e # es \<Rightarrow> (Some e, p\<lparr>tp_events := es\<rparr>))"

text \<open>The body of the loop of \<^verbatim>\<open>report_states\<close> for one connection.\<close>

definition report_state ::
  "tcp_config \<Rightarrow> duration \<Rightarrow> connection_id \<Rightarrow> connection \<Rightarrow> tcp_event list \<Rightarrow> tcp_stats \<Rightarrow>
     (connection \<times> tcp_event list \<times> tcp_stats) option"
where
  "report_state cfg now i c events stats = do {
     status \<leftarrow> cn_status cfg c;
     let flow = cs_flow status;
     let key = (cs_state status, fs_wait flow, fs_timeout_retransmissions flow);
     let transition = (cn_reported c \<noteq> Some key);
     let metrics_changed = (cn_reported_flow c \<noteq> Some flow);
     let sample_due = (saturating_add (cn_reported_at c) (tc_state_report_interval cfg) \<le> now);
     if \<not> transition \<and> \<not> (metrics_changed \<and> sample_due) then Some (c, events, stats)
     else do {
       let c = c\<lparr>cn_reported := Some key, cn_reported_flow := Some flow, cn_reported_at := now\<rparr>;
       let (events, stats) =
         (if length events = tc_event_capacity cfg
          then (tl events, stats\<lparr>ts_events_overwritten := sat_add 64 (ts_events_overwritten stats) 1\<rparr>)
          else (events, stats));
       Some (c, events @ [\<lparr>te_at = now, te_connection = i, te_status = status\<rparr>], stats)
     }
   }"

fun report_entries ::
  "tcp_config \<Rightarrow> duration \<Rightarrow> (connection_id, connection) btree_map \<Rightarrow> tcp_event list \<Rightarrow> tcp_stats \<Rightarrow>
     ((connection_id, connection) btree_map \<times> tcp_event list \<times> tcp_stats) option"
where
  "report_entries cfg now [] events stats = Some ([], events, stats)"
| "report_entries cfg now ((i, c) # m) events stats = do {
     (c, events, stats) \<leftarrow> report_state cfg now i c events stats;
     (m, events, stats) \<leftarrow> report_entries cfg now m events stats;
     Some ((i, c) # m, events, stats)
   }"

definition report_states :: "'d tcp_pool \<Rightarrow> 'd tcp_pool option" where
  "report_states p =
     (if \<not> tc_verbose_state (tp_config p) then Some p
      else do {
        (m, events, stats) \<leftarrow> report_entries (tp_config p) (tp_now p) (tp_connections p) (tp_events p) (tp_stats p);
        Some (p\<lparr>tp_connections := m, tp_events := events, tp_stats := stats\<rparr>)
      })"

definition tp_connection_ids :: "'d tcp_pool \<Rightarrow> connection_id list" where
  "tp_connection_ids p = bt_keys (tp_connections p)"

section \<open>Operations on one connection\<close>

definition tp_write :: "connection_id \<Rightarrow> bytes \<Rightarrow> 'd tcp_pool \<Rightarrow> (nat io_result \<times> 'd tcp_pool) option" where
  "tp_write i b p =
     (case bt_get (tp_connections p) i of
        None \<Rightarrow> Some (Inl NotFound, p)
      | Some c \<Rightarrow> do {
          (r, c) \<leftarrow> cn_write b (tp_config p) c;
          Some (r, p\<lparr>tp_connections := bt_insert i c (tp_connections p)\<rparr>)
        })"

definition tp_read :: "connection_id \<Rightarrow> nat \<Rightarrow> 'd tcp_pool \<Rightarrow> nat io_result \<times> bytes \<times> 'd tcp_pool" where
  "tp_read i n p =
     (case bt_get (tp_connections p) i of
        None \<Rightarrow> (Inl NotFound, [], p)
      | Some c \<Rightarrow> (let (r, out, c) = cn_read n c in (r, out, p\<lparr>tp_connections := bt_insert i c (tp_connections p)\<rparr>)))"

definition tp_close :: "connection_id \<Rightarrow> 'd tcp_pool \<Rightarrow> unit io_result \<times> 'd tcp_pool" where
  "tp_close i p =
     (case bt_get (tp_connections p) i of
        None \<Rightarrow> (Inl NotFound, p)
      | Some c \<Rightarrow>
          (let (r, c) = cn_close (tp_now p) (tp_config p) c in (r, p\<lparr>tp_connections := bt_insert i c (tp_connections p)\<rparr>)))"

definition queue_reset :: "reset \<Rightarrow> 'd tcp_pool \<Rightarrow> 'd tcp_pool" where
  "queue_reset r p =
     (if length (tp_resets p) = tc_control_capacity (tp_config p)
      then p\<lparr>tp_stats := (tp_stats p)\<lparr>ts_control_drops := ts_control_drops (tp_stats p) + 1\<rparr>\<rparr>
      else p\<lparr>tp_resets := tp_resets p @ [r]\<rparr>)"

definition tp_abort :: "connection_id \<Rightarrow> 'd tcp_pool \<Rightarrow> (unit io_result \<times> 'd tcp_pool) option" where
  "tp_abort i p =
     (case bt_get (tp_connections p) i of
        None \<Rightarrow> Some (Inl NotFound, p)
      | Some c \<Rightarrow> do {
          let p = p\<lparr>tp_connections := bt_insert i (cn_fail ResetState c) (tp_connections p)\<rparr>;
          p \<leftarrow> report_states (queue_reset (cn_reset_packet c) p);
          Some (Inr (), p)
        })"

definition tp_remove :: "connection_id \<Rightarrow> 'd tcp_pool \<Rightarrow> (unit io_result \<times> 'd tcp_pool) option" where
  "tp_remove i p =
     (case bt_get (tp_connections p) i of
        None \<Rightarrow> Some (Inl NotFound, p)
      | Some c \<Rightarrow>
          if \<not> is_terminal (cn_state c) then Some (Inl WouldBlock, p)
          else do {
            p \<leftarrow> report_states p;
            Some (Inr (), p\<lparr>tp_connections := bt_remove i (tp_connections p)\<rparr>)
          })"

definition tp_next_deadline :: "'d tcp_pool \<Rightarrow> duration option" where
  "tp_next_deadline p =
     (let ts = List.map_filter (cn_next_deadline (tp_config p)) (bt_values (tp_connections p)) in
      if ts = [] then None else Some (Min (set ts)))"

section \<open>Segments from the device\<close>

definition bump_ignored :: "'d tcp_pool \<Rightarrow> 'd tcp_pool" where
  "bump_ignored p = p\<lparr>tp_stats := (tp_stats p)\<lparr>ts_ignored := ts_ignored (tp_stats p) + 1\<rparr>\<rparr>"

text \<open>The reset that answers a segment no connection or listener takes.\<close>

definition reset_for :: "segment \<Rightarrow> reset" where
  "reset_for s =
     (if has_flag (sg_flags s) ACK
      then \<lparr>rs_local = sg_destination s, rs_remote = sg_source s, rs_sequence = sg_acknowledgment s,
            rs_acknowledgment = 0, rs_flags = RST\<rparr>
      else \<lparr>rs_local = sg_destination s, rs_remote = sg_source s, rs_sequence = 0,
            rs_acknowledgment = sg_sequence s + sequence_len s, rs_flags = RST OR ACK\<rparr>)"

text \<open>Does the pool use the address the segment was sent to?\<close>

definition address_used :: "segment \<Rightarrow> 'd tcp_pool \<Rightarrow> bool" where
  "address_used s p \<longleftrightarrow>
     list_ex (\<lambda>a. sa_ip a = sa_ip (sg_destination s)) (bt_keys (tp_listeners p)) \<or>
     list_ex (\<lambda>c. sa_ip (cn_local c) = sa_ip (sg_destination s)) (bt_values (tp_connections p))"

definition accept_syn :: "entropy \<Rightarrow> segment \<Rightarrow> 'd tcp_pool \<Rightarrow> (unit io_result \<times> 'd tcp_pool) option" where
  "accept_syn entropy s p =
     (if length (tp_connections p) = tc_max_connections (tp_config p)
      then Some (Inr (), p\<lparr>tp_stats := (tp_stats p)\<lparr>ts_connection_overflow := ts_connection_overflow (tp_stats p) + 1\<rparr>\<rparr>)
      else
        (case initial_sequence entropy p of
           (Inl e, p) \<Rightarrow> Some (Inl e, p)
         | (Inr iss, p) \<Rightarrow>
             (case allocate_id p of
                (Inl e, p) \<Rightarrow> Some (Inl e, p)
              | (Inr i, p) \<Rightarrow> do {
                  c \<leftarrow> cn_passive s iss (tp_now p) (tp_config p);
                  Some (Inr (), p\<lparr>tp_connections := bt_insert i c (tp_connections p)\<rparr>)
                })))"

definition tp_input :: "entropy \<Rightarrow> segment \<Rightarrow> 'd tcp_pool \<Rightarrow> (unit io_result \<times> 'd tcp_pool) option" where
  "tp_input entropy s p =
     (if validate_address (sg_source s) \<noteq> Inr () \<or> validate_address (sg_destination s) \<noteq> Inr () \<or> has_flag (sg_flags s) URG
      then Some (Inr (), bump_ignored p)
      else
        (case tp_find (sg_destination s) (sg_source s) p of
           Some i \<Rightarrow> do {
             c \<leftarrow> bt_get (tp_connections p) i;
             c \<leftarrow> cn_input s (tp_now p) (tp_config p) c;
             Some (Inr (), p\<lparr>tp_connections := bt_insert i c (tp_connections p)\<rparr>)
           }
         | None \<Rightarrow>
             if \<not> address_used s p then Some (Inr (), bump_ignored p)
             else if has_flag (sg_flags s) RST then Some (Inr (), p)
             else if bt_contains (tp_listeners p) (sg_destination s) \<and> sg_flags s AND (SYN OR ACK OR FIN) = SYN
             then accept_syn entropy s p
             else Some (Inr (), queue_reset (reset_for s) p)))"

text \<open>One received packet. \<^verbatim>\<open>bytes[9]\<close> is the IPv4 protocol field.\<close>

definition tp_packet :: "entropy \<Rightarrow> bytes \<Rightarrow> 'd tcp_pool \<Rightarrow> (unit io_result \<times> 'd tcp_pool) option" where
  "tp_packet entropy b p =
     (if length b < 20 \<or> nth_opt b 9 \<noteq> Some 6 then Some (Inr (), bump_ignored p)
      else do {
        parsed \<leftarrow> tcp_parse_ipv4 b;
        case parsed of
          Inr s \<Rightarrow> tp_input entropy s (p\<lparr>tp_stats := (tp_stats p)\<lparr>ts_received := ts_received (tp_stats p) + 1\<rparr>\<rparr>)
        | Inl _ \<Rightarrow> Some (Inr (), p\<lparr>tp_stats := (tp_stats p)\<lparr>ts_malformed := ts_malformed (tp_stats p) + 1\<rparr>\<rparr>)
      })"

text \<open>The drained batch: a packet is dropped after it is processed, and after an error the rest is dropped too.\<close>

fun tp_packets ::
  "'d device_ops \<Rightarrow> entropy \<Rightarrow> packet_buf list \<Rightarrow> 'd tcp_pool \<Rightarrow> (unit io_result \<times> 'd tcp_pool) option"
where
  "tp_packets ops entropy [] p = Some (Inr (), p)"
| "tp_packets ops entropy (f # fs) p = do {
     (r, p) \<leftarrow> tp_packet entropy (as_slice f) p;
     d \<leftarrow> dv_drop ops f (tp_device p);
     let p = p\<lparr>tp_device := d\<rparr>;
     case r of
       Inl e \<Rightarrow> do { d \<leftarrow> dv_drop_all ops fs (tp_device p); Some (Inl e, p\<lparr>tp_device := d\<rparr>) }
     | Inr _ \<Rightarrow> tp_packets ops entropy fs p
   }"

section \<open>Output\<close>

definition reset_segment :: "reset \<Rightarrow> segment" where
  "reset_segment r =
     \<lparr>sg_source = rs_local r, sg_destination = rs_remote r, sg_sequence = rs_sequence r,
      sg_acknowledgment = rs_acknowledgment r, sg_flags = rs_flags r, sg_window = 0, sg_mss = None, sg_payload = []\<rparr>"

text \<open>The error kinds that concern one destination and not the device.\<close>

definition local_failure :: "io_kind \<Rightarrow> bool" where
  "local_failure e \<longleftrightarrow> e \<in> {NotConnected, AddrNotAvailable, InvalidInput}"

definition flush_reset :: "'d device_ops \<Rightarrow> 'd tcp_pool \<Rightarrow> (unit io_result \<times> 'd tcp_pool) option" where
  "flush_reset ops p =
     (case tp_resets p of
        [] \<Rightarrow> Some (Inr (), p)
      | reset # rest \<Rightarrow> do {
          (r, d) \<leftarrow> dv_alloc ops (tp_device p);
          let p = p\<lparr>tp_device := d\<rparr>;
          case r of
            None \<Rightarrow> Some (Inr (), p)
          | Some frame \<Rightarrow> do {
              (built, frame) \<leftarrow> tcp_build_ipv4 frame (reset_segment reset);
              case built of
                Inl e \<Rightarrow> do { d \<leftarrow> dv_drop ops frame (tp_device p); Some (Inl e, p\<lparr>tp_device := d\<rparr>) }
              | Inr _ \<Rightarrow> do {
                  (r, slot, d) \<leftarrow> dv_send ops [frame] (tp_device p);
                  d \<leftarrow> dv_drop_all ops slot d;
                  let p = p\<lparr>tp_device := d\<rparr>;
                  case r of
                    Inl e \<Rightarrow>
                      if e = WouldBlock then Some (Inr (), p)
                      else if local_failure e
                      then Some (Inr (), p\<lparr>tp_resets := rest,
                             tp_stats := (tp_stats p)\<lparr>ts_control_drops := ts_control_drops (tp_stats p) + 1\<rparr>\<rparr>)
                      else Some (Inl e, p)
                  | Inr n \<Rightarrow>
                      if n = 1
                      then Some (Inr (), p\<lparr>tp_resets := rest,
                             tp_stats := (tp_stats p)\<lparr>ts_resets_submitted := ts_resets_submitted (tp_stats p) + 1\<rparr>\<rparr>)
                      else Some (Inr (), p)
                }
            }
        })"

text \<open>Up to \<^verbatim>\<open>tx_burst\<close> submissions of one connection.\<close>

fun tp_burst ::
  "'d device_ops \<Rightarrow> duration \<Rightarrow> tcp_config \<Rightarrow> nat \<Rightarrow> connection \<Rightarrow> 'd \<Rightarrow> tcp_stats \<Rightarrow>
     (unit io_result \<times> connection \<times> 'd \<times> tcp_stats) option"
where
  "tp_burst ops now cfg 0 c d stats = Some (Inr (), c, d, stats)"
| "tp_burst ops now cfg (Suc n) c d stats = do {
     (r, c, d) \<leftarrow> cn_transmit ops now cfg c d;
     case r of
       Inl e \<Rightarrow>
         if local_failure e then Some (Inr (), (cn_fail Failed c)\<lparr>cn_local_error := Some e\<rparr>, d, stats)
         else Some (Inl e, c, d, stats)
     | Inr (sent, again) \<Rightarrow> do {
         let stats = stats\<lparr>ts_submitted := ts_submitted stats + (if sent then 1 else 0),
                           ts_retransmitted := ts_retransmitted stats + (if again then 1 else 0)\<rparr>;
         if sent then tp_burst ops now cfg n c d stats else Some (Inr (), c, d, stats)
       }
   }"

fun tp_transmit_all ::
  "'d device_ops \<Rightarrow> duration \<Rightarrow> tcp_config \<Rightarrow> (connection_id, connection) btree_map \<Rightarrow> 'd \<Rightarrow> tcp_stats \<Rightarrow>
     (unit io_result \<times> (connection_id, connection) btree_map \<times> 'd \<times> tcp_stats) option"
where
  "tp_transmit_all ops now cfg [] d stats = Some (Inr (), [], d, stats)"
| "tp_transmit_all ops now cfg ((i, c) # m) d stats = do {
     (r, c, d, stats) \<leftarrow> tp_burst ops now cfg (tc_tx_burst cfg) c d stats;
     case r of
       Inl e \<Rightarrow> Some (Inl e, (i, c) # m, d, stats)
     | Inr _ \<Rightarrow> do {
         (r, m, d, stats) \<leftarrow> tp_transmit_all ops now cfg m d stats;
         Some (r, (i, c) # m, d, stats)
       }
   }"

section \<open>Polling\<close>

text \<open>The work of a poll after the batch was received.\<close>

definition tp_poll_output ::
  "'d device_ops \<Rightarrow> duration \<Rightarrow> nat \<Rightarrow> 'd tcp_pool \<Rightarrow> (nat io_result \<times> 'd tcp_pool) option"
where
  "tp_poll_output ops now n p = do {
     (r, p) \<leftarrow> flush_reset ops p;
     case r of
       Inl e \<Rightarrow> Some (Inl e, p)
     | Inr _ \<Rightarrow> do {
         (r, m, d, stats) \<leftarrow> tp_transmit_all ops now (tp_config p) (tp_connections p) (tp_device p) (tp_stats p);
         let p = p\<lparr>tp_connections := m, tp_device := d, tp_stats := stats\<rparr>;
         case r of
           Inl e \<Rightarrow> Some (Inl e, p)
         | Inr _ \<Rightarrow> do {
             p \<leftarrow> report_states p;
             (r, d) \<leftarrow> dv_poll_at ops now (tp_device p);
             let p = p\<lparr>tp_device := d\<rparr>;
             case r of Inl e \<Rightarrow> Some (Inl e, p) | Inr _ \<Rightarrow> Some (Inr n, p)
           }
       }
   }"

definition tp_poll ::
  "'d device_ops \<Rightarrow> entropy \<Rightarrow> duration \<Rightarrow> nat \<Rightarrow> 'd tcp_pool \<Rightarrow> (nat io_result \<times> 'd tcp_pool) option"
where
  "tp_poll ops entropy now budget p =
     (if now < tp_now p then Some (Inl InvalidInput, p)
      else do {
        let p = p\<lparr>tp_now := now,
                  tp_connections := map (\<lambda>(i, c). (i, cn_tick now (tp_config p) c)) (tp_connections p)\<rparr>;
        p \<leftarrow> report_states p;
        let p = p\<lparr>tp_connections := bt_retain (\<lambda>_ c. cn_accepted c \<or> \<not> is_terminal (cn_state c)) (tp_connections p)\<rparr>;
        (r, d) \<leftarrow> dv_poll_at ops now (tp_device p);
        let p = p\<lparr>tp_device := d\<rparr>;
        case r of
          Inl e \<Rightarrow> Some (Inl e, p)
        | Inr _ \<Rightarrow> do {
            (r, rx, d) \<leftarrow> dv_recv ops budget (tp_rx p) (tp_device p);
            let p = p\<lparr>tp_device := d, tp_rx := rx\<rparr>;
            case r of
              Inl e \<Rightarrow> Some (Inl e, p)
            | Inr _ \<Rightarrow> do {
                (r, p) \<leftarrow> tp_packets ops entropy rx (p\<lparr>tp_rx := []\<rparr>);
                case r of
                  Inl e \<Rightarrow> Some (Inl e, p)
                | Inr _ \<Rightarrow> tp_poll_output ops now (length rx) p
              }
          }
      })"

end
