(* ===== verification/Tcp_Demo.thy ===== *)
theory Tcp_Demo
  imports Tcp_Stream
begin

text \<open>
  A concrete exchange between two connections, computed step by step: the three-way handshake, three bytes of
  data and their delivery. The theorems about connections are applied to it. The two ends run over a device that
  accepts every packet and delivers none, so that the packets of the exchange are the recorded ones.
\<close>

section \<open>A device that accepts everything\<close>

definition sink_ops :: "unit device_ops" where
  "sink_ops =
     \<lparr>dv_poll_at = default_poll_at,
      dv_recv = (\<lambda>k out d. Some (Inr 0, [], d)),
      dv_send = (\<lambda>fs d. Some (Inr (length fs), replicate (length fs) empty_buf, d)),
      dv_alloc = (\<lambda>d. Some (Some \<lparr>pb_mem = replicate 256 0, pb_data_offset = 0, pb_capacity = 256, pb_len = 0, pb_idx = 0,
         pb_pool = None\<rparr>, d)),
      dv_frame_size = (\<lambda>d. 256),
      dv_drop = (\<lambda>b d. Some d)\<rparr>"

definition sink_held :: "unit \<Rightarrow> packet_buf multiset \<Rightarrow> bool" where
  "sink_held d M \<longleftrightarrow> (\<forall>b \<in># M. pb_inv b)"

interpretation snk: device sink_ops sink_held
  by unfold_locales
    (auto simp: sink_ops_def sink_held_def default_poll_at_def pb_inv_def [of "\<lparr>pb_mem = _, pb_data_offset = _, pb_capacity = _,
       pb_len = _, pb_idx = _, pb_pool = _\<rparr>"])

text \<open>A transmission of a connection over this device.\<close>

lemma sink_transmit:
  assumes "\<not> is_terminal (cn_state c)"
    and "(case cn_flight_index now (cn_prepare now cfg c) of None \<Rightarrow> Some (None, cn_prepare now cfg c)
      | Some k \<Rightarrow> cn_recheck k now (cn_prepare now cfg c)) = Some (Some k, cx)"
    and "cn_advertised_window cfg cx = Some window" and "cn_segment (Some k) window cfg (cx\<lparr>cn_device_blocked := False\<rparr>) = Some s"
    and "sg_mss s \<noteq> Some 0" "sg_mss s \<noteq> None \<longrightarrow> has_flag (sg_flags s) SYN" "length (sg_payload s) + 20 + tcp_header_len s \<le> 256"
    and "cn_after_send (Some k) (sg_flags s) now cfg (cx\<lparr>cn_device_blocked := False\<rparr>) = Some (again, cy)"
  shows "\<exists>p. cn_transmit (tap_ops sink_ops) now cfg c ((), log) = Some (Inr (True, again), cy, (), log @ [p]) \<and>
    tcp_parse_ipv4 p = Some (Inr s)"
proof -
  let ?b = "\<lparr>pb_mem = replicate 256 0, pb_data_offset = 0, pb_capacity = 256, pb_len = 0, pb_idx = 0, pb_pool = None\<rparr> :: packet_buf"
  obtain f where f: "tcp_build_ipv4 ?b s = Some (Inr (), f)" "tcp_parse_ipv4 (as_slice f) = Some (Inr s)"
    using tcp_build_ok [of ?b s "[]"] assms(5-7) by (auto simp: pb_inv_def tail_capacity_def)
  have w: "cn_advertised_window cfg (cx\<lparr>cn_device_blocked := False\<rparr>) = Some window"
    using assms(3) by (simp add: cn_advertised_window_def)
  have "cn_emit (tap_ops sink_ops) (Some k) ?b now cfg (cx\<lparr>cn_device_blocked := False\<rparr>) ((), log) =
      Some (Inr (True, again), cy, (), log @ [as_slice f])"
    using w assms(4,8) f(1) by (simp add: cn_emit_def tap_ops_def sink_ops_def dv_drop_all_def)
  then have "cn_transmit (tap_ops sink_ops) now cfg c ((), log) = Some (Inr (True, again), cy, (), log @ [as_slice f])"
    using assms(1,2) by (simp add: cn_transmit_def Let_def tap_ops_def sink_ops_def)
  then show ?thesis
    using f(2) by blast
qed

section \<open>The exchange\<close>

definition demo_local :: sockaddr where
  "demo_local = SocketAddrV4 0x0A000001 49152"

definition demo_remote :: sockaddr where
  "demo_remote = SocketAddrV4 0x0A000002 80"

definition demo_conn :: connection where
  "demo_conn = cn_active demo_local demo_remote 1000 0 tcp_config_default"

definition demo_syn :: segment where
  "demo_syn = \<lparr>sg_source = demo_local, sg_destination = demo_remote, sg_sequence = 1000, sg_acknowledgment = 0, sg_flags = SYN,
     sg_window = 16384, sg_mss = Some 536, sg_payload = []\<rparr>"

definition demo_syn_ack :: segment where
  "demo_syn_ack = \<lparr>sg_source = demo_remote, sg_destination = demo_local, sg_sequence = 5000, sg_acknowledgment = 1001,
     sg_flags = SYN OR ACK, sg_window = 16384, sg_mss = Some 536, sg_payload = []\<rparr>"

definition demo_data :: segment where
  "demo_data = \<lparr>sg_source = demo_local, sg_destination = demo_remote, sg_sequence = 1001, sg_acknowledgment = 5001,
     sg_flags = ACK OR PSH, sg_window = 16384, sg_mss = None, sg_payload = [1, 2, 3]\<rparr>"

definition demo_flight :: "u32 \<Rightarrow> u8 \<Rightarrow> flight" where
  "demo_flight seq flags = \<lparr>fl_sequence = seq, fl_flags = flags, fl_payload = [], fl_created = 0, fl_last_sent = Some 0,
     fl_transmissions = 1, fl_rto = 1000000000, fl_persist = False, fl_rtt_eligible = True\<rparr>"

text \<open>The client after its SYN was sent, after the answer arrived, and the server before and after its answer.\<close>

definition demo_a1 :: connection where
  "demo_a1 = demo_conn\<lparr>cn_flights := [demo_flight 1000 SYN], cn_send_sent := 1001\<rparr>"

definition demo_a2 :: connection where
  "demo_a2 = demo_a1\<lparr>cn_state := Established, cn_flights := [], cn_cwnd := 1072, cn_send_una := 1001, cn_receive_next := 5001,
     cn_peer_window := 16384, cn_window_sequence := 5000, cn_window_ack := 1001, cn_peer_mss := 536, cn_ack_pending := True,
     cn_phase_deadline := None, cn_srtt := Some 2, cn_rttvar := 1\<rparr>"

definition demo_a3 :: connection where
  "demo_a3 = demo_a2\<lparr>cn_flights := [\<lparr>fl_sequence = 1001, fl_flags = ACK OR PSH, fl_payload = [1, 2, 3], fl_created = 3,
     fl_last_sent = None, fl_transmissions = 0, fl_rto = 1000000000, fl_persist = False, fl_rtt_eligible = True\<rparr>],
     cn_flight_payload := 3, cn_send_next := 1004\<rparr>"

definition demo_b0 :: connection where
  "demo_b0 = the (cn_passive demo_syn 5000 0 tcp_config_default)"

definition demo_b1 :: connection where
  "demo_b1 = demo_b0\<lparr>cn_flights := [demo_flight 5000 (SYN OR ACK)], cn_send_sent := 5001\<rparr>"

lemmas demo_defs = demo_conn_def demo_syn_def demo_syn_ack_def demo_data_def demo_flight_def demo_a1_def demo_a2_def demo_a3_def demo_b0_def
  demo_b1_def cn_active_def cn_passive_def cn_start_flight_def tcp_config_default_def from_secs_def from_millis_def

lemmas tx_eval = cn_prepare_def cn_flight_index_def last_unsent_def fl_due_def cn_recheck_def cn_advertised_window_def checked_sub_def
  cn_segment_def nth_opt_def cn_after_send_def cn_submitted_def fl_end_def tcp_header_len_def sat_add_def before_def is_terminal_def
  cn_bytes_in_flight_def cn_prepare_data_def deadline_passed_def cn_send_mss_def has_flag_def SYN_def ACK_def FIN_def PSH_def

lemma demo_passive: "cn_passive demo_syn 5000 0 tcp_config_default = Some demo_b0"
  by (simp add: demo_b0_def cn_passive_def cn_active_def cn_start_flight_def Let_def)

lemma demo_a1_step: "\<exists>p. cn_transmit (tap_ops sink_ops) 0 tcp_config_default demo_conn ((), log) =
  Some (Inr (True, False), demo_a1, (), log @ [p]) \<and> tcp_parse_ipv4 p = Some (Inr demo_syn)"
  by (rule sink_transmit [where cx = demo_conn and k = 0 and window = 16384 and s = demo_syn])
    (simp_all add: tx_eval demo_defs Let_def)

text \<open>An acknowledgment of a SYN or SYN-ACK, the only flight of its connection.\<close>

lemma demo_rto: "cn_srtt c = None \<Longrightarrow> t \<le> 10 \<Longrightarrow>
  cn_update_rto t tcp_config_default c = c\<lparr>cn_srtt := Some t, cn_rttvar := t div 2, cn_rto := 1000000000\<rparr>"
  by (simp add: cn_update_rto_def tcp_config_default_def from_secs_def from_millis_def saturating_add_def saturating_mul_def
      duration_max_def)

lemma demo_cwnd: "\<not> cn_syn_retransmitted c \<Longrightarrow> cn_peer_mss c = 536 \<Longrightarrow> has_flag flags SYN \<Longrightarrow>
  cn_grow_cwnd flags n tcp_config_default c = c\<lparr>cn_cwnd := 1072\<rparr>"
  by (simp add: cn_grow_cwnd_def cn_initial_cwnd_def cn_send_mss_def tcp_config_default_def)

lemma demo_acknowledge:
  assumes "cn_flights c = [demo_flight seq flags]" and "cn_send_una c = seq" and "sg_acknowledgment s = seq + 1"
    and "has_flag flags SYN" and "\<not> has_flag flags FIN" and "\<not> cn_syn_retransmitted c" and "cn_peer_mss c = 536" and "cn_srtt c = None"
    and "now \<le> 10" and "sg_window s > 0"
    and "before (cn_window_sequence c) (sg_sequence s) \<or> cn_window_sequence c = sg_sequence s \<and> cn_window_ack c = seq + 1"
  shows "cn_acknowledge s now tcp_config_default c = Some (c\<lparr>cn_flights := [], cn_send_una := seq + 1, cn_cwnd := 1072,
    cn_srtt := Some now, cn_rttvar := now div 2, cn_rto := 1000000000, cn_peer_window := sg_window s, cn_window_sequence := sg_sequence s,
    cn_window_ack := seq + 1\<rparr>)"
proof -
  have "ack_loop (seq + 1) now [demo_flight seq flags] \<lparr>ap_completed_flags = 0, ap_sample = None, ap_ambiguous = False, ap_payload = 0\<rparr> =
      (True, [], \<lparr>ap_completed_flags = flags, ap_sample = Some now, ap_ambiguous = False, ap_payload = 0\<rparr>)"
    using assms(4,5) by (simp add: before_def demo_flight_def fl_end_def)
  moreover have "cn_update_window s c = c\<lparr>cn_peer_window := sg_window s, cn_window_sequence := sg_sequence s, cn_window_ack := seq + 1\<rparr>"
  proof -
    have "before (cn_window_sequence c) (sg_sequence s) \<or>
        cn_window_sequence c = sg_sequence s \<and> \<not> before (sg_acknowledgment s) (cn_window_ack c)"
      using assms(3,11) by (auto simp: before_def)
    then show ?thesis
      unfolding cn_update_window_def using assms(1,3,10) by (simp add: demo_flight_def)
  qed
  ultimately show ?thesis
    using assms by (simp add: cn_acknowledge_def before_def checked_sub_def demo_rto demo_cwnd cn_restart_timer_def Let_def
        del: ack_loop.simps)
qed

lemma demo_a2_step: "cn_input demo_syn_ack 2 tcp_config_default demo_a1 = Some demo_a2"
proof -
  let ?c = "demo_a1\<lparr>cn_receive_next := 5001, cn_peer_window := 16384, cn_peer_mss := 536, cn_window_sequence := 5000, cn_window_ack := 1001\<rparr>"
  have "cn_acknowledge demo_syn_ack 2 tcp_config_default ?c = Some (?c\<lparr>cn_flights := [], cn_send_una := 1000 + 1, cn_cwnd := 1072,
      cn_srtt := Some 2, cn_rttvar := 2 div 2, cn_rto := 1000000000, cn_peer_window := sg_window demo_syn_ack,
      cn_window_sequence := sg_sequence demo_syn_ack, cn_window_ack := 1000 + 1\<rparr>)"
    by (rule demo_acknowledge [where flags = SYN]) (simp_all add: demo_defs Let_def)
  moreover have "cn_state demo_a1 = SynSent" "cn_send_sent demo_a1 = 1001" "cn_send_una demo_a1 = 1000"
    by (simp_all add: demo_defs Let_def)
  ultimately show ?thesis
    by (simp add: cn_input_def cn_syn_sent_def is_terminal_def unwrap_mss_def demo_syn_ack_def has_flag_def RST_def SYN_def ACK_def FIN_def)
      (simp add: demo_defs Let_def)
qed

lemma demo_a3_step:
  "cn_prepare 3 tcp_config_default (demo_a2\<lparr>cn_queued := [1, 2, 3]\<rparr>) = demo_a3"
  "cn_flight_index 3 demo_a3 = Some 0" "cn_recheck 0 3 demo_a3 = Some (Some 0, demo_a3)"
  "cn_device_blocked demo_a3 = False"
  by (simp_all add: tx_eval demo_defs Let_def)

lemma demo_a4_step: "\<exists>p c. cn_transmit (tap_ops sink_ops) 3 tcp_config_default (demo_a2\<lparr>cn_queued := [1, 2, 3]\<rparr>) ((), log) =
  Some (Inr (True, False), c, (), log @ [p]) \<and> tcp_parse_ipv4 p = Some (Inr demo_data) \<and> cn_state c = Established \<and>
  \<not> cn_write_closed c \<and> cn_send_sent c = 1004 \<and> cn_cwnd c = 1072"
proof -
  obtain c where c: "cn_after_send (Some 0) (sg_flags demo_data) 3 tcp_config_default (demo_a3\<lparr>cn_device_blocked := False\<rparr>) = Some (False, c)"
      "cn_state c = Established" "\<not> cn_write_closed c" "cn_send_sent c = 1004" "cn_cwnd c = 1072"
    by (simp add: tx_eval demo_defs Let_def)
  have "\<exists>p. cn_transmit (tap_ops sink_ops) 3 tcp_config_default (demo_a2\<lparr>cn_queued := [1, 2, 3]\<rparr>) ((), log) =
      Some (Inr (True, False), c, (), log @ [p]) \<and> tcp_parse_ipv4 p = Some (Inr demo_data)"
  proof (rule sink_transmit [where cx = demo_a3 and k = 0 and window = 16384, OF _ _ _ _ _ _ _ c(1)])
    show "(case cn_flight_index 3 (cn_prepare 3 tcp_config_default (demo_a2\<lparr>cn_queued := [1, 2, 3]\<rparr>)) of
        None \<Rightarrow> Some (None, cn_prepare 3 tcp_config_default (demo_a2\<lparr>cn_queued := [1, 2, 3]\<rparr>))
      | Some k \<Rightarrow> cn_recheck k 3 (cn_prepare 3 tcp_config_default (demo_a2\<lparr>cn_queued := [1, 2, 3]\<rparr>))) = Some (Some 0, demo_a3)"
      by (simp add: demo_a3_step)
  qed (simp_all add: tx_eval demo_defs Let_def)
  then show ?thesis
    using c(2-5) by blast
qed

lemma demo_b1_step: "\<exists>p. cn_transmit (tap_ops sink_ops) 0 tcp_config_default demo_b0 ((), log) =
  Some (Inr (True, False), demo_b1, (), log @ [p]) \<and> tcp_parse_ipv4 p = Some (Inr demo_syn_ack)"
  by (rule sink_transmit [where cx = demo_b0 and k = 0 and window = 16384 and s = demo_syn_ack])
    (simp_all add: tx_eval unwrap_mss_def demo_defs Let_def)

lemma demo_b1_fields:
  "cn_state demo_b1 = SynReceived" "cn_send_sent demo_b1 = 5001" "cn_send_una demo_b1 = 5000" "cn_receive_next demo_b1 = 1001"
  "cn_flights demo_b1 = [demo_flight 5000 (SYN OR ACK)]" "cn_peer_eof demo_b1 = False" "cn_received demo_b1 = []"
  "cn_local_error demo_b1 = None" "cn_peer_mss demo_b1 = 536" "cn_syn_retransmitted demo_b1 = False" "cn_srtt demo_b1 = None"
  "cn_window_sequence demo_b1 = 1000"
  by (simp_all add: demo_defs unwrap_mss_def Let_def)

lemma demo_b2_step: "\<exists>c. cn_input demo_data 4 tcp_config_default demo_b1 = Some c \<and> cn_received c = [1, 2, 3] \<and>
  cn_local_error c = None \<and> cn_state c = Established"
proof -
  let ?c = "demo_b1\<lparr>cn_state := Established, cn_phase_deadline := None\<rparr>"
  have window: "cn_advertised_window tcp_config_default demo_b1 = Some 16384"
    by (simp add: cn_advertised_window_def demo_b1_fields checked_sub_def tcp_config_default_def)
  have "segment_acceptable demo_data 16384 demo_b1"
    by (simp add: segment_acceptable_def demo_b1_fields demo_data_def sequence_len_def has_flag_def ACK_def PSH_def SYN_def FIN_def)
  moreover have "cn_acknowledge demo_data 4 tcp_config_default ?c = Some (?c\<lparr>cn_flights := [], cn_send_una := 5000 + 1, cn_cwnd := 1072,
      cn_srtt := Some 4, cn_rttvar := 4 div 2, cn_rto := 1000000000, cn_peer_window := sg_window demo_data,
      cn_window_sequence := sg_sequence demo_data, cn_window_ack := 5000 + 1\<rparr>)" (is "_ = Some ?d")
    by (rule demo_acknowledge [where flags = "SYN OR ACK"]) (simp_all add: demo_b1_fields demo_data_def before_def)
  ultimately have "cn_input demo_data 4 tcp_config_default demo_b1 = cn_receive_data demo_data 4 tcp_config_default ?d"
    by (simp add: cn_input_def cn_synchronized_def demo_b1_fields window is_terminal_def before_def demo_data_def has_flag_def
        ACK_def PSH_def SYN_def FIN_def RST_def Let_def)
  moreover have "\<exists>c. cn_receive_data demo_data 4 tcp_config_default ?d = Some c \<and> cn_received c = [1, 2, 3] \<and>
      cn_local_error c = None \<and> cn_state c = Established"
    by (simp add: cn_receive_data_def demo_b1_fields demo_data_def before_def cn_advertised_window_def checked_sub_def has_flag_def
        ACK_def PSH_def FIN_def slice_of_def subslice_def Let_def) (simp add: tcp_config_default_def)
  ultimately show ?thesis
    by simp
qed

section \<open>The two runs\<close>

definition demo_open_calls :: "bytes \<Rightarrow> (duration \<times> cn_call) list" where
  "demo_open_calls p = [(0, CallTransmit), (2, CallPacket p), (2, CallWrite [1, 2, 3])]"

definition demo_client_calls :: "bytes \<Rightarrow> (duration \<times> cn_call) list" where
  "demo_client_calls p = demo_open_calls p @ [(3, CallTransmit)]"

definition demo_server_calls :: "bytes \<Rightarrow> (duration \<times> cn_call) list" where
  "demo_server_calls p = [(0, CallTransmit), (4, CallPacket p), (5, CallRead 10)]"

lemma demo_write: "cn_write [1, 2, 3] tcp_config_default demo_a2 = Some (Inr 3, demo_a2\<lparr>cn_queued := [1, 2, 3]\<rparr>)"
proof -
  have "cn_write_closed demo_a2 = False" "cn_state demo_a2 = Established" "cn_queued demo_a2 = []" "cn_flight_payload demo_a2 = 0"
    by (simp_all add: demo_defs Let_def)
  then show ?thesis
    by (simp add: cn_write_def cn_send_buffered_def checked_sub_def) (simp add: tcp_config_default_def)
qed

text \<open>The client's run, for any packet that parses to the server's answer.\<close>

lemma demo_client:
  assumes "tcp_parse_ipv4 q = Some (Inr demo_syn_ack)"
  shows "\<exists>c p r. cn_run (tap_ops sink_ops) tcp_config_default (demo_client_calls q) (demo_conn, ((), []), [], []) =
      Some (c, ((), [p, r]), [1, 2, 3], []) \<and> tcp_parse_ipv4 p = Some (Inr demo_syn) \<and> tcp_parse_ipv4 r = Some (Inr demo_data) \<and>
      cn_state c = Established \<and> \<not> cn_write_closed c"
proof -
  obtain p where p: "cn_transmit (tap_ops sink_ops) 0 tcp_config_default demo_conn ((), []) = Some (Inr (True, False), demo_a1, (), [p])"
      "tcp_parse_ipv4 p = Some (Inr demo_syn)"
    using demo_a1_step [of "[]"] by auto
  obtain r c where r: "cn_transmit (tap_ops sink_ops) 3 tcp_config_default (demo_a2\<lparr>cn_queued := [1, 2, 3]\<rparr>) ((), [p]) =
      Some (Inr (True, False), c, (), [p, r])" "tcp_parse_ipv4 r = Some (Inr demo_data)" "cn_state c = Established" "\<not> cn_write_closed c"
    using demo_a4_step [of "[p]"] by auto
  have "cn_run (tap_ops sink_ops) tcp_config_default (demo_client_calls q) (demo_conn, ((), []), [], []) =
      Some (c, ((), [p, r]), [1, 2, 3], [])"
    using assms p(1) r(1) by (simp add: demo_client_calls_def demo_open_calls_def demo_a2_step demo_write)
  then show ?thesis
    using p(2) r(2-4) by blast
qed

lemma demo_open:
  "\<exists>q p. cn_run (tap_ops sink_ops) tcp_config_default (demo_open_calls q) (demo_conn, ((), []), [], []) =
     Some (demo_a2\<lparr>cn_queued := [1, 2, 3]\<rparr>, ((), [p]), [1, 2, 3], [])"
proof -
  obtain p where p: "cn_transmit (tap_ops sink_ops) 0 tcp_config_default demo_conn ((), []) = Some (Inr (True, False), demo_a1, (), [p])"
    using demo_a1_step [of "[]"] by auto
  obtain q where "tcp_parse_ipv4 q = Some (Inr demo_syn_ack)"
    using demo_b1_step by blast
  then have "cn_run (tap_ops sink_ops) tcp_config_default (demo_open_calls q) (demo_conn, ((), []), [], []) =
     Some (demo_a2\<lparr>cn_queued := [1, 2, 3]\<rparr>, ((), [p]), [1, 2, 3], [])"
    using p by (simp add: demo_open_calls_def demo_a2_step demo_write)
  then show ?thesis
    by blast
qed

text \<open>The server's run, for any packet that parses to the client's data.\<close>

lemma demo_server:
  assumes "tcp_parse_ipv4 r = Some (Inr demo_data)"
    and q: "cn_transmit (tap_ops sink_ops) 0 tcp_config_default demo_b0 ((), []) = Some (Inr (True, False), demo_b1, (), [q])"
  shows "\<exists>c. cn_run (tap_ops sink_ops) tcp_config_default (demo_server_calls r) (demo_b0, ((), []), [], []) =
      Some (c, ((), [q]), [], [1, 2, 3])"
proof -
  obtain c where c: "cn_input demo_data 4 tcp_config_default demo_b1 = Some c" "cn_received c = [1, 2, 3]" "cn_local_error c = None"
      "cn_state c = Established"
    using demo_b2_step by blast
  have "cn_run (tap_ops sink_ops) tcp_config_default (demo_server_calls r) (demo_b0, ((), []), [], []) =
      Some (c\<lparr>cn_received := [], cn_ack_pending := True\<rparr>, ((), [q]), [], [1, 2, 3])"
    using assms c by (simp add: demo_server_calls_def cn_read_def)
  then show ?thesis
    by blast
qed

lemma demo_exchange:
  "\<exists>q c p r b. cn_run (tap_ops sink_ops) tcp_config_default (demo_client_calls q) (demo_conn, ((), []), [], []) =
      Some (c, ((), [p, r]), [1, 2, 3], []) \<and> tcp_parse_ipv4 p = Some (Inr demo_syn) \<and> cn_state c = Established \<and> \<not> cn_write_closed c \<and>
    cn_run (tap_ops sink_ops) tcp_config_default (demo_server_calls r) (demo_b0, ((), []), [], []) = Some (b, ((), [q]), [], [1, 2, 3])"
proof -
  obtain q where q: "cn_transmit (tap_ops sink_ops) 0 tcp_config_default demo_b0 ((), []) = Some (Inr (True, False), demo_b1, (), [q])"
      "tcp_parse_ipv4 q = Some (Inr demo_syn_ack)"
    using demo_b1_step [of "[]"] by auto
  obtain c p r where c: "cn_run (tap_ops sink_ops) tcp_config_default (demo_client_calls q) (demo_conn, ((), []), [], []) =
      Some (c, ((), [p, r]), [1, 2, 3], [])" "tcp_parse_ipv4 p = Some (Inr demo_syn)" "tcp_parse_ipv4 r = Some (Inr demo_data)"
      "cn_state c = Established" "\<not> cn_write_closed c"
    using demo_client [OF q(2)] by blast
  obtain b where "cn_run (tap_ops sink_ops) tcp_config_default (demo_server_calls r) (demo_b0, ((), []), [], []) =
      Some (b, ((), [q]), [], [1, 2, 3])"
    using demo_server [OF c(3) q(1)] by blast
  then show ?thesis
    using c by blast
qed

end
