(* ===== verification/Ethernet.thy ===== *)
theory Ethernet
  imports Frame_Pool
begin

text \<open>
  \<^verbatim>\<open>src/net/ethernet.rs\<close> and \<^verbatim>\<open>src/net/arp.rs\<close>: untagged Ethernet II headers in a packet handle and
  the 28-byte Ethernet/IPv4 ARP message. A function of the source that returns \<^verbatim>\<open>Option\<close> returns an
  option inside the option of a possible panic.
\<close>

section \<open>Ethernet headers\<close>

record eth_header =
  eh_destination :: mac
  eh_source :: mac
  eh_ether_type :: u16

definition ETH_IPV4 :: u16 where "ETH_IPV4 = 0x0800"
definition ETH_ARP :: u16 where "ETH_ARP = 0x0806"

definition MAC_BROADCAST :: mac where
  "MAC_BROADCAST = [0xff, 0xff, 0xff, 0xff, 0xff, 0xff]"

definition unicast :: "mac \<Rightarrow> bool" where
  "unicast m \<longleftrightarrow> m \<noteq> [0, 0, 0, 0, 0, 0] \<and> m ! 0 AND 1 = 0"

definition eth_parse :: "bytes \<Rightarrow> (mac \<times> mac \<times> u16) option option" where
  "eth_parse b =
     (if length b < 14 then Some None
      else do {
        destination \<leftarrow> slice_of 0 6 b;
        source \<leftarrow> slice_of 6 12 b;
        ether_type \<leftarrow> read16_at b 12;
        Some (Some (destination, source, ether_type))
      })"

definition eth_header_parse :: "bytes \<Rightarrow> eth_header option option" where
  "eth_header_parse b = do {
     r \<leftarrow> eth_parse b;
     Some (map_option (\<lambda>(destination, source, ether_type).
       \<lparr>eh_destination = destination, eh_source = source, eh_ether_type = ether_type\<rparr>) r)
   }"

definition eth_encode :: "eth_header \<Rightarrow> bytes option" where
  "eth_encode h = do {
     let b = replicate 14 0;
     b \<leftarrow> copy_into 0 6 (eh_destination h) b;
     b \<leftarrow> copy_into 6 12 (eh_source h) b;
     copy_into 12 14 (u16_to_be_bytes (eh_ether_type h)) b
   }"

definition eth_prepend :: "packet_buf \<Rightarrow> mac \<Rightarrow> mac \<Rightarrow> u16 \<Rightarrow> packet_buf option" where
  "eth_prepend frame source destination kind = do {
     header \<leftarrow> eth_encode \<lparr>eh_destination = destination, eh_source = source, eh_ether_type = kind\<rparr>;
     frame \<leftarrow> push_header header frame;
     let len = pb_len frame;
     if len < 60 then do {
       frame \<leftarrow> set_len 60 frame;
       p \<leftarrow> fill_range len (length (as_slice frame)) 0 (as_slice frame);
       write_packet 0 p frame
     } else Some frame
   }"

definition eth_header_prepend :: "eth_header \<Rightarrow> packet_buf \<Rightarrow> (unit io_result \<times> packet_buf) option" where
  "eth_header_prepend h frame =
     (if pb_data_offset frame < 14 \<or> tail_capacity frame + 14 < 60 then Some (Inl InvalidInput, frame)
      else do {
        frame \<leftarrow> eth_prepend frame (eh_source h) (eh_destination h) (eh_ether_type h);
        Some (Inr (), frame)
      })"

definition eth_strip :: "packet_buf \<Rightarrow> (eth_header io_result \<times> packet_buf) option" where
  "eth_strip frame = do {
     r \<leftarrow> eth_header_parse (as_slice frame);
     case r of
       None \<Rightarrow> Some (Inl InvalidData, frame)
     | Some header \<Rightarrow> do {
         frame \<leftarrow> pull_header 14 frame;
         Some (Inr header, frame)
       }
   }"

section \<open>ARP messages\<close>

datatype arp_operation = ArpRequest | ArpReply

record arp_packet =
  arp_op :: arp_operation
  arp_sender_mac :: mac
  arp_sender_ip :: ipv4addr
  arp_target_mac :: mac
  arp_target_ip :: ipv4addr

definition arp_parse :: "bytes \<Rightarrow> arp_packet option option" where
  "arp_parse b =
     (if length b < 28 then Some None
      else do {
        prefix \<leftarrow> slice_of 0 6 b;
        if prefix \<noteq> [0, 1, 8, 0, 6, 4] then Some None
        else do {
          code \<leftarrow> read16_at b 6;
          case (if code = 1 then Some ArpRequest else if code = 2 then Some ArpReply else None) of
            None \<Rightarrow> Some None
          | Some operation \<Rightarrow> do {
              sender_mac \<leftarrow> slice_of 8 14 b;
              sender_ip \<leftarrow> slice_of 14 18 b;
              target_mac \<leftarrow> slice_of 18 24 b;
              target_ip \<leftarrow> slice_of 24 28 b;
              Some (Some \<lparr>arp_op = operation, arp_sender_mac = sender_mac,
                arp_sender_ip = ip_of_octets sender_ip, arp_target_mac = target_mac,
                arp_target_ip = ip_of_octets target_ip\<rparr>)
            }
        }
      })"

definition arp_encode :: "arp_packet \<Rightarrow> bytes option" where
  "arp_encode a = do {
     let b = replicate 28 0;
     b \<leftarrow> copy_into 0 6 [0, 1, 8, 0, 6, 4] b;
     b \<leftarrow> copy_into 6 8 (u16_to_be_bytes (case arp_op a of ArpRequest \<Rightarrow> 1 | ArpReply \<Rightarrow> 2)) b;
     b \<leftarrow> copy_into 8 14 (arp_sender_mac a) b;
     b \<leftarrow> copy_into 14 18 (octets (arp_sender_ip a)) b;
     b \<leftarrow> copy_into 18 24 (arp_target_mac a) b;
     copy_into 24 28 (octets (arp_target_ip a)) b
   }"

text \<open>The type invariants \<^verbatim>\<open>[u8; 6]\<close> of the two structs.\<close>

definition eth_wf :: "eth_header \<Rightarrow> bool" where
  "eth_wf h \<longleftrightarrow> length (eh_destination h) = 6 \<and> length (eh_source h) = 6"

definition arp_wf :: "arp_packet \<Rightarrow> bool" where
  "arp_wf a \<longleftrightarrow> length (arp_sender_mac a) = 6 \<and> length (arp_target_mac a) = 6"

section \<open>Lemmas\<close>

lemma eth_encode_eq:
  "eth_wf h \<Longrightarrow> eth_encode h = Some (eh_destination h @ eh_source h @ u16_to_be_bytes (eh_ether_type h))"
  by (simp add: eth_wf_def eth_encode_def copy_into_def patch_def)

lemma eth_parse_eq:
  "eth_parse b = Some (if length b < 14 then None else Some (take 6 b, subslice 6 12 b, read16 b 12))"
  by (simp add: eth_parse_def access_defs subslice_def)

lemma eth_parse_encoded:
  assumes "length d = 6" and "length s = 6"
  shows "eth_parse (d @ s @ u16_to_be_bytes k @ rest) = Some (Some (d, s, k))"
  using assms
  by (auto elim!: length6_cases simp: eth_parse_eq subslice_def read16_def u16_bytes)

lemma eth_prepend_wp:
  assumes "pb_inv frame" and "14 \<le> pb_data_offset frame" and "60 \<le> tail_capacity frame + 14"
    and "length s = 6" and "length d = 6"
  shows "wp (eth_prepend frame s d kind) (\<lambda>frame'. pb_inv frame' \<and> same_frame frame frame' \<and>
    pb_data_offset frame' = pb_data_offset frame - 14 \<and>
    as_slice frame' = d @ s @ u16_to_be_bytes kind @ as_slice frame @ replicate (46 - pb_len frame) 0)"
proof -
  let ?h = "d @ s @ u16_to_be_bytes kind"
  have enc: "eth_encode \<lparr>eh_destination = d, eh_source = s, eh_ether_type = kind\<rparr> = Some ?h"
    using assms by (simp add: eth_encode_eq eth_wf_def)
  obtain f where f: "push_header ?h frame = Some f" "pb_inv f" "same_frame frame f" "pb_len f = pb_len frame + 14"
      "pb_data_offset f = pb_data_offset frame - 14" "as_slice f = ?h @ as_slice frame"
    using push_header_wp [OF assms(1), of ?h] assms by (auto simp: wp_eq_Some)
  show ?thesis
  proof (cases "pb_len f < 60")
    case False
    then show ?thesis
      using enc f by (simp add: eth_prepend_def)
  next
    case True
    have "60 \<le> tail_capacity f"
      using f(3,5) assms(2,3) by (simp add: tail_capacity_def same_frame_def)
    then obtain g where g: "set_len 60 f = Some g" "pb_inv g" "same_frame f g" "pb_len g = 60"
        "pb_data_offset g = pb_data_offset f" "take (pb_len f) (as_slice g) = take 60 (as_slice f)"
      using set_len_wp [OF f(2), of 60] by (auto simp: wp_eq_Some)
    let ?p = "as_slice f @ replicate (60 - pb_len f) 0"
    have "fill_range (pb_len f) (length (as_slice g)) 0 (as_slice g) = Some ?p"
      using g f(2) True by (simp add: fill_range_def patch_def)
    moreover have "length ?p = pb_len g"
      using f(2) g(4) True by simp
    ultimately show ?thesis
      using enc f g True write_whole_wp [OF g(2), of ?p]
      by (auto simp: eth_prepend_def same_frame_def wp_eq_Some)
  qed
qed

lemma arp_parse_eq:
  "arp_parse b = Some
     (if length b < 28 \<or> take 6 b \<noteq> [0, 1, 8, 0, 6, 4] \<or> read16 b 6 \<notin> {1, 2} then None
      else Some \<lparr>arp_op = if read16 b 6 = 1 then ArpRequest else ArpReply,
        arp_sender_mac = subslice 8 14 b, arp_sender_ip = ip_of_octets (subslice 14 18 b),
        arp_target_mac = subslice 18 24 b, arp_target_ip = ip_of_octets (subslice 24 28 b)\<rparr>)"
  by (simp add: arp_parse_def access_defs subslice_def [of 0])

lemma arp_encode_eq:
  "arp_wf a \<Longrightarrow> arp_encode a = Some ([0, 1, 8, 0, 6, 4]
     @ u16_to_be_bytes (case arp_op a of ArpRequest \<Rightarrow> 1 | ArpReply \<Rightarrow> 2)
     @ arp_sender_mac a @ octets (arp_sender_ip a) @ arp_target_mac a @ octets (arp_target_ip a))"
  by (simp add: arp_wf_def arp_encode_def copy_into_def patch_def Let_def)

lemma take_subslice: "i \<le> j \<Longrightarrow> take i b @ subslice i j b = take j b"
  by (metis le_add_diff_inverse subslice_def take_add)

lemma take_subslice_assoc: "i \<le> j \<Longrightarrow> take i b @ subslice i j b @ c = take j b @ c"
  by (metis append_assoc take_subslice)

lemma octets_ip_of_bytes: "octets (ip_of_octets [a, b, c, d]) = [a, b, c, d]"
proof -
  let ?w = "u32_from_be_bytes a b c d"
  have digits: "n div 16777216 = x \<and> n div 65536 mod 256 = y \<and> n div 256 mod 256 = z \<and> n mod 256 = t"
    if n: "n = 16777216 * x + 65536 * y + 256 * z + t" and "x < 256" "y < 256" "z < 256" "t < 256"
    for n x y z t :: nat
  proof -
    have "n = t + 256 * (z + 256 * (y + 256 * x))"
      using n by simp
    then have "n mod 256 = t" and d: "n div 256 = z + 256 * (y + 256 * x)"
      using that(5) by (simp_all only: mod_mult_self2 div_mult_self2 mod_less div_less)
    moreover have "n div 65536 = n div 256 div 256" and "n div 16777216 = n div 256 div 256 div 256"
      by (simp_all add: div_mult2_eq [symmetric])
    moreover have "(z + 256 * (y + 256 * x)) div 256 = y + 256 * x" "(z + 256 * (y + 256 * x)) mod 256 = z"
      "(y + 256 * x) div 256 = x" "(y + 256 * x) mod 256 = y"
      using that(3,4) by (simp_all only: mod_mult_self2 div_mult_self2 mod_less div_less)
    ultimately show ?thesis
      by (simp only: simp_thms)
  qed
  have "unat ?w div 16777216 = unat a \<and> unat ?w div 65536 mod 256 = unat b \<and>
      unat ?w div 256 mod 256 = unat c \<and> unat ?w mod 256 = unat d"
    by (rule digits [OF unat_u32_from_be_bytes]) simp_all
  then show ?thesis
    by (simp add: octets_def u32_to_be_bytes_def ip_of_octets_def read32_def)
qed

lemma octets_ip_of_octets: "length x = 4 \<Longrightarrow> octets (ip_of_octets x) = x"
  by (elim length4_cases) (simp only: octets_ip_of_bytes)

lemma subslice_pair: "Suc i < length b \<Longrightarrow> subslice i (Suc (Suc i)) b = [b ! i, b ! Suc i]"
  by (rule nth_equalityI) (auto simp: less_Suc_eq numeral_2_eq_2)

section \<open>Properties\<close>

text \<open>
  On a handle with room for the header and the minimum frame, \<^verbatim>\<open>Header::prepend\<close> puts the header
  in front of the packet and zero padding up to 60 bytes behind it, and \<^verbatim>\<open>Header::strip\<close> gives back the
  header, the packet with that padding, and the headroom.
\<close>

lemma eth_prepend_strip:
  assumes "pb_inv frame" and "14 \<le> pb_data_offset frame" and "60 \<le> tail_capacity frame + 14" and "eth_wf h"
  shows "\<exists>f g. eth_header_prepend h frame = Some (Inr (), f) \<and> same_frame frame f \<and>
    as_slice f = eh_destination h @ eh_source h @ u16_to_be_bytes (eh_ether_type h)
      @ as_slice frame @ replicate (46 - pb_len frame) 0 \<and>
    eth_strip f = Some (Inr h, g) \<and> same_frame frame g \<and> pb_data_offset g = pb_data_offset frame \<and>
    as_slice g = as_slice frame @ replicate (46 - pb_len frame) 0"
proof -
  let ?rest = "as_slice frame @ replicate (46 - pb_len frame) 0"
  let ?eth = "eh_destination h @ eh_source h @ u16_to_be_bytes (eh_ether_type h)"
  have wf: "length (eh_source h) = 6" "length (eh_destination h) = 6"
    using assms(4) by (auto simp: eth_wf_def)
  obtain f where f: "eth_prepend frame (eh_source h) (eh_destination h) (eh_ether_type h) = Some f"
      "pb_inv f" "same_frame frame f" "pb_data_offset f = pb_data_offset frame - 14" "as_slice f = ?eth @ ?rest"
    using eth_prepend_wp [OF assms(1-3) wf, of "eh_ether_type h"] by (auto simp: wp_eq_Some)
  have "14 \<le> pb_len f"
    using length_as_slice [OF f(2)] f(5) wf by simp
  then obtain g where g: "pull_header 14 f = Some g" "same_frame f g" "pb_data_offset g = pb_data_offset f + 14"
      "as_slice g = drop 14 (as_slice f)"
    using pull_header_wp [OF f(2), of 14] by (auto simp: wp_eq_Some)
  have "eth_parse (as_slice f) = Some (Some (eh_destination h, eh_source h, eh_ether_type h))"
    using eth_parse_encoded [OF wf(2,1)] f(5) by simp
  then have "eth_strip f = Some (Inr h, g)"
    using g(1) by (simp add: eth_strip_def eth_header_parse_def)
  moreover have "eth_header_prepend h frame = Some (Inr (), f)"
    using f(1) assms(2,3) by (simp add: eth_header_prepend_def)
  moreover have "same_frame frame g" "pb_data_offset g = pb_data_offset frame" "as_slice g = ?rest"
    using f(4,5) g(3,4) assms(2) wf same_frame_trans [OF f(3) g(2)] by simp_all
  ultimately show ?thesis
    using f(3,5) by (intro exI [of _ f] exI [of _ g]) simp
qed

lemma eth_prepend_strip_example:
  "\<exists>f g. eth_header_prepend
      \<lparr>eh_destination = [1, 2, 3, 4, 5, 6], eh_source = [2, 0, 0, 0, 0, 9], eh_ether_type = 0x0800\<rparr>
      \<lparr>pb_mem = replicate 80 7, pb_data_offset = 16, pb_capacity = 80, pb_len = 1, pb_idx = 0,
        pb_pool = None\<rparr> = Some (Inr (), f) \<and>
    eth_strip f = Some (Inr
      \<lparr>eh_destination = [1, 2, 3, 4, 5, 6], eh_source = [2, 0, 0, 0, 0, 9], eh_ether_type = 0x0800\<rparr>, g) \<and>
    as_slice g = 7 # replicate 45 0"
proof -
  let ?f = "\<lparr>pb_mem = replicate 80 7, pb_data_offset = 16, pb_capacity = 80, pb_len = 1, pb_idx = 0,
    pb_pool = None\<rparr> :: packet_buf"
  let ?h = "\<lparr>eh_destination = [1, 2, 3, 4, 5, 6], eh_source = [2, 0, 0, 0, 0, 9], eh_ether_type = 0x0800\<rparr>"
  have "pb_inv ?f" "14 \<le> pb_data_offset ?f" "60 \<le> tail_capacity ?f + 14" "eth_wf ?h"
    by (simp_all add: pb_inv_def tail_capacity_def eth_wf_def)
  moreover have "as_slice ?f = [7]"
    by (simp add: as_slice_take)
  ultimately show ?thesis
    using eth_prepend_strip [of ?f ?h] by auto
qed

text \<open>
  The ARP codec is exact: a well-formed message survives encoding and parsing, whatever Ethernet
  padding follows; and a message the parser accepts encodes back to the first 28 bytes received.
\<close>

lemma arp_codec_exact:
  "(arp_wf a \<longrightarrow> (\<exists>b. arp_encode a = Some b \<and> length b = 28 \<and> arp_parse (b @ pad) = Some (Some a))) \<and>
   (arp_parse c = Some (Some a) \<longrightarrow> arp_wf a \<and> arp_encode a = Some (take 28 c))"
proof (intro conjI impI)
  assume "arp_wf a"
  then have "length (arp_sender_mac a) = 6" "length (arp_target_mac a) = 6"
    by (simp_all add: arp_wf_def)
  with \<open>arp_wf a\<close> show "\<exists>b. arp_encode a = Some b \<and> length b = 28 \<and> arp_parse (b @ pad) = Some (Some a)"
    by (cases "arp_op a"; elim length6_cases)
      (simp_all add: arp_encode_eq arp_parse_eq subslice_def read16_def u16_bytes octets_bytes
        ip_of_octets_def read32_def)
next
  assume p: "arp_parse c = Some (Some a)"
  then have len: "28 \<le> length c"
    by (auto simp: arp_parse_eq split: if_splits)
  then show "arp_wf a"
    using p by (auto simp: arp_parse_eq arp_wf_def split: if_splits)
  then have e: "arp_encode a = Some ([0, 1, 8, 0, 6, 4]
     @ u16_to_be_bytes (case arp_op a of ArpRequest \<Rightarrow> 1 | ArpReply \<Rightarrow> 2)
     @ arp_sender_mac a @ octets (arp_sender_ip a) @ arp_target_mac a @ octets (arp_target_ip a))"
    by (rule arp_encode_eq)
  have "u16_to_be_bytes (case arp_op a of ArpRequest \<Rightarrow> 1 | ArpReply \<Rightarrow> 2) = subslice 6 8 c"
    using p len subslice_pair [of 6 c]
    by (auto simp: arp_parse_eq read16_def intro!: u16_bytes_unique split: if_splits)
  moreover have "take 6 c = [0, 1, 8, 0, 6, 4]" "arp_sender_mac a = subslice 8 14 c"
    "octets (arp_sender_ip a) = subslice 14 18 c" "arp_target_mac a = subslice 18 24 c"
    "octets (arp_target_ip a) = subslice 24 28 c"
    using p len by (auto simp: arp_parse_eq octets_ip_of_octets split: if_splits)
  ultimately show "arp_encode a = Some (take 28 c)"
    unfolding e by (simp add: take_subslice take_subslice_assoc flip: \<open>take 6 c = _\<close>)
qed

lemma arp_codec_exact_example:
  "\<exists>b. arp_encode \<lparr>arp_op = ArpReply, arp_sender_mac = [2, 0, 0, 0, 0, 1], arp_sender_ip = 0x0A000001,
       arp_target_mac = [2, 0, 0, 0, 0, 2], arp_target_ip = 0x0A000002\<rparr> = Some b \<and>
     arp_parse (b @ [0, 0]) = Some (Some \<lparr>arp_op = ArpReply, arp_sender_mac = [2, 0, 0, 0, 0, 1],
       arp_sender_ip = 0x0A000001, arp_target_mac = [2, 0, 0, 0, 0, 2], arp_target_ip = 0x0A000002\<rparr>)"
  using arp_codec_exact [of "\<lparr>arp_op = ArpReply, arp_sender_mac = [2, 0, 0, 0, 0, 1],
    arp_sender_ip = 0x0A000001, arp_target_mac = [2, 0, 0, 0, 0, 2], arp_target_ip = 0x0A000002\<rparr>" "[0, 0]"]
  by (auto simp: arp_wf_def)

end
