(* ===== verification/Route.thy ===== *)
theory Route
  imports Net_Prelude
begin

text \<open>
  \<^verbatim>\<open>src/net/route.rs\<close>: the bounded IPv4 routing table with longest-prefix lookup. The properties relate
  it to an abstract table, a finite map from prefixes to gateways.
\<close>

section \<open>Definitions\<close>

record route =
  rt_network :: ipv4addr
  rt_prefix_len :: u8
  rt_gateway :: "ipv4addr option"

definition route_mask :: "u8 \<Rightarrow> u32" where
  "route_mask prefix = (if prefix = 0 then 0 else push_bit (32 - unat prefix) (- 1))"

definition ip_unicast :: "ipv4addr \<Rightarrow> bool" where
  "ip_unicast ip \<longleftrightarrow> \<not> is_unspecified ip \<and> \<not> is_broadcast ip \<and> \<not> is_multicast ip \<and> \<not> is_loopback ip"

definition route_new :: "ipv4addr \<Rightarrow> u8 \<Rightarrow> ipv4addr option \<Rightarrow> route io_result" where
  "route_new address prefix_len gateway =
     (if prefix_len > 32 \<or> (case gateway of None \<Rightarrow> False | Some ip \<Rightarrow> \<not> ip_unicast ip)
      then Inl InvalidInput
      else Inr \<lparr>rt_network = address AND route_mask prefix_len, rt_prefix_len = prefix_len,
                rt_gateway = gateway\<rparr>)"

definition route_contains :: "route \<Rightarrow> ipv4addr \<Rightarrow> bool" where
  "route_contains r ip \<longleftrightarrow> ip AND route_mask (rt_prefix_len r) = rt_network r"

definition next_hop :: "route \<Rightarrow> ipv4addr \<Rightarrow> ipv4addr" where
  "next_hop r destination = (case rt_gateway r of None \<Rightarrow> destination | Some ip \<Rightarrow> ip)"

record route_table =
  rtb_entries :: "route list"
  rtb_limit :: nat

definition route_table_new :: "nat \<Rightarrow> route_table" where
  "route_table_new limit = \<lparr>rtb_entries = [], rtb_limit = limit\<rparr>"

definition same_prefix :: "route \<Rightarrow> route \<Rightarrow> bool" where
  "same_prefix r s \<longleftrightarrow> rt_network r = rt_network s \<and> rt_prefix_len r = rt_prefix_len s"

text \<open>\<^verbatim>\<open>iter_mut().find(same prefix)\<close> and the assignment through it; \<^term>\<open>None\<close> when nothing is found.\<close>

fun replace_route :: "route \<Rightarrow> route list \<Rightarrow> route list option" where
  "replace_route route [] = None"
| "replace_route route (r # rs) =
     (if same_prefix r route then Some (route # rs)
      else map_option (Cons r) (replace_route route rs))"

definition route_insert :: "route \<Rightarrow> route_table \<Rightarrow> unit io_result \<times> route_table" where
  "route_insert route t =
     (case replace_route route (rtb_entries t) of
        Some rs \<Rightarrow> (Inr (), t\<lparr>rtb_entries := rs\<rparr>)
      | None \<Rightarrow>
          if length (rtb_entries t) = rtb_limit t then (Inl WouldBlock, t)
          else (Inr (), t\<lparr>rtb_entries := rtb_entries t @ [route]\<rparr>))"

text \<open>\<^verbatim>\<open>Iterator::max_by_key\<close>: the last of several maximal elements.\<close>

fun max_by_key :: "('a \<Rightarrow> 'k :: linorder) \<Rightarrow> 'a list \<Rightarrow> 'a option" where
  "max_by_key key [] = None"
| "max_by_key key (x # xs) =
     (case max_by_key key xs of
        None \<Rightarrow> Some x
      | Some y \<Rightarrow> if key y < key x then Some x else Some y)"

definition route_lookup :: "route_table \<Rightarrow> ipv4addr \<Rightarrow> route option" where
  "route_lookup t destination =
     max_by_key rt_prefix_len (filter (\<lambda>r. route_contains r destination) (rtb_entries t))"

definition route_remove :: "ipv4addr \<Rightarrow> u8 \<Rightarrow> route_table \<Rightarrow> bool io_result \<times> route_table" where
  "route_remove address prefix_len t =
     (case route_new address prefix_len None of
        Inl e \<Rightarrow> (Inl e, t)
      | Inr key \<Rightarrow>
          (let rs = filter (\<lambda>r. rt_network r \<noteq> rt_network key \<or> rt_prefix_len r \<noteq> rt_prefix_len key)
                      (rtb_entries t) in
           (Inr (length rs \<noteq> length (rtb_entries t)), t\<lparr>rtb_entries := rs\<rparr>)))"

section \<open>Invariant and abstraction\<close>

definition route_wf :: "route \<Rightarrow> bool" where
  "route_wf r \<longleftrightarrow> rt_prefix_len r \<le> 32 \<and> rt_network r AND route_mask (rt_prefix_len r) = rt_network r \<and>
     (case rt_gateway r of None \<Rightarrow> True | Some ip \<Rightarrow> ip_unicast ip)"

definition route_key :: "route \<Rightarrow> ipv4addr \<times> u8" where
  "route_key r = (rt_network r, rt_prefix_len r)"

definition route_table_inv :: "route_table \<Rightarrow> bool" where
  "route_table_inv t \<longleftrightarrow> list_all route_wf (rtb_entries t) \<and> distinct (map route_key (rtb_entries t)) \<and>
     length (rtb_entries t) \<le> rtb_limit t"

text \<open>The abstract table: which gateway a prefix has.\<close>

definition route_abs :: "route_table \<Rightarrow> ipv4addr \<times> u8 \<Rightarrow> ipv4addr option option" where
  "route_abs t = map_of (map (\<lambda>r. (route_key r, rt_gateway r)) (rtb_entries t))"

text \<open>
  What a prefix means, independently of the mask the code computes: two addresses have the same leading
  \<open>n\<close> of their 32 bits.
\<close>

definition leading_bits_agree :: "nat \<Rightarrow> ipv4addr \<Rightarrow> ipv4addr \<Rightarrow> bool" where
  "leading_bits_agree n a b \<longleftrightarrow> (\<forall>i \<in> {32 - n..<32}. bit a i = bit b i)"

section \<open>Lemmas\<close>

lemma bit_route_mask: "p \<le> 32 \<Longrightarrow> bit (route_mask p) i \<longleftrightarrow> 32 - unat p \<le> i \<and> i < 32"
  by (auto simp: route_mask_def bit_simps dest: bit_imp_le_length)

lemma route_contains_prefix:
  assumes "route_wf r"
  shows "route_contains r ip \<longleftrightarrow> leading_bits_agree (unat (rt_prefix_len r)) (rt_network r) ip"
proof -
  have p: "rt_prefix_len r \<le> 32" and n: "rt_network r = rt_network r AND route_mask (rt_prefix_len r)"
    using assms by (simp_all add: route_wf_def)
  have "route_contains r ip \<longleftrightarrow>
      ip AND route_mask (rt_prefix_len r) = rt_network r AND route_mask (rt_prefix_len r)"
    using n by (simp add: route_contains_def)
  also have "\<dots> \<longleftrightarrow> leading_bits_agree (unat (rt_prefix_len r)) (rt_network r) ip"
    by (auto simp: leading_bits_agree_def bit_eq_iff bit_and_iff bit_route_mask [OF p])
  finally show ?thesis .
qed

lemma same_prefix_key: "same_prefix r s \<longleftrightarrow> route_key r = route_key s"
  by (simp add: same_prefix_def route_key_def)

lemma replace_route_None: "replace_route r rs = None \<longleftrightarrow> route_key r \<notin> route_key ` set rs"
  by (induction rs) (auto simp: same_prefix_key)

lemma replace_route_Some:
  assumes "replace_route r rs = Some rs'" and "distinct (map route_key rs)"
  shows "map route_key rs' = map route_key rs" and "set rs' \<subseteq> insert r (set rs)"
    and "map_of (map (\<lambda>r. (route_key r, rt_gateway r)) rs') =
      (map_of (map (\<lambda>r. (route_key r, rt_gateway r)) rs))(route_key r \<mapsto> rt_gateway r)"
  using assms
proof (induction rs arbitrary: rs')
  case (Cons a rs)
  { case 1 with Cons.IH(1) show ?case by (auto simp: same_prefix_key split: if_splits) }
  { case 2 with Cons.IH(2) show ?case by (auto simp: same_prefix_key split: if_splits) }
  { case 3 with Cons.IH(3) show ?case
      by (auto simp: same_prefix_key fun_upd_twist split: if_splits) }
qed simp_all

lemma max_by_key_None [simp]: "max_by_key f xs = None \<longleftrightarrow> xs = []"
  by (cases xs) (auto split: option.splits)

lemma max_by_key_Some:
  "max_by_key f xs = Some x \<Longrightarrow> x \<in> set xs \<and> (\<forall>y \<in> set xs. f y \<le> f x)"
proof (induction xs arbitrary: x)
  case (Cons a xs)
  show ?case
  proof (cases "max_by_key f xs")
    case None
    with Cons.prems show ?thesis
      by simp
  next
    case (Some y)
    with Cons.IH [OF Some] Cons.prems show ?thesis
      by (auto split: if_splits intro: order.trans less_imp_le)
  qed
qed simp

lemma route_new_wf: "route_new a p g = Inr r \<Longrightarrow> route_wf r"
  by (auto simp: route_new_def route_wf_def and.assoc split: if_splits option.splits)

section \<open>The forwarding contract\<close>

text \<open>
  What the Ethernet adapter relies on: a lookup answers with a best match among the installed routes,
  and an update changes the route of one prefix only.
\<close>

locale forwarding_table =
  fixes lookup :: "'t \<Rightarrow> ipv4addr \<Rightarrow> route option"
    and install :: "route \<Rightarrow> 't \<Rightarrow> unit io_result \<times> 't"
    and routes :: "'t \<Rightarrow> route set"
    and ok :: "'t \<Rightarrow> bool"
  assumes lookup_None: "ok t \<Longrightarrow> lookup t d = None \<Longrightarrow> r \<in> routes t \<Longrightarrow> \<not> route_contains r d"
    and lookup_Some: "ok t \<Longrightarrow> lookup t d = Some r \<Longrightarrow> r \<in> routes t \<and> route_contains r d"
    and lookup_best: "ok t \<Longrightarrow> lookup t d = Some r \<Longrightarrow> s \<in> routes t \<Longrightarrow> route_contains s d \<Longrightarrow>
          s = r \<or> rt_prefix_len s < rt_prefix_len r"
    and install_ok: "ok t \<Longrightarrow> route_wf r \<Longrightarrow> install r t = (Inr (), t') \<Longrightarrow> ok t' \<and>
          routes t' = insert r {s \<in> routes t. route_key s \<noteq> route_key r}"
    and install_err: "ok t \<Longrightarrow> install r t = (Inl e, t') \<Longrightarrow> t' = t"
    and routes_wf: "ok t \<Longrightarrow> r \<in> routes t \<Longrightarrow> route_wf r"
begin

lemma host_route_wins:
  assumes "ok t" and "route_wf r" and "install r t = (Inr (), t')"
    and "rt_prefix_len r = 32" and "rt_network r = d"
  shows "lookup t' d = Some r"
proof -
  have t': "ok t'" "r \<in> routes t'"
    using install_ok [OF assms(1-3)] by auto
  have r: "route_contains r d"
    using assms(2,5) by (simp add: route_contains_def route_wf_def)
  then obtain s where s: "lookup t' d = Some s"
    using lookup_None [OF t'(1)] t'(2) by fastforce
  have "s = r \<or> rt_prefix_len r < rt_prefix_len s" and "route_wf s"
    using lookup_best [OF t'(1) s t'(2) r] lookup_Some [OF t'(1) s] routes_wf [OF t'(1)] by auto
  then show ?thesis
    using s assms(4) by (auto simp: route_wf_def)
qed

end

lemma contains_same_length:
  "route_contains r d \<Longrightarrow> route_contains s d \<Longrightarrow> rt_prefix_len r = rt_prefix_len s \<Longrightarrow>
     route_key r = route_key s"
  by (simp add: route_contains_def route_key_def)

lemma route_lookup_spec:
  assumes "route_table_inv t" and "route_lookup t d = Some r"
  shows "r \<in> set (rtb_entries t)" and "route_contains r d"
    and "s \<in> set (rtb_entries t) \<Longrightarrow> route_contains s d \<Longrightarrow> s = r \<or> rt_prefix_len s < rt_prefix_len r"
proof -
  have m: "r \<in> set (filter (\<lambda>r. route_contains r d) (rtb_entries t))"
      "\<forall>s \<in> set (filter (\<lambda>r. route_contains r d) (rtb_entries t)). rt_prefix_len s \<le> rt_prefix_len r"
    using max_by_key_Some [OF assms(2) [unfolded route_lookup_def]] by auto
  then show "r \<in> set (rtb_entries t)" and r: "route_contains r d"
    by auto
  assume s: "s \<in> set (rtb_entries t)" "route_contains s d"
  then have "rt_prefix_len s \<le> rt_prefix_len r"
    using m(2) by auto
  moreover have "s = r" if "rt_prefix_len s = rt_prefix_len r"
    using contains_same_length [OF s(2) r that] assms(1) s(1) m(1)
    by (auto simp: route_table_inv_def distinct_map inj_on_def)
  ultimately show "s = r \<or> rt_prefix_len s < rt_prefix_len r"
    by (auto simp: order_less_le)
qed

lemma route_insert_ok:
  assumes "route_table_inv t" and "route_wf r" and "route_insert r t = (Inr (), t')"
  shows "route_table_inv t'" and "route_abs t' = (route_abs t)(route_key r \<mapsto> rt_gateway r)"
proof -
  have inv: "list_all route_wf (rtb_entries t)" "distinct (map route_key (rtb_entries t))"
      "length (rtb_entries t) \<le> rtb_limit t"
    using assms(1) by (simp_all add: route_table_inv_def)
  show "route_table_inv t'"
  proof (cases "replace_route r (rtb_entries t)")
    case None
    then show ?thesis
      using assms inv replace_route_None [of r "rtb_entries t"]
      by (auto simp: route_insert_def route_table_inv_def split: if_splits)
  next
    case (Some rs)
    note f = replace_route_Some [OF Some inv(2)]
    have "length rs = length (rtb_entries t)"
      using arg_cong [OF f(1), of length] by simp
    then show ?thesis
      using assms Some inv f(1,2)
      by (auto simp: route_insert_def route_table_inv_def list_all_iff)
  qed
  show "route_abs t' = (route_abs t)(route_key r \<mapsto> rt_gateway r)"
  proof (cases "replace_route r (rtb_entries t)")
    case None
    then have "route_abs t (route_key r) = None"
      using replace_route_None [of r "rtb_entries t"]
      by (auto simp: route_abs_def map_of_eq_None_iff image_image)
    then show ?thesis
      using None assms(3) by (auto simp: route_insert_def route_abs_def map_add_def fun_eq_iff
          split: if_splits option.splits)
  next
    case (Some rs)
    then show ?thesis
      using assms(3) replace_route_Some(3) [OF Some inv(2)]
      by (auto simp: route_insert_def route_abs_def)
  qed
qed

lemma route_set_abs:
  assumes "route_table_inv t"
  shows "r \<in> set (rtb_entries t) \<longleftrightarrow> route_abs t (route_key r) = Some (rt_gateway r)"
proof -
  have key: "route_key s = route_key r \<and> rt_gateway s = rt_gateway r \<longleftrightarrow> s = r" for s
    by (cases s; cases r) (auto simp: route_key_def)
  have "distinct (map fst (map (\<lambda>r. (route_key r, rt_gateway r)) (rtb_entries t)))"
    using assms by (simp add: route_table_inv_def comp_def)
  then show ?thesis
    using key by (force simp: route_abs_def map_of_eq_Some_iff)
qed

interpretation rtab: forwarding_table route_lookup route_insert "\<lambda>t. set (rtb_entries t)" route_table_inv
proof
  fix t t' d r s e
  assume inv: "route_table_inv t"
  show "route_lookup t d = None \<Longrightarrow> r \<in> set (rtb_entries t) \<Longrightarrow> \<not> route_contains r d"
    by (auto simp: route_lookup_def filter_empty_conv)
  show "route_lookup t d = Some r \<Longrightarrow> r \<in> set (rtb_entries t) \<and> route_contains r d"
    using route_lookup_spec [OF inv] by blast
  show "route_lookup t d = Some r \<Longrightarrow> s \<in> set (rtb_entries t) \<Longrightarrow> route_contains s d \<Longrightarrow>
      s = r \<or> rt_prefix_len s < rt_prefix_len r"
    using route_lookup_spec(3) [OF inv] by blast
  show "route_table_inv t' \<and> set (rtb_entries t') =
      insert r {s \<in> set (rtb_entries t). route_key s \<noteq> route_key r}"
    if "route_wf r" "route_insert r t = (Inr (), t')"
  proof -
    note f = route_insert_ok [OF inv that]
    have "x \<in> set (rtb_entries t') \<longleftrightarrow> x = r \<or> x \<in> set (rtb_entries t) \<and> route_key x \<noteq> route_key r" for x
      unfolding route_set_abs [OF f(1)] route_set_abs [OF inv] f(2)
      by (cases x; cases r) (auto simp: route_key_def)
    with f(1) show ?thesis
      by blast
  qed
  show "route_insert r t = (Inl e, t') \<Longrightarrow> t' = t"
    by (auto simp: route_insert_def split: option.splits if_splits)
  show "r \<in> set (rtb_entries t) \<Longrightarrow> route_wf r"
    using inv by (auto simp: route_table_inv_def list_all_iff)
qed

lemma length_filter_eq: "length (filter P xs) = length xs \<longleftrightarrow> (\<forall>x \<in> set xs. P x)"
proof (induction xs)
  case (Cons x xs)
  then show ?case
    using length_filter_le [of P xs] by (auto simp del: length_filter_le)
qed simp

lemma route_remove_ok:
  fixes address :: ipv4addr
  assumes "route_table_inv t" and "prefix \<le> 32"
  defines "k \<equiv> (address AND route_mask prefix, prefix)"
  shows "\<exists>t'. route_remove address prefix t = (Inr (route_abs t k \<noteq> None), t') \<and> route_table_inv t' \<and>
    route_abs t' = (route_abs t)(k := None)"
proof -
  let ?rs = "filter (\<lambda>r. route_key r \<noteq> k) (rtb_entries t)"
  have "rt_network r \<noteq> address AND route_mask prefix \<or> rt_prefix_len r \<noteq> prefix \<longleftrightarrow> route_key r \<noteq> k" for r
    by (auto simp: route_key_def k_def)
  then have eq: "route_remove address prefix t =
      (Inr (length ?rs \<noteq> length (rtb_entries t)), t\<lparr>rtb_entries := ?rs\<rparr>)"
    using assms(2) by (simp add: route_remove_def route_new_def Let_def)
  have "length ?rs \<noteq> length (rtb_entries t) \<longleftrightarrow> (\<exists>r \<in> set (rtb_entries t). route_key r = k)"
    by (simp add: length_filter_eq)
  also have "\<dots> \<longleftrightarrow> route_abs t k \<noteq> None"
    by (force simp: route_abs_def map_of_eq_None_iff image_image)
  finally have removed: "length ?rs \<noteq> length (rtb_entries t) \<longleftrightarrow> route_abs t k \<noteq> None" .
  have "route_table_inv (t\<lparr>rtb_entries := ?rs\<rparr>)"
    using assms(1)
    by (auto simp: route_table_inv_def list_all_iff distinct_map_filter intro: order.trans [OF length_filter_le])
  moreover have "map_of (map (\<lambda>r. (route_key r, rt_gateway r)) (filter (\<lambda>r. route_key r \<noteq> k) rs)) =
      (map_of (map (\<lambda>r. (route_key r, rt_gateway r)) rs))(k := None)" for rs
    by (induction rs) (auto simp: fun_eq_iff)
  ultimately show ?thesis
    unfolding eq removed by (simp add: route_abs_def)
qed

section \<open>Properties\<close>

text \<open>
  C9. Lookup is longest-prefix match, where a route matches a destination when the two agree on every one
  of the leading \<^verbatim>\<open>prefix_len\<close> bits of the 32, bit by bit: a found route is installed and matches, and every
  other installed route that matches has a strictly shorter prefix; nothing is found only when no installed
  route matches.
\<close>

theorem route_lookup_longest_prefix:
  assumes "route_table_inv t"
  shows "case route_lookup t d of
      None \<Rightarrow> (\<forall>r \<in> set (rtb_entries t). \<not> leading_bits_agree (unat (rt_prefix_len r)) (rt_network r) d)
    | Some r \<Rightarrow> r \<in> set (rtb_entries t) \<and> leading_bits_agree (unat (rt_prefix_len r)) (rt_network r) d \<and>
        (\<forall>s \<in> set (rtb_entries t). leading_bits_agree (unat (rt_prefix_len s)) (rt_network s) d \<longrightarrow>
           s = r \<or> rt_prefix_len s < rt_prefix_len r)"
proof -
  have agree: "leading_bits_agree (unat (rt_prefix_len r)) (rt_network r) d = route_contains r d"
    if "r \<in> set (rtb_entries t)" for r
    using route_contains_prefix [OF rtab.routes_wf [OF assms that]] by simp
  show ?thesis
  proof (cases "route_lookup t d")
    case None
    then show ?thesis
      using rtab.lookup_None [OF assms None] agree by simp
  next
    case (Some r)
    then show ?thesis
      using rtab.lookup_Some [OF assms Some] rtab.lookup_best [OF assms Some] agree by auto
  qed
qed

text \<open>The destination differs from the network of the found route in the first bit after its prefix.\<close>

theorem route_lookup_longest_prefix_witness:
  "route_lookup \<lparr>rtb_entries = [\<lparr>rt_network = 0, rt_prefix_len = 0, rt_gateway = Some 0x0A000001\<rparr>,
       \<lparr>rt_network = 0x0A000000, rt_prefix_len = 8, rt_gateway = None\<rparr>], rtb_limit = 2\<rparr> 0x0A800007
     = Some \<lparr>rt_network = 0x0A000000, rt_prefix_len = 8, rt_gateway = None\<rparr> \<and>
   leading_bits_agree 8 0x0A000000 0x0A800007 \<and> \<not> leading_bits_agree 9 0x0A000000 0x0A800007"
proof -
  let ?t = "\<lparr>rtb_entries = [\<lparr>rt_network = 0, rt_prefix_len = 0, rt_gateway = Some 0x0A000001\<rparr>,
       \<lparr>rt_network = 0x0A000000, rt_prefix_len = 8, rt_gateway = None\<rparr>], rtb_limit = 2\<rparr>"
  have "ip_unicast 0x0A000001"
    by (simp add: ip_unicast_def is_unspecified_def is_broadcast_def is_multicast_def is_loopback_def)
  then have inv: "route_table_inv ?t"
    by (simp add: route_table_inv_def route_wf_def route_key_def route_mask_def mask_eq_exp_minus_1)
  have "route_lookup ?t 0x0A800007 = Some \<lparr>rt_network = 0x0A000000, rt_prefix_len = 8, rt_gateway = None\<rparr>"
    by (simp add: route_lookup_def route_contains_def route_mask_def mask_eq_exp_minus_1)
  moreover have "\<not> leading_bits_agree 9 0x0A000000 0x0A800007"
    by (auto simp: leading_bits_agree_def bit_numeral_rec intro!: bexI [of _ 23])
  ultimately show ?thesis
    using route_lookup_longest_prefix [OF inv, of "0x0A800007"] by simp
qed

text \<open>
  C39. The table implements a bounded finite map from prefixes to gateways: inserting a valid route
  updates its prefix, and fails without effect only when the table is full and the prefix new;
  removing deletes the prefix and reports whether it was there; both keep the invariant.
\<close>

theorem route_table_refines_map:
  assumes "route_table_inv t" and "route_wf r"
  shows "(case route_insert r t of
      (Inr _, t') \<Rightarrow> route_table_inv t' \<and> route_abs t' = (route_abs t)(route_key r \<mapsto> rt_gateway r)
    | (Inl e, t') \<Rightarrow> t' = t \<and> e = WouldBlock \<and> length (rtb_entries t) = rtb_limit t \<and>
        route_abs t (route_key r) = None) \<and>
    (\<forall>address prefix. prefix \<le> 32 \<longrightarrow> (\<exists>t'. route_remove address prefix t =
        (Inr (route_abs t (address AND route_mask prefix, prefix) \<noteq> None), t') \<and> route_table_inv t' \<and>
        route_abs t' = (route_abs t)((address AND route_mask prefix, prefix) := None)))"
proof (intro conjI allI impI)
  obtain res t' where i: "route_insert r t = (res, t')"
    by fastforce
  show "case route_insert r t of
      (Inr _, t') \<Rightarrow> route_table_inv t' \<and> route_abs t' = (route_abs t)(route_key r \<mapsto> rt_gateway r)
    | (Inl e, t') \<Rightarrow> t' = t \<and> e = WouldBlock \<and> length (rtb_entries t) = rtb_limit t \<and>
        route_abs t (route_key r) = None"
  proof (cases res)
    case (Inl e)
    with i have "replace_route r (rtb_entries t) = None" "t' = t" "e = WouldBlock"
        "length (rtb_entries t) = rtb_limit t"
      by (auto simp: route_insert_def split: option.splits if_splits)
    then show ?thesis
      using i Inl replace_route_None [of r "rtb_entries t"]
      by (auto simp: route_abs_def map_of_eq_None_iff image_image)
  next
    case (Inr u)
    then show ?thesis
      using i route_insert_ok [OF assms] by simp
  qed
qed (rule route_remove_ok [OF assms(1)])

theorem route_table_refines_map_witness:
  "\<exists>t'. route_insert \<lparr>rt_network = 0, rt_prefix_len = 0, rt_gateway = None\<rparr> (route_table_new 1) = (Inr (), t') \<and>
     route_abs t' (0, 0) = Some None"
proof -
  let ?r = "\<lparr>rt_network = 0, rt_prefix_len = 0, rt_gateway = None\<rparr>"
  have "route_table_inv (route_table_new 1)" "route_wf ?r"
    by (simp_all add: route_table_inv_def route_table_new_def route_wf_def)
  moreover have "route_insert ?r (route_table_new 1) = (Inr (), (route_table_new 1)\<lparr>rtb_entries := [?r]\<rparr>)"
    by (simp add: route_insert_def route_table_new_def)
  ultimately show ?thesis
    using route_table_refines_map [of "route_table_new 1" ?r] by (simp add: route_key_def)
qed

end
