(* ===== verification/Eth_Ipv4.thy ===== *)
theory Eth_Ipv4
  imports Ordered_Map Device Ethernet Route Checksum
begin

text \<open>
  \<^verbatim>\<open>src/net/neighbor.rs\<close> and \<^verbatim>\<open>src/net/interface.rs\<close>: the adapter that presents an untagged Ethernet
  device as an IPv4 device, with static routing and ARP resolution. This theory holds the model; the
  invariant and the properties are in \<open>Eth_Ipv4_Props\<close>.

  The adapter is generic in its device, so every operation takes the device's operations \<open>ops\<close>. A
  handle the source drops (cleared queues, early returns, overwritten options) is handed to \<open>dv_drop\<close>.
  \<^verbatim>\<open>flush_front\<close> sends the first contiguous part of a \<^verbatim>\<open>VecDeque\<close>, whose length the standard library
  leaves open: \<open>ei_layout\<close> is an arbitrary sequence of such lengths and \<open>ei_flushes\<close> counts its use, so a
  statement about all states covers every memory layout. The scratch vector \<^verbatim>\<open>neighbor_work\<close> is empty
  between operations and is a local value here. Counters wrap at 64 bits.
\<close>

section \<open>Data\<close>

datatype neighbor_state =
    NStatic (ns_mac: mac)
  | NReachable (ns_mac: mac) (ns_expires: duration)
  | NResolving (ns_attempts: nat) (ns_next_probe: duration) (ns_expires: duration)
  | NFailed (ns_retry_after: duration)

definition neighbor_mac :: "neighbor_state \<Rightarrow> duration \<Rightarrow> mac option" where
  "neighbor_mac n now =
     (case n of
        NStatic m \<Rightarrow> Some m
      | NReachable m expires \<Rightarrow> if now < expires then Some m else None
      | _ \<Rightarrow> None)"

record interface_config =
  ic_address :: ipv4addr
  ic_prefix_len :: u8
  ic_mac :: mac
  ic_mtu :: nat
  ic_tx_capacity :: nat
  ic_per_neighbor_capacity :: nat
  ic_neighbor_capacity :: nat
  ic_route_capacity :: nat
  ic_control_capacity :: nat
  ic_neighbor_ttl :: duration
  ic_retry_interval :: duration
  ic_resolution_timeout :: duration
  ic_failed_retry_delay :: duration
  ic_max_arp_attempts :: nat
  ic_event_capacity :: nat

definition interface_config_new :: "ipv4addr \<Rightarrow> u8 \<Rightarrow> mac \<Rightarrow> interface_config" where
  "interface_config_new address prefix_len m =
     \<lparr>ic_address = address, ic_prefix_len = prefix_len, ic_mac = m, ic_mtu = 1500, ic_tx_capacity = 128,
      ic_per_neighbor_capacity = 16, ic_neighbor_capacity = 64, ic_route_capacity = 64,
      ic_control_capacity = 8, ic_neighbor_ttl = from_secs 60, ic_retry_interval = from_secs 1,
      ic_resolution_timeout = from_secs 3, ic_failed_retry_delay = from_secs 1, ic_max_arp_attempts = 3,
      ic_event_capacity = 0\<rparr>"

record interface_stats =
  is_accepted_ip :: u64
  is_submitted_ip :: u64
  is_submitted_control :: u64
  is_received_ip :: u64
  is_malformed :: u64
  is_ignored :: u64
  is_queue_full :: u64
  is_no_route :: u64
  is_arp_requests_queued :: u64
  is_arp_replies_queued :: u64
  is_control_drops :: u64
  is_neighbor_timeouts :: u64
  is_timeout_drops :: u64
  is_configuration_drops :: u64
  is_address_conflicts :: u64

definition interface_stats_default :: interface_stats where
  "interface_stats_default =
     \<lparr>is_accepted_ip = 0, is_submitted_ip = 0, is_submitted_control = 0, is_received_ip = 0,
      is_malformed = 0, is_ignored = 0, is_queue_full = 0, is_no_route = 0, is_arp_requests_queued = 0,
      is_arp_replies_queued = 0, is_control_drops = 0, is_neighbor_timeouts = 0, is_timeout_drops = 0,
      is_configuration_drops = 0, is_address_conflicts = 0\<rparr>"

datatype interface_event =
    RouteSelected ipv4addr ipv4addr route
  | QueuedForNeighbor ipv4addr
  | NeighborResolved ipv4addr mac
  | ArpRequestQueued ipv4addr nat
  | NeighborTimedOut ipv4addr nat
  | NoRoute ipv4addr
  | QueueFull
  | AddressConflict mac
  | Submitted nat nat
  | ConfigurationChanged nat

record pending =
  pd_next_hop :: ipv4addr
  pd_frame :: packet_buf

record 'd eth_ipv4 =
  ei_device :: 'd
  ei_config :: interface_config
  ei_configured :: bool
  ei_routes :: route_table
  ei_neighbors :: "(ipv4addr, neighbor_state) btree_map"
  ei_pending :: "pending list"
  ei_ready :: "packet_buf list"
  ei_control :: "packet_buf list"
  ei_control_spare :: "packet_buf option"
  ei_rx :: "packet_buf list"
  ei_events :: "(duration \<times> interface_event) list"
  ei_now :: duration
  ei_stats :: interface_stats
  ei_layout :: "nat \<Rightarrow> nat"
  ei_flushes :: nat

definition count_stat ::
  "((u64 \<Rightarrow> u64) \<Rightarrow> interface_stats \<Rightarrow> interface_stats) \<Rightarrow> nat \<Rightarrow> 'd eth_ipv4 \<Rightarrow> 'd eth_ipv4"
where
  "count_stat field n i = i\<lparr>ei_stats := field (\<lambda>c. c + word_of_nat n) (ei_stats i)\<rparr>"

section \<open>Helpers\<close>

definition ei_event :: "interface_event \<Rightarrow> 'd eth_ipv4 \<Rightarrow> 'd eth_ipv4" where
  "ei_event e i =
     (if ic_event_capacity (ei_config i) = 0 then i
      else
        (let events = (if length (ei_events i) = ic_event_capacity (ei_config i)
                       then tl (ei_events i) else ei_events i) in
         i\<lparr>ei_events := events @ [(ei_now i, e)]\<rparr>))"

definition ei_pending_count :: "'d eth_ipv4 \<Rightarrow> nat" where
  "ei_pending_count i = length (ei_pending i) + length (ei_ready i) + length (ei_control i)"

definition ei_pop_event :: "'d eth_ipv4 \<Rightarrow> (duration \<times> interface_event) option \<times> 'd eth_ipv4" where
  "ei_pop_event i =
     (case ei_events i of
        [] \<Rightarrow> (None, i)
      | e # es \<Rightarrow> (Some e, i\<lparr>ei_events := es\<rparr>))"

definition cfg_broadcast :: "interface_config \<Rightarrow> ipv4addr \<Rightarrow> bool" where
  "cfg_broadcast cfg ip \<longleftrightarrow> is_broadcast ip \<or>
     ic_prefix_len cfg \<le> 30 \<and>
     ip = (ic_address cfg AND route_mask (ic_prefix_len cfg)) OR NOT (route_mask (ic_prefix_len cfg))"

definition prepare_empty :: "packet_buf \<Rightarrow> (unit io_result \<times> packet_buf) option" where
  "prepare_empty frame = do {
     frame \<leftarrow> set_len 0 frame;
     let headroom = max (pb_data_offset frame) 14;
     if headroom > pb_capacity frame \<or> pb_capacity frame - headroom < 46 then Some (Inl InvalidInput, frame)
     else do {
       frame \<leftarrow> set_headroom headroom frame;
       Some (Inr (), frame)
     }
   }"

definition ipv4_fields :: "bytes \<Rightarrow> (ipv4addr \<times> ipv4addr \<times> nat) option option" where
  "ipv4_fields b =
     (if length b < 20 then Some None
      else do {
        version \<leftarrow> nth_opt b 0;
        ttl \<leftarrow> nth_opt b 8;
        if version \<noteq> 0x45 \<or> ttl = 0 then Some None
        else do {
          total_len \<leftarrow> map_option unat (read16_at b 2);
          header \<leftarrow> slice_of 0 20 b;
          fragment \<leftarrow> read16_at b 6;
          if total_len < 20 \<or> total_len > length b \<or> checksum header \<noteq> 0 \<or> fragment AND NOT 0x4000 \<noteq> 0
          then Some None
          else do {
            source \<leftarrow> slice_of 12 16 b;
            destination \<leftarrow> slice_of 16 20 b;
            Some (Some (ip_of_octets source, ip_of_octets destination, total_len))
          }
        }
      })"

definition is_resolving :: "neighbor_state \<Rightarrow> bool" where
  "is_resolving n = (case n of NResolving _ _ _ \<Rightarrow> True | _ \<Rightarrow> False)"

definition is_static :: "neighbor_state \<Rightarrow> bool" where
  "is_static n = (case n of NStatic _ \<Rightarrow> True | _ \<Rightarrow> False)"

definition discard_queued :: "'d device_ops \<Rightarrow> 'd eth_ipv4 \<Rightarrow> 'd eth_ipv4 option" where
  "discard_queued ops i = do {
     let dropped = length (ei_pending i) + length (ei_ready i);
     d \<leftarrow> dv_drop_all ops (map pd_frame (ei_pending i)) (ei_device i);
     d \<leftarrow> dv_drop_all ops (ei_ready i) d;
     d \<leftarrow> dv_drop_all ops (ei_control i) d;
     let i = i\<lparr>ei_device := d, ei_pending := [], ei_ready := [], ei_control := [],
               ei_neighbors := bt_retain (\<lambda>_ n. \<not> is_resolving n) (ei_neighbors i)\<rparr>;
     Some (ei_event (ConfigurationChanged dropped) (count_stat is_configuration_drops_update dropped i))
   }"

definition ensure_spare :: "'d device_ops \<Rightarrow> 'd eth_ipv4 \<Rightarrow> 'd eth_ipv4 option" where
  "ensure_spare ops i =
     (if ei_control_spare i \<noteq> None then Some i
      else do {
        (r, d) \<leftarrow> dv_alloc ops (ei_device i);
        case r of
          None \<Rightarrow> Some (i\<lparr>ei_device := d\<rparr>)
        | Some frame \<Rightarrow> do {
            (ok, frame) \<leftarrow> prepare_empty frame;
            case ok of
              Inr _ \<Rightarrow> Some (i\<lparr>ei_device := d, ei_control_spare := Some frame\<rparr>)
            | Inl _ \<Rightarrow> do {
                d \<leftarrow> dv_drop ops frame d;
                Some (i\<lparr>ei_device := d\<rparr>)
              }
          }
      })"

definition arp_frame :: "interface_config \<Rightarrow> arp_packet \<Rightarrow> mac \<Rightarrow> packet_buf \<Rightarrow> packet_buf option" where
  "arp_frame cfg packet destination frame = do {
     frame \<leftarrow> set_len 28 frame;
     b \<leftarrow> arp_encode packet;
     p \<leftarrow> copy_into 0 (length (as_slice frame)) b (as_slice frame);
     frame \<leftarrow> write_packet 0 p frame;
     eth_prepend frame (ic_mac cfg) destination ETH_ARP
   }"

definition queue_arp :: "'d device_ops \<Rightarrow> arp_packet \<Rightarrow> mac \<Rightarrow> 'd eth_ipv4 \<Rightarrow> (bool \<times> 'd eth_ipv4) option" where
  "queue_arp ops packet destination i =
     (if length (ei_control i) = ic_control_capacity (ei_config i) then Some (False, i)
      else do {
        i \<leftarrow> ensure_spare ops i;
        case ei_control_spare i of
          None \<Rightarrow> Some (False, i)
        | Some frame \<Rightarrow> do {
            frame \<leftarrow> arp_frame (ei_config i) packet destination frame;
            Some (True, i\<lparr>ei_control_spare := None, ei_control := ei_control i @ [frame]\<rparr>)
          }
      })"

definition resolved_mac :: "'d eth_ipv4 \<Rightarrow> ipv4addr \<Rightarrow> mac option" where
  "resolved_mac i hop = Option.bind (bt_get (ei_neighbors i) hop) (\<lambda>n. neighbor_mac n (ei_now i))"

fun release_loop :: "nat \<Rightarrow> 'd eth_ipv4 \<Rightarrow> 'd eth_ipv4 option" where
  "release_loop 0 i = Some i"
| "release_loop (Suc n) i =
     (case ei_pending i of
        [] \<Rightarrow> None
      | p # ps \<Rightarrow>
          (case resolved_mac i (pd_next_hop p) of
             Some m \<Rightarrow> do {
               f \<leftarrow> eth_prepend (pd_frame p) (ic_mac (ei_config i)) m ETH_IPV4;
               release_loop n (i\<lparr>ei_pending := ps, ei_ready := ei_ready i @ [f]\<rparr>)
             }
           | None \<Rightarrow> release_loop n (i\<lparr>ei_pending := ps @ [p]\<rparr>)))"

definition release_resolved :: "'d eth_ipv4 \<Rightarrow> 'd eth_ipv4 option" where
  "release_resolved i = release_loop (length (ei_pending i)) i"

text \<open>
  \<^verbatim>\<open>flush_front\<close> on a queue whose first contiguous part has \<open>k\<close> elements: result, queue, device. The
  drained handles are dropped.
\<close>

definition flush_front ::
  "'d device_ops \<Rightarrow> nat \<Rightarrow> packet_buf list \<Rightarrow> 'd \<Rightarrow> (nat io_result \<times> packet_buf list \<times> 'd) option"
where
  "flush_front ops k queue d =
     (if queue = [] then Some (Inr 0, queue, d)
      else do {
        (r, front, d) \<leftarrow> dv_send ops (take k queue) d;
        let queue = front @ drop k queue;
        case (case r of Inl e \<Rightarrow> if e = WouldBlock then Inr 0 else Inl e | Inr n \<Rightarrow> Inr n) of
          Inl e \<Rightarrow> Some (Inl e, queue, d)
        | Inr accepted \<Rightarrow> do {
            rust_assert (accepted \<le> length queue);
            d \<leftarrow> dv_drop_all ops (take accepted queue) d;
            Some (Inr accepted, drop accepted queue, d)
          }
      })"

definition flush :: "'d device_ops \<Rightarrow> 'd eth_ipv4 \<Rightarrow> (unit io_result \<times> 'd eth_ipv4) option" where
  "flush ops i = do {
     (r, queue, d) \<leftarrow> flush_front ops (ei_layout i (ei_flushes i)) (ei_control i) (ei_device i);
     let i = i\<lparr>ei_control := queue, ei_device := d, ei_flushes := ei_flushes i + 1\<rparr>;
     case r of
       Inl e \<Rightarrow> Some (Inl e, i)
     | Inr control \<Rightarrow> do {
         let i = count_stat is_submitted_control_update control i;
         let i = (if control > 0 then ei_event (Submitted 0 control) i else i);
         if ei_control i \<noteq> [] then Some (Inr (), i)
         else do {
           (r, queue, d) \<leftarrow> flush_front ops (ei_layout i (ei_flushes i)) (ei_ready i) (ei_device i);
           let i = i\<lparr>ei_ready := queue, ei_device := d, ei_flushes := ei_flushes i + 1\<rparr>;
           case r of
             Inl e \<Rightarrow> Some (Inl e, i)
           | Inr data \<Rightarrow> do {
               let i = count_stat is_submitted_ip_update data i;
               Some (Inr (), if data > 0 then ei_event (Submitted data 0) i else i)
             }
         }
       }
   }"

definition probe_for :: "ipv4addr \<Rightarrow> packet_buf \<Rightarrow> bool option" where
  "probe_for ip frame = do {
     b \<leftarrow> slice_from 14 (as_slice frame);
     r \<leftarrow> arp_parse b;
     Some (case r of None \<Rightarrow> False | Some p \<Rightarrow> arp_op p = ArpRequest \<and> arp_target_ip p = ip)
   }"

fun retain_frames ::
  "'d device_ops \<Rightarrow> (packet_buf \<Rightarrow> bool option) \<Rightarrow> packet_buf list \<Rightarrow> 'd \<Rightarrow> (packet_buf list \<times> 'd) option"
where
  "retain_frames ops P [] d = Some ([], d)"
| "retain_frames ops P (f # fs) d = do {
     keep \<leftarrow> P f;
     d \<leftarrow> (if keep then Some d else dv_drop ops f d);
     (fs, d) \<leftarrow> retain_frames ops P fs d;
     Some (if keep then f # fs else fs, d)
   }"

definition cancel_probes :: "'d device_ops \<Rightarrow> ipv4addr \<Rightarrow> 'd eth_ipv4 \<Rightarrow> 'd eth_ipv4 option" where
  "cancel_probes ops ip i = do {
     (fs, d) \<leftarrow> retain_frames ops (\<lambda>f. map_option Not (probe_for ip f)) (ei_control i) (ei_device i);
     Some (i\<lparr>ei_control := fs, ei_device := d\<rparr>)
   }"

definition learn :: "'d device_ops \<Rightarrow> ipv4addr \<Rightarrow> mac \<Rightarrow> 'd eth_ipv4 \<Rightarrow> 'd eth_ipv4 option" where
  "learn ops ip m i =
     (if (case bt_get (ei_neighbors i) ip of Some n \<Rightarrow> is_static n | None \<Rightarrow> False) then Some i
      else if \<not> bt_contains (ei_neighbors i) ip \<and>
              length (ei_neighbors i) = ic_neighbor_capacity (ei_config i) then Some i
      else do {
        i \<leftarrow> cancel_probes ops ip i;
        Some (ei_event (NeighborResolved ip m)
          (i\<lparr>ei_neighbors := bt_insert ip
               (NReachable m (saturating_add (ei_now i) (ic_neighbor_ttl (ei_config i)))) (ei_neighbors i)\<rparr>))
      })"

section \<open>Receiving\<close>

definition receive_arp :: "'d device_ops \<Rightarrow> bytes \<Rightarrow> mac \<Rightarrow> 'd eth_ipv4 \<Rightarrow> 'd eth_ipv4 option" where
  "receive_arp ops b source_mac i = do {
     r \<leftarrow> arp_parse b;
     case r of
       None \<Rightarrow> Some (count_stat is_malformed_update 1 i)
     | Some packet \<Rightarrow>
         (let cfg = ei_config i; sender = arp_sender_ip packet in
          if arp_sender_mac packet \<noteq> source_mac then Some (count_stat is_malformed_update 1 i)
          else if sender = ic_address cfg \<and> arp_sender_mac packet \<noteq> ic_mac cfg then
            Some (ei_event (AddressConflict (arp_sender_mac packet)) (count_stat is_address_conflicts_update 1 i))
          else if arp_target_ip packet \<noteq> ic_address cfg then Some (count_stat is_ignored_update 1 i)
          else
            (case arp_op packet of
               ArpRequest \<Rightarrow>
                 if \<not> (ip_unicast sender \<and> \<not> cfg_broadcast cfg sender) \<and> \<not> is_unspecified sender
                 then Some (count_stat is_ignored_update 1 i)
                 else do {
                   i \<leftarrow> (if ip_unicast sender \<and> \<not> cfg_broadcast cfg sender
                         then learn ops sender (arp_sender_mac packet) i else Some i);
                   (queued, i) \<leftarrow> queue_arp ops
                     \<lparr>arp_op = ArpReply, arp_sender_mac = ic_mac cfg, arp_sender_ip = ic_address cfg,
                      arp_target_mac = arp_sender_mac packet, arp_target_ip = sender\<rparr> (arp_sender_mac packet) i;
                   Some (count_stat
                     (if queued then is_arp_replies_queued_update else is_control_drops_update) 1 i)
                 }
             | ArpReply \<Rightarrow>
                 if arp_target_mac packet = ic_mac cfg \<and> ip_unicast sender \<and> \<not> cfg_broadcast cfg sender \<and>
                    (case bt_get (ei_neighbors i) sender of
                       Some (NResolving _ _ expires) \<Rightarrow> ei_now i < expires | _ \<Rightarrow> False)
                 then learn ops sender (arp_sender_mac packet) i
                 else Some (count_stat is_ignored_update 1 i)))
   }"

definition drop_frame :: "'d device_ops \<Rightarrow> packet_buf \<Rightarrow> 'd eth_ipv4 \<Rightarrow> 'd eth_ipv4 option" where
  "drop_frame ops frame i = do {
     d \<leftarrow> dv_drop ops frame (ei_device i);
     Some (i\<lparr>ei_device := d\<rparr>)
   }"

definition receive_frame ::
  "'d device_ops \<Rightarrow> packet_buf \<Rightarrow> packet_buf list \<Rightarrow> 'd eth_ipv4 \<Rightarrow> (packet_buf list \<times> 'd eth_ipv4) option"
where
  "receive_frame ops frame out i =
     (let reject = \<lambda>i. do { i \<leftarrow> drop_frame ops frame i; Some (out, i) } in
      if \<not> ei_configured i then reject (count_stat is_ignored_update 1 i)
      else do {
        parsed \<leftarrow> eth_parse (as_slice frame);
        case parsed of
          None \<Rightarrow> reject (count_stat is_malformed_update 1 i)
        | Some (destination_mac, source_mac, kind) \<Rightarrow>
            if \<not> unicast source_mac \<or>
               destination_mac \<noteq> ic_mac (ei_config i) \<and> destination_mac \<noteq> MAC_BROADCAST
            then reject (count_stat is_ignored_update 1 i)
            else if kind = ETH_ARP then do {
              b \<leftarrow> slice_from 14 (as_slice frame);
              i \<leftarrow> receive_arp ops b source_mac i;
              reject i
            }
            else if kind = ETH_IPV4 then do {
              b \<leftarrow> slice_from 14 (as_slice frame);
              fields \<leftarrow> ipv4_fields b;
              case fields of
                None \<Rightarrow> reject (count_stat is_malformed_update 1 i)
              | Some (_, destination, total_len) \<Rightarrow>
                  if total_len > ic_mtu (ei_config i) \<or>
                     destination \<noteq> ic_address (ei_config i) \<and> \<not> cfg_broadcast (ei_config i) destination
                  then reject (count_stat is_ignored_update 1 i)
                  else do {
                    frame \<leftarrow> pull_header 14 frame;
                    frame \<leftarrow> set_len total_len frame;
                    Some (out @ [frame], count_stat is_received_ip_update 1 i)
                  }
            }
            else reject (count_stat is_ignored_update 1 i)
      })"

fun receive_frames ::
  "'d device_ops \<Rightarrow> packet_buf list \<Rightarrow> packet_buf list \<Rightarrow> 'd eth_ipv4 \<Rightarrow> (packet_buf list \<times> 'd eth_ipv4) option"
where
  "receive_frames ops [] out i = Some (out, i)"
| "receive_frames ops (f # fs) out i = do {
     (out, i) \<leftarrow> receive_frame ops f out i;
     receive_frames ops fs out i
   }"

section \<open>Timers\<close>

text \<open>One step of the loop of \<^verbatim>\<open>advance\<close> over the snapshot of the neighbor table.\<close>

definition neighbor_timeout :: "'d device_ops \<Rightarrow> ipv4addr \<Rightarrow> 'd eth_ipv4 \<Rightarrow> 'd eth_ipv4 option" where
  "neighbor_timeout ops ip i = do {
     let failed = NFailed (saturating_add (ei_now i) (ic_failed_retry_delay (ei_config i)));
     let i = i\<lparr>ei_neighbors := bt_insert ip failed (ei_neighbors i)\<rparr>;
     let gone = filter (\<lambda>p. pd_next_hop p = ip) (ei_pending i);
     let kept = filter (\<lambda>p. pd_next_hop p \<noteq> ip) (ei_pending i);
     d \<leftarrow> dv_drop_all ops (map pd_frame gone) (ei_device i);
     i \<leftarrow> cancel_probes ops ip (i\<lparr>ei_pending := kept, ei_device := d\<rparr>);
     let dropped = length gone;
     let i = count_stat is_neighbor_timeouts_update 1 (count_stat is_timeout_drops_update dropped i);
     Some (ei_event (NeighborTimedOut ip dropped) i)
   }"

definition arp_request :: "interface_config \<Rightarrow> ipv4addr \<Rightarrow> arp_packet" where
  "arp_request cfg ip = \<lparr>arp_op = ArpRequest, arp_sender_mac = ic_mac cfg, arp_sender_ip = ic_address cfg,
     arp_target_mac = [0, 0, 0, 0, 0, 0], arp_target_ip = ip\<rparr>"

definition neighbor_probe ::
  "'d device_ops \<Rightarrow> ipv4addr \<Rightarrow> nat \<Rightarrow> duration \<Rightarrow> 'd eth_ipv4 \<Rightarrow> 'd eth_ipv4 option"
where
  "neighbor_probe ops ip attempts expires i = do {
     (queued, i) \<leftarrow> queue_arp ops (arp_request (ei_config i) ip) MAC_BROADCAST i;
     if queued then do {
       let attempt = attempts + 1;
       let state = NResolving attempt (saturating_add (ei_now i) (ic_retry_interval (ei_config i))) expires;
       let i = count_stat is_arp_requests_queued_update 1 (i\<lparr>ei_neighbors := bt_insert ip state (ei_neighbors i)\<rparr>);
       Some (ei_event (ArpRequestQueued ip attempt) i)
     } else Some i
   }"

definition neighbor_step :: "'d device_ops \<Rightarrow> ipv4addr \<times> neighbor_state \<Rightarrow> 'd eth_ipv4 \<Rightarrow> 'd eth_ipv4 option" where
  "neighbor_step ops entry i =
     (let ip = fst entry; now = ei_now i in
      case snd entry of
        NStatic _ \<Rightarrow> Some i
      | NReachable _ expires \<Rightarrow>
          Some (if now \<ge> expires then i\<lparr>ei_neighbors := bt_remove ip (ei_neighbors i)\<rparr> else i)
      | NFailed retry_after \<Rightarrow>
          Some (if now \<ge> retry_after then i\<lparr>ei_neighbors := bt_remove ip (ei_neighbors i)\<rparr> else i)
      | NResolving attempts next_probe expires \<Rightarrow>
          if now \<ge> expires then neighbor_timeout ops ip i
          else if now \<ge> next_probe \<and> attempts < ic_max_arp_attempts (ei_config i)
          then neighbor_probe ops ip attempts expires i
          else Some i)"

fun neighbor_steps :: "'d device_ops \<Rightarrow> (ipv4addr \<times> neighbor_state) list \<Rightarrow> 'd eth_ipv4 \<Rightarrow> 'd eth_ipv4 option" where
  "neighbor_steps ops [] i = Some i"
| "neighbor_steps ops (e # es) i = do {
     i \<leftarrow> neighbor_step ops e i;
     neighbor_steps ops es i
   }"

definition ei_advance :: "'d device_ops \<Rightarrow> duration \<Rightarrow> 'd eth_ipv4 \<Rightarrow> (unit io_result \<times> 'd eth_ipv4) option" where
  "ei_advance ops now i =
     (if now < ei_now i then Some (Inl InvalidInput, i)
      else do {
        i \<leftarrow> ensure_spare ops (i\<lparr>ei_now := now\<rparr>);
        i \<leftarrow> neighbor_steps ops (ei_neighbors i) i;
        i \<leftarrow> release_resolved i;
        flush ops i
      })"

definition neighbor_deadline :: "interface_config \<Rightarrow> neighbor_state \<Rightarrow> duration option" where
  "neighbor_deadline cfg n =
     (case n of
        NStatic _ \<Rightarrow> None
      | NReachable _ expires \<Rightarrow> Some expires
      | NFailed retry_after \<Rightarrow> Some retry_after
      | NResolving attempts next_probe expires \<Rightarrow>
          Some (if attempts < ic_max_arp_attempts cfg then min next_probe expires else expires))"

definition min_option :: "duration list \<Rightarrow> duration option" where
  "min_option ds = (if ds = [] then None else Some (Min (set ds)))"

definition ei_next_deadline :: "'d eth_ipv4 \<Rightarrow> duration option" where
  "ei_next_deadline i = min_option (List.map_filter (neighbor_deadline (ei_config i)) (bt_values (ei_neighbors i)))"

section \<open>Configuration\<close>

definition subnet_broadcast :: "route \<Rightarrow> u8 \<Rightarrow> ipv4addr" where
  "subnet_broadcast connected prefix = rt_network connected OR NOT (route_mask prefix)"

definition config_valid :: "interface_config \<Rightarrow> bool" where
  "config_valid cfg \<longleftrightarrow> \<not> (ic_prefix_len cfg > 32 \<or> \<not> ip_unicast (ic_address cfg) \<or> \<not> unicast (ic_mac cfg) \<or>
     ic_mtu cfg < 68 \<or> ic_mtu cfg > 65535 \<or> ic_tx_capacity cfg = 0 \<or> ic_per_neighbor_capacity cfg = 0 \<or>
     ic_neighbor_capacity cfg = 0 \<or> ic_route_capacity cfg = 0 \<or> ic_control_capacity cfg = 0 \<or>
     ic_max_arp_attempts cfg = 0 \<or> ic_neighbor_ttl cfg = 0 \<or> ic_retry_interval cfg = 0 \<or>
     ic_resolution_timeout cfg = 0 \<or> ic_failed_retry_delay cfg = 0)"

definition eth_ipv4_new ::
  "'d device_ops \<Rightarrow> (nat \<Rightarrow> nat) \<Rightarrow> 'd \<Rightarrow> interface_config \<Rightarrow> 'd eth_ipv4 io_result option"
where
  "eth_ipv4_new ops layout d cfg =
     (if \<not> config_valid cfg then Some (Inl InvalidInput)
      else
        (case route_new (ic_address cfg) (ic_prefix_len cfg) None of
           Inl e \<Rightarrow> Some (Inl e)
         | Inr connected \<Rightarrow>
             if ic_prefix_len cfg \<le> 30 \<and> (ic_address cfg = rt_network connected \<or>
                  ic_address cfg = subnet_broadcast connected (ic_prefix_len cfg))
             then Some (Inl InvalidInput)
             else do {
               (r, d) \<leftarrow> dv_alloc ops d;
               case r of
                 None \<Rightarrow> Some (Inl WouldBlock)
               | Some spare \<Rightarrow> do {
                   (ok, spare) \<leftarrow> prepare_empty spare;
                   case ok of
                     Inl e \<Rightarrow> Some (Inl e)
                   | Inr _ \<Rightarrow>
                       if tail_capacity spare < ic_mtu cfg then Some (Inl InvalidInput)
                       else
                         (case route_insert connected (route_table_new (ic_route_capacity cfg)) of
                            (Inl e, _) \<Rightarrow> Some (Inl e)
                          | (Inr _, routes) \<Rightarrow>
                              Some (Inr \<lparr>ei_device = d, ei_config = cfg, ei_configured = True,
                                ei_routes = routes, ei_neighbors = [], ei_pending = [], ei_ready = [],
                                ei_control = [], ei_control_spare = Some spare, ei_rx = [], ei_events = [],
                                ei_now = 0, ei_stats = interface_stats_default, ei_layout = layout,
                                ei_flushes = 0\<rparr>))
                 }
             }))"

definition gateway_ok :: "ipv4addr \<Rightarrow> u8 \<Rightarrow> route \<Rightarrow> ipv4addr \<Rightarrow> bool" where
  "gateway_ok address prefix connected ip \<longleftrightarrow> ip_unicast ip \<and> ip \<noteq> address \<and> route_contains connected ip \<and>
     \<not> (prefix \<le> 30 \<and> (ip = rt_network connected \<or> ip = subnet_broadcast connected prefix))"

text \<open>The routes \<^verbatim>\<open>configure_ipv4\<close> installs: the connected route and possibly a default route.\<close>

definition configured_routes ::
  "nat \<Rightarrow> route \<Rightarrow> ipv4addr option \<Rightarrow> io_kind + route_table"
where
  "configured_routes limit connected gateway =
     (case route_insert connected (route_table_new limit) of
        (Inl e, _) \<Rightarrow> Inl e
      | (Inr _, routes) \<Rightarrow>
          (case gateway of
             None \<Rightarrow> Inr routes
           | Some ip \<Rightarrow>
               (case route_new 0 0 (Some ip) of
                  Inl e \<Rightarrow> Inl e
                | Inr default_route \<Rightarrow>
                    (case route_insert default_route routes of
                       (Inl e, _) \<Rightarrow> Inl e
                     | (Inr _, routes) \<Rightarrow> Inr routes))))"

definition configure_ipv4 ::
  "'d device_ops \<Rightarrow> ipv4addr \<Rightarrow> u8 \<Rightarrow> ipv4addr option \<Rightarrow> 'd eth_ipv4 \<Rightarrow> (bool io_result \<times> 'd eth_ipv4) option"
where
  "configure_ipv4 ops address prefix gateway i =
     (if \<not> ip_unicast address then Some (Inl InvalidInput, i)
      else
        (case route_new address prefix None of
           Inl e \<Rightarrow> Some (Inl e, i)
         | Inr connected \<Rightarrow>
             if prefix \<le> 30 \<and> (address = rt_network connected \<or> address = subnet_broadcast connected prefix)
             then Some (Inl InvalidInput, i)
             else if (case gateway of None \<Rightarrow> False | Some ip \<Rightarrow> \<not> gateway_ok address prefix connected ip)
             then Some (Inl InvalidInput, i)
             else
               (case configured_routes (ic_route_capacity (ei_config i)) connected gateway of
                  Inl e \<Rightarrow> Some (Inl e, i)
                | Inr routes \<Rightarrow>
                    if ei_configured i \<and> ic_address (ei_config i) = address \<and>
                       ic_prefix_len (ei_config i) = prefix \<and> rtb_entries (ei_routes i) = rtb_entries routes
                    then Some (Inr False, i)
                    else do {
                      i \<leftarrow> discard_queued ops i;
                      Some (Inr True, i\<lparr>ei_neighbors := [], ei_routes := routes,
                        ei_config := (ei_config i)\<lparr>ic_address := address, ic_prefix_len := prefix\<rparr>,
                        ei_configured := True\<rparr>)
                    })))"

definition withdraw_ipv4 :: "'d device_ops \<Rightarrow> 'd eth_ipv4 \<Rightarrow> 'd eth_ipv4 option" where
  "withdraw_ipv4 ops i = do {
     i \<leftarrow> discard_queued ops i;
     Some (i\<lparr>ei_neighbors := [], ei_routes := route_table_new (ic_route_capacity (ei_config i)),
             ei_configured := False\<rparr>)
   }"

definition add_route :: "'d device_ops \<Rightarrow> route \<Rightarrow> 'd eth_ipv4 \<Rightarrow> (unit io_result \<times> 'd eth_ipv4) option" where
  "add_route ops r i =
     (if (case rt_gateway r of
            None \<Rightarrow> False
          | Some ip \<Rightarrow> ip = ic_address (ei_config i) \<or> cfg_broadcast (ei_config i) ip)
      then Some (Inl InvalidInput, i)
      else
        (case route_insert r (ei_routes i) of
           (Inl e, routes) \<Rightarrow> Some (Inl e, i\<lparr>ei_routes := routes\<rparr>)
         | (Inr _, routes) \<Rightarrow> do {
             i \<leftarrow> discard_queued ops (i\<lparr>ei_routes := routes\<rparr>);
             Some (Inr (), i)
           }))"

definition set_gateway :: "'d device_ops \<Rightarrow> ipv4addr \<Rightarrow> 'd eth_ipv4 \<Rightarrow> (unit io_result \<times> 'd eth_ipv4) option" where
  "set_gateway ops gateway i =
     (case route_new 0 0 (Some gateway) of
        Inl e \<Rightarrow> Some (Inl e, i)
      | Inr r \<Rightarrow> add_route ops r i)"

definition remove_route ::
  "'d device_ops \<Rightarrow> ipv4addr \<Rightarrow> u8 \<Rightarrow> 'd eth_ipv4 \<Rightarrow> (bool io_result \<times> 'd eth_ipv4) option"
where
  "remove_route ops address prefix_len i =
     (case route_remove address prefix_len (ei_routes i) of
        (Inl e, routes) \<Rightarrow> Some (Inl e, i\<lparr>ei_routes := routes\<rparr>)
      | (Inr removed, routes) \<Rightarrow> do {
          let i = i\<lparr>ei_routes := routes\<rparr>;
          i \<leftarrow> (if removed then discard_queued ops i else Some i);
          Some (Inr removed, i)
        })"

definition remove_neighbor :: "'d device_ops \<Rightarrow> ipv4addr \<Rightarrow> 'd eth_ipv4 \<Rightarrow> (bool \<times> 'd eth_ipv4) option" where
  "remove_neighbor ops address i = do {
     let removed = bt_contains (ei_neighbors i) address;
     let i = i\<lparr>ei_neighbors := bt_remove address (ei_neighbors i)\<rparr>;
     i \<leftarrow> (if removed then discard_queued ops i else Some i);
     Some (removed, i)
   }"

definition add_static_neighbor ::
  "'d device_ops \<Rightarrow> ipv4addr \<Rightarrow> mac \<Rightarrow> 'd eth_ipv4 \<Rightarrow> (unit io_result \<times> 'd eth_ipv4) option"
where
  "add_static_neighbor ops ip m i =
     (if \<not> ip_unicast ip \<or> cfg_broadcast (ei_config i) ip \<or> ip = ic_address (ei_config i) \<or> \<not> unicast m
      then Some (Inl InvalidInput, i)
      else if \<not> bt_contains (ei_neighbors i) ip \<and>
              length (ei_neighbors i) = ic_neighbor_capacity (ei_config i)
      then Some (Inl WouldBlock, i)
      else do {
        let changed = (case bt_get (ei_neighbors i) ip of
                         Some (NStatic old) \<Rightarrow> old \<noteq> m | Some (NReachable old _) \<Rightarrow> old \<noteq> m | _ \<Rightarrow> False);
        i \<leftarrow> (if changed then discard_queued ops i else Some i);
        i \<leftarrow> cancel_probes ops ip i;
        let i = ei_event (NeighborResolved ip m)
          (i\<lparr>ei_neighbors := bt_insert ip (NStatic m) (ei_neighbors i)\<rparr>);
        i \<leftarrow> release_resolved i;
        Some (Inr (), i)
      })"

definition reset_link :: "'d device_ops \<Rightarrow> 'd eth_ipv4 \<Rightarrow> 'd eth_ipv4 option" where
  "reset_link ops i = do {
     i \<leftarrow> discard_queued ops i;
     Some (i\<lparr>ei_neighbors := bt_retain (\<lambda>_ n. is_static n) (ei_neighbors i)\<rparr>)
   }"

section \<open>The adapter as a device\<close>

definition ei_poll_at :: "'d device_ops \<Rightarrow> duration \<Rightarrow> 'd eth_ipv4 \<Rightarrow> (unit io_result \<times> 'd eth_ipv4) option" where
  "ei_poll_at ops now i = do {
     (r, d) \<leftarrow> dv_poll_at ops now (ei_device i);
     let i = i\<lparr>ei_device := d\<rparr>;
     case r of
       Inl e \<Rightarrow> Some (Inl e, i)
     | Inr _ \<Rightarrow> ei_advance ops now i
   }"

definition ei_recv ::
  "'d device_ops \<Rightarrow> nat \<Rightarrow> packet_buf list \<Rightarrow> 'd eth_ipv4 \<Rightarrow> (nat io_result \<times> packet_buf list \<times> 'd eth_ipv4) option"
where
  "ei_recv ops k out i = do {
     d \<leftarrow> dv_drop_all ops out (ei_device i);
     let i = i\<lparr>ei_device := d\<rparr>;
     if k = 0 then do {
       (r, i) \<leftarrow> ei_advance ops (ei_now i) i;
       Some (map_sum id (\<lambda>_. 0) r, [], i)
     }
     else do {
       d \<leftarrow> dv_drop_all ops (case ei_control_spare i of None \<Rightarrow> [] | Some f \<Rightarrow> [f]) (ei_device i);
       (r, rx, d) \<leftarrow> dv_recv ops k (ei_rx i) d;
       let i = i\<lparr>ei_control_spare := None, ei_device := d, ei_rx := rx\<rparr>;
       case r of
         Inl e \<Rightarrow> Some (Inl e, [], i)
       | Inr _ \<Rightarrow> do {
           (out, i) \<leftarrow> receive_frames ops rx [] (i\<lparr>ei_rx := []\<rparr>);
           (r, i) \<leftarrow> ei_advance ops (ei_now i) i;
           Some (map_sum id (\<lambda>_. length out) r, out, i)
         }
     }
   }"

text \<open>The validation loop of \<open>send\<close> over the prospective prefix.\<close>

definition validate_frame :: "packet_buf \<Rightarrow> 'd eth_ipv4 \<Rightarrow> (unit io_result \<times> 'd eth_ipv4) option" where
  "validate_frame frame i = do {
     let cfg = ei_config i;
     fields \<leftarrow> ipv4_fields (as_slice frame);
     case fields of
       None \<Rightarrow> Some (Inl InvalidInput, i)
     | Some (source, destination, total_len) \<Rightarrow>
         if source \<noteq> ic_address cfg \<or> destination = ic_address cfg \<or>
            \<not> ip_unicast destination \<and> \<not> cfg_broadcast cfg destination \<or>
            total_len \<noteq> pb_len frame \<or> total_len > ic_mtu cfg \<or>
            pb_data_offset frame < 14 \<or> tail_capacity frame + 14 < 60
         then Some (Inl InvalidInput, i)
         else if cfg_broadcast cfg destination then Some (Inr (), i)
         else
           (case route_lookup (ei_routes i) destination of
              None \<Rightarrow> Some (Inl NotConnected, ei_event (NoRoute destination) (count_stat is_no_route_update 1 i))
            | Some r \<Rightarrow>
                (let hop = next_hop r destination in
                 if hop = ic_address cfg \<or> cfg_broadcast cfg hop \<or> \<not> ip_unicast hop
                 then Some (Inl InvalidInput, i)
                 else if (case bt_get (ei_neighbors i) hop of
                            Some (NFailed retry_after) \<Rightarrow> ei_now i < retry_after | _ \<Rightarrow> False)
                 then Some (Inl NotConnected, i)
                 else Some (Inr (), i)))
   }"

fun validate_frames :: "packet_buf list \<Rightarrow> 'd eth_ipv4 \<Rightarrow> (unit io_result \<times> 'd eth_ipv4) option" where
  "validate_frames [] i = Some (Inr (), i)"
| "validate_frames (f # fs) i = do {
     (r, i) \<leftarrow> validate_frame f i;
     case r of
       Inl e \<Rightarrow> Some (Inl e, i)
     | Inr _ \<Rightarrow> validate_frames fs i
   }"

text \<open>
  One accepted slot. \<^term>\<open>None\<close> inside is the \<^verbatim>\<open>break\<close> of the loop: the packet stays with the caller.
\<close>

definition accept_frame :: "packet_buf \<Rightarrow> 'd eth_ipv4 \<Rightarrow> 'd eth_ipv4 option option" where
  "accept_frame slot i = do {
     let cfg = ei_config i;
     octs \<leftarrow> slice_of 16 20 (as_slice slot);
     let destination = ip_of_octets octs;
     if cfg_broadcast cfg destination then do {
       frame \<leftarrow> eth_prepend slot (ic_mac cfg) MAC_BROADCAST ETH_IPV4;
       Some (Some (i\<lparr>ei_ready := ei_ready i @ [frame]\<rparr>))
     }
     else do {
       r \<leftarrow> route_lookup (ei_routes i) destination;
       let hop = next_hop r destination;
       case resolved_mac i hop of
         Some m \<Rightarrow> do {
           frame \<leftarrow> eth_prepend slot (ic_mac cfg) m ETH_IPV4;
           let i = ei_event (RouteSelected destination hop r) i;
           Some (Some (i\<lparr>ei_ready := ei_ready i @ [frame]\<rparr>))
         }
       | None \<Rightarrow>
           if length (filter (\<lambda>p. pd_next_hop p = hop) (ei_pending i)) \<ge> ic_per_neighbor_capacity cfg \<or>
              \<not> bt_contains (ei_neighbors i) hop \<and> length (ei_neighbors i) = ic_neighbor_capacity cfg
           then Some None
           else
             (let start = NResolving 0 (ei_now i) (saturating_add (ei_now i) (ic_resolution_timeout cfg));
                  resolving = (case bt_get (ei_neighbors i) hop of Some n \<Rightarrow> is_resolving n | None \<Rightarrow> False);
                  i = (if resolving then i else i\<lparr>ei_neighbors := bt_insert hop start (ei_neighbors i)\<rparr>);
                  i = ei_event (RouteSelected destination hop r) i;
                  i = i\<lparr>ei_pending := ei_pending i @ [\<lparr>pd_next_hop = hop, pd_frame = slot\<rparr>]\<rparr> in
              Some (Some (ei_event (QueuedForNeighbor hop) i)))
     }
   }"

fun accept_frames :: "packet_buf list \<Rightarrow> 'd eth_ipv4 \<Rightarrow> (nat \<times> 'd eth_ipv4) option" where
  "accept_frames [] i = Some (0, i)"
| "accept_frames (slot # slots) i = do {
     r \<leftarrow> accept_frame slot i;
     case r of
       None \<Rightarrow> Some (0, i)
     | Some i \<Rightarrow> do {
         (n, i) \<leftarrow> accept_frames slots i;
         Some (Suc n, i)
       }
   }"

text \<open>An accepted slot is left holding the empty handle of \<^verbatim>\<open>std::mem::take\<close>.\<close>

definition ei_send ::
  "packet_buf list \<Rightarrow> 'd eth_ipv4 \<Rightarrow> (nat io_result \<times> packet_buf list \<times> 'd eth_ipv4) option"
where
  "ei_send frames i =
     (if \<not> ei_configured i then Some (Inl AddrNotAvailable, frames, i)
      else do {
        rust_assert (length (ei_pending i) + length (ei_ready i) \<le> ic_tx_capacity (ei_config i));
        let capacity_left = ic_tx_capacity (ei_config i) - length (ei_pending i) - length (ei_ready i);
        let limit = min capacity_left (length frames);
        (r, i) \<leftarrow> validate_frames (take limit frames) i;
        case r of
          Inl e \<Rightarrow> Some (Inl e, frames, i)
        | Inr _ \<Rightarrow> do {
            (accepted, i) \<leftarrow> accept_frames (take limit frames) i;
            let i = (if accepted < length frames
                     then ei_event QueueFull (count_stat is_queue_full_update 1 i) else i);
            Some (Inr accepted, replicate accepted empty_buf @ drop accepted frames,
                  count_stat is_accepted_ip_update accepted i)
          }
      })"

definition ei_alloc :: "'d device_ops \<Rightarrow> 'd eth_ipv4 \<Rightarrow> (packet_buf option \<times> 'd eth_ipv4) option" where
  "ei_alloc ops i = do {
     i \<leftarrow> ensure_spare ops i;
     if ei_control_spare i = None then Some (None, i)
     else do {
       (r, d) \<leftarrow> dv_alloc ops (ei_device i);
       let i = i\<lparr>ei_device := d\<rparr>;
       case r of
         None \<Rightarrow> Some (None, i)
       | Some frame \<Rightarrow> do {
           (ok, frame) \<leftarrow> prepare_empty frame;
           case ok of
             Inr _ \<Rightarrow> Some (Some frame, i)
           | Inl _ \<Rightarrow> do {
               i \<leftarrow> drop_frame ops frame i;
               Some (None, i)
             }
         }
     }
   }"

definition eth_ops :: "'d device_ops \<Rightarrow> 'd eth_ipv4 device_ops" where
  "eth_ops ops =
     \<lparr>dv_poll_at = ei_poll_at ops, dv_recv = ei_recv ops, dv_send = ei_send, dv_alloc = ei_alloc ops,
      dv_frame_size = (\<lambda>i. dv_frame_size ops (ei_device i)), dv_drop = drop_frame ops\<rparr>"

end
