(* ===== verification/Loopback.thy ===== *)
theory Loopback
  imports Device
begin

text \<open>
  \<^verbatim>\<open>src/device/loopback.rs\<close>: the in-memory device whose \<open>send\<close> copies each packet into a slot of a
  contiguous "kernel" arena and whose \<open>recv\<close> copies it back into a freshly allocated frame. It is shown to
  be a FIFO queue of packets and to satisfy the \<open>device\<close> contract.
\<close>

section \<open>Definitions\<close>

record loopback =
  lb_pool :: frame_pool
  lb_arena :: bytes
  lb_free_slots :: "nat list"
  lb_rx :: "(nat \<times> nat) list"
  lb_dropped :: u64

definition loopback_with_capacity :: "nat \<Rightarrow> nat \<Rightarrow> nat \<Rightarrow> loopback option" where
  "loopback_with_capacity pid pool_frames kernel_slots = do {
     rust_assert (pool_frames > 0);
     rust_assert (kernel_slots > 0);
     pool \<leftarrow> pool_new pid pool_frames 2048 4096;
     Some \<lparr>lb_pool = pool, lb_arena = replicate (kernel_slots * 2048) 0,
           lb_free_slots = rev [0..<kernel_slots], lb_rx = [], lb_dropped = 0\<rparr>
   }"

definition loopback_new :: "nat \<Rightarrow> loopback option" where
  "loopback_new pid = loopback_with_capacity pid 256 256"

definition pool_drop :: "frame_pool \<Rightarrow> packet_buf \<Rightarrow> frame_pool option" where
  "pool_drop p b = drop_buf b p"

text \<open>The body of the loop of \<open>recv\<close>; \<^verbatim>\<open>as_mut_slice\<close> is the whole frame.\<close>

definition lb_copy_out :: "packet_buf \<Rightarrow> loopback \<Rightarrow> (packet_buf \<times> loopback) option" where
  "lb_copy_out buf lb =
     (case lb_rx lb of
        [] \<Rightarrow> None
      | (slot, len) # rx \<Rightarrow> do {
          buf \<leftarrow> (if len > tail_capacity buf then set_headroom 0 buf else Some buf);
          let base = slot * fp_frame_size (lb_pool lb);
          let off = pb_data_offset buf;
          src \<leftarrow> slice_of base (base + len) (lb_arena lb);
          mem \<leftarrow> copy_into off (off + len) src (pb_mem buf);
          buf \<leftarrow> set_len len (buf\<lparr>pb_mem := mem\<rparr>);
          Some (buf, lb\<lparr>lb_rx := rx, lb_free_slots := lb_free_slots lb @ [slot]\<rparr>)
        })"

fun lb_fill :: "packet_buf list \<Rightarrow> loopback \<Rightarrow> (packet_buf list \<times> loopback) option" where
  "lb_fill [] lb = Some ([], lb)"
| "lb_fill (buf # bufs) lb = do {
     (buf, lb) \<leftarrow> lb_copy_out buf lb;
     (bufs, lb) \<leftarrow> lb_fill bufs lb;
     Some (buf # bufs, lb)
   }"

definition loopback_recv ::
  "nat \<Rightarrow> packet_buf list \<Rightarrow> loopback \<Rightarrow> (nat io_result \<times> packet_buf list \<times> loopback) option"
where
  "loopback_recv k out lb = do {
     pool \<leftarrow> drop_all pool_drop out (lb_pool lb);
     let n = min k (length (lb_rx lb));
     (got, out, pool) \<leftarrow> pool_alloc_batch n [] pool;
     (out, lb) \<leftarrow> lb_fill out (lb\<lparr>lb_pool := pool\<rparr>);
     Some (Inr (length out), out, lb)
   }"

fun lb_send_loop :: "packet_buf list \<Rightarrow> nat \<Rightarrow> loopback \<Rightarrow> (nat io_result \<times> loopback) option" where
  "lb_send_loop [] sent lb = Some (Inr sent, lb)"
| "lb_send_loop (frame # frames) sent lb =
     (let src = as_slice frame; slot_size = fp_frame_size (lb_pool lb) in
      if src = [] \<or> length src > slot_size then
        Some (if sent > 0 then Inr sent else Inl InvalidInput, lb)
      else if lb_free_slots lb = [] then Some (Inr sent, lb)
      else do {
        let slot = last (lb_free_slots lb);
        let base = slot * slot_size;
        arena \<leftarrow> copy_into base (base + length src) src (lb_arena lb);
        lb_send_loop frames (sent + 1)
          (lb\<lparr>lb_free_slots := butlast (lb_free_slots lb), lb_arena := arena,
              lb_rx := lb_rx lb @ [(slot, length src)]\<rparr>)
      })"

definition loopback_send ::
  "packet_buf list \<Rightarrow> loopback \<Rightarrow> (nat io_result \<times> packet_buf list \<times> loopback) option"
where
  "loopback_send frames lb = do {
     (r, lb) \<leftarrow> lb_send_loop frames 0 lb;
     case r of
       Inl e \<Rightarrow> Some (Inl e, frames, lb)
     | Inr sent \<Rightarrow> do {
         (consumed, pool) \<leftarrow> recycle_frames pool_drop (take sent frames) (lb_pool lb);
         Some (Inr sent, consumed @ drop sent frames, lb\<lparr>lb_pool := pool\<rparr>)
       }
   }"

definition loopback_alloc :: "loopback \<Rightarrow> (packet_buf option \<times> loopback) option" where
  "loopback_alloc lb = do {
     (r, pool) \<leftarrow> pool_alloc (lb_pool lb);
     case r of
       None \<Rightarrow> Some (None, lb\<lparr>lb_pool := pool\<rparr>)
     | Some idx \<Rightarrow> do {
         b \<leftarrow> packet_buf idx 0 pool;
         Some (Some b, lb\<lparr>lb_pool := pool\<rparr>)
       }
   }"

definition loopback_frame_size :: "loopback \<Rightarrow> nat" where
  "loopback_frame_size lb = fp_frame_size (lb_pool lb)"

definition loopback_drop :: "packet_buf \<Rightarrow> loopback \<Rightarrow> loopback option" where
  "loopback_drop b lb = do {
     pool \<leftarrow> drop_buf b (lb_pool lb);
     Some (lb\<lparr>lb_pool := pool\<rparr>)
   }"

definition loopback_ops :: "loopback device_ops" where
  "loopback_ops = \<lparr>dv_poll_at = default_poll_at, dv_recv = loopback_recv, dv_send = loopback_send,
     dv_alloc = loopback_alloc, dv_frame_size = loopback_frame_size, dv_drop = loopback_drop\<rparr>"

section \<open>Invariant and abstract queue\<close>

definition lb_slots :: "loopback \<Rightarrow> nat" where
  "lb_slots lb = length (lb_free_slots lb) + length (lb_rx lb)"

definition lb_inv :: "loopback \<Rightarrow> bool" where
  "lb_inv lb \<longleftrightarrow> length (lb_arena lb) = lb_slots lb * fp_frame_size (lb_pool lb) \<and>
     mset (lb_free_slots lb) + mset (map fst (lb_rx lb)) = mset_set {..<lb_slots lb} \<and>
     list_all (\<lambda>(slot, len). len \<le> fp_frame_size (lb_pool lb)) (lb_rx lb)"

definition lb_packet :: "loopback \<Rightarrow> nat \<times> nat \<Rightarrow> bytes" where
  "lb_packet lb = (\<lambda>(slot, len).
     subslice (slot * fp_frame_size (lb_pool lb)) (slot * fp_frame_size (lb_pool lb) + len) (lb_arena lb))"

definition lb_queue :: "loopback \<Rightarrow> bytes list" where
  "lb_queue lb = map (lb_packet lb) (lb_rx lb)"

definition loopback_held :: "loopback \<Rightarrow> packet_buf multiset \<Rightarrow> bool" where
  "loopback_held lb M \<longleftrightarrow> pool_held (lb_pool lb) M \<and> lb_inv lb"

section \<open>Lemmas\<close>

lemma subslice_patch_same: "at + length src \<le> length b \<Longrightarrow> subslice at (at + length src) (patch at src b) = src"
  by (simp add: patch_def subslice_def)

lemma subslice_patch_other:
  assumes "at + length src \<le> length b" and "j \<le> length b" and "j \<le> at \<or> at + length src \<le> i"
  shows "subslice i j (patch at src b) = subslice i j b"
  using assms by (intro nth_equalityI) (auto simp: nth_patch)

lemma slot_bound: "s < n \<Longrightarrow> len \<le> sz \<Longrightarrow> s * sz + len \<le> n * (sz :: nat)"
proof -
  assume "s < n" "len \<le> sz"
  then have "s * sz + len \<le> (s + 1) * sz"
    by simp
  also have "\<dots> \<le> n * sz"
    using \<open>s < n\<close> by (intro mult_le_mono1) simp
  finally show ?thesis .
qed

lemma slots_disjoint:
  assumes "s \<noteq> t" and "len \<le> sz" and "len' \<le> (sz :: nat)"
  shows "s * sz + len \<le> t * sz \<or> t * sz + len' \<le> s * sz"
proof (cases "s < t")
  case True
  then show ?thesis
    using slot_bound [of s t len sz] assms by simp
next
  case False
  then show ?thesis
    using slot_bound [of t s len' sz] assms by simp
qed

lemma pool_drop_all_wp:
  "pool_held p (mset bs + M) \<Longrightarrow> wp (drop_all pool_drop bs p) (\<lambda>p'. pool_held p' M \<and> same_shape p p')"
proof (induction bs arbitrary: p)
  case (Cons b bs)
  then obtain q where q: "drop_buf b p = Some q" "pool_held q (mset bs + M)" "same_shape p q"
    using pool_held_drop [of p b "mset bs + M"] by (auto simp: wp_eq_Some)
  show ?case
    using q(1) wp_mono [OF Cons.IH [OF q(2)]] same_shape_trans [OF q(3)] by (simp add: pool_drop_def)
qed (simp add: same_shape_def)

lemma drop_all_available:
  "pool_held p (mset bs + M) \<Longrightarrow> drop_all pool_drop bs p = Some p' \<Longrightarrow>
     available p' = available p + length (filter (\<lambda>b. pb_pool b \<noteq> None) bs)"
proof (induction bs arbitrary: p)
  case (Cons b bs)
  then obtain q where q: "drop_buf b p = Some q" "pool_held q (mset bs + M)" "drop_all pool_drop bs q = Some p'"
    using pool_held_drop [of p b "mset bs + M"] by (auto simp: wp_eq_Some pool_drop_def [of p b])
  have "available q = available p + (if pb_pool b \<noteq> None then 1 else 0)"
  proof (cases "pb_pool b = None")
    case False
    then have "pool_inv p" "owned_by p b"
      using pool_held_owned [OF Cons.prems(1), of b] Cons.prems(1) by (simp_all add: pool_held_def)
    then show ?thesis
      using drop_buf_wp q(1) False by fastforce
  qed (use q(1) in \<open>simp add: drop_buf_def\<close>)
  then show ?case
    using Cons.IH [OF q(2,3)] by simp
qed simp

lemma pool_edit_list:
  assumes "pool_held p (mset bs + M)" and "list_all2 (\<lambda>b b'. same_frame b b' \<and> pb_inv b') bs bs'"
  shows "pool_held p (mset bs' + M)"
  using assms(2,1)
proof (induction bs bs' arbitrary: M rule: list_all2_induct)
  case (Cons b bs b' bs')
  then have "pool_held p (add_mset b (mset bs' + M))"
    using Cons.IH [of "add_mset b M"] by (simp add: add_mset_commute)
  then show ?case
    using pool_held_edit Cons.hyps(1) by simp
qed simp

lemma lb_inv_slot:
  assumes "lb_inv lb" and "s \<in> set (lb_free_slots lb) \<union> fst ` set (lb_rx lb)"
  shows "s < lb_slots lb"
proof -
  have "set_mset (mset (lb_free_slots lb) + mset (map fst (lb_rx lb))) = {..<lb_slots lb}"
    using assms(1) by (simp add: lb_inv_def)
  then show ?thesis
    using assms(2) by auto
qed

lemma lb_inv_pool: "lb_inv lb \<Longrightarrow> fp_frame_size q = fp_frame_size (lb_pool lb) \<Longrightarrow> lb_inv (lb\<lparr>lb_pool := q\<rparr>)"
  by (simp add: lb_inv_def lb_slots_def)

lemma lb_queue_pool: "fp_frame_size q = fp_frame_size (lb_pool lb) \<Longrightarrow> lb_queue (lb\<lparr>lb_pool := q\<rparr>) = lb_queue lb"
  by (simp add: lb_queue_def lb_packet_def)

text \<open>One accepted packet: its slot was free, so no queued packet changes.\<close>

lemma lb_push:
  assumes inv: "lb_inv lb" and free: "lb_free_slots lb \<noteq> []" and len: "length src \<le> fp_frame_size (lb_pool lb)"
  defines "slot \<equiv> last (lb_free_slots lb)"
  defines "base \<equiv> slot * fp_frame_size (lb_pool lb)"
  defines "lb' \<equiv> lb\<lparr>lb_free_slots := butlast (lb_free_slots lb), lb_arena := patch base src (lb_arena lb),
      lb_rx := lb_rx lb @ [(slot, length src)]\<rparr>"
  shows "base + length src \<le> length (lb_arena lb)" and "lb_inv lb'" and "lb_queue lb' = lb_queue lb @ [src]"
proof -
  let ?sz = "fp_frame_size (lb_pool lb)"
  have "slot \<in> set (lb_free_slots lb)"
    using free by (simp add: slot_def)
  then have "slot < lb_slots lb"
    using lb_inv_slot [OF inv] by simp
  then show fits: "base + length src \<le> length (lb_arena lb)"
    using slot_bound [OF _ len, of slot "lb_slots lb"] inv by (simp add: base_def lb_inv_def)
  have split: "lb_free_slots lb = butlast (lb_free_slots lb) @ [slot]"
    using free by (simp add: slot_def)
  have slots: "lb_slots lb' = lb_slots lb"
    using free by (simp add: lb_slots_def lb'_def)
  have perm: "mset (lb_free_slots lb') + mset (map fst (lb_rx lb')) =
      mset (lb_free_slots lb) + mset (map fst (lb_rx lb))"
    by (subst split) (simp add: lb'_def)
  have "length (lb_arena lb') = length (lb_arena lb)" "lb_pool lb' = lb_pool lb"
      "list_all (\<lambda>(slot, len). len \<le> ?sz) (lb_rx lb')"
    using inv fits len by (simp_all add: lb_inv_def lb'_def)
  then show "lb_inv lb'"
    using inv unfolding lb_inv_def slots perm by simp
  have "lb_packet lb' (s, n) = lb_packet lb (s, n)" if "(s, n) \<in> set (lb_rx lb)" for s n
  proof -
    have "s \<noteq> slot"
    proof
      assume "s = slot"
      then have "2 \<le> count (mset (lb_free_slots lb) + mset (map fst (lb_rx lb))) slot"
        using that \<open>slot \<in> set (lb_free_slots lb)\<close>
        by (metis One_nat_def Suc_1 add_mono_thms_linordered_semiring(1) count_greater_eq_one_iff count_union
            fst_conv image_eqI list.set_map nat_1_add_1 set_mset_mset)
      moreover have "mset (lb_free_slots lb) + mset (map fst (lb_rx lb)) = mset_set {..<lb_slots lb}"
        using inv by (simp add: lb_inv_def)
      moreover have "count (mset_set {..<lb_slots lb}) slot \<le> 1"
        by (simp add: count_mset_set')
      ultimately show False
        by (simp only:)
    qed
    moreover have n: "n \<le> ?sz" "s < lb_slots lb"
      using inv that lb_inv_slot [OF inv, of s] by (force simp: lb_inv_def list_all_iff)+
    ultimately have "s * ?sz + n \<le> base \<or> base + length src \<le> s * ?sz"
      using slots_disjoint [of s slot n ?sz "length src"] len by (simp add: base_def)
    moreover have "s * ?sz + n \<le> length (lb_arena lb)"
      using slot_bound [OF n(2,1)] inv by (simp add: lb_inv_def)
    ultimately show ?thesis
      using subslice_patch_other [OF fits] by (simp add: lb_packet_def lb'_def)
  qed
  moreover have "lb_packet lb' (slot, length src) = src"
    using subslice_patch_same [OF fits] by (simp add: lb_packet_def lb'_def base_def)
  ultimately show "lb_queue lb' = lb_queue lb @ [src]"
    by (auto simp: lb_queue_def lb'_def)
qed

lemma lb_send_loop_wp:
  "lb_inv lb \<Longrightarrow> wp (lb_send_loop fs sent lb) (\<lambda>(r, lb'). lb_inv lb' \<and> lb_pool lb' = lb_pool lb \<and>
     (case r of
        Inl e \<Rightarrow> sent = 0 \<and> lb' = lb
      | Inr n \<Rightarrow> \<exists>k \<le> length fs. n = sent + k \<and> lb_queue lb' = lb_queue lb @ map as_slice (take k fs)))"
proof (induction fs arbitrary: sent lb)
  case (Cons frame frames)
  let ?src = "as_slice frame" and ?sz = "fp_frame_size (lb_pool lb)"
  show ?case
  proof (cases "?src = [] \<or> length ?src > ?sz \<or> lb_free_slots lb = []")
    case True
    then show ?thesis
      using Cons.prems by (auto simp: Let_def)
  next
    case False
    then have ok: "lb_free_slots lb \<noteq> []" "length ?src \<le> ?sz"
      by auto
    let ?slot = "last (lb_free_slots lb)"
    let ?arena = "patch (?slot * ?sz) ?src (lb_arena lb)"
    let ?lb = "lb\<lparr>lb_free_slots := butlast (lb_free_slots lb), lb_arena := ?arena,
      lb_rx := lb_rx lb @ [(?slot, length ?src)]\<rparr>"
    note push = lb_push [OF Cons.prems ok]
    have copy: "copy_into (?slot * ?sz) (?slot * ?sz + length ?src) ?src (lb_arena lb) = Some ?arena"
      using push(1) by (simp add: copy_into_def)
    have IH: "wp (lb_send_loop frames (sent + 1) ?lb) (\<lambda>(r, lb'). lb_inv lb' \<and> lb_pool lb' = lb_pool ?lb \<and>
     (case r of
        Inl e \<Rightarrow> sent + 1 = 0 \<and> lb' = ?lb
      | Inr n \<Rightarrow> \<exists>k \<le> length frames. n = sent + 1 + k \<and>
          lb_queue lb' = lb_queue ?lb @ map as_slice (take k frames)))"
      by (rule Cons.IH [OF push(2)])
    have step: "lb_send_loop (frame # frames) sent lb = lb_send_loop frames (sent + 1) ?lb"
      using False copy by (simp add: Let_def)
    show ?thesis
      unfolding step
    proof (rule wp_mono [OF IH], unfold split_paired_all prod.case)
      fix r lb'
      assume a: "lb_inv lb' \<and> lb_pool lb' = lb_pool ?lb \<and> (case r of
        Inl e \<Rightarrow> sent + 1 = 0 \<and> lb' = ?lb
      | Inr n \<Rightarrow> \<exists>k \<le> length frames. n = sent + 1 + k \<and>
          lb_queue lb' = lb_queue ?lb @ map as_slice (take k frames))"
      then obtain n k where n: "r = Inr n" "k \<le> length frames" "n = sent + 1 + k"
          "lb_queue lb' = (lb_queue lb @ [?src]) @ map as_slice (take k frames)"
        unfolding push(3) by (cases r) auto
      then show "lb_inv lb' \<and> lb_pool lb' = lb_pool lb \<and> (case r of
          Inl e \<Rightarrow> sent = 0 \<and> lb' = lb
        | Inr n \<Rightarrow> \<exists>k \<le> length (frame # frames). n = sent + k \<and>
            lb_queue lb' = lb_queue lb @ map as_slice (take k (frame # frames)))"
        using a by (auto intro!: exI [of _ "Suc k"])
    qed
  qed
qed simp

lemma lb_copy_out_wp:
  assumes inv: "lb_inv lb" and rx: "lb_rx lb \<noteq> []" and b: "pb_inv b" "pb_capacity b = fp_frame_size (lb_pool lb)"
    and empty: "pb_len b = 0"
  shows "wp (lb_copy_out b lb) (\<lambda>(b', lb'). pb_inv b' \<and> same_frame b b' \<and> as_slice b' = hd (lb_queue lb) \<and>
    lb_inv lb' \<and> lb_pool lb' = lb_pool lb \<and> lb_queue lb' = tl (lb_queue lb))"
proof -
  let ?sz = "fp_frame_size (lb_pool lb)"
  obtain slot len rest where e: "lb_rx lb = (slot, len) # rest"
    using rx by (cases "lb_rx lb") auto
  have bound: "len \<le> ?sz" "slot < lb_slots lb"
    using inv lb_inv_slot [OF inv, of slot] by (auto simp: e lb_inv_def)
  let ?off = "if len > tail_capacity b then 0 else pb_data_offset b"
  let ?src = "lb_packet lb (slot, len)"
  let ?b = "b\<lparr>pb_data_offset := ?off, pb_mem := patch ?off ?src (pb_mem b), pb_len := len\<rparr>"
  let ?lb = "lb\<lparr>lb_rx := rest, lb_free_slots := lb_free_slots lb @ [slot]\<rparr>"
  have base: "slot * ?sz + len \<le> length (lb_arena lb)"
    using slot_bound [OF bound(2,1)] inv by (simp add: lb_inv_def)
  then have src: "slice_of (slot * ?sz) (slot * ?sz + len) (lb_arena lb) = Some ?src" "length ?src = len"
    by (simp_all add: slice_of_def lb_packet_def)
  have off: "?off + len \<le> pb_capacity b" "length (pb_mem b) = pb_capacity b"
    using b bound by (auto simp: tail_capacity_def pb_inv_def)
  have "lb_copy_out b lb = Some (?b, ?lb)"
    using e src off b empty
    by (cases "len > tail_capacity b")
      (simp_all add: lb_copy_out_def set_headroom_def set_len_def rust_assert_def copy_into_def
        tail_capacity_def)
  moreover have "pb_inv ?b" "same_frame b ?b"
    using off src(2) by (simp_all add: pb_inv_def same_frame_def)
  moreover have "as_slice ?b = ?src"
    using off src(2) subslice_patch_same [of ?off ?src "pb_mem b"] by (simp add: as_slice_def)
  moreover have "lb_inv ?lb"
    using inv by (simp add: lb_inv_def lb_slots_def e)
  moreover have "lb_queue lb = ?src # lb_queue ?lb"
    by (simp add: lb_queue_def lb_packet_def e)
  ultimately show ?thesis
    by simp
qed

lemma lb_fill_wp:
  "lb_inv lb \<Longrightarrow> length bufs \<le> length (lb_rx lb) \<Longrightarrow>
   list_all (\<lambda>b. pb_inv b \<and> pb_capacity b = fp_frame_size (lb_pool lb) \<and> pb_len b = 0) bufs \<Longrightarrow>
   wp (lb_fill bufs lb) (\<lambda>(bufs', lb'). list_all2 (\<lambda>b b'. same_frame b b' \<and> pb_inv b') bufs bufs' \<and>
     map as_slice bufs' = take (length bufs) (lb_queue lb) \<and> lb_inv lb' \<and> lb_pool lb' = lb_pool lb \<and>
     lb_queue lb' = drop (length bufs) (lb_queue lb))"
proof (induction bufs arbitrary: lb)
  case (Cons b bufs)
  then have ne: "lb_rx lb \<noteq> []"
    by auto
  obtain b' lb1 where c: "lb_copy_out b lb = Some (b', lb1)" "pb_inv b'" "same_frame b b'"
      "as_slice b' = hd (lb_queue lb)" "lb_inv lb1" "lb_pool lb1 = lb_pool lb" "lb_queue lb1 = tl (lb_queue lb)"
    using lb_copy_out_wp [OF Cons.prems(1) ne, of b] Cons.prems(3) by (auto simp: wp_eq_Some)
  have q: "lb_queue lb = hd (lb_queue lb) # tl (lb_queue lb)"
    using ne by (simp add: lb_queue_def)
  have "length (lb_rx lb1) = length (lb_rx lb) - 1"
    using arg_cong [OF c(7), of length] by (simp add: lb_queue_def)
  then have "length bufs \<le> length (lb_rx lb1)"
    using Cons.prems(2) by simp
  moreover have "list_all (\<lambda>b. pb_inv b \<and> pb_capacity b = fp_frame_size (lb_pool lb1) \<and> pb_len b = 0) bufs"
    using Cons.prems(3) c(6) by simp
  ultimately obtain bufs' lb2 where r: "lb_fill bufs lb1 = Some (bufs', lb2)"
      "list_all2 (\<lambda>b b'. same_frame b b' \<and> pb_inv b') bufs bufs'"
      "map as_slice bufs' = take (length bufs) (lb_queue lb1)" "lb_inv lb2" "lb_pool lb2 = lb_pool lb1"
      "lb_queue lb2 = drop (length bufs) (lb_queue lb1)"
    using Cons.IH [OF c(5)] by (auto simp: wp_eq_Some)
  have "take (length (b # bufs)) (lb_queue lb) = hd (lb_queue lb) # take (length bufs) (tl (lb_queue lb))"
       "drop (length (b # bufs)) (lb_queue lb) = drop (length bufs) (tl (lb_queue lb))"
    by (subst q, simp)+
  then show ?case
    using c r by simp
qed simp

section \<open>The device contract\<close>

lemma loopback_recv_wp:
  assumes "loopback_held lb (mset out + M)"
  shows "wp (loopback_recv k out lb) (\<lambda>(r, out', lb'). loopback_held lb' (mset out' + M) \<and>
    r = Inr (length out') \<and> length out' \<le> k \<and> map as_slice out' = take (length out') (lb_queue lb) \<and>
    lb_queue lb' = drop (length out') (lb_queue lb) \<and>
    length out' = min (min k (length (lb_queue lb))) (available (lb_pool lb) + length (filter (\<lambda>b. pb_pool b \<noteq> None) out)))"
proof -
  let ?n = "min k (length (lb_rx lb))"
  have inv: "lb_inv lb" and held: "pool_held (lb_pool lb) (mset out + M)"
    using assms by (simp_all add: loopback_held_def)
  obtain p where p: "drop_all pool_drop out (lb_pool lb) = Some p" "pool_held p M" "same_shape (lb_pool lb) p"
    using pool_drop_all_wp [OF held] by (auto simp: wp_eq_Some)
  obtain t bs q where q: "pool_alloc_batch ?n [] p = Some (t, bs, q)" "batch_post ?n p bs q"
    using alloc_batch_loop_wp [of p 0 ?n "[]"] p(2) by (auto simp: wp_eq_Some pool_alloc_batch_def pool_held_def)
  let ?lb = "lb\<lparr>lb_pool := q\<rparr>"
  have sz: "fp_frame_size q = fp_frame_size (lb_pool lb)"
    using p(3) q(2) by (simp add: batch_post_def same_shape_def)
  have bs: "list_all (\<lambda>b. pb_inv b \<and> pb_capacity b = fp_frame_size (lb_pool ?lb) \<and> pb_len b = 0) bs"
      "length bs = min ?n (available p)"
    using q(2) by (auto simp: batch_post_def list_all_iff owned_by_def)
  have le: "length bs \<le> length (lb_rx ?lb)"
    by (simp add: bs(2))
  obtain out' lb' where f: "lb_fill bs ?lb = Some (out', lb')"
      "list_all2 (\<lambda>b b'. same_frame b b' \<and> pb_inv b') bs out'" "map as_slice out' = take (length bs) (lb_queue lb)"
      "lb_inv lb'" "lb_pool lb' = q" "lb_queue lb' = drop (length bs) (lb_queue lb)"
    using lb_fill_wp [OF lb_inv_pool [OF inv sz] le bs(1)] lb_queue_pool [OF sz]
    by (auto simp: wp_eq_Some)
  have len: "length out' = length bs"
    using f(2) by (simp add: list_all2_lengthD)
  have "pool_held q (mset out' + M)"
    using pool_held_batch [OF p(2) q(2)] f(2) pool_edit_list by blast
  moreover have "available p = available (lb_pool lb) + length (filter (\<lambda>b. pb_pool b \<noteq> None) out)"
    using drop_all_available [OF held p(1)] .
  ultimately show ?thesis
    using p q f len bs(2) by (auto simp: loopback_recv_def loopback_held_def lb_queue_def)
qed

lemma loopback_send_wp:
  assumes "loopback_held lb (mset fs + M)"
  shows "wp (loopback_send fs lb) (\<lambda>(r, fs', lb'). case r of
      Inl e \<Rightarrow> fs' = fs \<and> lb' = lb
    | Inr n \<Rightarrow> n \<le> length fs \<and> fs' = replicate n empty_buf @ drop n fs \<and>
        loopback_held lb' (mset (drop n fs) + M) \<and> lb_queue lb' = lb_queue lb @ map as_slice (take n fs))"
proof -
  have inv: "lb_inv lb" and held: "pool_held (lb_pool lb) (mset fs + M)"
    using assms by (simp_all add: loopback_held_def)
  obtain r lb1 where s: "lb_send_loop fs 0 lb = Some (r, lb1)" "lb_inv lb1" "lb_pool lb1 = lb_pool lb"
      "case r of Inl e \<Rightarrow> (0 :: nat) = 0 \<and> lb1 = lb
       | Inr n \<Rightarrow> \<exists>k \<le> length fs. n = 0 + k \<and> lb_queue lb1 = lb_queue lb @ map as_slice (take k fs)"
    using lb_send_loop_wp [OF inv, of fs 0] unfolding wp_eq_Some by blast
  show ?thesis
  proof (cases r)
    case (Inl e)
    then show ?thesis
      using s by (simp add: loopback_send_def)
  next
    case (Inr n)
    have "mset fs = mset (take n fs) + mset (drop n fs)"
      by (metis append_take_drop_id mset_append)
    then have "pool_held (lb_pool lb1) (mset (take n fs) + (mset (drop n fs) + M))"
      using held s(3) by (simp add: add.assoc)
    then obtain p where p: "drop_all pool_drop (take n fs) (lb_pool lb1) = Some p"
        "pool_held p (mset (drop n fs) + M)" "same_shape (lb_pool lb1) p"
      using pool_drop_all_wp by (fastforce simp: wp_eq_Some)
    have sz: "fp_frame_size p = fp_frame_size (lb_pool lb1)"
      using p(3) by (simp add: same_shape_def)
    show ?thesis
      using s Inr p lb_inv_pool [OF s(2) sz] lb_queue_pool [OF sz]
      by (simp add: loopback_send_def recycle_frames_def loopback_held_def min_absorb2)
  qed
qed

interpretation lbk: device loopback_ops loopback_held
proof
  fix d :: loopback and M b b' out fs k now
  show "loopback_held d M \<Longrightarrow> b \<in># M \<Longrightarrow> pb_inv b"
    by (auto simp: loopback_held_def intro: pool_held_inv)
  show "loopback_held d (add_mset empty_buf M) = loopback_held d M"
    by (simp add: loopback_held_def pool_held_empty)
  show "loopback_held d (add_mset b M) \<Longrightarrow> same_frame b b' \<Longrightarrow> pb_inv b' \<Longrightarrow> loopback_held d (add_mset b' M)"
    by (auto simp: loopback_held_def intro: pool_held_edit)
  show "loopback_held d M \<Longrightarrow> wp (dv_poll_at loopback_ops now d) (\<lambda>(r, d'). loopback_held d' M)"
    by (simp add: loopback_ops_def default_poll_at_def)
  show "loopback_held d (mset out + M) \<Longrightarrow> wp (dv_recv loopback_ops k out d) (\<lambda>(r, out', d').
      loopback_held d' (mset out' + M) \<and> (case r of Inl e \<Rightarrow> True | Inr n \<Rightarrow> n = length out' \<and> n \<le> k))"
    by (simp add: loopback_ops_def) (drule loopback_recv_wp [of _ _ _ k], auto elim!: wp_mono)
  show "loopback_held d (mset fs + M) \<Longrightarrow> wp (dv_send loopback_ops fs d) (\<lambda>(r, fs', d'). case r of
      Inl e \<Rightarrow> fs' = fs \<and> loopback_held d' (mset fs + M)
    | Inr n \<Rightarrow> n \<le> length fs \<and> fs' = replicate n empty_buf @ drop n fs \<and>
        loopback_held d' (mset (drop n fs) + M))"
    by (frule loopback_send_wp) (auto simp: loopback_ops_def elim!: wp_mono split: sum.splits)
  show "loopback_held d M \<Longrightarrow> wp (dv_alloc loopback_ops d) (\<lambda>(r, d').
      case r of None \<Rightarrow> loopback_held d' M | Some b \<Rightarrow> loopback_held d' (add_mset b M) \<and> pb_len b = 0)"
  proof -
    assume h: "loopback_held d M"
    then obtain r p where p: "pool_alloc (lb_pool d) = Some (r, p)" "same_shape (lb_pool d) p" "case r of
        None \<Rightarrow> pool_held p M | Some i \<Rightarrow> wp (packet_buf i 0 p) (\<lambda>b. pool_held p (add_mset b M) \<and> pb_len b = 0)"
      using pool_held_alloc [of "lb_pool d" M] by (auto simp: loopback_held_def wp_eq_Some)
    moreover have "lb_inv (d\<lparr>lb_pool := p\<rparr>)"
      using h p(2) by (intro lb_inv_pool) (simp_all add: loopback_held_def same_shape_def)
    ultimately show ?thesis
      by (cases r) (auto simp: loopback_ops_def loopback_alloc_def loopback_held_def wp_eq_Some)
  qed
  show "loopback_held d (add_mset b M) \<Longrightarrow> wp (dv_drop loopback_ops b d) (\<lambda>d'. loopback_held d' M)"
  proof -
    assume h: "loopback_held d (add_mset b M)"
    then obtain p where p: "drop_buf b (lb_pool d) = Some p" "pool_held p M" "same_shape (lb_pool d) p"
      using pool_held_drop [of "lb_pool d" b M] by (auto simp: loopback_held_def wp_eq_Some)
    moreover have "lb_inv (d\<lparr>lb_pool := p\<rparr>)"
      using h p(3) by (intro lb_inv_pool) (simp_all add: loopback_held_def same_shape_def)
    ultimately show ?thesis
      by (simp add: loopback_ops_def loopback_drop_def loopback_held_def)
  qed
qed

lemma pool_held_build: "pool_held (pool_build pid sz n) {#}"
proof -
  have "free_frames (pool_build pid sz n) = {..<n}" "fp_num_frames (pool_build pid sz n) = n"
    by (auto simp: free_frames_def pool_build_def)
  then show ?thesis
    by (simp add: pool_held_def pool_inv_build real_handles_def)
qed

lemma loopback_with_capacity_held:
  assumes "loopback_with_capacity pid frames slots = Some lb"
  shows "loopback_held lb {#}" and "lb_queue lb = []"
proof -
  have lb: "lb = \<lparr>lb_pool = pool_build pid 2048 frames, lb_arena = replicate (slots * 2048) 0,
      lb_free_slots = rev [0..<slots], lb_rx = [], lb_dropped = 0\<rparr>"
    using assms by (auto simp: loopback_with_capacity_def pool_new_def rust_assert_def split: if_splits)
  have "mset [0..<slots] = mset_set {..<slots}"
    by (metis atLeast_upt distinct_upt mset_set_set)
  then show "loopback_held lb {#}" and "lb_queue lb = []"
    using pool_held_build [of pid 2048 frames]
    by (simp_all add: lb loopback_held_def lb_inv_def lb_slots_def lb_queue_def pool_build_def)
qed

section \<open>Properties\<close>

text \<open>
  C6. The loopback device implements a FIFO queue of packets over exclusively owned frames. \<open>send\<close>
  appends exactly the packets of the accepted prefix, empties those handles and leaves the others to
  the caller, or fails and changes nothing; \<open>recv\<close> first releases the previous batch and then removes
  from the front exactly the packets it returns, in order. Neither panics, and no frame is lost.
\<close>

theorem loopback_refines_fifo:
  assumes "loopback_held lb (mset fs + mset out + M)"
  shows "(\<exists>r fs' lb'. loopback_send fs lb = Some (r, fs', lb') \<and> (case r of
      Inl e \<Rightarrow> fs' = fs \<and> lb' = lb
    | Inr n \<Rightarrow> n \<le> length fs \<and> fs' = replicate n empty_buf @ drop n fs \<and>
        loopback_held lb' (mset (drop n fs) + mset out + M) \<and>
        lb_queue lb' = lb_queue lb @ map as_slice (take n fs))) \<and>
    (\<exists>out' lb'. loopback_recv k out lb = Some (Inr (length out'), out', lb') \<and> length out' \<le> k \<and>
       loopback_held lb' (mset out' + mset fs + M) \<and> lb_queue lb = map as_slice out' @ lb_queue lb')"
proof
  have "wp (loopback_send fs lb) (\<lambda>(r, fs', lb'). case r of
      Inl e \<Rightarrow> fs' = fs \<and> lb' = lb
    | Inr n \<Rightarrow> n \<le> length fs \<and> fs' = replicate n empty_buf @ drop n fs \<and>
        loopback_held lb' (mset (drop n fs) + (mset out + M)) \<and> lb_queue lb' = lb_queue lb @ map as_slice (take n fs))"
    using assms by (intro loopback_send_wp) (simp add: add.assoc)
  then show "\<exists>r fs' lb'. loopback_send fs lb = Some (r, fs', lb') \<and> (case r of
      Inl e \<Rightarrow> fs' = fs \<and> lb' = lb
    | Inr n \<Rightarrow> n \<le> length fs \<and> fs' = replicate n empty_buf @ drop n fs \<and>
        loopback_held lb' (mset (drop n fs) + mset out + M) \<and>
        lb_queue lb' = lb_queue lb @ map as_slice (take n fs))"
    unfolding wp_eq_Some add.assoc by auto
  have "loopback_held lb (mset out + (mset fs + M))"
    using assms by (simp add: add_ac)
  then obtain out' lb' where "loopback_recv k out lb = Some (Inr (length out'), out', lb')"
      "loopback_held lb' (mset out' + (mset fs + M))" "length out' \<le> k"
      "map as_slice out' = take (length out') (lb_queue lb)" "lb_queue lb' = drop (length out') (lb_queue lb)"
    using loopback_recv_wp [of lb out "mset fs + M" k] by (auto simp: wp_eq_Some)
  then show "\<exists>out' lb'. loopback_recv k out lb = Some (Inr (length out'), out', lb') \<and> length out' \<le> k \<and>
       loopback_held lb' (mset out' + mset fs + M) \<and> lb_queue lb = map as_slice out' @ lb_queue lb'"
    by (auto simp: add.assoc)
qed

theorem loopback_refines_fifo_witness:
  "\<exists>out' lb'. loopback_recv 3 [] \<lparr>lb_pool = pool_build 0 4 2, lb_arena = [7, 8, 0, 0], lb_free_slots = [],
       lb_rx = [(0, 2)], lb_dropped = 0\<rparr> = Some (Inr (length out'), out', lb') \<and>
     [[7, 8]] = map as_slice out' @ lb_queue lb'"
proof -
  let ?lb = "\<lparr>lb_pool = pool_build 0 4 2, lb_arena = [7, 8, 0, 0], lb_free_slots = [], lb_rx = [(0, 2)],
    lb_dropped = 0\<rparr>"
  have "loopback_held ?lb (mset [] + mset [] + {#})"
    using pool_held_build [of 0 4 2]
    by (simp add: loopback_held_def lb_inv_def lb_slots_def pool_build_def lessThan_Suc)
  moreover have "lb_queue ?lb = [[7, 8]]"
    by (simp add: lb_queue_def lb_packet_def subslice_def)
  ultimately show ?thesis
    using loopback_refines_fifo [of ?lb "[]" "[]" "{#}" 3] by auto
qed

end
