(* ===== verification/Eth_Ipv4_Props.thy ===== *)
theory Eth_Ipv4_Props
  imports Eth_Ipv4 Loopback
begin

text \<open>
  The invariant of the Ethernet adapter and its properties. The client lemmas are proved once for any
  device that satisfies the contract \<open>device\<close>; the adapter is shown to satisfy the same contract, and is
  interpreted over the loopback device.
\<close>

section \<open>Invariant\<close>

text \<open>A frame with room for the Ethernet header in front and the minimum frame behind.\<close>

definition framable :: "packet_buf \<Rightarrow> bool" where
  "framable f \<longleftrightarrow> 14 \<le> pb_data_offset f \<and> 60 \<le> tail_capacity f + 14"

definition neighbor_wf :: "interface_config \<Rightarrow> neighbor_state \<Rightarrow> bool" where
  "neighbor_wf cfg n =
     (case n of
        NStatic m \<Rightarrow> length m = 6
      | NReachable m _ \<Rightarrow> length m = 6
      | NResolving attempts _ _ \<Rightarrow> attempts \<le> ic_max_arp_attempts cfg
      | NFailed _ \<Rightarrow> True)"

definition tables_inv :: "interface_config \<Rightarrow> route_table \<Rightarrow> (ipv4addr, neighbor_state) btree_map \<Rightarrow> bool" where
  "tables_inv cfg routes neighbors \<longleftrightarrow> length (ic_mac cfg) = 6 \<and> 0 < ic_neighbor_ttl cfg \<and>
     0 < ic_failed_retry_delay cfg \<and> route_table_inv routes \<and> rtb_limit routes = ic_route_capacity cfg \<and> bt_inv neighbors \<and> length neighbors \<le> ic_neighbor_capacity cfg \<and>
     list_all (\<lambda>e. neighbor_wf cfg (snd e)) neighbors"

text \<open>Reconfiguring changes the address and the prefix, never a capacity or a timer.\<close>

definition same_limits :: "interface_config \<Rightarrow> interface_config \<Rightarrow> bool" where
  "same_limits cfg cfg' \<longleftrightarrow> cfg' = cfg\<lparr>ic_address := ic_address cfg', ic_prefix_len := ic_prefix_len cfg'\<rparr>"

lemma same_limits_simps [simp]:
  "same_limits cfg cfg" "same_limits cfg (cfg\<lparr>ic_address := a, ic_prefix_len := p\<rparr>)"
  by (simp_all add: same_limits_def)

lemma same_limits_trans:
  assumes "same_limits a b" and "same_limits b c"
  shows "same_limits a c"
proof -
  have "c = b\<lparr>ic_address := ic_address c, ic_prefix_len := ic_prefix_len c\<rparr>"
      "b = a\<lparr>ic_address := ic_address b, ic_prefix_len := ic_prefix_len b\<rparr>"
    using assms unfolding same_limits_def by blast+
  then have "c = (a\<lparr>ic_address := ic_address b, ic_prefix_len := ic_prefix_len b\<rparr>)\<lparr>ic_address := ic_address c, ic_prefix_len := ic_prefix_len c\<rparr>"
    by metis
  then show ?thesis
    unfolding same_limits_def by simp
qed

definition hop_count :: "ipv4addr \<Rightarrow> pending list \<Rightarrow> nat" where
  "hop_count hop ps = length (filter (\<lambda>p. pd_next_hop p = hop) ps)"

definition queues_inv ::
  "interface_config \<Rightarrow> pending list \<Rightarrow> packet_buf list \<Rightarrow> packet_buf list \<Rightarrow> packet_buf option \<Rightarrow> bool"
where
  "queues_inv cfg pending ready control spare \<longleftrightarrow>
     length pending + length ready \<le> ic_tx_capacity cfg \<and>
     (\<forall>hop. hop_count hop pending \<le> ic_per_neighbor_capacity cfg) \<and>
     list_all (\<lambda>p. framable (pd_frame p)) pending \<and>
     length control \<le> ic_control_capacity cfg \<and> list_all (\<lambda>f. 14 \<le> pb_len f) control \<and>
     (case spare of None \<Rightarrow> True | Some f \<Rightarrow> framable f)"

definition ei_inv :: "'d eth_ipv4 \<Rightarrow> bool" where
  "ei_inv i \<longleftrightarrow> tables_inv (ei_config i) (ei_routes i) (ei_neighbors i) \<and>
     queues_inv (ei_config i) (ei_pending i) (ei_ready i) (ei_control i) (ei_control_spare i) \<and>
     length (ei_events i) \<le> ic_event_capacity (ei_config i)"

text \<open>
  Every waiting packet waits for a resolution in progress (\<open>ei_resolving\<close>, between operations) or for a
  neighbor that has just been resolved (\<open>ei_waiting\<close>, inside them). At the very end of the clock, where
  deadlines saturate, nothing is claimed.
\<close>

definition hop_resolving :: "(ipv4addr, neighbor_state) btree_map \<Rightarrow> ipv4addr \<Rightarrow> bool" where
  "hop_resolving neighbors hop = (case bt_get neighbors hop of None \<Rightarrow> False | Some n \<Rightarrow> is_resolving n)"

definition hop_waiting :: "duration \<Rightarrow> (ipv4addr, neighbor_state) btree_map \<Rightarrow> ipv4addr \<Rightarrow> bool" where
  "hop_waiting now neighbors hop =
     (case bt_get neighbors hop of None \<Rightarrow> False | Some n \<Rightarrow> is_resolving n \<or> neighbor_mac n now \<noteq> None)"

definition ei_resolving :: "'d eth_ipv4 \<Rightarrow> bool" where
  "ei_resolving i \<longleftrightarrow> (ei_now i < duration_max \<longrightarrow>
     list_all (\<lambda>p. hop_resolving (ei_neighbors i) (pd_next_hop p)) (ei_pending i))"

definition ei_waiting :: "'d eth_ipv4 \<Rightarrow> bool" where
  "ei_waiting i \<longleftrightarrow> (ei_now i < duration_max \<longrightarrow>
     list_all (\<lambda>p. hop_waiting (ei_now i) (ei_neighbors i) (pd_next_hop p)) (ei_pending i))"

text \<open>An entry whose time has not run out: what \<open>ei_advance\<close> leaves in the table.\<close>

definition neighbor_fresh :: "duration \<Rightarrow> neighbor_state \<Rightarrow> bool" where
  "neighbor_fresh now n =
     (case n of
        NStatic _ \<Rightarrow> True
      | NReachable _ expires \<Rightarrow> now < expires
      | NResolving _ _ expires \<Rightarrow> now < expires
      | NFailed retry_after \<Rightarrow> now < retry_after)"

definition hop_fresh :: "duration \<Rightarrow> (ipv4addr, neighbor_state) btree_map \<Rightarrow> ipv4addr \<Rightarrow> bool" where
  "hop_fresh now neighbors hop =
     (case bt_get neighbors hop of None \<Rightarrow> True | Some n \<Rightarrow> now < duration_max \<longrightarrow> neighbor_fresh now n)"

text \<open>What the validation of \<open>ei_send\<close> establishes for a frame.\<close>

definition sendable :: "'d eth_ipv4 \<Rightarrow> packet_buf \<Rightarrow> bool" where
  "sendable i f \<longleftrightarrow> framable f \<and> 20 \<le> pb_len f \<and>
     (let destination = ip_of_octets (subslice 16 20 (as_slice f)) in
      cfg_broadcast (ei_config i) destination \<or> route_lookup (ei_routes i) destination \<noteq> None)"

text \<open>The handles the adapter owns.\<close>

definition ei_frames :: "'d eth_ipv4 \<Rightarrow> packet_buf multiset" where
  "ei_frames i = image_mset pd_frame (mset (ei_pending i)) + mset (ei_ready i) + mset (ei_control i)
     + (case ei_control_spare i of None \<Rightarrow> {#} | Some f \<Rightarrow> {#f#}) + mset (ei_rx i)"

definition eth_held ::
  "('d \<Rightarrow> packet_buf multiset \<Rightarrow> bool) \<Rightarrow> 'd eth_ipv4 \<Rightarrow> packet_buf multiset \<Rightarrow> bool"
where
  "eth_held held i M \<longleftrightarrow> ei_inv i \<and> ei_resolving i \<and> held (ei_device i) (ei_frames i + M)"

definition ei_ok ::
  "('d \<Rightarrow> packet_buf multiset \<Rightarrow> bool) \<Rightarrow> 'd eth_ipv4 \<Rightarrow> packet_buf multiset \<Rightarrow> bool"
where
  "ei_ok held i M \<longleftrightarrow> ei_inv i \<and> ei_waiting i \<and> held (ei_device i) (ei_frames i + M)"

text \<open>What the internal operations leave alone. Static entries are never overwritten.\<close>

definition keeps_static ::
  "(ipv4addr, neighbor_state) btree_map \<Rightarrow> (ipv4addr, neighbor_state) btree_map \<Rightarrow> bool"
where
  "keeps_static m m' \<longleftrightarrow> (\<forall>ip s. bt_get m ip = Some (NStatic s) \<longrightarrow> bt_get m' ip = Some (NStatic s))"

definition ei_same :: "'d eth_ipv4 \<Rightarrow> 'd eth_ipv4 \<Rightarrow> bool" where
  "ei_same i j \<longleftrightarrow> ei_config j = ei_config i \<and> ei_now j = ei_now i \<and> ei_configured j = ei_configured i \<and>
     ei_routes j = ei_routes i \<and> keeps_static (ei_neighbors i) (ei_neighbors j)"

definition ei_same_work :: "'d eth_ipv4 \<Rightarrow> 'd eth_ipv4 \<Rightarrow> bool" where
  "ei_same_work i j \<longleftrightarrow> ei_same i j \<and> ei_neighbors j = ei_neighbors i \<and> ei_pending j = ei_pending i"

section \<open>Events and counters\<close>

lemma ei_event_simps [simp]:
  "ei_device (ei_event e i) = ei_device i" "ei_config (ei_event e i) = ei_config i"
  "ei_configured (ei_event e i) = ei_configured i" "ei_routes (ei_event e i) = ei_routes i"
  "ei_neighbors (ei_event e i) = ei_neighbors i" "ei_pending (ei_event e i) = ei_pending i"
  "ei_ready (ei_event e i) = ei_ready i" "ei_control (ei_event e i) = ei_control i"
  "ei_control_spare (ei_event e i) = ei_control_spare i" "ei_rx (ei_event e i) = ei_rx i"
  "ei_now (ei_event e i) = ei_now i" "ei_stats (ei_event e i) = ei_stats i"
  "ei_layout (ei_event e i) = ei_layout i" "ei_flushes (ei_event e i) = ei_flushes i"
  by (simp_all add: ei_event_def Let_def)

lemma count_stat_simps [simp]:
  "ei_device (count_stat f n i) = ei_device i" "ei_config (count_stat f n i) = ei_config i"
  "ei_configured (count_stat f n i) = ei_configured i" "ei_routes (count_stat f n i) = ei_routes i"
  "ei_neighbors (count_stat f n i) = ei_neighbors i" "ei_pending (count_stat f n i) = ei_pending i"
  "ei_ready (count_stat f n i) = ei_ready i" "ei_control (count_stat f n i) = ei_control i"
  "ei_control_spare (count_stat f n i) = ei_control_spare i" "ei_rx (count_stat f n i) = ei_rx i"
  "ei_now (count_stat f n i) = ei_now i" "ei_events (count_stat f n i) = ei_events i"
  "ei_layout (count_stat f n i) = ei_layout i" "ei_flushes (count_stat f n i) = ei_flushes i"
  by (simp_all add: count_stat_def)

lemma ei_event_update [simp]:
  "(ei_event e i)\<lparr>ei_ready := fs\<rparr> = ei_event e (i\<lparr>ei_ready := fs\<rparr>)"
  "(ei_event e i)\<lparr>ei_pending := ps\<rparr> = ei_event e (i\<lparr>ei_pending := ps\<rparr>)"
  by (simp_all add: ei_event_def Let_def)

lemma length_ei_event:
  "length (ei_events i) \<le> ic_event_capacity (ei_config i) \<Longrightarrow>
     length (ei_events (ei_event e i)) \<le> ic_event_capacity (ei_config i)"
  by (auto simp: ei_event_def Let_def)

lemma ei_inv_event [simp]: "ei_inv i \<Longrightarrow> ei_inv (ei_event e i)"
  using length_ei_event [of i e] by (simp add: ei_inv_def)

lemma ei_inv_count [simp]: "ei_inv (count_stat f n i) = ei_inv i"
  by (simp add: ei_inv_def)

lemma ei_frames_event [simp]: "ei_frames (ei_event e i) = ei_frames i"
  "ei_frames (count_stat f n i) = ei_frames i"
  by (simp_all add: ei_frames_def)

lemma ei_waiting_event [simp]: "ei_waiting (ei_event e i) = ei_waiting i"
  "ei_waiting (count_stat f n i) = ei_waiting i" "ei_resolving (ei_event e i) = ei_resolving i"
  "ei_resolving (count_stat f n i) = ei_resolving i"
  by (simp_all add: ei_waiting_def ei_resolving_def)

lemma ei_ok_event [simp]: "ei_ok h i M \<Longrightarrow> ei_ok h (ei_event e i) M"
  "ei_ok h (count_stat f n i) M = ei_ok h i M"
  by (simp_all add: ei_ok_def)

lemma eth_held_event [simp]: "eth_held h i M \<Longrightarrow> eth_held h (ei_event e i) M"
  "eth_held h (count_stat f n i) M = eth_held h i M"
  by (simp_all add: eth_held_def)

lemma keeps_static_refl [simp]: "keeps_static m m"
  by (simp add: keeps_static_def)

lemma keeps_static_trans: "keeps_static l m \<Longrightarrow> keeps_static m n \<Longrightarrow> keeps_static l n"
  by (simp add: keeps_static_def)

lemma keeps_static_update:
  assumes "bt_inv m"
  shows "keeps_static m (bt_insert ip n m) \<longleftrightarrow> (\<forall>s. bt_get m ip = Some (NStatic s) \<longrightarrow> n = NStatic s)"
    and "keeps_static m (bt_remove ip m) \<longleftrightarrow> (\<forall>s. bt_get m ip \<noteq> Some (NStatic s))"
    and "keeps_static m (bt_retain (\<lambda>_ n. \<not> is_resolving n) m)"
  using assms by (auto simp: keeps_static_def bt_simps is_resolving_def)

lemma ei_same_refl [simp]: "ei_same i i" "ei_same_work i i"
  by (simp_all add: ei_same_def ei_same_work_def)

lemma ei_same_event [simp]:
  "ei_same i (ei_event e j) = ei_same i j" "ei_same i (count_stat f n j) = ei_same i j"
  "ei_same_work i (ei_event e j) = ei_same_work i j" "ei_same_work i (count_stat f n j) = ei_same_work i j"
  by (simp_all add: ei_same_def ei_same_work_def)

lemma ei_same_trans: "ei_same i j \<Longrightarrow> ei_same j k \<Longrightarrow> ei_same i k"
  using keeps_static_trans by (auto simp: ei_same_def)

lemma ei_same_work_trans: "ei_same_work i j \<Longrightarrow> ei_same_work j k \<Longrightarrow> ei_same_work i k"
  by (simp add: ei_same_work_def ei_same_def)

lemma resolving_waiting: "ei_resolving i \<Longrightarrow> ei_waiting i"
  by (auto simp: ei_resolving_def ei_waiting_def hop_resolving_def hop_waiting_def list_all_iff
      split: option.splits)

lemma held_ok: "eth_held h i M \<Longrightarrow> ei_ok h i M"
  by (simp add: eth_held_def ei_ok_def resolving_waiting)

section \<open>Frames\<close>

lemma prepare_empty_wp:
  assumes "pb_inv f"
  shows "wp (prepare_empty f) (\<lambda>(r, f'). pb_inv f' \<and> same_frame f f' \<and> pb_len f' = 0 \<and>
    (case r of Inl e \<Rightarrow> True | Inr u \<Rightarrow> framable f'))"
  using assms
  by (auto simp: prepare_empty_def set_len_def set_headroom_def pb_inv_def same_frame_def framable_def
      tail_capacity_def)

lemma arp_frame_wp:
  assumes "pb_inv f" and "framable f" and "arp_wf a" and "length m = 6" and "length (ic_mac cfg) = 6"
  shows "wp (arp_frame cfg a m f) (\<lambda>f'. pb_inv f' \<and> same_frame f f' \<and> 14 \<le> pb_len f')"
proof -
  have "28 \<le> tail_capacity f"
    using assms(2) by (simp add: framable_def)
  then obtain g where g: "set_len 28 f = Some g" "pb_inv g" "same_frame f g" "pb_len g = 28"
      "pb_data_offset g = pb_data_offset f"
    using set_len_wp [OF assms(1)] by (auto simp: wp_eq_Some)
  obtain b where b: "arp_encode a = Some b" "length b = 28"
    using assms(3) arp_encode_eq [OF assms(3)] by (simp add: arp_wf_def)
  have p: "copy_into 0 (length (as_slice g)) b (as_slice g) = Some b"
    using g(2,4) b(2) by (simp add: copy_into_def patch_def)
  obtain k where k: "write_packet 0 b g = Some k" "pb_inv k" "same_frame g k"
      "pb_data_offset k = pb_data_offset g"
    using write_whole_wp [OF g(2), of b] b(2) g(4) by (auto simp: wp_eq_Some)
  have k': "14 \<le> pb_data_offset k" "60 \<le> tail_capacity k + 14"
    using assms(2) g(3,5) k(3,4) by (simp_all add: framable_def tail_capacity_def same_frame_def)
  have "wp (eth_prepend k (ic_mac cfg) m ETH_ARP) (\<lambda>f'. pb_inv f' \<and> same_frame f f' \<and> 14 \<le> pb_len f')"
  proof (rule wp_mono [OF eth_prepend_wp [OF k(2) k' assms(5,4), of ETH_ARP]])
    fix f'
    assume f': "pb_inv f' \<and> same_frame k f' \<and> pb_data_offset f' = pb_data_offset k - 14 \<and>
      as_slice f' = m @ ic_mac cfg @ u16_to_be_bytes ETH_ARP @ as_slice k @ replicate (46 - pb_len k) 0"
    then have "14 \<le> length (as_slice f')" and "length (as_slice f') = pb_len f'"
      using assms(4,5) length_as_slice [of f'] by simp_all
    moreover have "same_frame f f'"
      using f' same_frame_trans [OF same_frame_trans [OF g(3) k(3)]] by blast
    ultimately show "pb_inv f' \<and> same_frame f f' \<and> 14 \<le> pb_len f'"
      using f' by metis
  qed
  then show ?thesis
    using g(1) b(1) p k(1) by (simp add: arp_frame_def)
qed

lemma prepend_framable_wp:
  assumes "pb_inv f" and "framable f" and "length m = 6" and "length s = 6"
  shows "wp (eth_prepend f s m k) (\<lambda>f'. pb_inv f' \<and> same_frame f f')"
  using eth_prepend_wp [OF assms(1) _ _ assms(4,3), of k] assms(2)
  by (auto simp: framable_def elim!: wp_mono)

lemma ipv4_fields_total: "\<exists>r. ipv4_fields b = Some r"
  by (simp add: ipv4_fields_def access_defs)

lemma ipv4_fields_bounds:
  assumes "ipv4_fields b = Some (Some (source, destination, n))"
  shows "20 \<le> length b" and "20 \<le> n" and "n \<le> length b"
    and "destination = ip_of_octets (subslice 16 20 b)" and "source = ip_of_octets (subslice 12 16 b)"
  using assms by (auto simp: ipv4_fields_def access_defs split: if_splits)

lemma ei_device_update [simp]:
  "ei_inv (i\<lparr>ei_device := d\<rparr>) = ei_inv i" "ei_waiting (i\<lparr>ei_device := d\<rparr>) = ei_waiting i"
  "ei_resolving (i\<lparr>ei_device := d\<rparr>) = ei_resolving i" "ei_frames (i\<lparr>ei_device := d\<rparr>) = ei_frames i"
  "ei_same i (j\<lparr>ei_device := d\<rparr>) = ei_same i j" "ei_same_work i (j\<lparr>ei_device := d\<rparr>) = ei_same_work i j"
  by (simp_all add: ei_inv_def ei_waiting_def ei_resolving_def ei_frames_def ei_same_def ei_same_work_def)

lemma mset_take_drop: "mset q = mset (take k q) + mset (drop k q)"
  by (metis append_take_drop_id mset_append)

lemma ex_drop [simp]: "\<exists>m. xs = drop m xs" "\<exists>m. drop n xs = drop m xs"
  by (metis drop0) blast

lemma drop_take_append: "n \<le> length (take k q) \<Longrightarrow> drop n (take k q) @ drop k q = drop n q"
  by (metis append_take_drop_id drop_append diff_is_0_eq drop0)

section \<open>Tables and queues\<close>

lemma bt_contains_get: "bt_contains m k \<longleftrightarrow> bt_get m k \<noteq> None"
  by (simp add: bt_contains_def)

lemma tables_inv_insert:
  assumes "tables_inv cfg r m" and "neighbor_wf cfg v" and "bt_get m k \<noteq> None \<or> length m \<noteq> ic_neighbor_capacity cfg"
  shows "tables_inv cfg r (bt_insert k v m)"
  using assms set_bt_insert [of k v m] btm.bounded_ins [of m _ k v]
  by (fastforce simp: tables_inv_def list_all_iff btm.ok_ins)

lemma tables_inv_filter:
  "tables_inv cfg r m \<Longrightarrow> tables_inv cfg r (bt_remove k m)"
  "tables_inv cfg r m \<Longrightarrow> tables_inv cfg r (bt_retain P m)"
  "tables_inv cfg r m \<Longrightarrow> tables_inv cfg r []"
  by (auto simp: tables_inv_def bt_inv_filter list_all_iff bt_remove_def bt_retain_def
      intro: order.trans [OF length_filter_le])

lemma neighbor_wf_get: "tables_inv cfg r m \<Longrightarrow> bt_get m k = Some n \<Longrightarrow> neighbor_wf cfg n"
  by (force simp: tables_inv_def list_all_iff bt_get_def dest: map_of_SomeD)

lemma neighbor_mac_length: "neighbor_wf cfg n \<Longrightarrow> neighbor_mac n now = Some m \<Longrightarrow> length m = 6"
  by (cases n) (simp_all add: neighbor_wf_def neighbor_mac_def split: if_split_asm)

lemma resolved_mac_length:
  "tables_inv (ei_config i) r (ei_neighbors i) \<Longrightarrow> resolved_mac i hop = Some m \<Longrightarrow> length m = 6"
  by (auto simp: resolved_mac_def bind_eq_Some_conv intro: neighbor_mac_length dest: neighbor_wf_get)

lemma hop_count_simps [simp]:
  "hop_count hop [] = 0" "hop_count hop (p # ps) = (if pd_next_hop p = hop then 1 else 0) + hop_count hop ps"
  "hop_count hop (ps @ qs) = hop_count hop ps + hop_count hop qs"
  by (simp_all add: hop_count_def)

lemma hop_count_filter: "hop_count hop (filter P ps) \<le> hop_count hop ps"
  by (induction ps) auto

lemma queues_inv_mono:
  assumes "queues_inv cfg ps rs cs sp" and "length ps' + length rs' \<le> length ps + length rs"
    and "\<And>hop. hop_count hop ps' \<le> hop_count hop ps" and "set ps' \<subseteq> set ps"
    and "length cs' \<le> length cs" and "set cs' \<subseteq> set cs"
  shows "queues_inv cfg ps' rs' cs' sp"
proof -
  have "list_all (\<lambda>p. framable (pd_frame p)) ps'" "list_all (\<lambda>f. 14 \<le> pb_len f) cs'"
    using assms(1,4,6) unfolding queues_inv_def list_all_iff by blast+
  moreover have "hop_count hop ps' \<le> ic_per_neighbor_capacity cfg" for hop
    using assms(1) assms(3) [of hop] order.trans unfolding queues_inv_def by blast
  ultimately show ?thesis
    using assms(1,2,5) by (simp add: queues_inv_def)
qed

lemma queues_inv_control: "queues_inv cfg ps rs cs sp \<Longrightarrow> set cs' \<subseteq> set cs \<Longrightarrow> length cs' \<le> length cs \<Longrightarrow>
  queues_inv cfg ps rs cs' sp"
  by (erule queues_inv_mono) simp_all

lemma queues_inv_ready: "queues_inv cfg ps rs cs sp \<Longrightarrow> length rs' \<le> length rs \<Longrightarrow> queues_inv cfg ps rs' cs sp"
  by (erule queues_inv_mono) simp_all

lemma queues_inv_pending_filter: "queues_inv cfg ps rs cs sp \<Longrightarrow> queues_inv cfg (filter P ps) rs cs sp"
  by (erule queues_inv_mono) (auto simp: hop_count_filter)

lemma ei_same_work_resolving: "ei_same_work i j \<Longrightarrow> ei_resolving j = ei_resolving i"
  by (simp add: ei_same_work_def ei_same_def ei_resolving_def)

lemma ei_same_workD: "ei_same_work i j \<Longrightarrow> ei_same i j"
  by (simp add: ei_same_work_def)

lemma hop_resolving_simps:
  assumes "bt_inv m"
  shows "hop_resolving (bt_insert k v m) hop = (if hop = k then is_resolving v else hop_resolving m hop)"
    and "hop_resolving (bt_remove k m) hop = (hop \<noteq> k \<and> hop_resolving m hop)"
  using assms by (simp_all add: hop_resolving_def bt_simps)

lemma hop_waiting_insert: "bt_inv m \<Longrightarrow> hop_waiting now (bt_insert k v m) hop =
  (if hop = k then is_resolving v \<or> neighbor_mac v now \<noteq> None else hop_waiting now m hop)"
  by (simp add: hop_waiting_def bt_simps)

lemma unresolved_waiting:
  "resolved_mac i hop = None \<Longrightarrow> hop_waiting (ei_now i) (ei_neighbors i) hop \<Longrightarrow> hop_resolving (ei_neighbors i) hop"
  by (auto simp: hop_resolving_def hop_waiting_def resolved_mac_def split: option.splits)

lemma waiting_resolving:
  assumes "ei_waiting i" and "list_all (\<lambda>p. resolved_mac i (pd_next_hop p) = None) (ei_pending i)"
  shows "ei_resolving i"
  using assms unresolved_waiting unfolding ei_waiting_def ei_resolving_def list_all_iff by blast

lemma route_table_new_inv [simp]: "route_table_inv (route_table_new n)"
  by (simp add: route_table_inv_def route_table_new_def)

lemma route_table_new_limit [simp]: "rtb_limit (route_table_new n) = n"
  by (simp add: route_table_new_def)

lemma route_insert_limit: "route_insert r t = (res, t') \<Longrightarrow> rtb_limit t' = rtb_limit t"
  by (auto simp: route_insert_def split: option.splits if_splits)

lemma route_remove_limit: "route_remove a p t = (res, t') \<Longrightarrow> rtb_limit t' = rtb_limit t"
  by (auto simp: route_remove_def Let_def split: sum.splits)

lemma configured_routes_inv:
  assumes "configured_routes limit connected gateway = Inr routes" and "route_wf connected"
  shows "route_table_inv routes \<and> rtb_limit routes = limit"
proof -
  obtain t where t: "route_insert connected (route_table_new limit) = (Inr (), t)"
    using assms(1) by (auto simp: configured_routes_def split: prod.splits sum.splits)
  note inv = route_insert_ok(1) [OF route_table_new_inv assms(2) t]
  note lim = route_insert_limit [OF t, simplified]
  show ?thesis
  proof (cases gateway)
    case None
    then show ?thesis
      using assms(1) t inv lim by (simp add: configured_routes_def)
  next
    case (Some ip)
    then obtain r where r: "route_new 0 0 (Some ip) = Inr r" "route_insert r t = (Inr (), routes)"
      using assms(1) t by (auto simp: configured_routes_def split: prod.splits sum.splits)
    then show ?thesis
      using route_insert_ok(1) [OF inv route_new_wf [OF r(1)] r(2)] route_insert_limit [OF r(2)] lim by simp
  qed
qed

text \<open>
  The routes a lease asks for: its subnet directly on the link and, with a gateway, everything else through it. With
  the prefix of length zero both are the same prefix and the gateway wins.
\<close>

definition lease_routes :: "ipv4addr \<Rightarrow> u8 \<Rightarrow> ipv4addr option \<Rightarrow> route list" where
  "lease_routes address prefix gateway =
     (let connected = \<lparr>rt_network = address AND route_mask prefix, rt_prefix_len = prefix, rt_gateway = None\<rparr> in
      case gateway of
        None \<Rightarrow> [connected]
      | Some ip \<Rightarrow> (if prefix = 0 then [] else [connected]) @ [\<lparr>rt_network = 0, rt_prefix_len = 0, rt_gateway = Some ip\<rparr>])"

text \<open>What a successful configuration establishes, whether or not it changed anything.\<close>

definition lease_applied :: "ipv4addr \<Rightarrow> u8 \<Rightarrow> ipv4addr option \<Rightarrow> 'a eth_ipv4 \<Rightarrow> bool" where
  "lease_applied address prefix gateway i \<longleftrightarrow> ei_configured i \<and> ic_address (ei_config i) = address \<and>
     ic_prefix_len (ei_config i) = prefix \<and> rtb_entries (ei_routes i) = lease_routes address prefix gateway"

lemma configured_routes_lease:
  assumes "configured_routes limit connected gateway = Inr routes" and "route_new address prefix None = Inr connected"
  shows "rtb_entries routes = lease_routes address prefix gateway"
proof -
  have "route_mask 0 = 0"
    by (simp add: route_mask_def)
  then show ?thesis
    using assms
    by (auto simp: configured_routes_def route_new_def lease_routes_def route_insert_def route_table_new_def same_prefix_def
        split: option.splits if_splits)
qed

section \<open>Internal operations\<close>

context device
begin

lemma held_empties: "held d (mset (replicate n empty_buf) + M) = held d M"
  by (induction n) (simp_all add: held_empty)

lemma ensure_spare_wp:
  assumes "ei_ok held i M"
  shows "wp (ensure_spare ops i) (\<lambda>i'. ei_ok held i' M \<and> ei_same_work i i' \<and> ei_ready i' = ei_ready i \<and>
    ei_control i' = ei_control i \<and> ei_rx i' = ei_rx i)"
proof (cases "ei_control_spare i")
  case (Some f)
  then show ?thesis
    using assms by (simp add: ensure_spare_def)
next
  case None
  have inv: "ei_inv i" "ei_waiting i" and h: "held (ei_device i) (ei_frames i + M)"
    using assms by (simp_all add: ei_ok_def)
  obtain r d where r: "dv_alloc ops (ei_device i) = Some (r, d)"
      "case r of None \<Rightarrow> held d (ei_frames i + M) | Some b \<Rightarrow> held d (add_mset b (ei_frames i + M)) \<and> pb_len b = 0"
    using alloc_law [OF h] by (auto simp: wp_eq_Some)
  show ?thesis
  proof (cases r)
    case None
    then show ?thesis
      using \<open>ei_control_spare i = None\<close> r inv by (simp add: ensure_spare_def ei_ok_def)
  next
    case (Some f)
    then have f: "held d (add_mset f (ei_frames i + M))"
      using r(2) by simp
    have "pb_inv f"
      using held_inv [OF f] by simp
    then obtain ok f' where p: "prepare_empty f = Some (ok, f')" "pb_inv f'" "same_frame f f'"
        "case ok of Inl e \<Rightarrow> True | Inr u \<Rightarrow> framable f'"
      using prepare_empty_wp unfolding wp_eq_Some by blast
    have f': "held d (add_mset f' (ei_frames i + M))"
      using held_edit [OF f p(3,2)] .
    show ?thesis
    proof (cases ok)
      case (Inl e)
      then show ?thesis
        using None Some r(1) p(1) inv drop_law [OF f']
        by (auto simp: ensure_spare_def ei_ok_def wp_eq_Some)
    next
      case (Inr u)
      let ?i = "i\<lparr>ei_device := d, ei_control_spare := Some f'\<rparr>"
      have "ei_frames ?i = add_mset f' (ei_frames i)"
        using None by (simp add: ei_frames_def)
      moreover have "ei_inv ?i" "ei_waiting ?i" "ei_same_work i ?i"
        using inv p(4) Inr
        by (simp_all add: ei_inv_def queues_inv_def ei_waiting_def ei_same_work_def ei_same_def)
      ultimately show ?thesis
        using None Some r(1) p(1) Inr f' by (simp add: ensure_spare_def ei_ok_def)
    qed
  qed
qed

lemma queue_arp_wp:
  assumes "ei_ok held i M" and "arp_wf a" and "length m = 6"
  shows "wp (queue_arp ops a m i) (\<lambda>(queued, i'). ei_ok held i' M \<and> ei_same_work i i' \<and>
    ei_ready i' = ei_ready i \<and> ei_rx i' = ei_rx i)"
proof (cases "length (ei_control i) = ic_control_capacity (ei_config i)")
  case True
  then show ?thesis
    using assms by (simp add: queue_arp_def)
next
  case False
  obtain j where j: "ensure_spare ops i = Some j" "ei_ok held j M" "ei_same_work i j" "ei_ready j = ei_ready i"
      "ei_control j = ei_control i" "ei_rx j = ei_rx i"
    using ensure_spare_wp [OF assms(1)] by (auto simp: wp_eq_Some)
  show ?thesis
  proof (cases "ei_control_spare j")
    case None
    then show ?thesis
      using False j by (simp add: queue_arp_def)
  next
    case (Some f)
    have inv: "ei_inv j" "ei_waiting j" and h: "held (ei_device j) (ei_frames j + M)"
      using j(2) by (simp_all add: ei_ok_def)
    define R where "R = image_mset pd_frame (mset (ei_pending j)) + mset (ei_ready j) + mset (ei_control j)
      + mset (ei_rx j) + M"
    have fr: "ei_frames j + M = add_mset f R"
      by (simp add: ei_frames_def Some R_def ac_simps)
    have "framable f" "length (ic_mac (ei_config j)) = 6"
      using inv(1) Some by (simp_all add: ei_inv_def queues_inv_def tables_inv_def)
    moreover have "pb_inv f"
      using held_inv [OF h, of f] fr by simp
    ultimately obtain g where g: "arp_frame (ei_config j) a m f = Some g" "pb_inv g" "same_frame f g" "14 \<le> pb_len g"
      using arp_frame_wp assms(2,3) unfolding wp_eq_Some by blast
    let ?k = "j\<lparr>ei_control_spare := None, ei_control := ei_control j @ [g]\<rparr>"
    have "ei_frames ?k + M = add_mset g R"
      by (simp add: ei_frames_def R_def ac_simps)
    then have "held (ei_device ?k) (ei_frames ?k + M)"
      using held_edit [of "ei_device j" f R g] h fr g(2,3) by simp
    moreover have "length (ei_control j) < ic_control_capacity (ei_config j)"
      using False inv(1) j(3,5) by (auto simp: ei_inv_def queues_inv_def ei_same_work_def ei_same_def)
    then have "ei_inv ?k"
      using inv(1) g(4) by (simp add: ei_inv_def queues_inv_def)
    moreover have "ei_waiting ?k" "ei_same_work i ?k"
      using inv(2) j(3) by (simp_all add: ei_waiting_def ei_same_work_def ei_same_def)
    ultimately show ?thesis
      using False j(1,4,6) Some g(1) by (simp add: queue_arp_def ei_ok_def)
  qed
qed

lemma flush_front_wp:
  assumes "held d (mset q + M)"
  shows "wp (flush_front ops k q d) (\<lambda>(r, q', d'). \<exists>n \<le> length q. q' = drop n q \<and> held d' (mset q' + M) \<and>
    (case r of Inl e \<Rightarrow> n = 0 \<and> e \<noteq> WouldBlock | Inr m \<Rightarrow> m = n))"
proof (cases "q = []")
  case True
  then show ?thesis
    using assms by (simp add: flush_front_def)
next
  case False
  have "held d (mset (take k q) + (mset (drop k q) + M))"
    using assms by (subst (asm) mset_take_drop [of q k]) (simp add: add.assoc)
  then obtain r fs d' where s: "dv_send ops (take k q) d = Some (r, fs, d')" "case r of
      Inl e \<Rightarrow> fs = take k q \<and> held d' (mset (take k q) + (mset (drop k q) + M))
    | Inr n \<Rightarrow> n \<le> length (take k q) \<and> fs = replicate n empty_buf @ drop n (take k q) \<and>
        held d' (mset (drop n (take k q)) + (mset (drop k q) + M))"
    using send_law [of d "take k q" "mset (drop k q) + M"] unfolding wp_eq_Some by blast
  show ?thesis
  proof (cases r)
    case (Inl e)
    have h: "held d' (mset q + M)"
      using s(2) Inl by (subst mset_take_drop [of q k]) (simp add: add.assoc)
    then have "dv_drop_all ops [] d' = Some d'"
      by (simp add: dv_drop_all_def)
    then show ?thesis
      using False s Inl h by (cases "e = WouldBlock") (simp_all add: flush_front_def)
  next
    case (Inr n)
    then have n: "n \<le> length (take k q)" "fs = replicate n empty_buf @ drop n (take k q)"
        and h: "held d' (mset (drop n (take k q)) + (mset (drop k q) + M))"
      using s(2) by auto
    have q: "fs @ drop k q = replicate n empty_buf @ drop n q"
      using n drop_take_append [OF n(1)] by simp
    have "mset (drop n q) + M = mset (drop n (take k q)) + (mset (drop k q) + M)"
      by (simp add: drop_take_append [OF n(1), symmetric] add.assoc del: length_take)
    then have "held d' (mset (replicate n empty_buf) + (mset (drop n q) + M))"
      using h by (simp only: held_empties)
    then obtain d'' where "dv_drop_all ops (replicate n empty_buf) d' = Some d''" "held d'' (mset (drop n q) + M)"
      using drop_all_wp by (fastforce simp: wp_eq_Some)
    moreover have "take n (fs @ drop k q) = replicate n empty_buf" "drop n (fs @ drop k q) = drop n q"
        "n \<le> length (fs @ drop k q)"
      unfolding q by simp_all
    ultimately show ?thesis
      using False s(1) Inr n(1)
      by (auto simp: flush_front_def simp del: take_append drop_append length_append)
  qed
qed

lemma flush_wp:
  assumes "ei_ok held i M"
  shows "wp (flush ops i) (\<lambda>(r, i'). ei_ok held i' M \<and> ei_same_work i i' \<and> ei_rx i' = ei_rx i \<and>
    (\<exists>m n. ei_control i' = drop m (ei_control i) \<and> ei_ready i' = drop n (ei_ready i)) \<and>
    r \<noteq> Inl WouldBlock)"
proof -
  have control: "ei_ok held (j\<lparr>ei_control := drop n (ei_control j), ei_device := d, ei_flushes := k\<rparr>) M"
    if "ei_ok held j M" "held d (mset (drop n (ei_control j)) + (ei_frames (j\<lparr>ei_control := []\<rparr>) + M))" for j n d k
    using that by (auto simp: ei_ok_def ei_inv_def ei_waiting_def ei_frames_def ac_simps
        elim!: queues_inv_control dest: in_set_dropD)
  have ready: "ei_ok held (j\<lparr>ei_ready := drop n (ei_ready j), ei_device := d, ei_flushes := k\<rparr>) M"
    if "ei_ok held j M" "held d (mset (drop n (ei_ready j)) + (ei_frames (j\<lparr>ei_ready := []\<rparr>) + M))" for j n d k
    using that by (auto simp: ei_ok_def ei_inv_def ei_waiting_def ei_frames_def ac_simps
        elim!: queues_inv_ready)
  have fc: "held (ei_device j) (mset (ei_control j) + (ei_frames (j\<lparr>ei_control := []\<rparr>) + M))"
      and fr: "held (ei_device j) (mset (ei_ready j) + (ei_frames (j\<lparr>ei_ready := []\<rparr>) + M))"
    if "ei_ok held j M" for j
    using that by (simp_all add: ei_ok_def ei_frames_def ac_simps)
  obtain r m d where c: "flush_front ops (ei_layout i (ei_flushes i)) (ei_control i) (ei_device i) =
        Some (r, drop m (ei_control i), d)"
      "held d (mset (drop m (ei_control i)) + (ei_frames (i\<lparr>ei_control := []\<rparr>) + M))"
      "case r of Inl e \<Rightarrow> m = 0 \<and> e \<noteq> WouldBlock | Inr n \<Rightarrow> n = m"
    using flush_front_wp [OF fc [OF assms]] unfolding wp_eq_Some by blast
  let ?j = "i\<lparr>ei_control := drop m (ei_control i), ei_device := d, ei_flushes := ei_flushes i + 1\<rparr>"
  have j: "ei_ok held ?j M" "ei_same_work i ?j"
    using control [OF assms c(2)] by (simp_all add: ei_same_work_def ei_same_def)
  show ?thesis
  proof (cases r)
    case (Inl e)
    then show ?thesis
      using c(1,3) j by (simp add: flush_def)
  next
    case (Inr n)
    define k where "k = (if n > 0 then ei_event (Submitted 0 n) (count_stat is_submitted_control_update n ?j)
      else count_stat is_submitted_control_update n ?j)"
    have k: "ei_ok held k M" "ei_same_work i k" "ei_control k = drop m (ei_control i)" "ei_ready k = ei_ready i"
        "ei_rx k = ei_rx i"
      using j by (simp_all add: k_def ei_same_work_def ei_same_def)
    have eq: "flush ops i = (if ei_control k \<noteq> [] then Some (Inr (), k) else do {
        (r, queue, d) \<leftarrow> flush_front ops (ei_layout k (ei_flushes k)) (ei_ready k) (ei_device k);
        let k = k\<lparr>ei_ready := queue, ei_device := d, ei_flushes := ei_flushes k + 1\<rparr>;
        case r of
          Inl e \<Rightarrow> Some (Inl e, k)
        | Inr data \<Rightarrow> do {
            let k = count_stat is_submitted_ip_update data k;
            Some (Inr (), if data > 0 then ei_event (Submitted data 0) k else k)
          }})"
      by (simp only: flush_def c(1) Inr k_def Let_def Option.bind.bind_lunit prod.case sum.case)
    show ?thesis
    proof (cases "ei_control k = []")
      case False
      then show ?thesis
        using k by (simp add: eq)
    next
      case True
      obtain r' n' d' where f: "flush_front ops (ei_layout k (ei_flushes k)) (ei_ready k) (ei_device k) =
            Some (r', drop n' (ei_ready k), d')"
          "held d' (mset (drop n' (ei_ready k)) + (ei_frames (k\<lparr>ei_ready := []\<rparr>) + M))"
          "case r' of Inl e \<Rightarrow> n' = 0 \<and> e \<noteq> WouldBlock | Inr n \<Rightarrow> n = n'"
        using flush_front_wp [OF fr [OF k(1)]] unfolding wp_eq_Some by blast
      define l where "l = k\<lparr>ei_ready := drop n' (ei_ready k), ei_device := d', ei_flushes := ei_flushes k + 1\<rparr>"
      have l: "ei_ok held l M" "ei_same_work i l" "ei_control l = drop m (ei_control i)"
          "ei_ready l = drop n' (ei_ready i)" "ei_rx l = ei_rx i"
        using ready [OF k(1) f(2)] k by (simp_all add: l_def ei_same_work_def ei_same_def)
      show ?thesis
      proof (cases r')
        case (Inl e)
        then have "flush ops i = Some (Inl e, l)" and "e \<noteq> WouldBlock"
          using f(3) by (simp_all add: eq True f(1) l_def)
        then show ?thesis
          using l by simp
      next
        case (Inr data)
        then have "flush ops i = Some (Inr (), let l = count_stat is_submitted_ip_update data l in
            if data > 0 then ei_event (Submitted data 0) l else l)"
          by (simp add: eq True f(1) l_def Let_def)
        then show ?thesis
          using l by (simp add: Let_def)
      qed
    qed
  qed
qed

lemma retain_frames_wp:
  assumes "held d (mset fs + M)" and "list_all (\<lambda>f. P f \<noteq> None) fs"
  shows "wp (retain_frames ops P fs d) (\<lambda>(fs', d'). fs' = filter (\<lambda>f. P f = Some True) fs \<and> held d' (mset fs' + M))"
  using assms
proof (induction fs arbitrary: d M)
  case (Cons f fs)
  then obtain keep where P: "P f = Some keep" and fs: "list_all (\<lambda>f. P f \<noteq> None) fs"
    by auto
  show ?case
  proof (cases keep)
    case True
    then show ?thesis
      using P Cons.IH [of d "add_mset f M"] Cons.prems fs by (auto simp: wp_eq_Some)
  next
    case False
    obtain d' where "dv_drop ops f d = Some d'" "held d' (mset fs + M)"
      using drop_law [of d f "mset fs + M"] Cons.prems by (auto simp: wp_eq_Some)
    then show ?thesis
      using P False Cons.IH [of d' M] fs by (auto simp: wp_eq_Some)
  qed
qed simp

lemma probe_for_total: "14 \<le> pb_len f \<Longrightarrow> pb_inv f \<Longrightarrow> \<exists>r. probe_for ip f = Some r"
  by (simp add: probe_for_def slice_from_def arp_parse_eq)

lemma cancel_probes_wp:
  assumes "ei_ok held i M"
  shows "wp (cancel_probes ops ip i) (\<lambda>i'. ei_ok held i' M \<and> ei_same_work i i' \<and> ei_rx i' = ei_rx i \<and>
    ei_ready i' = ei_ready i \<and> ei_control_spare i' = ei_control_spare i \<and>
    ei_control i' = filter (\<lambda>f. probe_for ip f = Some False) (ei_control i))"
proof -
  have h: "held (ei_device i) (mset (ei_control i) + (ei_frames (i\<lparr>ei_control := []\<rparr>) + M))"
    using assms by (simp add: ei_ok_def ei_frames_def ac_simps)
  have "pb_inv f" if "f \<in> set (ei_control i)" for f
    using held_inv [OF h, of f] that by simp
  then have tot: "list_all (\<lambda>f. map_option Not (probe_for ip f) \<noteq> None) (ei_control i)"
    using assms by (auto simp: ei_ok_def ei_inv_def queues_inv_def list_all_iff probe_for_total)
  obtain fs d where r: "retain_frames ops (\<lambda>f. map_option Not (probe_for ip f)) (ei_control i) (ei_device i) =
        Some (fs, d)" "fs = filter (\<lambda>f. map_option Not (probe_for ip f) = Some True) (ei_control i)"
      "held d (mset fs + (ei_frames (i\<lparr>ei_control := []\<rparr>) + M))"
    using retain_frames_wp [OF h tot] unfolding wp_eq_Some by blast
  have eq: "fs = filter (\<lambda>f. probe_for ip f = Some False) (ei_control i)"
    unfolding r(2) by (rule filter_cong) auto
  have "ei_ok held (i\<lparr>ei_control := fs, ei_device := d\<rparr>) M"
    using assms r(3) eq by (auto simp: ei_ok_def ei_inv_def ei_waiting_def ei_frames_def ac_simps
        elim!: queues_inv_control)
  then show ?thesis
    using r(1) eq by (simp add: cancel_probes_def ei_same_work_def ei_same_def)
qed

lemma discard_queued_wp:
  assumes "ei_inv i" and "held (ei_device i) (ei_frames i + M)"
  shows "wp (discard_queued ops i) (\<lambda>i'. eth_held held i' M \<and> ei_same i i' \<and> ei_pending i' = [] \<and> ei_ready i' = [] \<and>
    ei_control i' = [] \<and> ei_rx i' = ei_rx i \<and> ei_control_spare i' = ei_control_spare i \<and>
    ei_neighbors i' = bt_retain (\<lambda>_ n. \<not> is_resolving n) (ei_neighbors i))"
proof -
  define R where "R = ei_frames (i\<lparr>ei_pending := [], ei_ready := [], ei_control := []\<rparr>) + M"
  have "held (ei_device i) (mset (map pd_frame (ei_pending i)) + (mset (ei_ready i) + (mset (ei_control i) + R)))"
    using assms(2) by (simp add: ei_frames_def R_def ac_simps)
  then obtain d1 where d1: "dv_drop_all ops (map pd_frame (ei_pending i)) (ei_device i) = Some d1"
      "held d1 (mset (ei_ready i) + (mset (ei_control i) + R))"
    using drop_all_wp unfolding wp_eq_Some by blast
  then obtain d2 where d2: "dv_drop_all ops (ei_ready i) d1 = Some d2" "held d2 (mset (ei_control i) + R)"
    using drop_all_wp unfolding wp_eq_Some by blast
  then obtain d3 where d3: "dv_drop_all ops (ei_control i) d2 = Some d3" "held d3 R"
    using drop_all_wp unfolding wp_eq_Some by blast
  let ?j = "i\<lparr>ei_device := d3, ei_pending := [], ei_ready := [], ei_control := [],
    ei_neighbors := bt_retain (\<lambda>_ n. \<not> is_resolving n) (ei_neighbors i)\<rparr>"
  have "queues_inv (ei_config i) [] [] [] (ei_control_spare i)"
    using assms(1) by (auto simp: ei_inv_def elim!: queues_inv_mono)
  moreover have "keeps_static (ei_neighbors i) (bt_retain (\<lambda>_ n. \<not> is_resolving n) (ei_neighbors i))"
    using assms(1) by (simp add: keeps_static_update ei_inv_def tables_inv_def)
  ultimately have "eth_held held ?j M" "ei_same i ?j"
    using assms(1) d3(2) by (simp_all add: eth_held_def ei_inv_def ei_resolving_def tables_inv_filter ei_frames_def R_def ei_same_def)
  then show ?thesis
    using d1(1) d2(1) d3(1) by (simp add: discard_queued_def Let_def)
qed

lemma release_loop_wp:
  assumes "ei_ok held i M" and "n \<le> length (ei_pending i)"
  shows "wp (release_loop n i) (\<lambda>i'. ei_ok held i' M \<and> ei_same i i' \<and> ei_neighbors i' = ei_neighbors i \<and>
    ei_rx i' = ei_rx i \<and> ei_control i' = ei_control i \<and> ei_control_spare i' = ei_control_spare i \<and>
    length (ei_pending i') + length (ei_ready i') = length (ei_pending i) + length (ei_ready i) \<and>
    ei_pending i' = drop n (ei_pending i) @
      filter (\<lambda>p. resolved_mac i (pd_next_hop p) = None) (take n (ei_pending i)))"
  using assms
proof (induction n arbitrary: i)
  case (Suc n)
  then obtain p ps where ps: "ei_pending i = p # ps" "n \<le> length ps"
    by (cases "ei_pending i") auto
  have inv: "tables_inv (ei_config i) (ei_routes i) (ei_neighbors i)"
      "queues_inv (ei_config i) (ei_pending i) (ei_ready i) (ei_control i) (ei_control_spare i)"
    and ev: "length (ei_events i) \<le> ic_event_capacity (ei_config i)"
    and w: "ei_waiting i" and h: "held (ei_device i) (ei_frames i + M)"
    using Suc.prems(1) by (simp_all add: ei_ok_def ei_inv_def)
  show ?case
  proof (cases "resolved_mac i (pd_next_hop p)")
    case None
    let ?j = "i\<lparr>ei_pending := ps @ [p]\<rparr>"
    have "queues_inv (ei_config i) (ps @ [p]) (ei_ready i) (ei_control i) (ei_control_spare i)"
      using inv(2) unfolding ps by (rule queues_inv_mono) auto
    moreover have "ei_waiting ?j"
      using w ps by (auto simp: ei_waiting_def)
    ultimately have "ei_ok held ?j M"
      using inv(1) ev h ps by (simp add: ei_ok_def ei_inv_def ei_frames_def)
    from Suc.IH [OF this] show ?thesis
      using None ps by (auto simp: wp_eq_Some ei_same_def resolved_mac_def)
  next
    case (Some m)
    define R where "R = ei_frames (i\<lparr>ei_pending := ps\<rparr>) + M"
    have R: "held (ei_device i) (add_mset (pd_frame p) R)"
      using h ps by (simp add: ei_frames_def R_def)
    then have "pb_inv (pd_frame p)"
      using held_inv by (metis union_single_eq_member)
    moreover have "framable (pd_frame p)" "length (ic_mac (ei_config i)) = 6"
      using inv ps by (simp_all add: queues_inv_def tables_inv_def)
    ultimately obtain f where f: "eth_prepend (pd_frame p) (ic_mac (ei_config i)) m ETH_IPV4 = Some f"
        "pb_inv f" "same_frame (pd_frame p) f"
      using prepend_framable_wp resolved_mac_length [OF inv(1) Some] unfolding wp_eq_Some by blast
    let ?j = "i\<lparr>ei_pending := ps, ei_ready := ei_ready i @ [f]\<rparr>"
    have "queues_inv (ei_config i) ps (ei_ready i @ [f]) (ei_control i) (ei_control_spare i)"
      using inv(2) unfolding ps by (rule queues_inv_mono) auto
    moreover have "ei_waiting ?j"
      using w ps by (auto simp: ei_waiting_def)
    moreover have "held (ei_device i) (ei_frames ?j + M)"
      using held_edit [OF R f(3,2)] by (simp add: ei_frames_def R_def)
    ultimately have "ei_ok held ?j M"
      using inv(1) ev by (simp add: ei_ok_def ei_inv_def)
    from Suc.IH [OF this] show ?thesis
      using Some f(1) ps by (auto simp: wp_eq_Some ei_same_def resolved_mac_def)
  qed
qed simp

lemma release_resolved_wp:
  assumes "ei_ok held i M"
  shows "wp (release_resolved i) (\<lambda>i'. eth_held held i' M \<and> ei_same i i' \<and> ei_neighbors i' = ei_neighbors i \<and>
    ei_rx i' = ei_rx i \<and> ei_control i' = ei_control i \<and> ei_control_spare i' = ei_control_spare i \<and>
    length (ei_pending i') + length (ei_ready i') = length (ei_pending i) + length (ei_ready i) \<and>
    ei_pending i' = filter (\<lambda>p. resolved_mac i (pd_next_hop p) = None) (ei_pending i))"
  unfolding release_resolved_def
proof (rule wp_mono [OF release_loop_wp [OF assms order.refl]], elim conjE)
  fix j
  assume j: "ei_ok held j M" "ei_same i j" "ei_neighbors j = ei_neighbors i" "ei_rx j = ei_rx i"
    "ei_control j = ei_control i" "ei_control_spare j = ei_control_spare i"
    "length (ei_pending j) + length (ei_ready j) = length (ei_pending i) + length (ei_ready i)"
    "ei_pending j = drop (length (ei_pending i)) (ei_pending i) @
      filter (\<lambda>p. resolved_mac i (pd_next_hop p) = None) (take (length (ei_pending i)) (ei_pending i))"
  then have "list_all (\<lambda>p. resolved_mac j (pd_next_hop p) = None) (ei_pending j)"
    by (simp add: list_all_iff resolved_mac_def ei_same_def)
  then have "eth_held held j M"
    using j(1) by (simp add: eth_held_def ei_ok_def waiting_resolving)
  then show "eth_held held j M \<and> ei_same i j \<and> ei_neighbors j = ei_neighbors i \<and>
    ei_rx j = ei_rx i \<and> ei_control j = ei_control i \<and> ei_control_spare j = ei_control_spare i \<and>
    length (ei_pending j) + length (ei_ready j) = length (ei_pending i) + length (ei_ready i) \<and>
    ei_pending j = filter (\<lambda>p. resolved_mac i (pd_next_hop p) = None) (ei_pending i)"
    using j by simp
qed

lemma learn_wp:
  assumes "ei_ok held i M" and "length m = 6"
  shows "wp (learn ops ip m i) (\<lambda>i'. ei_ok held i' M \<and> ei_same i i' \<and> ei_rx i' = ei_rx i \<and>
    ei_pending i' = ei_pending i)"
proof (cases "(case bt_get (ei_neighbors i) ip of Some n \<Rightarrow> is_static n | None \<Rightarrow> False) \<or>
    \<not> bt_contains (ei_neighbors i) ip \<and> length (ei_neighbors i) = ic_neighbor_capacity (ei_config i)")
  case True
  then have "learn ops ip m i = Some i"
    by (auto simp: learn_def)
  then show ?thesis
    using assms(1) by simp
next
  case False
  obtain j where j: "cancel_probes ops ip i = Some j" "ei_ok held j M" "ei_same_work i j" "ei_rx j = ei_rx i"
    using cancel_probes_wp [OF assms(1)] unfolding wp_eq_Some by blast
  let ?n = "NReachable m (saturating_add (ei_now j) (ic_neighbor_ttl (ei_config j)))"
  let ?k = "j\<lparr>ei_neighbors := bt_insert ip ?n (ei_neighbors j)\<rparr>"
  have inv: "tables_inv (ei_config j) (ei_routes j) (ei_neighbors j)"
    using j(2) by (simp add: ei_ok_def ei_inv_def)
  have "bt_get (ei_neighbors j) ip \<noteq> None \<or> length (ei_neighbors j) \<noteq> ic_neighbor_capacity (ei_config j)"
    using False j(3) by (auto simp: ei_same_work_def ei_same_def bt_contains_get)
  then have "ei_inv ?k"
    using tables_inv_insert [OF inv, of ?n ip] assms(2) j(2) by (simp add: ei_ok_def ei_inv_def neighbor_wf_def)
  moreover have "hop_waiting (ei_now j) (bt_insert ip ?n (ei_neighbors j)) hop"
    if "ei_now j < duration_max" "hop_waiting (ei_now j) (ei_neighbors j) hop" for hop
    using that inv by (auto simp: tables_inv_def hop_waiting_insert neighbor_mac_def saturating_add_def)
  then have "ei_waiting ?k"
    using j(2) by (auto simp: ei_ok_def ei_waiting_def list_all_iff)
  moreover have "keeps_static (ei_neighbors i) (bt_insert ip ?n (ei_neighbors i))"
    using False inv j(3)
    by (auto simp: keeps_static_update tables_inv_def ei_same_work_def is_static_def)
  then have "held (ei_device ?k) (ei_frames ?k + M)" "ei_same i ?k" "ei_rx ?k = ei_rx i" "ei_pending ?k = ei_pending i"
    using j(2-4) by (simp_all add: ei_ok_def ei_frames_def ei_same_def ei_same_work_def)
  ultimately have "ei_ok held (ei_event (NeighborResolved ip m) ?k) M \<and>
      ei_same i (ei_event (NeighborResolved ip m) ?k) \<and> ei_rx (ei_event (NeighborResolved ip m) ?k) = ei_rx i \<and>
      ei_pending (ei_event (NeighborResolved ip m) ?k) = ei_pending i"
    by (simp add: ei_ok_def)
  moreover have "learn ops ip m i = Some (ei_event (NeighborResolved ip m) ?k)"
    using False j(1) by (auto simp: learn_def)
  ultimately show ?thesis
    by simp
qed

lemma receive_arp_wp:
  assumes "ei_ok held i M"
  shows "wp (receive_arp ops b s i) (\<lambda>i'. ei_ok held i' M \<and> ei_same i i' \<and> ei_rx i' = ei_rx i)"
proof (cases "arp_parse b")
  case None
  then show ?thesis
    by (simp add: arp_parse_eq)
next
  case (Some r)
  show ?thesis
  proof (cases r)
    case None
    then show ?thesis
      using assms Some by (simp add: receive_arp_def)
  next
    case (Some a)
    then have len: "length (arp_sender_mac a) = 6"
      using \<open>arp_parse b = Some r\<close> by (auto simp: arp_parse_eq split: if_split_asm)
    let ?learned = "if ip_unicast (arp_sender_ip a) \<and> \<not> cfg_broadcast (ei_config i) (arp_sender_ip a)
      then learn ops (arp_sender_ip a) (arp_sender_mac a) i else Some i"
    let ?reply = "\<lparr>arp_op = ArpReply, arp_sender_mac = ic_mac (ei_config i), arp_sender_ip = ic_address (ei_config i),
      arp_target_mac = arp_sender_mac a, arp_target_ip = arp_sender_ip a\<rparr>"
    obtain j where j: "?learned = Some j" "ei_ok held j M" "ei_same i j" "ei_rx j = ei_rx i"
      using learn_wp [OF assms len, of "arp_sender_ip a"] assms
      by (cases "ip_unicast (arp_sender_ip a) \<and> \<not> cfg_broadcast (ei_config i) (arp_sender_ip a)")
        (auto simp: wp_eq_Some)
    have "arp_wf ?reply"
      using assms len by (simp add: arp_wf_def ei_ok_def ei_inv_def tables_inv_def)
    then obtain queued k where k: "queue_arp ops ?reply (arp_sender_mac a) j = Some (queued, k)"
        "ei_ok held k M" "ei_same_work j k" "ei_rx k = ei_rx j"
      using queue_arp_wp [OF j(2) _ len] unfolding wp_eq_Some by blast
    have "ei_same i k"
      using ei_same_trans [OF j(3) ei_same_workD [OF k(3)]] .
    then show ?thesis
      using assms \<open>arp_parse b = Some r\<close> Some j(1,4) k learn_wp [OF assms len, of "arp_sender_ip a"]
      by (cases "arp_op a") (auto simp: receive_arp_def Let_def elim!: wp_mono split: if_split_asm)
  qed
qed

lemma drop_frame_wp:
  assumes "ei_ok held i (add_mset f M)"
  shows "wp (drop_frame ops f i) (\<lambda>i'. ei_ok held i' M \<and> ei_same i i' \<and> ei_rx i' = ei_rx i)"
proof -
  obtain d where "dv_drop ops f (ei_device i) = Some d" "held d (ei_frames i + M)"
    using assms drop_law [of "ei_device i" f "ei_frames i + M"] by (auto simp: ei_ok_def wp_eq_Some)
  then show ?thesis
    using assms by (simp add: drop_frame_def ei_ok_def)
qed

lemma ei_ok_edit: "ei_ok held i (add_mset b M) \<Longrightarrow> same_frame b b' \<Longrightarrow> pb_inv b' \<Longrightarrow> ei_ok held i (add_mset b' M)"
  using held_edit [of "ei_device i" b "ei_frames i + M" b'] by (simp add: ei_ok_def)

lemma ei_ok_pb_inv: "ei_ok held i (add_mset b M) \<Longrightarrow> pb_inv b"
  using held_inv [of "ei_device i" "ei_frames i + add_mset b M" b] by (simp add: ei_ok_def)

lemma receive_frame_wp:
  assumes "ei_ok held i (add_mset f (mset out + M))"
  shows "wp (receive_frame ops f out i) (\<lambda>(out', i'). ei_ok held i' (mset out' + M) \<and> ei_same i i' \<and>
    ei_rx i' = ei_rx i \<and> length out' \<le> Suc (length out))"
proof -
  note inv = ei_ok_pb_inv [OF assms]
  have reject: "wp (do { j \<leftarrow> drop_frame ops f j; Some (out, j) }) (\<lambda>(out', i'). ei_ok held i' (mset out' + M) \<and>
      ei_same i i' \<and> ei_rx i' = ei_rx i \<and> length out' \<le> Suc (length out))"
    if "ei_ok held j (add_mset f (mset out + M))" "ei_same i j" "ei_rx j = ei_rx i" for j
    using drop_frame_wp [OF that(1)] that(2,3) by (auto simp: wp_eq_Some intro: ei_same_trans)
  have arp: "wp (do { j \<leftarrow> receive_arp ops b s i; j \<leftarrow> drop_frame ops f j; Some (out, j) })
      (\<lambda>(out', i'). ei_ok held i' (mset out' + M) \<and> ei_same i i' \<and> ei_rx i' = ei_rx i \<and>
        length out' \<le> Suc (length out))" for b s
    using receive_arp_wp [OF assms, of b s] reject by (auto simp: wp_eq_Some)
  have ip: "wp (do { f \<leftarrow> pull_header 14 f; f \<leftarrow> set_len n f; Some (out @ [f], count_stat is_received_ip_update 1 i) })
      (\<lambda>(out', i'). ei_ok held i' (mset out' + M) \<and> ei_same i i' \<and> ei_rx i' = ei_rx i \<and>
        length out' \<le> Suc (length out))"
    if n: "ipv4_fields (drop 14 (as_slice f)) = Some (Some (s, d, n))" "14 \<le> pb_len f" for s d n
  proof -
    obtain g where g: "pull_header 14 f = Some g" "pb_inv g" "same_frame f g" "pb_len g = pb_len f - 14"
      using pull_header_wp [OF inv n(2)] unfolding wp_eq_Some by blast
    have "n \<le> tail_capacity g"
      using ipv4_fields_bounds(3) [OF n(1)] inv g(2,4) by (auto simp: pb_inv_def tail_capacity_def)
    then obtain k where k: "set_len n g = Some k" "pb_inv k" "same_frame g k"
      using set_len_wp [OF g(2)] unfolding wp_eq_Some by blast
    show ?thesis
      using g(1) k(1) ei_ok_edit [OF assms same_frame_trans [OF g(3) k(3)] k(2)] by simp
  qed
  show ?thesis
  proof (cases "\<not> ei_configured i \<or> pb_len f < 14")
    case True
    then show ?thesis
      using reject assms inv by (auto simp: receive_frame_def eth_parse_eq)
  next
    case False
    then have parse: "eth_parse (as_slice f) =
        Some (Some (take 6 (as_slice f), subslice 6 12 (as_slice f), read16 (as_slice f) 12))"
      and slice: "slice_from 14 (as_slice f) = Some (drop 14 (as_slice f))"
      using inv by (simp_all add: eth_parse_eq slice_from_def)
    obtain fields where fields: "ipv4_fields (drop 14 (as_slice f)) = Some fields"
      using ipv4_fields_total by blast
    show ?thesis
      using False reject assms arp ip fields
      by (cases fields) (auto simp: receive_frame_def Let_def parse slice fields)
  qed
qed

lemma receive_frames_wp:
  assumes "ei_ok held i (mset fs + mset out + M)"
  shows "wp (receive_frames ops fs out i) (\<lambda>(out', i'). ei_ok held i' (mset out' + M) \<and> ei_same i i' \<and>
    ei_rx i' = ei_rx i \<and> length out' \<le> length out + length fs)"
  using assms
proof (induction fs arbitrary: out i)
  case (Cons f fs)
  have "ei_ok held i (add_mset f (mset out + (mset fs + M)))"
    using Cons.prems by (simp add: ac_simps)
  then obtain out1 j where j: "receive_frame ops f out i = Some (out1, j)" "ei_ok held j (mset out1 + (mset fs + M))"
      "ei_same i j" "ei_rx j = ei_rx i" "length out1 \<le> Suc (length out)"
    using receive_frame_wp unfolding wp_eq_Some by blast
  then have "ei_ok held j (mset fs + mset out1 + M)"
    by (simp add: ac_simps)
  from Cons.IH [OF this] show ?case
    using j by (auto simp: wp_eq_Some intro: ei_same_trans)
qed simp

text \<open>One entry of the snapshot: the entry ends up fresh, the others stay as they are.\<close>

lemma neighbor_timeout_wp:
  assumes "ei_ok held i M" and "bt_get (ei_neighbors i) ip = Some (NResolving a p e)"
  shows "wp (neighbor_timeout ops ip i) (\<lambda>i'. ei_ok held i' M \<and> ei_same i i' \<and> ei_rx i' = ei_rx i \<and>
    (\<forall>hop. hop \<noteq> ip \<longrightarrow> bt_get (ei_neighbors i') hop = bt_get (ei_neighbors i) hop) \<and>
    hop_fresh (ei_now i') (ei_neighbors i') ip)"
proof -
  let ?n = "NFailed (saturating_add (ei_now i) (ic_failed_retry_delay (ei_config i)))"
  let ?gone = "filter (\<lambda>p. pd_next_hop p = ip) (ei_pending i)"
  let ?kept = "filter (\<lambda>p. pd_next_hop p \<noteq> ip) (ei_pending i)"
  have inv: "tables_inv (ei_config i) (ei_routes i) (ei_neighbors i)"
      "queues_inv (ei_config i) (ei_pending i) (ei_ready i) (ei_control i) (ei_control_spare i)"
      "length (ei_events i) \<le> ic_event_capacity (ei_config i)" "ei_waiting i"
    using assms(1) by (simp_all add: ei_ok_def ei_inv_def)
  then have bt: "bt_inv (ei_neighbors i)" "0 < ic_failed_retry_delay (ei_config i)"
    by (simp_all add: tables_inv_def)
  have split: "image_mset pd_frame (mset (ei_pending i)) =
      image_mset pd_frame {#p \<in># mset (ei_pending i). pd_next_hop p = ip#} +
      image_mset pd_frame {#p \<in># mset (ei_pending i). pd_next_hop p \<noteq> ip#}"
    by (metis image_mset_union multiset_partition)
  have "mset (map pd_frame ?gone) + (ei_frames (i\<lparr>ei_pending := ?kept\<rparr>) + M) = ei_frames i + M"
    by (simp add: ei_frames_def split ac_simps)
  then have "held (ei_device i) (mset (map pd_frame ?gone) + (ei_frames (i\<lparr>ei_pending := ?kept\<rparr>) + M))"
    using assms(1) by (simp only: ei_ok_def)
  then obtain d where d: "dv_drop_all ops (map pd_frame ?gone) (ei_device i) = Some d"
      "held d (ei_frames (i\<lparr>ei_pending := ?kept\<rparr>) + M)"
    using drop_all_wp unfolding wp_eq_Some by blast
  define j where "j = i\<lparr>ei_neighbors := bt_insert ip ?n (ei_neighbors i), ei_pending := ?kept, ei_device := d\<rparr>"
  have jn: "ei_neighbors j = bt_insert ip ?n (ei_neighbors i)" and same: "ei_same i j" "ei_rx j = ei_rx i"
    using assms(2) bt(1) by (simp_all add: j_def ei_same_def keeps_static_update)
  have "ei_inv j"
    using inv tables_inv_insert [OF inv(1), of ?n ip] assms(2)
    by (simp add: j_def ei_inv_def queues_inv_pending_filter neighbor_wf_def)
  moreover have "ei_waiting j"
    using inv(4) bt(1) by (auto simp: j_def ei_waiting_def list_all_iff hop_waiting_insert)
  moreover have "held (ei_device j) (ei_frames j + M)"
    using d(2) by (simp add: j_def ei_frames_def)
  ultimately have "ei_ok held j M"
    by (simp add: ei_ok_def)
  then obtain k where k: "cancel_probes ops ip j = Some k" "ei_ok held k M" "ei_same_work j k" "ei_rx k = ei_rx j"
    using cancel_probes_wp unfolding wp_eq_Some by blast
  then have "ei_same i k" "ei_neighbors k = ei_neighbors j"
    using ei_same_trans [OF same(1) ei_same_workD] by (simp_all add: ei_same_work_def)
  moreover have "hop_fresh (ei_now i) (bt_insert ip ?n (ei_neighbors i)) ip"
    using bt by (simp add: hop_fresh_def bt_simps neighbor_fresh_def saturating_add_def)
  moreover have "neighbor_timeout ops ip i = Some (ei_event (NeighborTimedOut ip (length ?gone))
      (count_stat is_neighbor_timeouts_update 1 (count_stat is_timeout_drops_update (length ?gone) k)))"
    using d(1) k(1) by (simp add: neighbor_timeout_def Let_def j_def)
  ultimately show ?thesis
    using k(2,4) same(2) bt(1) jn by (auto simp: bt_simps ei_same_def)
qed

lemma neighbor_probe_wp:
  assumes "ei_ok held i M" and "bt_get (ei_neighbors i) ip = Some (NResolving a p e)"
    and "a < ic_max_arp_attempts (ei_config i)" and "ei_now i < e"
  shows "wp (neighbor_probe ops ip a e i) (\<lambda>i'. ei_ok held i' M \<and> ei_same i i' \<and> ei_rx i' = ei_rx i \<and>
    (\<forall>hop. hop \<noteq> ip \<longrightarrow> bt_get (ei_neighbors i') hop = bt_get (ei_neighbors i) hop) \<and>
    hop_fresh (ei_now i') (ei_neighbors i') ip)"
proof -
  have "arp_wf (arp_request (ei_config i) ip)"
    using assms(1) by (simp add: arp_request_def arp_wf_def ei_ok_def ei_inv_def tables_inv_def)
  moreover have "length MAC_BROADCAST = 6"
    by (simp add: MAC_BROADCAST_def)
  ultimately obtain queued j where j: "queue_arp ops (arp_request (ei_config i) ip) MAC_BROADCAST i = Some (queued, j)"
      "ei_ok held j M" "ei_same_work i j" "ei_rx j = ei_rx i"
    using queue_arp_wp [OF assms(1)] unfolding wp_eq_Some by blast
  have same: "ei_same i j" "ei_neighbors j = ei_neighbors i" "ei_pending j = ei_pending i"
    using j(3) by (simp_all add: ei_same_work_def)
  show ?thesis
  proof (cases queued)
    case False
    then show ?thesis
      using j(1,2,4) same assms(2,4)
      by (simp add: neighbor_probe_def hop_fresh_def neighbor_fresh_def ei_same_def)
  next
    case True
    define n where "n = NResolving (a + 1) (saturating_add (ei_now j) (ic_retry_interval (ei_config j))) e"
    let ?k = "j\<lparr>ei_neighbors := bt_insert ip n (ei_neighbors j)\<rparr>"
    have inv: "tables_inv (ei_config j) (ei_routes j) (ei_neighbors j)" "bt_inv (ei_neighbors j)"
      using j(2) by (simp_all add: ei_ok_def ei_inv_def tables_inv_def)
    have "neighbor_wf (ei_config j) n"
      using assms(3) same(1) by (simp add: n_def neighbor_wf_def ei_same_def)
    then have "ei_inv ?k"
      using j(2) tables_inv_insert [OF inv(1)] assms(2) same(2) by (simp add: ei_ok_def ei_inv_def)
    moreover have "ei_waiting ?k"
      using j(2) inv(2)
      by (auto simp: ei_ok_def ei_waiting_def list_all_iff hop_waiting_insert n_def is_resolving_def)
    moreover have "held (ei_device ?k) (ei_frames ?k + M)"
      using j(2) by (simp add: ei_ok_def ei_frames_def)
    ultimately have k: "ei_ok held ?k M"
      by (simp add: ei_ok_def)
    moreover have "ei_same i ?k"
      using same(1,2) inv(2) assms(2) by (simp add: ei_same_def keeps_static_update)
    moreover have "hop_fresh (ei_now j) (bt_insert ip n (ei_neighbors j)) ip"
      using inv(2) assms(4) same(1) by (simp add: hop_fresh_def bt_simps n_def neighbor_fresh_def ei_same_def)
    moreover have "neighbor_probe ops ip a e i = Some (ei_event (ArpRequestQueued ip (a + 1))
        (count_stat is_arp_requests_queued_update 1 ?k))"
      using True j(1) by (simp add: neighbor_probe_def n_def)
    ultimately show ?thesis
      using j(4) inv(2) same(2) by (simp add: bt_simps)
  qed
qed

lemma expired_removal:
  assumes "ei_ok held i M" and "bt_get (ei_neighbors i) ip = Some n" and "\<not> is_resolving n"
    and "neighbor_mac n (ei_now i) = None"
  shows "ei_ok held (i\<lparr>ei_neighbors := bt_remove ip (ei_neighbors i)\<rparr>) M"
proof -
  have "bt_inv (ei_neighbors i)"
    using assms(1) by (simp add: ei_ok_def ei_inv_def tables_inv_def)
  moreover have "\<not> hop_waiting (ei_now i) (ei_neighbors i) ip"
    using assms(2-4) by (simp add: hop_waiting_def)
  ultimately have "hop_waiting (ei_now i) (bt_remove ip (ei_neighbors i)) hop"
    if "hop_waiting (ei_now i) (ei_neighbors i) hop" for hop
    using that by (cases "hop = ip") (auto simp: hop_waiting_def bt_simps)
  then show ?thesis
    using assms(1) by (auto simp: ei_ok_def ei_inv_def tables_inv_filter ei_waiting_def list_all_iff ei_frames_def)
qed

lemma neighbor_step_wp:
  assumes "ei_ok held i M" and "bt_get (ei_neighbors i) ip = Some n"
  shows "wp (neighbor_step ops (ip, n) i) (\<lambda>i'. ei_ok held i' M \<and> ei_same i i' \<and> ei_rx i' = ei_rx i \<and>
    (\<forall>hop. hop \<noteq> ip \<longrightarrow> bt_get (ei_neighbors i') hop = bt_get (ei_neighbors i) hop) \<and>
    hop_fresh (ei_now i') (ei_neighbors i') ip)"
proof (cases n)
  case (NResolving a p e)
  then show ?thesis
    using assms neighbor_timeout_wp [OF assms(1), of ip a p e] neighbor_probe_wp [OF assms(1), of ip a p e]
    by (auto simp: neighbor_step_def Let_def hop_fresh_def neighbor_fresh_def)
next
  case (NReachable m e)
  then show ?thesis
    using assms expired_removal [OF assms]
    by (auto simp: neighbor_step_def Let_def hop_fresh_def neighbor_fresh_def is_resolving_def ei_same_def
        neighbor_mac_def ei_ok_def ei_inv_def tables_inv_def bt_simps keeps_static_update)
next
  case (NFailed r)
  then show ?thesis
    using assms expired_removal [OF assms]
    by (auto simp: neighbor_step_def Let_def hop_fresh_def neighbor_fresh_def is_resolving_def ei_same_def
        neighbor_mac_def ei_ok_def ei_inv_def tables_inv_def bt_simps keeps_static_update)
qed (use assms in \<open>simp add: neighbor_step_def hop_fresh_def neighbor_fresh_def\<close>)

lemma neighbor_steps_wp:
  assumes "ei_ok held i M" and "list_all (\<lambda>e. bt_get (ei_neighbors i) (fst e) = Some (snd e)) es"
    and "distinct (map fst es)"
  shows "wp (neighbor_steps ops es i) (\<lambda>i'. ei_ok held i' M \<and> ei_same i i' \<and> ei_rx i' = ei_rx i \<and>
    (\<forall>hop. hop \<notin> fst ` set es \<longrightarrow> bt_get (ei_neighbors i') hop = bt_get (ei_neighbors i) hop) \<and>
    (\<forall>hop \<in> fst ` set es. hop_fresh (ei_now i') (ei_neighbors i') hop))"
  using assms
proof (induction es arbitrary: i)
  case (Cons e es)
  obtain ip n where e: "e = (ip, n)"
    by (cases e)
  have "bt_get (ei_neighbors i) ip = Some n"
    using Cons.prems(2) by (simp add: e)
  then obtain j where j: "neighbor_step ops (ip, n) i = Some j" "ei_ok held j M" "ei_same i j" "ei_rx j = ei_rx i"
      "\<forall>hop. hop \<noteq> ip \<longrightarrow> bt_get (ei_neighbors j) hop = bt_get (ei_neighbors i) hop"
      "hop_fresh (ei_now j) (ei_neighbors j) ip"
    using neighbor_step_wp [OF Cons.prems(1)] unfolding wp_eq_Some by blast
  have "list_all (\<lambda>e. bt_get (ei_neighbors j) (fst e) = Some (snd e)) es"
    using Cons.prems(2,3) j(5) unfolding e by (force simp: list_all_iff)
  then obtain k where k: "neighbor_steps ops es j = Some k" "ei_ok held k M" "ei_same j k" "ei_rx k = ei_rx j"
      "\<forall>hop. hop \<notin> fst ` set es \<longrightarrow> bt_get (ei_neighbors k) hop = bt_get (ei_neighbors j) hop"
      "\<forall>hop \<in> fst ` set es. hop_fresh (ei_now k) (ei_neighbors k) hop"
    using Cons.IH [OF j(2)] Cons.prems(3) unfolding wp_eq_Some by auto
  have "ip \<notin> fst ` set es"
    using Cons.prems(3) by (simp add: e)
  then have "hop_fresh (ei_now k) (ei_neighbors k) ip"
    using j(6) k(3,5) by (simp add: hop_fresh_def ei_same_def)
  then show ?case
    using j k ei_same_trans [OF j(3) k(3)] by (simp add: e)
qed simp

text \<open>
  A whole \<open>advance\<close>. Afterwards every entry is fresh, and every waiting packet waits for a fresh
  resolution.
\<close>

lemma advance_core_wp:
  assumes "ei_ok held (i\<lparr>ei_now := now\<rparr>) M" and "\<not> now < ei_now i"
  shows "wp (ei_advance ops now i) (\<lambda>(r, i'). eth_held held i' M \<and> ei_config i' = ei_config i \<and>
    ei_configured i' = ei_configured i \<and> ei_routes i' = ei_routes i \<and> ei_rx i' = ei_rx i \<and>
    ei_now i' = now \<and> keeps_static (ei_neighbors i) (ei_neighbors i') \<and>
    (\<forall>hop. hop_fresh now (ei_neighbors i') hop))"
proof -
  let ?i = "i\<lparr>ei_now := now\<rparr>"
  obtain j where j: "ensure_spare ops ?i = Some j" "ei_ok held j M" "ei_same_work ?i j" "ei_rx j = ei_rx ?i"
    using ensure_spare_wp [OF assms(1)] unfolding wp_eq_Some by blast
  have bt: "bt_inv (ei_neighbors j)"
    using j(2) by (simp add: ei_ok_def ei_inv_def tables_inv_def)
  then have snap: "list_all (\<lambda>e. bt_get (ei_neighbors j) (fst e) = Some (snd e)) (ei_neighbors j)"
      "distinct (map fst (ei_neighbors j))"
    using btm.in_entries_iff [OF bt] btm.distinct_entries [OF bt] by (auto simp: list_all_iff)
  obtain k where k: "neighbor_steps ops (ei_neighbors j) j = Some k" "ei_ok held k M" "ei_same j k"
      "ei_rx k = ei_rx j"
      "\<forall>hop. hop \<notin> fst ` set (ei_neighbors j) \<longrightarrow> bt_get (ei_neighbors k) hop = bt_get (ei_neighbors j) hop"
      "\<forall>hop \<in> fst ` set (ei_neighbors j). hop_fresh (ei_now k) (ei_neighbors k) hop"
    using neighbor_steps_wp [OF j(2) snap] unfolding wp_eq_Some by blast
  have now: "ei_now k = now"
    using j(3) k(3) by (simp add: ei_same_work_def ei_same_def)
  have fresh: "hop_fresh now (ei_neighbors k) hop" for hop
    using k(5,6) btm.dom_entries [OF bt]
    by (cases "hop \<in> fst ` set (ei_neighbors j)") (auto simp: hop_fresh_def now dom_def)
  obtain l where l: "release_resolved k = Some l" "eth_held held l M" "ei_same k l"
      "ei_neighbors l = ei_neighbors k" "ei_rx l = ei_rx k"
    using release_resolved_wp [OF k(2)] unfolding wp_eq_Some by blast
  obtain r m where m: "flush ops l = Some (r, m)" "ei_ok held m M" "ei_same_work l m" "ei_rx m = ei_rx l"
    using flush_wp [OF held_ok [OF l(2)]] unfolding wp_eq_Some by blast
  have "eth_held held m M"
    using m(2) l(2) ei_same_work_resolving [OF m(3)] by (simp add: eth_held_def ei_ok_def)
  moreover have "ei_config m = ei_config i" "ei_configured m = ei_configured i" "ei_routes m = ei_routes i"
      "ei_now m = now" "ei_rx m = ei_rx i" "ei_neighbors m = ei_neighbors k"
    using j(3,4) k(3,4) l(3-5) m(3,4) by (simp_all add: ei_same_work_def ei_same_def)
  moreover have "keeps_static (ei_neighbors i) (ei_neighbors k)"
    using j(3) k(3) by (simp add: ei_same_work_def ei_same_def)
  ultimately show ?thesis
    using assms(2) j(1) k(1) l(1) m(1) by (simp add: ei_advance_def) (rule allI, rule fresh)
qed

lemma ei_advance_wp:
  assumes "eth_held held i M"
  shows "wp (ei_advance ops now i) (\<lambda>(r, i'). eth_held held i' M \<and> ei_config i' = ei_config i \<and>
    ei_configured i' = ei_configured i \<and> ei_routes i' = ei_routes i \<and> ei_rx i' = ei_rx i \<and>
    (if now < ei_now i then r = Inl InvalidInput \<and> i' = i
     else ei_now i' = now \<and> keeps_static (ei_neighbors i) (ei_neighbors i') \<and>
       (\<forall>hop. hop_fresh now (ei_neighbors i') hop)))"
proof (cases "now < ei_now i")
  case True
  then show ?thesis
    using assms by (simp add: ei_advance_def)
next
  case False
  have "eth_held held (i\<lparr>ei_now := now\<rparr>) M"
    using assms False by (auto simp: eth_held_def ei_inv_def ei_resolving_def ei_frames_def)
  from advance_core_wp [OF held_ok [OF this] False] False show ?thesis
    by simp
qed

lemma validate_frame_wp:
  assumes "pb_inv f"
  shows "wp (validate_frame f i) (\<lambda>(r, i'). (i' = i \<or> (\<exists>e g n. i' = ei_event e (count_stat g n i))) \<and>
    (r = Inr () \<longrightarrow> i' = i \<and> sendable i f))"
proof -
  obtain fields where fields: "ipv4_fields (as_slice f) = Some fields"
    using ipv4_fields_total by blast
  show ?thesis
  proof (cases fields)
    case None
    then show ?thesis
      by (simp add: validate_frame_def fields)
  next
    case (Some t)
    obtain s d n where t: "t = (s, d, n)"
      by (cases t)
    have b: "20 \<le> pb_len f" "d = ip_of_octets (subslice 16 20 (as_slice f))"
      using ipv4_fields_bounds(1,4) [OF fields [unfolded Some t]] assms by simp_all
    show ?thesis
      using b(1) unfolding validate_frame_def fields Some t sendable_def b(2) [symmetric]
      by (auto simp: Let_def framable_def split: option.splits)
  qed
qed

lemma validate_frames_wp:
  assumes "eth_held held i M" and "list_all pb_inv fs"
  shows "wp (validate_frames fs i) (\<lambda>(r, i'). eth_held held i' M \<and> ei_same_work i i' \<and> ei_ready i' = ei_ready i \<and>
    ei_rx i' = ei_rx i \<and> ei_control i' = ei_control i \<and>
    (r = Inr () \<longrightarrow> i' = i \<and> list_all (sendable i) fs))"
  using assms
proof (induction fs arbitrary: i)
  case (Cons f fs)
  then have "pb_inv f"
    by simp
  then obtain r j where j: "validate_frame f i = Some (r, j)" "j = i \<or> (\<exists>e g n. j = ei_event e (count_stat g n i))"
      "r = Inr () \<longrightarrow> j = i \<and> sendable i f"
    using validate_frame_wp unfolding wp_eq_Some by blast
  show ?case
  proof (cases r)
    case (Inl e)
    then show ?thesis
      using j Cons.prems(1) by auto
  next
    case (Inr u)
    then show ?thesis
      using j Cons.IH [of i] Cons.prems by (auto elim!: wp_mono)
  qed
qed simp

lemma accept_frame_wp:
  assumes "eth_held held i (add_mset f M)" and "sendable i f"
    and "length (ei_pending i) + length (ei_ready i) < ic_tx_capacity (ei_config i)"
  shows "wp (accept_frame f i) (\<lambda>r. case r of None \<Rightarrow> True | Some i' \<Rightarrow> eth_held held i' M \<and> ei_same i i' \<and>
    ei_rx i' = ei_rx i \<and>
    length (ei_pending i') + length (ei_ready i') = Suc (length (ei_pending i) + length (ei_ready i)))"
proof -
  define dst where "dst = ip_of_octets (subslice 16 20 (as_slice f))"
  have inv: "pb_inv f" "framable f" "20 \<le> pb_len f"
    using ei_ok_pb_inv [OF held_ok [OF assms(1)]] assms(2) by (simp_all add: sendable_def Let_def)
  then have oct: "slice_of 16 20 (as_slice f) = Some (subslice 16 20 (as_slice f))"
    by (simp add: slice_of_def)
  have tab: "tables_inv (ei_config i) (ei_routes i) (ei_neighbors i)" "bt_inv (ei_neighbors i)"
      and q: "queues_inv (ei_config i) (ei_pending i) (ei_ready i) (ei_control i) (ei_control_spare i)"
      and ev: "length (ei_events i) \<le> ic_event_capacity (ei_config i)" and res: "ei_resolving i"
    using assms(1) by (simp_all add: eth_held_def ei_inv_def tables_inv_def)
  have h: "held (ei_device i) (add_mset f (ei_frames i + M))"
    using assms(1) by (simp add: eth_held_def)
  have ready: "wp (eth_prepend f (ic_mac (ei_config i)) m ETH_IPV4) (\<lambda>g. eth_held held (i\<lparr>ei_ready := ei_ready i @ [g]\<rparr>) M)"
    if m: "length m = 6" for m
  proof -
    have "length (ic_mac (ei_config i)) = 6"
      using tab(1) by (simp add: tables_inv_def)
    from prepend_framable_wp [OF inv(1,2) m this] show ?thesis
    proof (rule wp_mono, elim conjE)
      fix g
      assume g: "pb_inv g" "same_frame f g"
      have "queues_inv (ei_config i) (ei_pending i) (ei_ready i @ [g]) (ei_control i) (ei_control_spare i)"
        using q assms(3) by (simp add: queues_inv_def)
      then show "eth_held held (i\<lparr>ei_ready := ei_ready i @ [g]\<rparr>) M"
        using tab(1) ev res held_edit [OF h g(2,1)] by (simp add: eth_held_def ei_inv_def ei_resolving_def ei_frames_def)
    qed
  qed
  have queue: "eth_held held (j\<lparr>ei_pending := ei_pending i @ [\<lparr>pd_next_hop = hop, pd_frame = f\<rparr>]\<rparr>) M"
    if hop: "hop_count hop (ei_pending i) < ic_per_neighbor_capacity (ei_config i)"
        "bt_get (ei_neighbors i) hop \<noteq> None \<or> length (ei_neighbors i) \<noteq> ic_neighbor_capacity (ei_config i)"
      and j: "j = (if hop_resolving (ei_neighbors i) hop then i else i\<lparr>ei_neighbors := bt_insert hop
        (NResolving 0 (ei_now i) (saturating_add (ei_now i) (ic_resolution_timeout (ei_config i)))) (ei_neighbors i)\<rparr>)"
    for hop j
  proof -
    have "tables_inv (ei_config j) (ei_routes j) (ei_neighbors j)"
      using tab(1) tables_inv_insert [OF tab(1) _ hop(2)] by (simp add: j neighbor_wf_def)
    moreover have "queues_inv (ei_config i) (ei_pending i @ [\<lparr>pd_next_hop = hop, pd_frame = f\<rparr>]) (ei_ready i)
        (ei_control i) (ei_control_spare i)"
      using q assms(3) hop(1) inv(2) by (auto simp: queues_inv_def)
    moreover have "hop_resolving (ei_neighbors j) hop" "hop_resolving (ei_neighbors i) h \<Longrightarrow> hop_resolving (ei_neighbors j) h" for h
      using tab(2) by (auto simp: j hop_resolving_simps is_resolving_def)
    moreover have "ei_now j = ei_now i" "ei_config j = ei_config i" "ei_ready j = ei_ready i" "ei_device j = ei_device i"
        "ei_control j = ei_control i" "ei_control_spare j = ei_control_spare i" "ei_rx j = ei_rx i" "ei_events j = ei_events i"
      by (simp_all add: j)
    ultimately show ?thesis
      using ev res h by (auto simp: eth_held_def ei_inv_def ei_resolving_def ei_frames_def list_all_iff)
  qed
  show ?thesis
  proof (cases "cfg_broadcast (ei_config i) dst")
    case True
    have "length MAC_BROADCAST = 6"
      by (simp add: MAC_BROADCAST_def)
    then show ?thesis
      using True ready [of MAC_BROADCAST] oct unfolding dst_def
      by (auto simp: accept_frame_def wp_eq_Some ei_same_def)
  next
    case False
    then obtain r where r: "route_lookup (ei_routes i) dst = Some r"
      using assms(2) by (auto simp: sendable_def Let_def dst_def)
    show ?thesis
    proof (cases "resolved_mac i (next_hop r dst)")
      case None
      then have "bt_get (ei_neighbors i) (next_hop r dst) \<noteq> Some (NStatic s)" for s
        by (auto simp: resolved_mac_def neighbor_mac_def)
      then have "keeps_static (ei_neighbors i) (bt_insert (next_hop r dst) n (ei_neighbors i))" for n
        using tab(2) by (simp add: keeps_static_update)
      then show ?thesis
        using None False r oct queue [of "next_hop r dst", OF _ _ refl] unfolding dst_def
        by (auto simp: accept_frame_def Let_def hop_count_def bt_contains_get hop_resolving_def ei_same_def
            split: option.splits)
    next
      case (Some m)
      then show ?thesis
        using False r oct ready [OF resolved_mac_length [OF tab(1) Some]] unfolding dst_def
        by (auto simp: accept_frame_def Let_def wp_eq_Some ei_same_def)
    qed
  qed
qed

lemma accept_frames_wp:
  assumes "eth_held held i (mset fs + M)" and "list_all (sendable i) fs"
    and "length (ei_pending i) + length (ei_ready i) + length fs \<le> ic_tx_capacity (ei_config i)"
  shows "wp (accept_frames fs i) (\<lambda>(n, i'). n \<le> length fs \<and> eth_held held i' (mset (drop n fs) + M) \<and> ei_same i i' \<and>
    ei_rx i' = ei_rx i)"
  using assms
proof (induction fs arbitrary: i)
  case (Cons f fs)
  have "eth_held held i (add_mset f (mset fs + M))" "sendable i f"
    using Cons.prems(1,2) by simp_all
  moreover have "length (ei_pending i) + length (ei_ready i) < ic_tx_capacity (ei_config i)"
    using Cons.prems(3) by simp
  ultimately obtain r where r: "accept_frame f i = Some r"
      "case r of None \<Rightarrow> True | Some j \<Rightarrow> eth_held held j (mset fs + M) \<and> ei_same i j \<and> ei_rx j = ei_rx i \<and>
        length (ei_pending j) + length (ei_ready j) = Suc (length (ei_pending i) + length (ei_ready i))"
    using accept_frame_wp unfolding wp_eq_Some by blast
  show ?case
  proof (cases r)
    case None
    then show ?thesis
      using r(1) Cons.prems(1) by simp
  next
    case (Some j)
    then have j: "eth_held held j (mset fs + M)" "ei_same i j" "ei_rx j = ei_rx i"
        "length (ei_pending j) + length (ei_ready j) = Suc (length (ei_pending i) + length (ei_ready i))"
      using r(2) by simp_all
    moreover have "list_all (sendable j) fs"
      using Cons.prems(2) j(2) by (simp add: list_all_iff sendable_def ei_same_def)
    moreover have "length (ei_pending j) + length (ei_ready j) + length fs \<le> ic_tx_capacity (ei_config j)"
      using Cons.prems(3) j(2,4) by (simp add: ei_same_def)
    ultimately obtain n k where k: "accept_frames fs j = Some (n, k)" "n \<le> length fs"
        "eth_held held k (mset (drop n fs) + M)" "ei_same j k" "ei_rx k = ei_rx j"
      using Cons.IH unfolding wp_eq_Some by blast
    then show ?thesis
      using r(1) Some j(3) ei_same_trans [OF j(2) k(4)] by simp
  qed
qed simp

lemma ei_send_wp:
  assumes "eth_held held i (mset fs + M)"
  shows "wp (ei_send fs i) (\<lambda>(r, fs', i'). ei_same i i' \<and> ei_rx i' = ei_rx i \<and> (case r of
      Inl e \<Rightarrow> fs' = fs \<and> eth_held held i' (mset fs + M) \<and> ei_same_work i i' \<and> ei_ready i' = ei_ready i
    | Inr n \<Rightarrow> n \<le> length fs \<and> fs' = replicate n empty_buf @ drop n fs \<and> eth_held held i' (mset (drop n fs) + M)))"
proof (cases "ei_configured i")
  case False
  then show ?thesis
    using assms by (simp add: ei_send_def)
next
  case True
  define room where "room = ic_tx_capacity (ei_config i) - length (ei_pending i) - length (ei_ready i)"
  define limit where "limit = min room (length fs)"
  have cap: "length (ei_pending i) + length (ei_ready i) \<le> ic_tx_capacity (ei_config i)"
    using assms by (simp add: eth_held_def ei_inv_def queues_inv_def)
  have "pb_inv f" if "f \<in> set fs" for f
    using assms held_inv [of "ei_device i" "ei_frames i + (mset fs + M)" f] that by (simp add: eth_held_def)
  then have "list_all pb_inv (take limit fs)"
    by (meson in_set_takeD list_all_iff)
  then obtain r j where j: "validate_frames (take limit fs) i = Some (r, j)" "eth_held held j (mset fs + M)"
      "ei_same_work i j" "ei_ready j = ei_ready i" "ei_rx j = ei_rx i"
      "r = Inr () \<longrightarrow> j = i \<and> list_all (sendable i) (take limit fs)"
    using validate_frames_wp [OF assms] unfolding wp_eq_Some by blast
  show ?thesis
  proof (cases r)
    case (Inl e)
    then show ?thesis
      using True cap j ei_same_workD [OF j(3)] by (simp add: ei_send_def Let_def limit_def room_def)
  next
    case (Inr u)
    have lim: "limit \<le> length fs" "length (ei_pending i) + length (ei_ready i) + length (take limit fs) \<le> ic_tx_capacity (ei_config i)"
      using cap by (auto simp: limit_def room_def)
    have ok: "list_all (sendable i) (take limit fs)"
      using j(6) Inr by simp
    have "eth_held held i (mset (take limit fs) + (mset (drop limit fs) + M))"
      using assms by (subst (asm) mset_take_drop [of fs limit]) (simp add: add.assoc)
    then obtain n k where k: "accept_frames (take limit fs) i = Some (n, k)" "n \<le> length (take limit fs)"
        "eth_held held k (mset (drop n (take limit fs)) + (mset (drop limit fs) + M))" "ei_same i k" "ei_rx k = ei_rx i"
      using accept_frames_wp [OF _ ok lim(2)] unfolding wp_eq_Some by blast
    have "mset (drop n fs) + M = mset (drop n (take limit fs)) + (mset (drop limit fs) + M)"
      by (simp add: drop_take_append [OF k(2), symmetric] add.assoc del: length_take)
    then have "eth_held held k (mset (drop n fs) + M)"
      using k(3) by (simp only:)
    moreover have "n \<le> length fs"
      using k(2) lim(1) by simp
    moreover have "ei_send fs i = Some (Inr n, replicate n empty_buf @ drop n fs,
        count_stat is_accepted_ip_update n (if n < length fs then ei_event QueueFull (count_stat is_queue_full_update 1 k)
          else k))"
      using True cap j(1,6) Inr k(1) by (simp add: ei_send_def Let_def limit_def room_def rust_assert_def)
    ultimately show ?thesis
      using k(4,5) by (cases "n < length fs") auto
  qed
qed

lemma ei_alloc_wp:
  assumes "eth_held held i M"
  shows "wp (ei_alloc ops i) (\<lambda>(r, i'). ei_same_work i i' \<and> (case r of
      None \<Rightarrow> eth_held held i' M
    | Some b \<Rightarrow> eth_held held i' (add_mset b M) \<and> pb_len b = 0 \<and> framable b))"
proof -
  obtain j where j: "ensure_spare ops i = Some j" "eth_held held j M" "ei_same_work i j"
    using ensure_spare_wp [OF held_ok [OF assms]] ei_same_work_resolving assms
    unfolding wp_eq_Some eth_held_def ei_ok_def by blast
  show ?thesis
  proof (cases "ei_control_spare j")
    case None
    then show ?thesis
      using j by (simp add: ei_alloc_def)
  next
    case (Some s)
    have "held (ei_device j) (ei_frames j + M)"
      using j(2) by (simp add: eth_held_def)
    then obtain r d where r: "dv_alloc ops (ei_device j) = Some (r, d)"
        "case r of None \<Rightarrow> held d (ei_frames j + M) | Some b \<Rightarrow> held d (add_mset b (ei_frames j + M)) \<and> pb_len b = 0"
      using alloc_law unfolding wp_eq_Some by blast
    show ?thesis
    proof (cases r)
      case None
      then show ?thesis
        using j r Some by (simp add: ei_alloc_def eth_held_def)
    next
      case (Some b)
      then have b: "held d (add_mset b (ei_frames j + M))"
        using r(2) by simp
      then have "pb_inv b"
        using held_inv by (metis union_single_eq_member)
      then obtain ok b' where p: "prepare_empty b = Some (ok, b')" "pb_inv b'" "same_frame b b'" "pb_len b' = 0"
          "case ok of Inl e \<Rightarrow> True | Inr u \<Rightarrow> framable b'"
        using prepare_empty_wp unfolding wp_eq_Some by blast
      let ?k = "j\<lparr>ei_device := d\<rparr>"
      have k: "eth_held held ?k (add_mset b' M)"
        using j(2) held_edit [OF b p(3,2)] by (simp add: eth_held_def)
      have d: "wp (drop_frame ops b' ?k) (\<lambda>l. eth_held held l M \<and> ei_same_work i l)"
        using drop_law [of d b' "ei_frames j + M"] k j(3) by (auto simp: drop_frame_def eth_held_def wp_eq_Some)
      then show ?thesis
        using \<open>ei_control_spare j = Some s\<close> Some j(1,3) r(1) p k
        by (cases ok) (auto simp: ei_alloc_def wp_eq_Some)
    qed
  qed
qed

lemma ei_poll_wp:
  assumes "eth_held held i M"
  shows "wp (ei_poll_at ops now i) (\<lambda>(r, i'). eth_held held i' M \<and> ei_config i' = ei_config i \<and>
    keeps_static (ei_neighbors i) (ei_neighbors i') \<and> (r = Inr () \<longrightarrow> ei_now i' = now \<and> (\<forall>hop. hop_fresh now (ei_neighbors i') hop)))"
proof -
  have "held (ei_device i) (ei_frames i + M)"
    using assms by (simp add: eth_held_def)
  then obtain r d where d: "dv_poll_at ops now (ei_device i) = Some (r, d)" "held d (ei_frames i + M)"
    using poll_law unfolding wp_eq_Some by blast
  then have "eth_held held (i\<lparr>ei_device := d\<rparr>) M"
    using assms by (simp add: eth_held_def)
  from ei_advance_wp [OF this, of now] this show ?thesis
    using d(1) by (cases r) (auto simp: ei_poll_at_def elim!: wp_mono split: if_split_asm)
qed

lemma ei_recv_wp:
  assumes "eth_held held i (mset out + M)"
  shows "wp (ei_recv ops k out i) (\<lambda>(r, out', i'). eth_held held i' (mset out' + M) \<and> ei_config i' = ei_config i \<and>
    keeps_static (ei_neighbors i) (ei_neighbors i') \<and> (case r of Inl e \<Rightarrow> True | Inr n \<Rightarrow> n = length out' \<and> n \<le> k))"
proof -
  obtain d where d: "dv_drop_all ops out (ei_device i) = Some d" "held d (ei_frames i + M)"
    using assms drop_all_wp [of "ei_device i" out "ei_frames i + M"]
    by (auto simp: eth_held_def wp_eq_Some ac_simps)
  then have j: "eth_held held (i\<lparr>ei_device := d\<rparr>) M"
    using assms by (simp add: eth_held_def)
  show ?thesis
  proof (cases "k = 0")
    case True
    obtain r l where l: "ei_advance ops (ei_now i) (i\<lparr>ei_device := d\<rparr>) = Some (r, l)" "eth_held held l M"
        "keeps_static (ei_neighbors i) (ei_neighbors l)" "ei_config l = ei_config i"
      using ei_advance_wp [OF j, of "ei_now i"] by (auto simp: wp_eq_Some)
    show ?thesis
      using True d(1) l by (cases r) (simp_all add: ei_recv_def)
  next
    case False
    let ?spare = "case ei_control_spare i of None \<Rightarrow> [] | Some f \<Rightarrow> [f]"
    define i0 where "i0 = i\<lparr>ei_control_spare := None, ei_rx := []\<rparr>"
    have split: "ei_frames i = mset ?spare + (mset (ei_rx i) + ei_frames i0)"
      by (simp add: i0_def ei_frames_def ac_simps split: option.splits)
    have i0: "ei_inv i0" "ei_resolving i0"
      using j by (simp_all add: i0_def eth_held_def ei_inv_def queues_inv_def ei_resolving_def)
    obtain d1 where d1: "dv_drop_all ops ?spare d = Some d1" "held d1 (mset (ei_rx i) + (ei_frames i0 + M))"
      using d(2) drop_all_wp [of d ?spare "mset (ei_rx i) + (ei_frames i0 + M)"] unfolding split wp_eq_Some add.assoc
      by blast
    then obtain r rx d2 where d2: "dv_recv ops k (ei_rx i) d1 = Some (r, rx, d2)" "held d2 (mset rx + (ei_frames i0 + M))"
        "case r of Inl e \<Rightarrow> True | Inr n \<Rightarrow> n = length rx \<and> n \<le> k"
      using recv_law unfolding wp_eq_Some by blast
    show ?thesis
    proof (cases r)
      case (Inl e)
      have "eth_held held (i\<lparr>ei_control_spare := None, ei_device := d2, ei_rx := rx\<rparr>) M"
        using i0 d2(2) by (simp add: eth_held_def i0_def ei_inv_def ei_resolving_def ei_frames_def ac_simps)
      then show ?thesis
        using False d(1) d1(1) d2(1) Inl by (simp add: ei_recv_def)
    next
      case (Inr n)
      let ?j = "i\<lparr>ei_control_spare := None, ei_device := d2, ei_rx := []\<rparr>"
      have "ei_ok held ?j (mset rx + mset [] + M)"
        using i0 d2(2) resolving_waiting [OF i0(2)]
        by (simp add: ei_ok_def i0_def ei_inv_def ei_waiting_def ei_frames_def ac_simps)
      then obtain out' l where l: "receive_frames ops rx [] ?j = Some (out', l)" "ei_ok held l (mset out' + M)"
          "ei_same ?j l" "ei_rx l = ei_rx ?j" "length out' \<le> length ([] :: packet_buf list) + length rx"
        using receive_frames_wp unfolding wp_eq_Some by blast
      obtain r' m where m: "ei_advance ops (ei_now l) l = Some (r', m)" "eth_held held m (mset out' + M)"
          "keeps_static (ei_neighbors l) (ei_neighbors m)" "ei_config m = ei_config l"
        using advance_core_wp [where i = l and now = "ei_now l" and M = "mset out' + M"] l(2) by (auto simp: wp_eq_Some)
      have "keeps_static (ei_neighbors i) (ei_neighbors m)" "ei_config l = ei_config i"
        using l(3) keeps_static_trans [OF _ m(3)] by (simp_all add: ei_same_def)
      then show ?thesis
        using False d(1) d1(1) d2(1,3) Inr l(1,5) m by (cases r') (simp_all add: ei_recv_def)
    qed
  qed
qed

text \<open>The configuration operations.\<close>

lemma discard_held_wp:
  assumes "eth_held held i M"
  shows "wp (discard_queued ops i) (\<lambda>i'. eth_held held i' M \<and> ei_same i i' \<and> ei_pending i' = [] \<and> ei_ready i' = [] \<and>
    ei_control i' = [] \<and> ei_neighbors i' = bt_retain (\<lambda>_ n. \<not> is_resolving n) (ei_neighbors i))"
  using discard_queued_wp [of i M] assms by (auto simp: eth_held_def elim!: wp_mono)

text \<open>With nothing pending the tables may be replaced freely.\<close>

lemma held_tables:
  assumes "eth_held held i M" and "ei_pending i = []" and "tables_inv cfg routes neighbors"
    and "cfg = (ei_config i)\<lparr>ic_address := a, ic_prefix_len := p\<rparr>"
  shows "eth_held held (i\<lparr>ei_neighbors := neighbors, ei_routes := routes, ei_config := cfg, ei_configured := c\<rparr>) M"
  using assms by (simp add: eth_held_def ei_inv_def queues_inv_def ei_resolving_def ei_frames_def)

lemma held_routes:
  assumes "eth_held held i M" and "route_table_inv routes" and "rtb_limit routes = rtb_limit (ei_routes i)"
  shows "eth_held held (i\<lparr>ei_routes := routes\<rparr>) M"
  using assms by (simp add: eth_held_def ei_inv_def tables_inv_def ei_resolving_def ei_frames_def)

lemma configure_ipv4_wp:
  assumes "eth_held held i M"
  shows "wp (configure_ipv4 ops address prefix gateway i) (\<lambda>(r, i'). eth_held held i' M \<and> same_limits (ei_config i) (ei_config i') \<and>
    (case r of Inl e \<Rightarrow> i' = i | Inr changed \<Rightarrow> lease_applied address prefix gateway i' \<and>
      (if changed then ei_pending i' = [] \<and> ei_ready i' = [] \<and> ei_control i' = [] \<and> ei_neighbors i' = [] else i' = i)))"
proof -
  obtain j where j: "discard_queued ops i = Some j" "eth_held held j M" "ei_same i j" "ei_pending j = []"
      "ei_ready j = []" "ei_control j = []"
    using discard_held_wp [OF assms] unfolding wp_eq_Some by blast
  let ?cfg = "(ei_config j)\<lparr>ic_address := address, ic_prefix_len := prefix\<rparr>"
  let ?new = "\<lambda>routes. j\<lparr>ei_neighbors := [], ei_routes := routes, ei_config := ?cfg, ei_configured := True\<rparr>"
  have cfg: "ei_config j = ei_config i"
    using j(3) by (simp add: ei_same_def)
  have new: "eth_held held (?new routes) M" "lease_applied address prefix gateway (?new routes)"
    if "configured_routes (ic_route_capacity (ei_config i)) connected gateway = Inr routes"
      "route_new address prefix None = Inr connected" for routes connected
  proof -
    have "tables_inv ?cfg routes []"
      using j(2) configured_routes_inv [OF that(1) route_new_wf [OF that(2)]]
      by (simp add: cfg eth_held_def ei_inv_def tables_inv_def)
    from held_tables [OF j(2,4) this refl] show "eth_held held (?new routes) M" .
    show "lease_applied address prefix gateway (?new routes)"
      using configured_routes_lease [OF that] by (simp add: lease_applied_def)
  qed
  have old: "lease_applied address prefix gateway i"
    if "ei_configured i" "ic_address (ei_config i) = address" "ic_prefix_len (ei_config i) = prefix"
      "rtb_entries (ei_routes i) = rtb_entries routes" "route_new address prefix None = Inr connected"
      "configured_routes (ic_route_capacity (ei_config i)) connected gateway = Inr routes" for routes connected
    using that configured_routes_lease [OF that(6,5)] by (simp add: lease_applied_def)
  show ?thesis
    using assms new old j(1,4-6)
    by (auto simp: configure_ipv4_def cfg [symmetric] Let_def split: sum.splits)
qed

lemma withdraw_ipv4_wp:
  assumes "eth_held held i M"
  shows "wp (withdraw_ipv4 ops i) (\<lambda>i'. eth_held held i' M \<and> \<not> ei_configured i' \<and> ei_pending i' = [] \<and>
    ei_ready i' = [] \<and> ei_control i' = [] \<and> ei_neighbors i' = [] \<and> rtb_entries (ei_routes i') = [] \<and>
    ei_config i' = ei_config i)"
proof -
  obtain j where j: "discard_queued ops i = Some j" "eth_held held j M" "ei_pending j = []"
      "ei_ready j = []" "ei_control j = []" "ei_same i j"
    using discard_held_wp [OF assms] unfolding wp_eq_Some by blast
  have "tables_inv (ei_config j) (route_table_new (ic_route_capacity (ei_config j))) []"
    using j(2) by (simp add: eth_held_def ei_inv_def tables_inv_def)
  moreover have "ei_config j = (ei_config j)\<lparr>ic_address := ic_address (ei_config j), ic_prefix_len := ic_prefix_len (ei_config j)\<rparr>"
    by simp
  ultimately have "eth_held held (j\<lparr>ei_neighbors := [], ei_routes := route_table_new (ic_route_capacity (ei_config j)),
      ei_config := ei_config j, ei_configured := False\<rparr>) M"
    by (rule held_tables [OF j(2,3)])
  then show ?thesis
    using j(1,3-6) by (simp add: withdraw_ipv4_def route_table_new_def ei_same_def)
qed

lemma add_route_wp:
  assumes "eth_held held i M" and "route_wf r"
  shows "wp (add_route ops r i) (\<lambda>(res, i'). eth_held held i' M \<and> ei_config i' = ei_config i \<and>
    (case res of Inl e \<Rightarrow> i' = i | Inr u \<Rightarrow> ei_pending i' = []))"
proof -
  obtain res t where t: "route_insert r (ei_routes i) = (res, t)"
    by (cases "route_insert r (ei_routes i)")
  have inv: "route_table_inv (ei_routes i)"
    using assms(1) by (simp add: eth_held_def ei_inv_def tables_inv_def)
  show ?thesis
  proof (cases res)
    case (Inl e)
    then have "t = ei_routes i"
      using rtab.install_err [OF inv] t by blast
    then show ?thesis
      using assms(1) t Inl by (auto simp: add_route_def split: option.split)
  next
    case (Inr u)
    then have "route_table_inv t"
      using route_insert_ok(1) [OF inv assms(2)] t by simp
    from discard_held_wp [OF held_routes [OF assms(1) this route_insert_limit [OF t]]] show ?thesis
      using assms(1) t Inr by (auto simp: add_route_def wp_eq_Some ei_same_def split: option.split)
  qed
qed

lemma remove_route_wp:
  assumes "eth_held held i M"
  shows "wp (remove_route ops address prefix i) (\<lambda>(res, i'). eth_held held i' M \<and> ei_config i' = ei_config i \<and>
    (case res of Inl e \<Rightarrow> i' = i | Inr removed \<Rightarrow> removed \<longrightarrow> ei_pending i' = []))"
proof (cases "prefix \<le> 32")
  case False
  then show ?thesis
    using assms by (simp add: remove_route_def route_remove_def route_new_def not_le)
next
  case True
  have "route_table_inv (ei_routes i)"
    using assms by (simp add: eth_held_def ei_inv_def tables_inv_def)
  from route_remove_ok [OF this True, of address] obtain removed t where
      t: "route_remove address prefix (ei_routes i) = (Inr removed, t)" "route_table_inv t"
    by blast
  note h = held_routes [OF assms t(2) route_remove_limit [OF t(1)]]
  from discard_held_wp [OF h] show ?thesis
    using t(1) h by (auto simp: remove_route_def Let_def wp_eq_Some ei_same_def)
qed

lemma remove_neighbor_wp:
  assumes "eth_held held i M"
  shows "wp (remove_neighbor ops ip i) (\<lambda>(removed, i'). eth_held held i' M \<and> ei_config i' = ei_config i \<and>
    (if removed then ei_pending i' = [] else i' = i))"
proof (cases "bt_contains (ei_neighbors i) ip")
  case False
  then have "i\<lparr>ei_neighbors := bt_remove ip (ei_neighbors i)\<rparr> = i"
    by (simp add: bt_contains_get bt_remove_absent)
  then show ?thesis
    using False assms by (simp add: remove_neighbor_def)
next
  case True
  let ?j = "i\<lparr>ei_neighbors := bt_remove ip (ei_neighbors i)\<rparr>"
  have "ei_inv ?j" "held (ei_device ?j) (ei_frames ?j + M)"
    using assms by (simp_all add: eth_held_def ei_inv_def tables_inv_filter ei_frames_def)
  from discard_queued_wp [OF this] obtain k where "discard_queued ops ?j = Some k" "eth_held held k M" "ei_pending k = []" "ei_same ?j k"
    unfolding wp_eq_Some by blast
  then show ?thesis
    using True by (simp add: remove_neighbor_def Let_def ei_same_def)
qed

lemma reset_link_wp:
  assumes "eth_held held i M"
  shows "wp (reset_link ops i) (\<lambda>i'. eth_held held i' M \<and> ei_config i' = ei_config i \<and> ei_configured i' = ei_configured i \<and>
    ei_routes i' = ei_routes i \<and> ei_pending i' = [] \<and> ei_ready i' = [] \<and> ei_control i' = [] \<and>
    list_all (\<lambda>e. is_static (snd e)) (ei_neighbors i'))"
proof -
  obtain j where j: "discard_queued ops i = Some j" "eth_held held j M" "ei_pending j = []" "ei_ready j = []" "ei_control j = []"
      "ei_same i j"
    using discard_held_wp [OF assms] unfolding wp_eq_Some by blast
  have "eth_held held (j\<lparr>ei_neighbors := bt_retain (\<lambda>_ n. is_static n) (ei_neighbors j)\<rparr>) M"
    using j(2,3) by (simp add: eth_held_def ei_inv_def tables_inv_filter ei_resolving_def ei_frames_def)
  then show ?thesis
    using j(1,3-6) by (auto simp: reset_link_def bt_retain_def list_all_iff ei_same_def)
qed

lemma static_insert_wp:
  assumes "eth_held held i M" and "length m = 6"
    and "bt_get (ei_neighbors i) ip \<noteq> None \<or> length (ei_neighbors i) \<noteq> ic_neighbor_capacity (ei_config i)"
  shows "wp (do {
      i \<leftarrow> cancel_probes ops ip i;
      let i = ei_event (NeighborResolved ip m) (i\<lparr>ei_neighbors := bt_insert ip (NStatic m) (ei_neighbors i)\<rparr>);
      i \<leftarrow> release_resolved i;
      Some (Inr () :: unit io_result, i)
    }) (\<lambda>(res, i'). eth_held held i' M \<and> ei_config i' = ei_config i \<and>
      bt_get (ei_neighbors i') ip = Some (NStatic m) \<and> res = Inr ())"
proof -
  obtain j where j: "cancel_probes ops ip i = Some j" "ei_ok held j M" "ei_same_work i j"
    using cancel_probes_wp [OF held_ok [OF assms(1)]] unfolding wp_eq_Some by blast
  define k where "k = ei_event (NeighborResolved ip m) (j\<lparr>ei_neighbors := bt_insert ip (NStatic m) (ei_neighbors j)\<rparr>)"
  have inv: "tables_inv (ei_config j) (ei_routes j) (ei_neighbors j)" "bt_inv (ei_neighbors j)"
    using j(2) by (simp_all add: ei_ok_def ei_inv_def tables_inv_def)
  have "bt_get (ei_neighbors j) ip \<noteq> None \<or> length (ei_neighbors j) \<noteq> ic_neighbor_capacity (ei_config j)"
    using assms(3) j(3) by (simp add: ei_same_work_def ei_same_def)
  then have "tables_inv (ei_config j) (ei_routes j) (bt_insert ip (NStatic m) (ei_neighbors j))"
    using tables_inv_insert [OF inv(1)] assms(2) by (simp add: neighbor_wf_def)
  moreover have "hop_waiting (ei_now j) (ei_neighbors j) h \<Longrightarrow>
      hop_waiting (ei_now j) (bt_insert ip (NStatic m) (ei_neighbors j)) h" for h
    using inv(2) by (simp add: hop_waiting_insert neighbor_mac_def)
  ultimately have "ei_ok held (j\<lparr>ei_neighbors := bt_insert ip (NStatic m) (ei_neighbors j)\<rparr>) M"
    using j(2) by (auto simp: ei_ok_def ei_inv_def ei_waiting_def list_all_iff ei_frames_def)
  then have "ei_ok held k M"
    by (simp add: k_def)
  then obtain l where l: "release_resolved k = Some l" "eth_held held l M" "ei_neighbors l = ei_neighbors k" "ei_same k l"
    using release_resolved_wp unfolding wp_eq_Some by blast
  moreover have "ei_config l = ei_config i"
    using l(4) j(3) by (simp add: k_def ei_same_work_def ei_same_def)
  ultimately show ?thesis
    using j(1) inv(2) by (simp add: k_def [symmetric]) (simp add: k_def bt_simps)
qed

lemma add_static_neighbor_wp:
  assumes "eth_held held i M" and m: "length m = 6"
  shows "wp (add_static_neighbor ops ip m i) (\<lambda>(res, i'). eth_held held i' M \<and> ei_config i' = ei_config i \<and>
    (case res of Inl e \<Rightarrow> i' = i | Inr u \<Rightarrow> bt_get (ei_neighbors i') ip = Some (NStatic m)))"
proof -
  let ?bad = "\<not> ip_unicast ip \<or> cfg_broadcast (ei_config i) ip \<or> ip = ic_address (ei_config i) \<or> \<not> unicast m"
  let ?full = "\<not> bt_contains (ei_neighbors i) ip \<and> length (ei_neighbors i) = ic_neighbor_capacity (ei_config i)"
  define changed where "changed = (case bt_get (ei_neighbors i) ip of
    Some (NStatic old) \<Rightarrow> old \<noteq> m | Some (NReachable old _) \<Rightarrow> old \<noteq> m | _ \<Rightarrow> False)"
  show ?thesis
  proof (cases "?bad \<or> ?full")
    case True
    then have "\<exists>e. add_static_neighbor ops ip m i = Some (Inl e, i)"
      by (auto simp: add_static_neighbor_def)
    then show ?thesis
      using assms(1) by auto
  next
    case False
    have ok: "?bad = False" "?full = False"
      using False by blast+
    have cap: "bt_get (ei_neighbors i) ip \<noteq> None \<or> length (ei_neighbors i) \<noteq> ic_neighbor_capacity (ei_config i)"
      using False by (auto simp: bt_contains_get)
    obtain j where j: "(if changed then discard_queued ops i else Some i) = Some j" "eth_held held j M"
        "bt_get (ei_neighbors j) ip \<noteq> None \<or> length (ei_neighbors j) \<noteq> ic_neighbor_capacity (ei_config j)"
        "ei_config j = ei_config i"
    proof (cases changed)
      case True
      then obtain n where n: "bt_get (ei_neighbors i) ip = Some n" "\<not> is_resolving n"
        by (auto simp: changed_def is_resolving_def split: option.split_asm neighbor_state.split_asm)
      have bt: "bt_inv (ei_neighbors i)"
        using assms by (simp add: eth_held_def ei_inv_def tables_inv_def)
      obtain k where k: "discard_queued ops i = Some k" "eth_held held k M" "ei_same i k"
          "ei_neighbors k = bt_retain (\<lambda>_ n. \<not> is_resolving n) (ei_neighbors i)"
        using discard_held_wp [OF assms(1)] unfolding wp_eq_Some by blast
      have "bt_get (ei_neighbors k) ip \<noteq> None"
        using n bt by (simp add: k(4) bt_simps)
      moreover have "ei_config k = ei_config i"
        using k(3) by (simp add: ei_same_def)
      ultimately show thesis
        using that [of k] True k(1,2) by simp
    next
      case False
      then show thesis
        using that [of i] assms(1) cap by simp
    qed
    have eq: "add_static_neighbor ops ip m i = do {
        i \<leftarrow> cancel_probes ops ip j;
        let i = ei_event (NeighborResolved ip m) (i\<lparr>ei_neighbors := bt_insert ip (NStatic m) (ei_neighbors i)\<rparr>);
        i \<leftarrow> release_resolved i;
        Some (Inr (), i)
      }"
      using j(1) unfolding add_static_neighbor_def ok if_False changed_def by (simp add: Let_def)
    show ?thesis
      unfolding eq by (rule wp_mono [OF static_insert_wp [OF j(2) m j(3)]]) (auto simp: j(4))
  qed
qed

lemma eth_ipv4_new_wp:
  assumes "held d M" and "length (ic_mac cfg) = 6"
  shows "wp (eth_ipv4_new ops layout d cfg) (\<lambda>r. case r of Inl e \<Rightarrow> True | Inr i \<Rightarrow> eth_held held i M \<and> ei_config i = cfg)"
proof -
  obtain r d' where r: "dv_alloc ops d = Some (r, d')"
      "case r of None \<Rightarrow> held d' M | Some b \<Rightarrow> held d' (add_mset b M) \<and> pb_len b = 0"
    using alloc_law [OF assms(1)] unfolding wp_eq_Some by blast
  show ?thesis
  proof (cases r)
    case None
    then show ?thesis
      using r(1) by (simp add: eth_ipv4_new_def split: sum.split)
  next
    case (Some b)
    then have b: "held d' (add_mset b M)"
      using r(2) by simp
    then have "pb_inv b"
      using held_inv by (metis union_single_eq_member)
    then obtain ok b' where p: "prepare_empty b = Some (ok, b')" "pb_inv b'" "same_frame b b'" "pb_len b' = 0"
        "case ok of Inl e \<Rightarrow> True | Inr u \<Rightarrow> framable b'"
      using prepare_empty_wp unfolding wp_eq_Some by blast
    have b': "held d' (add_mset b' M)"
      using held_edit [OF b p(3,2)] .
    have "eth_held held \<lparr>ei_device = d', ei_config = cfg, ei_configured = True, ei_routes = routes, ei_neighbors = [],
        ei_pending = [], ei_ready = [], ei_control = [], ei_control_spare = Some b', ei_rx = [], ei_events = [],
        ei_now = 0, ei_stats = interface_stats_default, ei_layout = layout, ei_flushes = 0\<rparr> M"
      if "ok = Inr u" "config_valid cfg" "route_table_inv routes \<and> rtb_limit routes = ic_route_capacity cfg" for routes u
      using b' p(5) that assms(2)
      by (simp add: eth_held_def ei_inv_def tables_inv_def queues_inv_def ei_resolving_def ei_frames_def config_valid_def)
    moreover have "route_table_inv routes \<and> rtb_limit routes = ic_route_capacity cfg" if "route_new (ic_address cfg) (ic_prefix_len cfg) None = Inr c"
        "route_insert c (route_table_new (ic_route_capacity cfg)) = (Inr (), routes)" for c routes
      using route_insert_ok(1) [OF route_table_new_inv route_new_wf [OF that(1)] that(2)] route_insert_limit [OF that(2)] by simp
    ultimately show ?thesis
      using r(1) Some p(1) by (auto simp: eth_ipv4_new_def split: sum.split prod.split)
  qed
qed

lemma eth_device: "device (eth_ops ops) (eth_held held)"
proof
  fix i :: "'d eth_ipv4" and M b b' fs out k now
  show "eth_held held i M \<Longrightarrow> b \<in># M \<Longrightarrow> pb_inv b"
    using held_inv [of "ei_device i" "ei_frames i + M" b] by (simp add: eth_held_def)
  show "eth_held held i (add_mset empty_buf M) = eth_held held i M"
    by (simp add: eth_held_def held_empty)
  show "eth_held held i (add_mset b M) \<Longrightarrow> same_frame b b' \<Longrightarrow> pb_inv b' \<Longrightarrow> eth_held held i (add_mset b' M)"
    using held_edit [of "ei_device i" b "ei_frames i + M" b'] by (simp add: eth_held_def)
  show "eth_held held i M \<Longrightarrow> wp (dv_poll_at (eth_ops ops) now i) (\<lambda>(r, i'). eth_held held i' M)"
    using ei_poll_wp [of i M now] by (auto simp: eth_ops_def elim!: wp_mono)
  show "eth_held held i (mset out + M) \<Longrightarrow> wp (dv_recv (eth_ops ops) k out i) (\<lambda>(r, out', i').
      eth_held held i' (mset out' + M) \<and> (case r of Inl e \<Rightarrow> True | Inr n \<Rightarrow> n = length out' \<and> n \<le> k))"
    using ei_recv_wp [of i out M k] by (auto simp: eth_ops_def elim!: wp_mono)
  show "wp (dv_send (eth_ops ops) fs i) (\<lambda>(r, fs', i'). case r of
      Inl e \<Rightarrow> fs' = fs \<and> eth_held held i' (mset fs + M)
    | Inr n \<Rightarrow> n \<le> length fs \<and> fs' = replicate n empty_buf @ drop n fs \<and> eth_held held i' (mset (drop n fs) + M))"
    if h: "eth_held held i (mset fs + M)"
  proof -
    obtain r fs' i' where "ei_send fs i = Some (r, fs', i')" "case r of
        Inl e \<Rightarrow> fs' = fs \<and> eth_held held i' (mset fs + M) \<and> ei_same_work i i' \<and> ei_ready i' = ei_ready i
      | Inr n \<Rightarrow> n \<le> length fs \<and> fs' = replicate n empty_buf @ drop n fs \<and> eth_held held i' (mset (drop n fs) + M)"
      using ei_send_wp [OF h] unfolding wp_eq_Some by blast
    then show ?thesis
      by (cases r) (simp_all add: eth_ops_def)
  qed
  show "eth_held held i M \<Longrightarrow> wp (dv_alloc (eth_ops ops) i) (\<lambda>(r, i').
      case r of None \<Rightarrow> eth_held held i' M | Some b \<Rightarrow> eth_held held i' (add_mset b M) \<and> pb_len b = 0)"
    using ei_alloc_wp [of i M] by (auto simp: eth_ops_def elim!: wp_mono split: option.splits)
  show "eth_held held i (add_mset b M) \<Longrightarrow> wp (dv_drop (eth_ops ops) b i) (\<lambda>i'. eth_held held i' M)"
    using drop_law [of "ei_device i" b "ei_frames i + M"]
    by (auto simp: eth_ops_def drop_frame_def eth_held_def wp_eq_Some)
qed

end

end
