(* ===== verification/Eth_Ipv4_Spec.thy ===== *)
theory Eth_Ipv4_Spec
  imports Eth_Ipv4_Props
begin

text \<open>
  The properties of the Ethernet adapter over any device that keeps the \<open>device\<close> contract, and the
  adapter over the loopback device. A client is a list of calls; it owns the handles it has received or
  allocated and may edit, send or drop them in any order.
\<close>

section \<open>Clients\<close>

datatype ei_call =
    CallPoll duration
  | CallRecv nat
  | CallSend nat
  | CallAlloc
  | CallDrop nat
  | CallEdit nat packet_buf
  | CallConfigure ipv4addr u8 "ipv4addr option"
  | CallWithdraw
  | CallAddRoute ipv4addr u8 "ipv4addr option"
  | CallSetGateway ipv4addr
  | CallRemoveRoute ipv4addr u8
  | CallAddNeighbor ipv4addr mac
  | CallRemoveNeighbor ipv4addr
  | CallResetLink
  | CallAdvance duration
  | CallPopEvent

fun ei_exec :: "'d device_ops \<Rightarrow> ei_call \<Rightarrow> 'd eth_ipv4 \<times> packet_buf list \<Rightarrow> ('d eth_ipv4 \<times> packet_buf list) option" where
  "ei_exec ops (CallPoll now) (i, fs) = do { (_, i) \<leftarrow> ei_poll_at ops now i; Some (i, fs) }"
| "ei_exec ops (CallRecv k) (i, fs) = do { (_, out, i) \<leftarrow> ei_recv ops k [] i; Some (i, fs @ out) }"
| "ei_exec ops (CallSend n) (i, fs) = do { (_, sent, i) \<leftarrow> ei_send (take n fs) i; Some (i, sent @ drop n fs) }"
| "ei_exec ops CallAlloc (i, fs) = do {
     (r, i) \<leftarrow> ei_alloc ops i;
     Some (i, case r of None \<Rightarrow> fs | Some f \<Rightarrow> f # fs)
   }"
| "ei_exec ops (CallDrop n) (i, fs) =
     (if n < length fs then do { i \<leftarrow> drop_frame ops (fs ! n) i; Some (i, take n fs @ drop (Suc n) fs) }
      else Some (i, fs))"
| "ei_exec ops (CallEdit n b) (i, fs) =
     (if n < length fs \<and> same_frame (fs ! n) b \<and> pb_inv b then Some (i, fs[n := b]) else Some (i, fs))"
| "ei_exec ops (CallConfigure address prefix gateway) (i, fs) = do {
     (_, i) \<leftarrow> configure_ipv4 ops address prefix gateway i;
     Some (i, fs)
   }"
| "ei_exec ops CallWithdraw (i, fs) = do { i \<leftarrow> withdraw_ipv4 ops i; Some (i, fs) }"
| "ei_exec ops (CallAddRoute address prefix gateway) (i, fs) =
     (case route_new address prefix gateway of
        Inl e \<Rightarrow> Some (i, fs)
      | Inr r \<Rightarrow> do { (_, i) \<leftarrow> add_route ops r i; Some (i, fs) })"
| "ei_exec ops (CallSetGateway gateway) (i, fs) = do { (_, i) \<leftarrow> set_gateway ops gateway i; Some (i, fs) }"
| "ei_exec ops (CallRemoveRoute address prefix) (i, fs) = do {
     (_, i) \<leftarrow> remove_route ops address prefix i;
     Some (i, fs)
   }"
| "ei_exec ops (CallAddNeighbor ip m) (i, fs) =
     (if length m = 6 then do { (_, i) \<leftarrow> add_static_neighbor ops ip m i; Some (i, fs) } else Some (i, fs))"
| "ei_exec ops (CallRemoveNeighbor ip) (i, fs) = do { (_, i) \<leftarrow> remove_neighbor ops ip i; Some (i, fs) }"
| "ei_exec ops CallResetLink (i, fs) = do { i \<leftarrow> reset_link ops i; Some (i, fs) }"
| "ei_exec ops (CallAdvance now) (i, fs) = do { (_, i) \<leftarrow> ei_advance ops now i; Some (i, fs) }"
| "ei_exec ops CallPopEvent (i, fs) = Some (snd (ei_pop_event i), fs)"

fun ei_run :: "'d device_ops \<Rightarrow> ei_call list \<Rightarrow> 'd eth_ipv4 \<times> packet_buf list \<Rightarrow> ('d eth_ipv4 \<times> packet_buf list) option" where
  "ei_run ops [] s = Some s"
| "ei_run ops (c # cs) s = do { s \<leftarrow> ei_exec ops c s; ei_run ops cs s }"

lemma mset_nth_split: "n < length fs \<Longrightarrow> mset fs = add_mset (fs ! n) (mset (take n fs @ drop (Suc n) fs))"
  by (metis id_take_nth_drop mset_append mset.simps(2) union_mset_add_mset_right)

lemma mset_update_split: "n < length fs \<Longrightarrow> mset (fs[n := b]) = add_mset b (mset (take n fs @ drop (Suc n) fs))"
  by (simp add: upd_conv_take_nth_drop)

context device
begin

lemma ei_exec_wp:
  assumes h: "eth_held held i (mset fs + M)"
  shows "wp (ei_exec ops c (i, fs)) (\<lambda>(i', fs'). eth_held held i' (mset fs' + M) \<and> same_limits (ei_config i) (ei_config i'))"
proof (cases c)
  case (CallPoll now)
  then show ?thesis
    using ei_poll_wp [OF h, of now] by (auto simp: wp_eq_Some)
next
  case (CallRecv k)
  have "eth_held held i (mset [] + (mset fs + M))"
    using h by simp
  then obtain r out j where "ei_recv ops k [] i = Some (r, out, j)" "eth_held held j (mset out + (mset fs + M))"
      "ei_config j = ei_config i"
    using ei_recv_wp unfolding wp_eq_Some by blast
  then show ?thesis
    using CallRecv by (simp add: ac_simps)
next
  case (CallSend n)
  have "eth_held held i (mset (take n fs) + (mset (drop n fs) + M))"
    using h by (subst (asm) mset_take_drop [of fs n]) (simp add: add.assoc)
  then obtain r sent j where s: "ei_send (take n fs) i = Some (r, sent, j)" "case r of
        Inl e \<Rightarrow> sent = take n fs \<and> eth_held held j (mset (take n fs) + (mset (drop n fs) + M)) \<and>
          ei_same_work i j \<and> ei_ready j = ei_ready i
      | Inr k \<Rightarrow> k \<le> length (take n fs) \<and> sent = replicate k empty_buf @ drop k (take n fs) \<and>
          eth_held held j (mset (drop k (take n fs)) + (mset (drop n fs) + M))" "ei_same i j"
    using ei_send_wp unfolding wp_eq_Some by blast
  have "eth_held held j (mset (replicate k empty_buf) + N) = eth_held held j N" for k N
    by (rule device.held_empties [OF eth_device])
  with s have "eth_held held j (mset sent + (mset (drop n fs) + M))"
    by (cases r) (simp_all add: add.assoc del: mset_replicate)
  then show ?thesis
    using CallSend s(1,3) by (simp add: add.assoc ei_same_def)
next
  case CallAlloc
  obtain r j where "ei_alloc ops i = Some (r, j)" "ei_same_work i j"
      "case r of None \<Rightarrow> eth_held held j (mset fs + M)
       | Some b \<Rightarrow> eth_held held j (add_mset b (mset fs + M)) \<and> pb_len b = 0 \<and> framable b"
    using ei_alloc_wp [OF h] unfolding wp_eq_Some by blast
  then show ?thesis
    using CallAlloc by (cases r) (simp_all add: ei_same_work_def ei_same_def)
next
  case (CallDrop n)
  show ?thesis
  proof (cases "n < length fs")
    case True
    have "eth_held held i (add_mset (fs ! n) (mset (take n fs @ drop (Suc n) fs) + M))"
      using h mset_nth_split [OF True] by simp
    then have "wp (drop_frame ops (fs ! n) i) (\<lambda>j. eth_held held j (mset (take n fs @ drop (Suc n) fs) + M))"
      using device.drop_law [OF eth_device] by (simp add: eth_ops_def)
    moreover have "ei_config j = ei_config i" if "drop_frame ops (fs ! n) i = Some j" for j
      using that by (auto simp: drop_frame_def bind_eq_Some_conv)
    ultimately show ?thesis
      using True CallDrop unfolding wp_eq_Some by force
  qed (use h CallDrop in simp)
next
  case (CallEdit n b)
  show ?thesis
  proof (cases "n < length fs \<and> same_frame (fs ! n) b \<and> pb_inv b")
    case True
    then have "eth_held held i (add_mset (fs ! n) (mset (take n fs @ drop (Suc n) fs) + M))"
      using h mset_nth_split [of n fs] by simp
    then have "eth_held held i (add_mset b (mset (take n fs @ drop (Suc n) fs) + M))"
      using True device.held_edit [OF eth_device] by blast
    then show ?thesis
      using True CallEdit mset_update_split [of n fs b] by simp
  qed (use h CallEdit in auto)
next
  case (CallConfigure a p g)
  then show ?thesis
    using configure_ipv4_wp [OF h, of a p g] by (auto simp: wp_eq_Some)
next
  case CallWithdraw
  then show ?thesis
    using withdraw_ipv4_wp [OF h] by (auto simp: wp_eq_Some)
next
  case (CallAddRoute a p g)
  then show ?thesis
    using h add_route_wp [OF h] route_new_wf [of a p g]
    by (cases "route_new a p g") (fastforce simp: wp_eq_Some)+
next
  case (CallSetGateway g)
  then show ?thesis
    using h add_route_wp [OF h] route_new_wf [of 0 0 "Some g"]
    by (cases "route_new 0 0 (Some g)") (fastforce simp: set_gateway_def wp_eq_Some)+
next
  case (CallRemoveRoute a p)
  then show ?thesis
    using remove_route_wp [OF h, of a p] by (auto simp: wp_eq_Some)
next
  case (CallAddNeighbor ip m)
  then show ?thesis
    using h add_static_neighbor_wp [OF h, of m ip] by (auto simp: wp_eq_Some)
next
  case (CallRemoveNeighbor ip)
  then show ?thesis
    using remove_neighbor_wp [OF h, of ip] by (auto simp: wp_eq_Some)
next
  case CallResetLink
  then show ?thesis
    using reset_link_wp [OF h] by (auto simp: wp_eq_Some)
next
  case (CallAdvance now)
  then show ?thesis
    using ei_advance_wp [OF h, of now] by (auto simp: wp_eq_Some)
next
  case CallPopEvent
  have "eth_held held (i\<lparr>ei_events := es\<rparr>) (mset fs + M)" if "ei_events i = e # es" for e es
    using h that by (simp add: eth_held_def ei_inv_def ei_resolving_def ei_frames_def)
  then show ?thesis
    using CallPopEvent h by (auto simp: ei_pop_event_def split: list.split)
qed

lemma ei_run_wp:
  assumes "eth_held held i (mset fs + M)"
  shows "wp (ei_run ops cs (i, fs)) (\<lambda>(i', fs'). eth_held held i' (mset fs' + M) \<and> same_limits (ei_config i) (ei_config i'))"
  using assms
proof (induction cs arbitrary: i fs)
  case (Cons c cs)
  obtain j fs' where j: "ei_exec ops c (i, fs) = Some (j, fs')" "eth_held held j (mset fs' + M)"
      "same_limits (ei_config i) (ei_config j)"
    using ei_exec_wp [OF Cons.prems] unfolding wp_eq_Some by blast
  have "wp (ei_run ops cs (j, fs')) (\<lambda>(i', fs'). eth_held held i' (mset fs' + M) \<and> same_limits (ei_config i) (ei_config i'))"
    by (rule wp_mono [OF Cons.IH [OF j(2)]]) (auto intro: same_limits_trans [OF j(3)])
  then show ?case
    using j(1) by simp
qed simp

end

section \<open>The adapter over the loopback device\<close>

interpretation elb: device "eth_ops loopback_ops" "eth_held loopback_held"
  by (rule lbk.eth_device)

section \<open>A concrete adapter\<close>

definition demo_loopback :: loopback where
  "demo_loopback = \<lparr>lb_pool = pool_build 0 256 2, lb_arena = replicate 512 0, lb_free_slots = [0, 1], lb_rx = [],
     lb_dropped = 0\<rparr>"

definition demo_config :: interface_config where
  "demo_config = (interface_config_new 0x0A000001 24 [2, 0, 0, 0, 0, 1])\<lparr>ic_mtu := 128\<rparr>"

lemma demo_held: "loopback_held demo_loopback {#}"
  using pool_held_build [of 0 256 2]
  by (simp add: demo_loopback_def loopback_held_def lb_inv_def lb_slots_def pool_build_def lessThan_Suc)

lemma demo_new: "\<exists>i f. eth_ipv4_new loopback_ops layout demo_loopback demo_config = Some (Inr i) \<and>
  ei_control_spare i = Some f \<and> ei_pending i = [] \<and> ei_ready i = [] \<and> ei_control i = [] \<and> ei_neighbors i = [] \<and>
  ei_now i = 0 \<and> ei_configured i"
proof -
  let ?c = "\<lparr>rt_network = 0x0A000000, rt_prefix_len = 24, rt_gateway = None\<rparr>"
  let ?b = "\<lparr>pb_mem = replicate 256 0, pb_data_offset = 64, pb_capacity = 256, pb_len = 0, pb_idx = 0, pb_pool = Some 0\<rparr>"
  have cfg: "ic_address demo_config = 0x0A000001" "ic_prefix_len demo_config = 24" "ic_mtu demo_config = 128"
      "ic_route_capacity demo_config = 64" "config_valid demo_config"
    by (simp_all add: demo_config_def interface_config_new_def config_valid_def ip_unicast_def unicast_def
        from_secs_def is_unspecified_def is_broadcast_def is_multicast_def is_loopback_def)
  have new: "route_new 0x0A000001 24 None = Inr ?c" and bc: "subnet_broadcast ?c 24 = 0x0A0000FF"
    by (simp_all add: route_new_def subnet_broadcast_def route_mask_def mask_eq_exp_minus_1)
  obtain d where d: "loopback_alloc demo_loopback = Some (Some ?b, d)"
    by (simp add: loopback_alloc_def demo_loopback_def pool_build_def pool_alloc_def packet_buf_def available_def
        mark_used_def nth_opt_def rust_assert_def numeral_2_eq_2)
  have prep: "prepare_empty ?b = Some (Inr (), ?b)"
    by (simp add: prepare_empty_def set_len_def set_headroom_def tail_capacity_def rust_assert_def)
  obtain t where "route_insert ?c (route_table_new 64) = (Inr (), t)"
    by (simp add: route_insert_def route_table_new_def)
  then show ?thesis
    using d prep by (simp add: eth_ipv4_new_def cfg new bc loopback_ops_def tail_capacity_def)
qed

lemma demo_adapter:
  obtains i where "eth_ipv4_new loopback_ops layout demo_loopback demo_config = Some (Inr i)"
    and "eth_held loopback_held i {#}" and "ei_config i = demo_config" and "ei_pending i = []" and "ei_ready i = []"
    and "ei_control i = []" and "ei_neighbors i = []" and "ei_now i = 0" and "ei_control_spare i \<noteq> None"
    and "ei_configured i"
proof -
  have "length (ic_mac demo_config) = 6"
    by (simp add: demo_config_def interface_config_new_def)
  then show thesis
    using that demo_new [of layout] lbk.eth_ipv4_new_wp [OF demo_held, of demo_config layout] by auto
qed

lemma next_deadline_le:
  assumes "bt_inv (ei_neighbors i)" and "bt_get (ei_neighbors i) ip = Some n"
    and "neighbor_deadline (ei_config i) n = Some t"
  shows "\<exists>s. ei_next_deadline i = Some s \<and> s \<le> t"
proof -
  have "n \<in> set (bt_values (ei_neighbors i))"
    using assms(1,2) btm.in_entries_iff by (force simp: bt_values_def)
  then have "t \<in> set (List.map_filter (neighbor_deadline (ei_config i)) (bt_values (ei_neighbors i)))"
    using assms(3) by (force simp: List.map_filter_def)
  then show ?thesis
    by (auto simp: ei_next_deadline_def min_option_def intro: Min_le)
qed

section \<open>Properties\<close>

text \<open>
  C7. An adapter over a device that keeps the device contract keeps the same contract: no operation
  panics on states of the invariant, every handle is accounted for, a failed send returns all frames,
  a successful one takes exactly the accepted prefix, and a receive returns as many frames as it says.
\<close>

theorem ethernet_refines_device_contract:
  assumes "device ops held"
  shows "device (eth_ops ops) (eth_held held)"
  by (rule device.eth_device [OF assms])

theorem ethernet_refines_device_contract_witness:
  "device (eth_ops (eth_ops loopback_ops)) (eth_held (eth_held loopback_held))"
  by (rule ethernet_refines_device_contract [OF ethernet_refines_device_contract [OF lbk.device_axioms]])

text \<open>
  C4. Whatever sequence of calls a client makes on a new adapter (polling, receiving, sending, allocating,
  editing and dropping frames, changing addresses, routes and neighbors), nothing panics and the handles
  outside the device are exactly those of the adapter's queues, those of the client, and those held elsewhere.
\<close>

theorem ethernet_client_safe:
  assumes "device ops held" and "held d M" and "length (ic_mac cfg) = 6"
    and "eth_ipv4_new ops layout d cfg = Some (Inr i)"
  shows "\<exists>i' fs. ei_run ops calls (i, []) = Some (i', fs) \<and> held (ei_device i') (ei_frames i' + mset fs + M)"
proof -
  have "eth_held held i (mset [] + M)"
    using device.eth_ipv4_new_wp [OF assms(1-3), of layout] assms(4) by simp
  from device.ei_run_wp [OF assms(1) this, of calls] show ?thesis
    by (auto simp: wp_eq_Some eth_held_def add.assoc)
qed

theorem ethernet_client_safe_witness:
  "\<exists>i i' fs. eth_ipv4_new loopback_ops (\<lambda>_. 1) demo_loopback demo_config = Some (Inr i) \<and>
     ei_run loopback_ops [CallAlloc, CallSend 1, CallPoll 5, CallRecv 4] (i, []) = Some (i', fs) \<and>
     loopback_held (ei_device i') (ei_frames i' + mset fs + {#})"
proof -
  obtain i where i: "eth_ipv4_new loopback_ops (\<lambda>_. 1) demo_loopback demo_config = Some (Inr i)"
    using demo_new by blast
  have "length (ic_mac demo_config) = 6"
    by (simp add: demo_config_def interface_config_new_def)
  from ethernet_client_safe [OF lbk.device_axioms demo_held this i] i show ?thesis
    by blast
qed

text \<open>
  C31. Every table and queue of the adapter stays within the capacity it was created with, whatever the client does,
  reconfiguring and withdrawing included: queued packets, packets per neighbor, control frames, events, neighbors and
  routes, where the capacity is that of the configuration given to the constructor; and no resolution makes more
  attempts than configured there.
\<close>

theorem ethernet_bounded:
  assumes "device ops held" and "held d M" and "length (ic_mac cfg) = 6"
    and "eth_ipv4_new ops layout d cfg = Some (Inr i)" and "ei_run ops calls (i, []) = Some (i', fs)"
  shows "length (ei_pending i') + length (ei_ready i') \<le> ic_tx_capacity cfg \<and>
    length (filter (\<lambda>p. pd_next_hop p = hop) (ei_pending i')) \<le> ic_per_neighbor_capacity cfg \<and>
    length (ei_control i') \<le> ic_control_capacity cfg \<and>
    length (ei_events i') \<le> ic_event_capacity cfg \<and>
    length (ei_neighbors i') \<le> ic_neighbor_capacity cfg \<and>
    length (rtb_entries (ei_routes i')) \<le> ic_route_capacity cfg \<and>
    rtb_limit (ei_routes i') = ic_route_capacity cfg \<and>
    (case bt_get (ei_neighbors i') hop of
       Some (NResolving attempts _ _) \<Rightarrow> attempts \<le> ic_max_arp_attempts cfg | _ \<Rightarrow> True)"
proof -
  have new: "eth_held held i (mset [] + M)" "ei_config i = cfg"
    using device.eth_ipv4_new_wp [OF assms(1-3), of layout] assms(4) by simp_all
  from device.ei_run_wp [OF assms(1) new(1), of calls] have inv: "ei_inv i'" and "same_limits cfg (ei_config i')"
    using assms(5) new(2) by (simp_all add: eth_held_def)
  then have cfg: "ei_config i' = cfg\<lparr>ic_address := ic_address (ei_config i'), ic_prefix_len := ic_prefix_len (ei_config i')\<rparr>"
    by (simp add: same_limits_def)
  have limits: "ic_tx_capacity (ei_config i') = ic_tx_capacity cfg"
      "ic_per_neighbor_capacity (ei_config i') = ic_per_neighbor_capacity cfg"
      "ic_control_capacity (ei_config i') = ic_control_capacity cfg" "ic_event_capacity (ei_config i') = ic_event_capacity cfg"
      "ic_neighbor_capacity (ei_config i') = ic_neighbor_capacity cfg" "ic_route_capacity (ei_config i') = ic_route_capacity cfg"
      "ic_max_arp_attempts (ei_config i') = ic_max_arp_attempts cfg"
    by (subst cfg, simp)+
  have "bt_get (ei_neighbors i') hop = Some n \<Longrightarrow> neighbor_wf (ei_config i') n" for n
    using inv neighbor_wf_get by (auto simp: ei_inv_def)
  then show ?thesis
    using inv limits
    by (auto simp: ei_inv_def queues_inv_def tables_inv_def route_table_inv_def hop_count_def neighbor_wf_def
        split: option.split neighbor_state.split)
qed

theorem ethernet_bounded_witness:
  "\<exists>i i' fs. eth_ipv4_new loopback_ops (\<lambda>_. 1) demo_loopback demo_config = Some (Inr i) \<and>
     ei_run loopback_ops [CallAlloc, CallSend 1, CallWithdraw, CallPoll 5, CallRecv 4] (i, []) = Some (i', fs) \<and>
     length (rtb_entries (ei_routes i')) \<le> 64 \<and> rtb_limit (ei_routes i') = 64"
proof -
  obtain i where i: "eth_ipv4_new loopback_ops (\<lambda>_. 1) demo_loopback demo_config = Some (Inr i)"
      "eth_held loopback_held i (mset [] + {#})"
    using demo_adapter [of "\<lambda>_. 1"] by auto
  obtain i' fs where r: "ei_run loopback_ops [CallAlloc, CallSend 1, CallWithdraw, CallPoll 5, CallRecv 4] (i, []) = Some (i', fs)"
    using lbk.ei_run_wp [OF i(2)] unfolding wp_eq_Some by blast
  have cfg: "length (ic_mac demo_config) = 6" "ic_route_capacity demo_config = 64"
    by (simp_all add: demo_config_def interface_config_new_def)
  from ethernet_bounded [OF lbk.device_axioms demo_held cfg(1) i(1) r] i(1) r show ?thesis
    unfolding cfg(2) by blast
qed

text \<open>
  C27. Progress: after a successful poll at time \<open>now\<close> no packet is left waiting for a neighbor that is
  already resolved or whose resolution is overdue. Each waiting packet waits for a resolution that ends
  later than \<open>now\<close>, and the deadline the adapter reports is no later than that end, so a caller that polls at
  the reported deadlines reaches it.
\<close>

theorem ethernet_poll_progress:
  assumes "device ops held" and "eth_held held i M" and "ei_poll_at ops now i = Some (Inr (), i')"
    and "now < duration_max" and "p \<in> set (ei_pending i')"
  shows "\<exists>attempts next_probe expires deadline.
    bt_get (ei_neighbors i') (pd_next_hop p) = Some (NResolving attempts next_probe expires) \<and> now < expires \<and>
    ei_next_deadline i' = Some deadline \<and> deadline \<le> expires"
proof -
  have i': "eth_held held i' M" "ei_now i' = now" "hop_fresh now (ei_neighbors i') (pd_next_hop p)"
    using device.ei_poll_wp [OF assms(1,2), of now] assms(3) by auto
  then have inv: "bt_inv (ei_neighbors i')" and "hop_resolving (ei_neighbors i') (pd_next_hop p)"
    using assms(4,5) by (simp_all add: eth_held_def ei_inv_def tables_inv_def ei_resolving_def list_all_iff)
  then obtain a t e where n: "bt_get (ei_neighbors i') (pd_next_hop p) = Some (NResolving a t e)"
    by (auto simp: hop_resolving_def is_resolving_def split: option.split_asm neighbor_state.split_asm)
  moreover have "now < e"
    using i'(3) n assms(4) by (simp add: hop_fresh_def neighbor_fresh_def)
  moreover obtain u where u: "neighbor_deadline (ei_config i') (NResolving a t e) = Some u" "u \<le> e"
    by (auto simp: neighbor_deadline_def)
  then obtain s where "ei_next_deadline i' = Some s" "s \<le> e"
    using next_deadline_le [OF inv n u(1)] by fastforce
  ultimately show ?thesis
    by blast
qed

theorem ethernet_poll_progress_witness:
  "\<exists>i i' a t e deadline. ei_poll_at loopback_ops 5 i = Some (Inr (), i') \<and> map pd_next_hop (ei_pending i') = [0x0A000002] \<and>
     bt_get (ei_neighbors i') 0x0A000002 = Some (NResolving a t e) \<and> 5 < e \<and>
     ei_next_deadline i' = Some deadline \<and> deadline \<le> e"
proof -
  obtain i0 where i0: "eth_held loopback_held i0 {#}" "ei_config i0 = demo_config" "ei_pending i0 = []" "ei_ready i0 = []"
      "ei_control i0 = []" "ei_neighbors i0 = []" "ei_now i0 = 0" "ei_control_spare i0 \<noteq> None"
    by (rule demo_adapter [of "\<lambda>_. 1"])
  obtain f where f: "ei_control_spare i0 = Some f"
    using i0(8) by blast
  let ?hop = "0x0A000002 :: ipv4addr"
  let ?n = "[(?hop, NResolving 3 0 10)]"
  define i where "i = i0\<lparr>ei_control_spare := None, ei_pending := [\<lparr>pd_next_hop = ?hop, pd_frame = f\<rparr>], ei_neighbors := ?n\<rparr>"
  have "ei_frames i = ei_frames i0"
    using i0(3) f by (simp add: i_def ei_frames_def)
  then have held: "eth_held loopback_held i {#}"
    using i0 f
    by (simp add: i_def eth_held_def ei_inv_def ei_resolving_def tables_inv_def queues_inv_def hop_resolving_def
        bt_get_def bt_inv_def is_resolving_def neighbor_wf_def demo_config_def interface_config_new_def)
  have "eth_held loopback_held (i\<lparr>ei_now := 5\<rparr>) {#}"
    using held i0(7) by (auto simp: i_def eth_held_def ei_inv_def ei_resolving_def ei_frames_def duration_max_def)
  then obtain j where j: "ensure_spare loopback_ops (i\<lparr>ei_now := 5\<rparr>) = Some j" "ei_same_work (i\<lparr>ei_now := 5\<rparr>) j"
      "ei_ready j = []" "ei_control j = []"
    using lbk.ensure_spare_wp [OF held_ok] i0(4,5) unfolding wp_eq_Some by (fastforce simp: i_def)
  then have jf: "ei_now j = 5" "ei_neighbors j = ?n" "ei_pending j = [\<lparr>pd_next_hop = ?hop, pd_frame = f\<rparr>]"
      "ic_max_arp_attempts (ei_config j) = 3"
    using i0(2) by (simp_all add: ei_same_work_def ei_same_def i_def demo_config_def interface_config_new_def)
  then have steps: "neighbor_steps loopback_ops ?n j = Some j" and rel: "release_resolved j = Some j"
    by (simp_all add: neighbor_step_def release_resolved_def resolved_mac_def bt_get_def neighbor_mac_def)
  obtain i' where "ei_poll_at loopback_ops 5 i = Some (Inr (), i')" "ei_pending i' = ei_pending j"
    using j jf(2) steps rel i0(7)
    by (simp add: ei_poll_at_def loopback_ops_def default_poll_at_def ei_advance_def i_def flush_def flush_front_def)
  moreover from this have "\<lparr>pd_next_hop = ?hop, pd_frame = f\<rparr> \<in> set (ei_pending i')"
    using jf(3) by simp
  moreover have "(5 :: duration) < duration_max" "map pd_next_hop (ei_pending j) = [?hop]"
    using jf(3) by (simp_all add: duration_max_def)
  ultimately show ?thesis
    using ethernet_poll_progress [OF lbk.device_axioms held, of 5 i' "\<lparr>pd_next_hop = ?hop, pd_frame = f\<rparr>"]
    by (metis pending.select_convs(1))
qed

text \<open>
  C37. A send that fails has not taken any frame: the caller's slice is unchanged, nothing was queued, and
  neither the routes nor the neighbors changed.
\<close>

theorem ethernet_send_error_atomic:
  assumes "device ops held" and "eth_held held i (mset fs + M)" and "ei_send fs i = Some (Inl e, fs', i')"
  shows "fs' = fs \<and> eth_held held i' (mset fs + M) \<and> ei_pending i' = ei_pending i \<and> ei_ready i' = ei_ready i \<and>
    ei_neighbors i' = ei_neighbors i \<and> ei_routes i' = ei_routes i"
  using device.ei_send_wp [OF assms(1,2)] assms(3) by (auto simp: ei_same_work_def ei_same_def)

theorem ethernet_send_error_atomic_witness:
  "\<exists>(i :: loopback eth_ipv4) i'. ei_configured i \<and> ei_pending i = [] \<and>
     ei_send [empty_buf] i = Some (Inl InvalidInput, [empty_buf], i') \<and> ei_pending i' = ei_pending i"
proof -
  obtain i where i: "eth_held loopback_held i {#}" "ei_config i = demo_config" "ei_pending i = []" "ei_ready i = []" "ei_configured i"
    by (rule demo_adapter [of "\<lambda>_. 1"])
  have held: "eth_held loopback_held i (mset [empty_buf] + {#})"
    using i(1) elb.held_empty by simp
  have "\<exists>i'. ei_send [empty_buf] i = Some (Inl InvalidInput, [empty_buf], i')"
    using i(2-5) by (simp add: ei_send_def rust_assert_def validate_frame_def ipv4_fields_def empty_buf_def as_slice_def
        demo_config_def interface_config_new_def subslice_def)
  then obtain i' where s: "ei_send [empty_buf] i = Some (Inl InvalidInput, [empty_buf], i')"
    by blast
  then have "ei_pending i' = ei_pending i"
    using ethernet_send_error_atomic [OF lbk.device_axioms held] by blast
  then show ?thesis
    using i(3,5) s by blast
qed

text \<open>
  C38. Static neighbors cannot be overwritten by what arrives from the network: a receive keeps every static
  entry, whatever frames it reads.
\<close>

theorem ethernet_static_neighbors_kept:
  assumes "device ops held" and "eth_held held i (mset out + M)" and "bt_get (ei_neighbors i) ip = Some (NStatic m)"
  shows "\<exists>r out' i'. ei_recv ops k out i = Some (r, out', i') \<and> bt_get (ei_neighbors i') ip = Some (NStatic m)"
proof -
  obtain r out' i' where "ei_recv ops k out i = Some (r, out', i')" "keeps_static (ei_neighbors i) (ei_neighbors i')"
    using device.ei_recv_wp [OF assms(1,2), of k] unfolding wp_eq_Some by blast
  then show ?thesis
    using assms(3) by (auto simp: keeps_static_def)
qed

theorem ethernet_static_neighbors_kept_witness:
  "\<exists>i r out' i'. bt_get (ei_neighbors i) 0x0A000002 = Some (NStatic [2, 0, 0, 0, 0, 2]) \<and>
     ei_recv loopback_ops 4 [] i = Some (r, out', i') \<and>
     bt_get (ei_neighbors i') 0x0A000002 = Some (NStatic [2, 0, 0, 0, 0, 2])"
proof -
  obtain i0 where i0: "eth_held loopback_held i0 {#}" "ei_config i0 = demo_config" "ei_pending i0 = []" "ei_neighbors i0 = []"
    by (rule demo_adapter [of "\<lambda>_. 1"])
  let ?i = "i0\<lparr>ei_neighbors := [(0x0A000002, NStatic [2, 0, 0, 0, 0, 2])]\<rparr>"
  have held: "eth_held loopback_held ?i (mset [] + {#})"
    using i0 by (simp add: eth_held_def ei_inv_def ei_resolving_def tables_inv_def ei_frames_def bt_inv_def neighbor_wf_def
        demo_config_def interface_config_new_def)
  have static: "bt_get (ei_neighbors ?i) 0x0A000002 = Some (NStatic [2, 0, 0, 0, 0, 2])"
    by (simp add: bt_get_def)
  from ethernet_static_neighbors_kept [OF lbk.device_axioms held static, of 4] static show ?thesis
    by blast
qed

text \<open>A new lease for the adapter of the examples is applied.\<close>

lemma demo_configure:
  assumes i: "eth_held loopback_held i M" "ei_config i = demo_config"
  shows "\<exists>j. configure_ipv4 loopback_ops 0x0A000005 24 None i = Some (Inr True, j)"
proof -
  let ?c = "\<lparr>rt_network = 0x0A000000, rt_prefix_len = 24, rt_gateway = None\<rparr>"
  have new: "route_new 0x0A000005 24 None = Inr ?c" and bc: "subnet_broadcast ?c 24 = 0x0A0000FF"
    by (simp_all add: route_new_def subnet_broadcast_def route_mask_def mask_eq_exp_minus_1)
  have "ip_unicast 0x0A000005"
    by (simp add: ip_unicast_def is_unspecified_def is_broadcast_def is_multicast_def is_loopback_def)
  moreover have "\<exists>t. configured_routes 64 ?c None = Inr t"
    by (simp add: configured_routes_def route_insert_def route_table_new_def)
  moreover have "ic_address demo_config = 0x0A000001" "ic_route_capacity demo_config = 64"
    by (simp_all add: demo_config_def interface_config_new_def)
  ultimately show ?thesis
    using i(2) lbk.discard_held_wp [OF i(1)] by (auto simp: configure_ipv4_def new bc wp_eq_Some)
qed

end
