(* ===== verification/Tcp_Spec.thy ===== *)
theory Tcp_Spec
  imports Tcp_Demo Eth_Ipv4_Spec
begin

text \<open>
  The properties of one TCP connection, for every sequence of application calls, arriving packets, timer ticks
  and transmissions over any device that keeps the device contract.
\<close>

section \<open>Consequences of the invariant of a run\<close>

lemma cn_opened_inv:
  assumes "cn_opened iss cfg c" and "tcp_config_valid cfg"
  shows "cn_inv cfg c"
proof -
  have "cn_inv cfg c" if "cn_passive syn iss now cfg = Some c" for syn now
    using cn_passive_inv [OF assms(2), of syn iss now] that by simp
  then show ?thesis
    using assms cn_active_inv [OF assms(2)] by (auto simp: cn_opened_def)
qed

lemma opened_run:
  assumes "device ops held" and "held d M" and "tcp_config_valid cfg" and "cn_opened iss cfg c"
  shows "wp (cn_run ops cfg es (c, d, [], [])) (\<lambda>(c', d', w, r). held d' M \<and> cn_inv cfg c' \<and> run_step c c')"
  using device.cn_run_wp [OF assms(1,3) cn_opened_inv [OF assms(4,3)] assms(2)] by blast

lemma wp_returns: "wp m Q \<Longrightarrow> \<exists>c d w r. m = Some (c, d, w, r)"
  by (cases m) auto

lemma opened_returns:
  assumes "device ops held" and "held d M" and "tcp_config_valid cfg" and "cn_opened iss cfg c"
  shows "\<exists>c' d' w r. cn_run ops cfg es (c, d, [], []) = Some (c', d', w, r)"
  using wp_returns [OF opened_run [OF assms]] .

lemma opened_sender:
  assumes "device ops held" and "held d M" and "tcp_config_valid cfg" and "cn_opened iss cfg c"
  shows "wp (cn_run (tap_ops ops) cfg es (c, (d, []), [], [])) (sender_inv held iss cfg M)"
  using assms cn_opened_inv [OF assms(4,3)] stream_ok_opened [OF assms(4)]
  by (intro device.cn_run_sender) (simp_all add: sender_inv_def log_ok_def)

section \<open>Demonstration inputs\<close>

lemma sink_held_empty: "sink_held d {#}"
  by (simp add: sink_held_def)

lemma tap_sink_held: "tap_held sink_held d {#}"
  by (simp add: tap_held_def sink_held_def)

lemma demo_conn_opened: "cn_opened 1000 tcp_config_default demo_conn"
  by (auto simp: cn_opened_def demo_conn_def)

lemma default_valid: "tcp_config_valid tcp_config_default"
  by (simp add: tcp_config_valid_def tcp_config_default_def from_secs_def from_millis_def)

definition demo_calls :: "(duration \<times> cn_call) list" where
  "demo_calls = [(0, CallTransmit), (1, CallPacket [0x45]), (2, CallWrite [1, 2]), (3, CallTick)]"

lemma demo_run: "\<exists>c' d' w r. cn_run loopback_ops tcp_config_default demo_calls (demo_conn, demo_loopback, [], []) = Some (c', d', w, r)"
  by (rule opened_returns [OF lbk.device_axioms demo_held default_valid demo_conn_opened])

section \<open>Safety\<close>

text \<open>
  A connection opened actively or by a received SYN never panics, whatever the application calls, whatever
  bytes arrive and whatever the device answers, and every frame it takes from the device is given back.
\<close>

lemma tcp_connection_safe:
  assumes "device ops held" and "held d M" and "tcp_config_valid cfg" and "cn_opened iss cfg c"
  shows "\<exists>c' d' w r. cn_run ops cfg es (c, d, [], []) = Some (c', d', w, r) \<and> held d' M"
  using opened_run [OF assms, of es] unfolding wp_eq_Some by auto

lemma tcp_connection_safe_example:
  "\<exists>c' d' w r. cn_run loopback_ops tcp_config_default demo_calls
     (demo_conn, demo_loopback, [], []) = Some (c', d', w, r) \<and> loopback_held d' {#}"
  by (rule tcp_connection_safe [OF lbk.device_axioms demo_held default_valid demo_conn_opened])

text \<open>
  C14. In every run the connection stays well formed: the retransmission queue is a chain of flights from the
  oldest unacknowledged position to the next one whose kinds match the state (a SYN while opening, data while
  open, a FIN while closing, none after), the byte count of the queue is exact, the end of the peer's stream
  agrees with the state, and every phase that must end has a deadline.
\<close>

theorem tcp_connection_well_formed:
  assumes "device ops held" and "held d M" and "tcp_config_valid cfg" and "cn_opened iss cfg c"
    and "cn_run ops cfg es (c, d, [], []) = Some (c', d', w, r)"
  shows "chain (cn_send_una c') (cn_flights c') (cn_send_next c') \<and>
    cn_flight_payload c' = length (fl_bytes (cn_flights c')) \<and>
    phase_ok (cn_state c') (cn_write_closed c') (cn_flights c') (cn_queued c') \<and>
    eof_ok (cn_state c') (cn_peer_eof c') \<and>
    timers_ok (cn_state c') (cn_write_closed c') (cn_phase_deadline c') (cn_close_deadline c')"
  using opened_run [OF assms(1-4), of es] assms(5) by (simp add: cn_inv_defs queue_inv_def)

theorem tcp_connection_well_formed_witness:
  "\<exists>c' d' w r. cn_run loopback_ops tcp_config_default demo_calls (demo_conn, demo_loopback, [], []) = Some (c', d', w, r) \<and>
     phase_ok (cn_state c') (cn_write_closed c') (cn_flights c') (cn_queued c')"
  using demo_run tcp_connection_well_formed [OF lbk.device_axioms demo_held default_valid demo_conn_opened] by blast

text \<open>
  The buffers of a connection are bounded: unacknowledged and queued bytes stay within the send capacity,
  undelivered bytes within the receive capacity, the congestion window within its limit and above zero, and the
  retransmission timeout within its limits.
\<close>

lemma tcp_connection_bounded:
  assumes "device ops held" and "held d M" and "tcp_config_valid cfg" and "cn_opened iss cfg c"
    and "cn_run ops cfg es (c, d, [], []) = Some (c', d', w, r)"
  shows "cn_send_buffered c' \<le> tc_send_capacity cfg \<and> length (cn_received c') \<le> tc_receive_capacity cfg \<and>
    0 < cn_cwnd c' \<and> cn_cwnd c' \<le> tc_max_cwnd_bytes cfg \<and>
    min (tc_initial_rto cfg) duration_max \<le> cn_rto c' \<and> cn_rto c' \<le> tc_max_rto cfg"
  using opened_run [OF assms(1-4), of es] assms(5)
  by (simp add: cn_inv_defs queue_inv_def cn_send_buffered_def cwnd_ok_def rto_ok_def)

lemma tcp_connection_bounded_example:
  "\<exists>c' d' w r. cn_run loopback_ops tcp_config_default demo_calls (demo_conn, demo_loopback, [], []) = Some (c', d', w, r) \<and>
     cn_send_buffered c' \<le> 16384 \<and> cn_cwnd c' \<le> tc_max_cwnd_bytes tcp_config_default"
  using demo_run tcp_connection_bounded [OF lbk.device_axioms demo_held default_valid demo_conn_opened]
  by (fastforce simp: tcp_config_default_def)

section \<open>The byte stream\<close>

text \<open>
  C8. Every packet a connection hands to the device is a valid TCP segment of the written byte stream: a SYN
  carries the initial sequence number and no data, data is the written bytes at exactly the position its
  sequence number names, and a FIN comes only after the last written byte. Retransmissions, cut segments and
  window probes included.
\<close>

theorem tcp_sender_emits_stream:
  assumes "device ops held" and "held d M" and "tcp_config_valid cfg" and "cn_opened iss cfg c"
    and "cn_run (tap_ops ops) cfg es (c, (d, []), [], []) = Some (c', (d', log), written, r)"
  shows "\<forall>p \<in> set log. \<exists>s. tcp_parse_ipv4 p = Some (Inr s) \<and> carries iss written s"
  using opened_sender [OF assms(1-4), of es] assms(5) by (auto simp: sender_inv_def log_ok_def)

theorem tcp_sender_emits_stream_witness:
  "\<exists>q c' log. cn_run (tap_ops sink_ops) tcp_config_default (demo_client_calls q) (demo_conn, ((), []), [], []) =
       Some (c', ((), log), [1, 2, 3], []) \<and> length log = 2 \<and>
     list_all (\<lambda>p. \<exists>s. tcp_parse_ipv4 p = Some (Inr s) \<and> carries 1000 [1, 2, 3] s) log"
proof -
  obtain q c p r where run: "cn_run (tap_ops sink_ops) tcp_config_default (demo_client_calls q) (demo_conn, ((), []), [], []) =
      Some (c, ((), [p, r]), [1, 2, 3], [])"
    using demo_exchange by blast
  have "\<forall>x \<in> set [p, r]. \<exists>s. tcp_parse_ipv4 x = Some (Inr s) \<and> carries 1000 [1, 2, 3] s"
    using tcp_sender_emits_stream [OF snk.device_axioms sink_held_empty default_valid demo_conn_opened run] .
  then show ?thesis
    using run by (intro exI [of _ q] exI [of _ c] exI [of _ "[p, r]"]) simp
qed

text \<open>
  The receiving end of a stream: an active open, or the connection a SYN of the log created.
\<close>

definition cn_peer_opened :: "bytes list \<Rightarrow> u32 \<Rightarrow> tcp_config \<Rightarrow> connection \<Rightarrow> bool" where
  "cn_peer_opened log iss cfg c \<longleftrightarrow> (\<exists>local remote now. c = cn_active local remote iss now cfg) \<or>
     (\<exists>p \<in> set log. \<exists>syn now. tcp_parse_ipv4 p = Some (Inr syn) \<and> has_flag (sg_flags syn) SYN \<and>
        cn_passive syn iss now cfg = Some c)"

lemma cn_peer_opened_rcv:
  assumes "cn_peer_opened log iss cfg c" and "log_ok irs w st log"
  shows "rcv_ok irs w [] c" and "cn_opened iss cfg c"
proof -
  consider local remote now where "c = cn_active local remote iss now cfg"
    | p syn now where "p \<in> set log" "tcp_parse_ipv4 p = Some (Inr syn)" "has_flag (sg_flags syn) SYN"
        "cn_passive syn iss now cfg = Some c"
    using assms(1) by (auto simp: cn_peer_opened_def)
  then have "rcv_ok irs w [] c \<and> cn_opened iss cfg c"
  proof cases
    case 1
    then show ?thesis
      by (auto simp: rcv_ok_def cn_opened_def cn_active_def cn_start_flight_def Let_def)
  next
    case 2
    then have "sg_sequence syn = irs"
      using assms(2) by (auto simp: log_ok_def carries_def)
    then show ?thesis
      using 2(4) by (auto simp: rcv_ok_def cn_opened_def cn_passive_def cn_active_def cn_start_flight_def aborted_def Let_def)
  qed
  then show "rcv_ok irs w [] c" and "cn_opened iss cfg c"
    by simp_all
qed

lemma receiver_run:
  assumes a: "device ops held" "held d M" "tcp_config_valid cfg" "cn_opened iss cfg c"
    and run: "cn_run (tap_ops ops) cfg es (c, (d, []), [], []) = Some (c', (d', log), written, ra)"
    and b: "device ops' held'" "held' e N" "tcp_config_valid cfg'" "cn_peer_opened log iss' cfg' b"
    and net: "\<forall>t p. (t, CallPacket p) \<in> set fs \<longrightarrow> p \<in> set log" and len: "length written < 2 ^ 31"
    and run': "cn_run ops' cfg' fs (b, e, [], []) = Some (b', e', wb, rd)"
  shows "rcv_ok iss written rd b'" and "cn_inv cfg' b'"
proof -
  have log: "log_ok iss written (cn_state c') log"
    using opened_sender [OF a, of es] run by (simp add: sender_inv_def)
  note opened = cn_peer_opened_rcv [OF b(4) log]
  have "packet_carries iss written p" if "(t, CallPacket p) \<in> set fs" for t p
    using log net that by (fastforce simp: log_ok_def packet_carries_def)
  then show "rcv_ok iss written rd b'" and "cn_inv cfg' b'"
    using device.cn_run_receiver [OF b(1,3) cn_opened_inv [OF opened(2) b(3)] b(2) opened(1) len, of fs "[]"] run' by auto
qed

text \<open>
  C1. Reliable delivery in order: what the reader of one connection obtains is always a prefix of what the
  writer of the other one wrote, and once a read into a non-empty buffer reports the end of the stream it is
  exactly that. The network between them may drop, repeat, delay and reorder packets in any way: the only
  assumption is that the packets that arrive were sent. Both ends run over any device that keeps the contract,
  with any calls at any times, for streams of less than half the sequence space.
\<close>

theorem tcp_stream_delivery:
  assumes "device ops held" and "held d M" and "tcp_config_valid cfg" and "cn_opened iss cfg c"
    and "cn_run (tap_ops ops) cfg es (c, (d, []), [], []) = Some (c', (d', log), written, ra)"
    and "device ops' held'" and "held' e N" and "tcp_config_valid cfg'" and "cn_peer_opened log iss' cfg' b"
    and "\<forall>t p. (t, CallPacket p) \<in> set fs \<longrightarrow> p \<in> set log" and "length written < 2 ^ 31"
    and "cn_run ops' cfg' fs (b, e, [], []) = Some (b', e', wb, rd)"
  shows "prefix rd written \<and>
    (cn_state b' \<noteq> Failed \<and> 0 < n \<and> fst (cn_read n b') = Inr 0 \<longrightarrow> rd = written)"
proof (intro conjI impI)
  note ok = receiver_run [OF assms]
  show "prefix rd written"
    using rcv_ok_prefix [OF ok(1)] .
  assume h: "cn_state b' \<noteq> Failed \<and> 0 < n \<and> fst (cn_read n b') = Inr 0"
  then have e: "cn_received b' = []" "cn_peer_eof b' \<or> cn_state b' = Closed" "\<not> aborted (cn_state b')"
    by (auto simp: cn_read_def aborted_def Let_def min_def split: option.split_asm if_split_asm)
  have "cn_peer_eof b'" "cn_state b' \<noteq> SynSent"
  proof -
    have "eof_ok (cn_state b') (cn_peer_eof b')"
      using ok(2) by (simp add: cn_inv_def)
    then show "cn_peer_eof b'" "cn_state b' \<noteq> SynSent"
      using e(2) by (auto simp: eof_ok_def)
  qed
  then show "rd = written"
    using ok(1) e by (auto simp: rcv_ok_def)
qed

theorem tcp_stream_delivery_witness:
  "\<exists>q r log c b. cn_run (tap_ops sink_ops) tcp_config_default (demo_client_calls q) (demo_conn, ((), []), [], []) =
       Some (c, ((), log), [1, 2, 3], []) \<and>
     cn_run (tap_ops sink_ops) tcp_config_default (demo_server_calls r) (demo_b0, ((), []), [], []) = Some (b, ((), [q]), [], [1, 2, 3]) \<and>
     prefix [1, 2, 3 :: u8] [1, 2, 3]"
proof -
  obtain q c p r b where run: "cn_run (tap_ops sink_ops) tcp_config_default (demo_client_calls q) (demo_conn, ((), []), [], []) =
        Some (c, ((), [p, r]), [1, 2, 3], [])" "tcp_parse_ipv4 p = Some (Inr demo_syn)"
      "cn_run (tap_ops sink_ops) tcp_config_default (demo_server_calls r) (demo_b0, ((), []), [], []) = Some (b, ((), [q]), [], [1, 2, 3])"
    using demo_exchange by blast
  have "cn_peer_opened [p, r] 5000 tcp_config_default demo_b0"
    using run(2) demo_passive by (auto simp: cn_peer_opened_def demo_syn_def)
  then have "prefix [1, 2, 3 :: u8] [1, 2, 3]"
    using tcp_stream_delivery [OF snk.device_axioms sink_held_empty default_valid demo_conn_opened run(1) snk.tap_device
        tap_sink_held default_valid _ _ _ run(3)]
    by (simp add: demo_server_calls_def)
  then show ?thesis
    using run(1,3) by blast
qed

text \<open>
  C10. Flow and congestion control: a transmission uses new sequence space only while the bytes in flight stay
  within the smaller of the congestion window and the window the peer advertised. The exceptions are the SYN of
  the handshake and a probe of a closed window, which is one byte.
\<close>

theorem tcp_windows_respected:
  assumes "device ops held" and "held d M" and "tcp_config_valid cfg" and "cn_opened iss cfg c"
    and "cn_run ops cfg es (c, d, [], []) = Some (c1, d1, w, r)" and "cn_transmit ops now cfg c1 d1 = Some (res, c2, d2)"
    and "cn_state c1 \<notin> {SynSent, SynReceived}" and "cn_send_sent c2 \<noteq> cn_send_sent c1"
  shows "cn_bytes_in_flight c2 \<le> cn_cwnd c2 \<and> cn_bytes_in_flight c2 \<le> unat (cn_peer_window c2) \<or>
    cn_peer_window c2 = 0 \<and> cn_bytes_in_flight c2 = 1"
proof -
  have h: "held d1 M" "cn_inv cfg c1"
    using opened_run [OF assms(1-4), of es] assms(5) by simp_all
  have "within_windows c1 c2"
    using device.cn_transmit_wp [OF assms(1,3) h(2,1), of now] assms(6) by simp
  then show ?thesis
    using assms(7,8) by (simp add: within_windows_def syn_pending_def)
qed

theorem tcp_windows_respected_witness:
  "\<exists>p c d. cn_transmit (tap_ops sink_ops) 3 tcp_config_default (demo_a2\<lparr>cn_queued := [1, 2, 3]\<rparr>) ((), [p]) = Some (Inr (True, False), c, d) \<and>
     cn_send_sent c = 1004 \<and> cn_bytes_in_flight c \<le> 1072"
proof -
  obtain q p where run: "cn_run (tap_ops sink_ops) tcp_config_default (demo_open_calls q) (demo_conn, ((), []), [], []) =
      Some (demo_a2\<lparr>cn_queued := [1, 2, 3]\<rparr>, ((), [p]), [1, 2, 3], [])"
    using demo_open by blast
  obtain c d where c: "cn_transmit (tap_ops sink_ops) 3 tcp_config_default (demo_a2\<lparr>cn_queued := [1, 2, 3]\<rparr>) ((), [p]) =
      Some (Inr (True, False), c, d)" "cn_send_sent c = 1004" "cn_cwnd c = 1072"
    using demo_a4_step [of "[p]"] by blast
  have "cn_state demo_a2 = Established" "cn_send_sent demo_a2 = 1001"
    by (simp_all add: demo_a2_def demo_a1_def)
  then have "cn_bytes_in_flight c \<le> 1072"
    using tcp_windows_respected [OF snk.tap_device tap_sink_held default_valid demo_conn_opened run c(1)] c(2,3) by auto
  then show ?thesis
    using c by blast
qed

section \<open>Phases that end\<close>

lemma phase_deadline_fires:
  assumes "syn_pending (cn_state c)" and "cn_phase_deadline c = Some t" and "t \<le> now"
  shows "cn_tick now cfg c = cn_fail TimedOutState c"
  using assms by (auto simp: cn_tick_def deadline_passed_def syn_pending_def is_terminal_def)

lemma close_deadline_fires:
  assumes "\<not> ended (cn_state c)" and "cn_close_deadline c = Some t" and "t \<le> now"
  shows "cn_tick now cfg c = cn_fail TimedOutState c"
  using assms by (simp add: cn_tick_def deadline_passed_def ended_def)

text \<open>
  C15. A handshake ends: however the run goes, a connection opened at time \<open>t\<close> is no longer in its handshake after
  a timer tick at or after the handshake timeout. It is established, closed or has failed by then.
\<close>

theorem tcp_handshake_ends:
  assumes "device ops held" and "held d M" and "tcp_config_valid cfg"
    and "c = cn_active local remote iss t cfg \<or> cn_passive syn iss t cfg = Some c"
    and "cn_run ops cfg es (c, d, [], []) = Some (c', d', w, r)" and "saturating_add t (tc_handshake_timeout cfg) \<le> now"
  shows "cn_state (cn_tick now cfg c') \<notin> {SynSent, SynReceived}"
proof -
  have opened: "cn_opened iss cfg c" and deadline: "cn_phase_deadline c = Some (saturating_add t (tc_handshake_timeout cfg))"
    using assms(4) by (auto simp: cn_opened_def cn_passive_def cn_active_def cn_start_flight_def Let_def)
  have step: "run_step c c'"
    using opened_run [OF assms(1-3) opened, of es] assms(5) by simp
  have tick: "cn_tick now cfg c' = cn_fail TimedOutState c'" if "syn_pending (cn_state c')"
    using phase_deadline_fires [OF that] step that deadline assms(6)
    by (auto simp: run_step_def phase_kept_def aborted_def syn_pending_def)
  show ?thesis
  proof (cases "syn_pending (cn_state c')")
    case True
    then show ?thesis
      by (simp add: tick cn_fail_def)
  next
    case False
    then show ?thesis
      using cn_tick_result [of now cfg c'] by (auto simp: syn_pending_def cn_fail_def)
  qed
qed

theorem tcp_handshake_ends_witness:
  "\<exists>c' d' w r. cn_run loopback_ops tcp_config_default demo_calls (demo_conn, demo_loopback, [], []) = Some (c', d', w, r) \<and>
     cn_state (cn_tick 30000000000 tcp_config_default c') \<notin> {SynSent, SynReceived}"
proof -
  obtain c' d' w r where run: "cn_run loopback_ops tcp_config_default demo_calls (demo_conn, demo_loopback, [], []) = Some (c', d', w, r)"
    using demo_run by blast
  have "cn_state (cn_tick 30000000000 tcp_config_default c') \<notin> {SynSent, SynReceived}"
    by (rule tcp_handshake_ends [OF lbk.device_axioms demo_held default_valid disjI1 [OF demo_conn_def] run])
      (simp add: saturating_add_def tcp_config_default_def from_secs_def)
  then show ?thesis
    using run by blast
qed

text \<open>
  C16. An orderly close ends: after the application closed the sending side at time \<open>t\<close>, a timer tick at or after
  the close timeout leaves the connection in TIME-WAIT or in a terminal state, whatever happened in between.
\<close>

theorem tcp_close_ends:
  assumes "device ops held" and "held d M" and "tcp_config_valid cfg" and "cn_opened iss cfg c"
    and "cn_run ops cfg es (c, d, [], []) = Some (c1, d1, w, r)" and "\<not> cn_write_closed c1"
    and "cn_close t cfg c1 = (Inr (), c2)" and "cn_run ops cfg fs (c2, d1, w, r) = Some (c3, d3, w', r')"
    and "saturating_add t (tc_close_timeout cfg) \<le> now"
  shows "cn_state (cn_tick now cfg c3) = TimeWait \<or> is_terminal (cn_state (cn_tick now cfg c3))"
proof -
  have h: "held d1 M" "cn_inv cfg c1"
    using opened_run [OF assms(1-4), of es] assms(5) by simp_all
  have c2: "cn_write_closed c2" "cn_close_deadline c2 = Some (saturating_add t (tc_close_timeout cfg))"
    using assms(6,7) by (auto simp: cn_close_def split: if_split_asm)
  have "run_step c2 c3"
    using device.cn_run_wp [OF assms(1,3) cn_close_inv [OF h(2) assms(7)] h(1), of fs w r] assms(8) by simp
  then have kept: "cn_close_deadline c3 = cn_close_deadline c2" if "\<not> ended (cn_state c3)"
    using that c2(1) by (auto simp: run_step_def phase_kept_def ended_def aborted_def is_terminal_def)
  have "ended (cn_state (cn_tick now cfg c3))"
  proof (cases "ended (cn_state c3)")
    case True
    then show ?thesis
      using cn_tick_result [of now cfg c3] by (auto simp: ended_def cn_fail_def is_terminal_def)
  next
    case False
    then show ?thesis
      using close_deadline_fires [OF False] kept c2(2) assms(9) by (simp add: cn_fail_def ended_def is_terminal_def)
  qed
  then show ?thesis
    by (auto simp: ended_def)
qed

theorem tcp_close_ends_witness:
  "\<exists>q c p c' d' w r. cn_run (tap_ops sink_ops) tcp_config_default (demo_client_calls q) (demo_conn, ((), []), [], []) = Some (c, ((), p), [1, 2, 3], []) \<and>
     cn_run (tap_ops sink_ops) tcp_config_default [(5, CallTransmit)] (snd (cn_close 4 tcp_config_default c), ((), p), [1, 2, 3], []) =
       Some (c', d', w, r) \<and>
     (cn_state (cn_tick 120000000004 tcp_config_default c') = TimeWait \<or> is_terminal (cn_state (cn_tick 120000000004 tcp_config_default c')))"
proof -
  note demo = snk.tap_device tap_sink_held default_valid demo_conn_opened
  obtain q c p where run: "cn_run (tap_ops sink_ops) tcp_config_default (demo_client_calls q) (demo_conn, ((), []), [], []) =
      Some (c, ((), p), [1, 2, 3], [])" "cn_state c = Established" "\<not> cn_write_closed c"
    using demo_exchange by blast
  obtain c2 where c2: "cn_close 4 tcp_config_default c = (Inr (), c2)"
    using run(2,3) by (simp add: cn_close_def)
  have inv: "cn_inv tcp_config_default c2"
    using opened_run [where d = "((), [])" and es = "demo_client_calls q", OF demo] run(1) cn_close_inv [OF _ c2] by simp
  obtain c' d' w r where run': "cn_run (tap_ops sink_ops) tcp_config_default [(5, CallTransmit)] (c2, ((), p), [1, 2, 3], []) = Some (c', d', w, r)"
    using wp_returns [OF device.cn_run_wp [OF demo(1,3) inv demo(2)]] by blast
  have "cn_state (cn_tick 120000000004 tcp_config_default c') = TimeWait \<or> is_terminal (cn_state (cn_tick 120000000004 tcp_config_default c'))"
    by (rule tcp_close_ends [OF demo run(1,3) c2 run']) (simp add: saturating_add_def tcp_config_default_def from_secs_def)
  then show ?thesis
    using run(1) run' c2 by (intro exI [of _ q] exI [of _ c] exI [of _ p] exI [of _ c'] exI [of _ d'] exI [of _ w] exI [of _ r]) simp
qed

text \<open>
  C35. The reported deadline is sound: a timer tick before the time \<open>next_deadline\<close> reports changes nothing, so a
  caller that sleeps until then misses no timeout; a connection that reports none has no timer to run.
\<close>

theorem tcp_next_deadline_sound:
  assumes "list_all (\<lambda>f. fl_created f \<le> now) (cn_flights c)"
    and "case cn_next_deadline cfg c of None \<Rightarrow> True | Some t \<Rightarrow> now < t"
  shows "cn_tick now cfg c = c"
proof (cases "is_terminal (cn_state c)")
  case False
  define due where "due f = min (case fl_last_sent f of None \<Rightarrow> fl_created f | Some t \<Rightarrow> saturating_add t (fl_rto f))
    (saturating_add (fl_created f) (tc_send_timeout cfg))" for f :: flight
  obtain rest where rest: "cn_next_deadline cfg c =
      (let ts = opt_list (cn_phase_deadline c) @ opt_list (cn_close_deadline c) @
         opt_list (case cn_flights c of [] \<Rightarrow> None | f # _ \<Rightarrow> Some (due f)) @ rest in
       if ts = [] then None else Some (Min (set ts)))"
    using False by (simp add: cn_next_deadline_def due_def Let_def cong: list.case_cong)
  have "now < x" if "x \<in> set (opt_list (cn_phase_deadline c)) \<union> set (opt_list (cn_close_deadline c)) \<union>
      set (opt_list (case cn_flights c of [] \<Rightarrow> None | f # _ \<Rightarrow> Some (due f)))" for x
    using assms(2) that unfolding rest Let_def by (auto split: if_split_asm)
  then have "\<not> deadline_passed now (cn_phase_deadline c)" "\<not> deadline_passed now (cn_close_deadline c)"
      "\<And>f fs. cn_flights c = f # fs \<Longrightarrow> now < due f"
    by (auto simp: deadline_passed_def opt_list_def not_le split: option.split)
  moreover have "\<not> (saturating_add (fl_created f) (tc_send_timeout cfg) \<le> now \<or> fl_due f now)"
    if "now < due f" "fl_created f \<le> now" for f
    using that by (auto simp: due_def fl_due_def split: option.split_asm)
  ultimately show ?thesis
    using assms(1) by (auto simp: cn_tick_def split: list.split)
qed (simp add: cn_tick_def)

theorem tcp_next_deadline_sound_witness:
  "cn_next_deadline tcp_config_default demo_a1 = Some 1000000000 \<and> cn_tick 999999999 tcp_config_default demo_a1 = demo_a1"
proof -
  have d: "cn_next_deadline tcp_config_default demo_a1 = Some 1000000000" and "cn_flights demo_a1 = [demo_flight 1000 SYN]"
    by (simp_all add: cn_next_deadline_def demo_defs opt_list_def saturating_add_def duration_max_def is_terminal_def
        Let_def)
  then show ?thesis
    using tcp_next_deadline_sound [of 999999999 demo_a1 tcp_config_default] by (simp add: demo_flight_def)
qed

end
