(* ===== verification/Tcp_Pool_Spec.thy ===== *)
theory Tcp_Pool_Spec
  imports Tcp_Pool Tcp_Spec
begin

text \<open>
  The invariant of the TCP pool, its preservation by every operation over any device that keeps the device
  contract, and the properties of the pool.
\<close>

section \<open>The connection table\<close>

text \<open>What a step does to one connection of the table.\<close>

definition conn_step :: "tcp_config \<Rightarrow> connection \<Rightarrow> connection \<Rightarrow> bool" where
  "conn_step cfg c c' \<longleftrightarrow> cn_inv cfg c' \<and> cn_local c' = cn_local c \<and> cn_remote c' = cn_remote c \<and>
     (is_terminal (cn_state c) \<longrightarrow> is_terminal (cn_state c'))"

definition live_tuple :: "sockaddr \<Rightarrow> sockaddr \<Rightarrow> connection \<Rightarrow> bool" where
  "live_tuple local remote c \<longleftrightarrow> cn_local c = local \<and> cn_remote c = remote \<and> \<not> is_terminal (cn_state c)"

definition conns_ok :: "tcp_config \<Rightarrow> u64 \<Rightarrow> (connection_id, connection) btree_map \<Rightarrow> bool" where
  "conns_ok cfg n m \<longleftrightarrow> bt_inv m \<and> length m \<le> tc_max_connections cfg \<and> (\<forall>(i, c) \<in> set m. cn_inv cfg c \<and> i < n) \<and>
     (\<forall>i c j d local remote. (i, c) \<in> set m \<and> (j, d) \<in> set m \<and> live_tuple local remote c \<and> live_tuple local remote d \<longrightarrow> i = j)"

definition conns_step :: "tcp_config \<Rightarrow> (connection_id, connection) btree_map \<Rightarrow> (connection_id, connection) btree_map \<Rightarrow> bool" where
  "conns_step cfg m m' \<longleftrightarrow> map fst m' = map fst m \<and>
     (\<forall>(i, c') \<in> set m'. \<exists>c. (i, c) \<in> set m \<and> conn_step cfg c c')"

lemma conn_step_refl: "cn_inv cfg c \<Longrightarrow> conn_step cfg c c"
  by (simp add: conn_step_def)

lemma conn_step_trans: "conn_step cfg c d \<Longrightarrow> conn_step cfg d e \<Longrightarrow> conn_step cfg c e"
  by (simp add: conn_step_def)

lemma conn_step_live: "conn_step cfg c c' \<Longrightarrow> live_tuple local remote c' \<Longrightarrow> live_tuple local remote c"
  by (auto simp: conn_step_def live_tuple_def)

lemma conns_ok_step:
  assumes ok: "conns_ok cfg n m" and step: "conns_step cfg m m'"
  shows "conns_ok cfg n m'"
proof -
  have keys: "map fst m' = map fst m" and old: "\<And>i c'. (i, c') \<in> set m' \<Longrightarrow> \<exists>c. (i, c) \<in> set m \<and> conn_step cfg c c'"
    using step by (auto simp: conns_step_def)
  have "bt_inv m'" "length m' \<le> tc_max_connections cfg"
    using ok keys map_eq_imp_length_eq [OF keys] by (simp_all add: conns_ok_def bt_inv_def)
  moreover have "cn_inv cfg c' \<and> i < n" if "(i, c') \<in> set m'" for i c'
    using old [OF that] ok by (auto simp: conns_ok_def conn_step_def)
  moreover have "i = j" if h: "(i, c') \<in> set m'" "(j, d') \<in> set m'" "live_tuple local remote c'" "live_tuple local remote d'"
    for i c' j d' local remote
  proof -
    obtain c d where "(i, c) \<in> set m" "conn_step cfg c c'" "(j, d) \<in> set m" "conn_step cfg d d'"
      using old [OF h(1)] old [OF h(2)] by blast
    then show ?thesis
      using ok conn_step_live h(3,4) unfolding conns_ok_def by blast
  qed
  ultimately show ?thesis
    unfolding conns_ok_def by blast
qed

lemma conns_ok_inv: "conns_ok cfg n m \<Longrightarrow> (i, c) \<in> set m \<Longrightarrow> cn_inv cfg c"
  by (auto simp: conns_ok_def)

lemma conns_ok_get: "conns_ok cfg n m \<Longrightarrow> bt_get m i = Some c \<Longrightarrow> (i, c) \<in> set m \<and> cn_inv cfg c"
  by (auto simp: conns_ok_def bt_get_def dest: map_of_SomeD)

lemma conns_ok_filter:
  assumes "conns_ok cfg n m"
  shows "conns_ok cfg n (filter P m)"
proof -
  have "length (filter P m) \<le> length m" "set (filter P m) \<subseteq> set m"
    by auto
  then show ?thesis
    using assms bt_inv_filter [of m P] unfolding conns_ok_def by (meson le_trans subsetD)
qed

lemma conns_step_update:
  assumes ok: "conns_ok cfg n m" and get: "bt_get m i = Some c" and step: "conn_step cfg c c'"
  shows "conns_step cfg m (bt_insert i c' m)"
proof -
  have inv: "bt_inv m"
    using ok by (simp add: conns_ok_def)
  have "\<exists>d. (j, d) \<in> set m \<and> conn_step cfg d d'" if h: "(j, d') \<in> set (bt_insert i c' m)" for j d'
  proof -
    obtain d where d: "(j, d) \<in> set m" "d' = (if j = i then c' else d)"
      using h unfolding bt_insert_present [OF inv get] by auto
    show ?thesis
      using d conns_ok_get [OF ok get] step conn_step_refl [OF conns_ok_inv [OF ok d(1)]] by (cases "j = i") auto
  qed
  moreover have "map fst (bt_insert i c' m) = map fst m"
    by (simp add: bt_insert_present [OF inv get] comp_def case_prod_beta)
  ultimately show ?thesis
    unfolding conns_step_def by blast
qed

lemma conns_ok_update:
  "conns_ok cfg n m \<Longrightarrow> bt_get m i = Some c \<Longrightarrow> conn_step cfg c c' \<Longrightarrow> conns_ok cfg n (bt_insert i c' m)"
  using conns_ok_step conns_step_update by blast

lemma conns_step_map:
  assumes "conns_ok cfg n m" and "\<And>c. cn_inv cfg c \<Longrightarrow> conn_step cfg c (f c)"
  shows "conns_step cfg m (map (\<lambda>(i, c). (i, f c)) m)"
  using assms conns_ok_inv [OF assms(1)] unfolding conns_step_def by (fastforce simp: comp_def case_prod_beta)

lemma conns_step_refl: "conns_ok cfg n m \<Longrightarrow> conns_step cfg m m"
  using conns_ok_inv conn_step_refl unfolding conns_step_def by fast

text \<open>A new connection under a fresh identifier.\<close>

lemma conns_ok_new:
  assumes ok: "conns_ok cfg n m" and full: "length m \<noteq> tc_max_connections cfg" and inv: "cn_inv cfg c" and n: "n < n'"
    and fresh: "\<And>i d. (i, d) \<in> set m \<Longrightarrow> \<not> live_tuple (cn_local c) (cn_remote c) d"
  shows "conns_ok cfg n' (bt_insert n c m)"
proof -
  have m: "bt_inv m" "length m \<le> tc_max_connections cfg"
    using ok by (simp_all add: conns_ok_def)
  have "length (bt_insert n c m) \<le> tc_max_connections cfg"
    using btm.bounded_ins [OF m] full by blast
  moreover have mem: "(i, d) = (n, c) \<or> (i, d) \<in> set m" if "(i, d) \<in> set (bt_insert n c m)" for i d
    using that set_bt_insert [of n c m] by blast
  then have "cn_inv cfg d \<and> i < n'" if "(i, d) \<in> set (bt_insert n c m)" for i d
    using mem [OF that] ok inv n by (fastforce simp: conns_ok_def)
  moreover have "i = j" if h: "(i, d) \<in> set (bt_insert n c m)" "(j, e) \<in> set (bt_insert n c m)" "live_tuple local remote d"
      "live_tuple local remote e" for i j d e local remote
  proof -
    have "\<not> live_tuple local remote x" if "(k, x) \<in> set m" "live_tuple local remote c" for k x
      using fresh [OF that(1)] that(2) by (auto simp: live_tuple_def)
    then have "(i, d) = (n, c) \<and> (j, e) = (n, c) \<or> (i, d) \<in> set m \<and> (j, e) \<in> set m"
      using mem [OF h(1)] mem [OF h(2)] h(3,4) by blast
    then show ?thesis
      using ok h(3,4) unfolding conns_ok_def by blast
  qed
  ultimately show ?thesis
    using bt_inv_insert [OF m(1)] unfolding conns_ok_def by blast
qed

section \<open>Steps of one connection\<close>

lemma conn_step_tick: "cn_inv cfg c \<Longrightarrow> conn_step cfg c (cn_tick now cfg c)"
  using cn_tick_inv [of cfg c now] cn_tick_result [of now cfg c]
  by (auto simp: conn_step_def cn_fail_def is_terminal_def)

lemma conn_step_fail: "cn_inv cfg c \<Longrightarrow> st \<in> {ResetState, TimedOutState, Failed} \<Longrightarrow> conn_step cfg c (cn_fail st c)"
  using cn_fail_inv [of cfg c st] by (auto simp: conn_step_def cn_fail_def is_terminal_def)

lemma conn_step_write:
  assumes "cn_inv cfg c"
  shows "wp (cn_write b cfg c) (\<lambda>(r, c'). conn_step cfg c c')"
proof -
  obtain r c' where "cn_write b cfg c = Some (r, c')" "cn_inv cfg c'"
      "case r of Inl e \<Rightarrow> c' = c | Inr n \<Rightarrow> n \<le> length b \<and> c' = c\<lparr>cn_queued := cn_queued c @ take n b\<rparr>"
    using cn_write_wp [OF assms, of b] unfolding wp_eq_Some by blast
  then show ?thesis
    by (cases r) (simp_all add: conn_step_def)
qed

lemma conn_step_read:
  assumes "cn_inv cfg c" and "cn_read n c = (r, out, c')"
  shows "conn_step cfg c c'"
  using cn_read_inv [OF assms] cn_read_step(5) [OF assms(2)] assms(2)
  by (auto simp: conn_step_def cn_read_def Let_def split: option.split_asm if_split_asm)

lemma conn_step_close:
  assumes "cn_inv cfg c" and "cn_close now cfg c = (r, c')"
  shows "conn_step cfg c c'"
  using cn_close_inv [OF assms] cn_close_step [where c = c and now = now and cfg = cfg] assms(2) by (simp add: conn_step_def same_receiver_def)

lemma input_step_tuple: "input_step s c c' \<Longrightarrow> cn_local c' = cn_local c \<and> cn_remote c' = cn_remote c"
  by (auto simp: input_step_def rcv_step_def same_receiver_def)

lemma conn_step_input:
  assumes "tcp_config_valid cfg" and "cn_inv cfg c"
  shows "wp (cn_input s now cfg c) (conn_step cfg c)"
proof (cases "is_terminal (cn_state c)")
  case True
  then show ?thesis
    using assms(2) by (simp add: cn_input_def conn_step_refl)
next
  case False
  then show ?thesis
    by (intro wp_mono [OF cn_input_wp [OF assms, of s now]]) (use input_step_tuple in \<open>auto simp: conn_step_def\<close>)
qed

lemma cn_status_some:
  assumes "cn_inv cfg c"
  shows "\<exists>status. cn_status cfg c = Some status"
proof -
  have "length (cn_received c) \<le> tc_receive_capacity cfg"
    using assms by (simp add: cn_inv_def)
  then obtain w where "cn_advertised_window cfg c = Some w"
    using window_word by blast
  then show ?thesis
    by (simp add: cn_status_def)
qed

section \<open>The pool\<close>

definition tp_inv :: "'d tcp_pool \<Rightarrow> bool" where
  "tp_inv p \<longleftrightarrow> tcp_config_valid (tp_config p) \<and> conns_ok (tp_config p) (tp_next_id p) (tp_connections p) \<and>
     bt_inv (tp_listeners p) \<and> length (tp_listeners p) \<le> tc_max_listeners (tp_config p) \<and>
     length (tp_resets p) \<le> tc_control_capacity (tp_config p) \<and> length (tp_events p) \<le> tc_event_capacity (tp_config p)"

text \<open>What an operation without the device leaves alone.\<close>

definition same_device :: "'d tcp_pool \<Rightarrow> 'd tcp_pool \<Rightarrow> bool" where
  "same_device p p' \<longleftrightarrow> tp_device p' = tp_device p \<and> tp_rx p' = tp_rx p \<and> tp_config p' = tp_config p"

lemma same_device_refl [simp]: "same_device p p"
  by (simp add: same_device_def)

lemma same_device_trans: "same_device p q \<Longrightarrow> same_device q r \<Longrightarrow> same_device p r"
  by (simp add: same_device_def)

lemma tp_inv_simps [simp]:
  "tp_inv (p\<lparr>tp_stats := s\<rparr>) = tp_inv p" "tp_inv (p\<lparr>tp_device := d\<rparr>) = tp_inv p" "tp_inv (p\<lparr>tp_rx := rx\<rparr>) = tp_inv p"
  "tp_inv (p\<lparr>tp_now := t\<rparr>) = tp_inv p" "tp_inv (p\<lparr>tp_draws := k\<rparr>) = tp_inv p"
  by (simp_all add: tp_inv_def)

lemma tp_inv_conns:
  assumes "tp_inv p" and "conns_ok (tp_config p) (tp_next_id p) m"
  shows "tp_inv (p\<lparr>tp_connections := m\<rparr>)"
  using assms by (simp add: tp_inv_def)

lemma tp_inv_update:
  assumes "tp_inv p" and "bt_get (tp_connections p) i = Some c" and "conn_step (tp_config p) c c'"
  shows "tp_inv (p\<lparr>tp_connections := bt_insert i c' (tp_connections p)\<rparr>)"
  using assms conns_ok_update [OF _ assms(2,3)] by (intro tp_inv_conns) (simp_all add: tp_inv_def)

lemma tp_inv_entry: "tp_inv p \<Longrightarrow> (i, c) \<in> set (tp_connections p) \<longleftrightarrow> bt_get (tp_connections p) i = Some c"
  by (rule btm.in_entries_iff) (simp add: tp_inv_def conns_ok_def)

lemma tp_inv_get: "tp_inv p \<Longrightarrow> bt_get (tp_connections p) i = Some c \<Longrightarrow> cn_inv (tp_config p) c"
  using conns_ok_get unfolding tp_inv_def by blast

text \<open>Status reports.\<close>

lemma report_state_wp:
  assumes inv: "cn_inv cfg c" and ev: "length events \<le> tc_event_capacity cfg" and cap: "0 < tc_event_capacity cfg"
  shows "wp (report_state cfg now i c events stats) (\<lambda>(c', events', stats'). conn_step cfg c c' \<and> length events' \<le> tc_event_capacity cfg)"
proof -
  obtain status where "cn_status cfg c = Some status"
    using cn_status_some [OF inv] by blast
  then show ?thesis
    using inv ev cap by (auto simp: report_state_def Let_def conn_step_def)
qed

lemma report_entries_wp:
  assumes "\<forall>(i, c) \<in> set m. cn_inv cfg c" and "length events \<le> tc_event_capacity cfg" and "0 < tc_event_capacity cfg"
  shows "wp (report_entries cfg now m events stats) (\<lambda>(m', events', stats'). conns_step cfg m m' \<and> length events' \<le> tc_event_capacity cfg)"
  using assms(1,2)
proof (induction m arbitrary: events stats)
  case (Cons e m)
  obtain i c where e: "e = (i, c)"
    by (cases e)
  obtain c' events' stats' where c': "report_state cfg now i c events stats = Some (c', events', stats')" "conn_step cfg c c'"
      "length events' \<le> tc_event_capacity cfg"
    using report_state_wp [OF _ Cons.prems(2) assms(3), of c now i stats] Cons.prems(1) unfolding wp_eq_Some e by auto
  obtain m' events'' stats'' where m': "report_entries cfg now m events' stats' = Some (m', events'', stats'')" "conns_step cfg m m'"
      "length events'' \<le> tc_event_capacity cfg"
    using Cons.IH [OF _ c'(3), of stats'] Cons.prems(1) unfolding wp_eq_Some by auto
  have "conns_step cfg (e # m) ((i, c') # m')"
    using c'(2) m'(2) by (auto simp: conns_step_def e)
  then show ?case
    using c'(1) m'(1,3) by (simp add: e)
qed (simp add: conns_step_def)

lemma report_states_wp:
  assumes "tp_inv p"
  shows "wp (report_states p) (\<lambda>p'. tp_inv p' \<and> same_device p p')"
proof (cases "tc_verbose_state (tp_config p)")
  case True
  have inv: "tcp_config_valid (tp_config p)" "conns_ok (tp_config p) (tp_next_id p) (tp_connections p)"
      "length (tp_events p) \<le> tc_event_capacity (tp_config p)"
    using assms by (simp_all add: tp_inv_def)
  have "0 < tc_event_capacity (tp_config p)" "\<forall>(i, c) \<in> set (tp_connections p). cn_inv (tp_config p) c"
    using inv True by (auto simp: tcp_config_valid_def conns_ok_def)
  then obtain m events stats where "report_entries (tp_config p) (tp_now p) (tp_connections p) (tp_events p) (tp_stats p) = Some (m, events, stats)"
      "conns_step (tp_config p) (tp_connections p) m" "length events \<le> tc_event_capacity (tp_config p)"
    using report_entries_wp [OF _ inv(3), of "tp_connections p" "tp_now p" "tp_stats p"] unfolding wp_eq_Some by auto
  then show ?thesis
    using True assms conns_ok_step [OF inv(2)] by (simp add: report_states_def same_device_def tp_inv_def)
qed (use assms in \<open>simp add: report_states_def\<close>)

section \<open>Opens and input\<close>

lemma tp_find_None: "tp_find local remote p = None \<Longrightarrow> (i, c) \<in> set (tp_connections p) \<Longrightarrow> \<not> live_tuple local remote c"
  by (auto simp: tp_find_def live_tuple_def find_None_iff)

lemma tp_find_Some:
  assumes "tp_inv p" and "tp_find local remote p = Some i"
  obtains c where "bt_get (tp_connections p) i = Some c" and "live_tuple local remote c"
proof -
  obtain c where "(i, c) \<in> set (tp_connections p)" "live_tuple local remote c"
    using assms(2) by (auto simp: tp_find_def live_tuple_def dest!: find_SomeD)
  then show thesis
    using that tp_inv_entry [OF assms(1)] by blast
qed

lemma tp_inv_open:
  assumes inv: "tp_inv p" and full: "length (tp_connections p) \<noteq> tc_max_connections (tp_config p)"
    and c: "cn_inv (tp_config p) c" and find: "tp_find (cn_local c) (cn_remote c) p = None"
    and n: "tp_next_id p \<noteq> 0xFFFFFFFFFFFFFFFF"
  shows "tp_inv (p\<lparr>tp_draws := k, tp_next_id := tp_next_id p + 1, tp_connections := bt_insert (tp_next_id p) c (tp_connections p)\<rparr>)"
proof -
  have "conns_ok (tp_config p) (tp_next_id p + 1) (bt_insert (tp_next_id p) c (tp_connections p))"
    using inv conns_ok_new [OF _ full c id_less [OF n] tp_find_None [OF find]] by (simp add: tp_inv_def)
  then show ?thesis
    using inv by (simp add: tp_inv_def)
qed

lemma tp_inv_next_id:
  assumes "tp_inv p" and "tp_next_id p \<le> n"
  shows "tp_inv (p\<lparr>tp_next_id := n\<rparr>)"
  using assms by (auto simp: tp_inv_def conns_ok_def)

lemma accept_syn_wp:
  assumes inv: "tp_inv p" and find: "tp_find (sg_destination s) (sg_source s) p = None"
  shows "wp (accept_syn entropy s p) (\<lambda>(r, p'). tp_inv p' \<and> same_device p p')"
proof (cases "length (tp_connections p) = tc_max_connections (tp_config p) \<or> tp_next_id p = 0xFFFFFFFFFFFFFFFF")
  case True
  then show ?thesis
    using inv by (auto simp: accept_syn_def initial_sequence_def allocate_id_def same_device_def split: sum.split)
next
  case False
  show ?thesis
  proof (cases "entropy (tp_draws p)")
    case (Inr iss)
    have "tcp_config_valid (tp_config p)"
      using inv by (simp add: tp_inv_def)
    then obtain c where c: "cn_passive s iss (tp_now p) (tp_config p) = Some c" "cn_inv (tp_config p) c"
        "cn_local c = sg_destination s" "cn_remote c = sg_source s"
      using cn_passive_inv [of "tp_config p" s iss "tp_now p"] unfolding wp_eq_Some by blast
    then show ?thesis
      using False Inr tp_inv_open [OF inv _ c(2)] find
      by (simp add: accept_syn_def initial_sequence_def allocate_id_def same_device_def)
  qed (use False inv in \<open>simp add: accept_syn_def initial_sequence_def same_device_def\<close>)
qed

lemma queue_reset_inv: "tp_inv p \<Longrightarrow> tp_inv (queue_reset r p) \<and> same_device p (queue_reset r p)"
  by (simp add: queue_reset_def tp_inv_def same_device_def)

lemma bump_ignored_inv: "tp_inv p \<Longrightarrow> tp_inv (bump_ignored p) \<and> same_device p (bump_ignored p)"
  by (simp add: bump_ignored_def same_device_def)

lemma tp_input_wp:
  assumes inv: "tp_inv p"
  shows "wp (tp_input entropy s p) (\<lambda>(r, p'). tp_inv p' \<and> same_device p p')"
proof (cases "tp_find (sg_destination s) (sg_source s) p")
  case None
  then show ?thesis
    using inv accept_syn_wp [OF inv None] queue_reset_inv [OF inv] bump_ignored_inv [OF inv] by (simp add: tp_input_def)
next
  case (Some i)
  obtain c where c: "bt_get (tp_connections p) i = Some c"
    using tp_find_Some [OF inv Some] by blast
  have "tcp_config_valid (tp_config p)"
    using inv by (simp add: tp_inv_def)
  then obtain c' where c': "cn_input s (tp_now p) (tp_config p) c = Some c'" "conn_step (tp_config p) c c'"
    using conn_step_input [OF _ tp_inv_get [OF inv c], of s "tp_now p"] unfolding wp_eq_Some by blast
  then show ?thesis
    using Some c inv tp_inv_update [OF inv c c'(2)] bump_ignored_inv [OF inv] by (simp add: tp_input_def same_device_def)
qed

lemma tp_packet_wp:
  assumes inv: "tp_inv p"
  shows "wp (tp_packet entropy b p) (\<lambda>(r, p'). tp_inv p' \<and> same_device p p')"
proof (cases "length b < 20 \<or> nth_opt b 9 \<noteq> Some 6")
  case True
  then show ?thesis
    using bump_ignored_inv [OF inv] by (simp add: tp_packet_def)
next
  case False
  obtain res where res: "tcp_parse_ipv4 b = Some res"
    using tcp_parse_some by blast
  let ?p = "p\<lparr>tp_stats := (tp_stats p)\<lparr>ts_received := ts_received (tp_stats p) + 1\<rparr>\<rparr>"
  have "same_device ?p q \<Longrightarrow> same_device p q" for q
    by (simp add: same_device_def)
  then have "wp (tp_input entropy s ?p) (\<lambda>(r, p'). tp_inv p' \<and> same_device p p')" for s
    by (intro wp_mono [OF tp_input_wp [of ?p]]) (use inv in auto)
  moreover have "same_device p (p\<lparr>tp_stats := st\<rparr>)" for st
    by (simp add: same_device_def)
  ultimately show ?thesis
    using False res inv by (cases res) (simp_all add: tp_packet_def)
qed

section \<open>The application's operations\<close>

lemma tp_listen_inv:
  assumes "tp_inv p" and "tp_listen a p = (r, p')"
  shows "tp_inv p' \<and> same_device p p'"
proof (cases "p' = p")
  case False
  then have "p' = p\<lparr>tp_listeners := bt_insert a () (tp_listeners p)\<rparr>" "length (tp_listeners p) \<noteq> tc_max_listeners (tp_config p)"
    using assms(2) by (auto simp: tp_listen_def split: sum.split_asm if_split_asm)
  then show ?thesis
    using assms(1) btm.bounded_ins [of "tp_listeners p" "tc_max_listeners (tp_config p)" a "()"] bt_inv_insert [of "tp_listeners p" a "()"]
    by (simp add: tp_inv_def same_device_def)
qed (use assms in simp)

lemma tp_unlisten_inv: "tp_inv p \<Longrightarrow> tp_inv (tp_unlisten a p) \<and> same_device p (tp_unlisten a p)"
  using btm.ok_del [of "tp_listeners p" a] btm.count_del_le [of "tp_listeners p" a] conns_ok_filter
  by (auto simp: tp_unlisten_def tp_inv_def same_device_def bt_retain_def)

lemma tp_connect_inv:
  assumes inv: "tp_inv p" and connect: "tp_connect entropy local remote p = (r, p')"
  shows "tp_inv p' \<and> same_device p p'"
proof -
  have v: "tcp_config_valid (tp_config p)"
    using inv by (simp add: tp_inv_def)
  let ?c = "\<lambda>iss. cn_active local remote iss (tp_now p) (tp_config p)"
  have tuple: "cn_local (?c iss) = local" "cn_remote (?c iss) = remote" for iss
    by (simp_all add: cn_active_def cn_start_flight_def Let_def)
  have "p' = p \<or> p' = p\<lparr>tp_draws := Suc (tp_draws p)\<rparr> \<or>
      (\<exists>iss. p' = p\<lparr>tp_draws := Suc (tp_draws p), tp_next_id := tp_next_id p + 1,
         tp_connections := bt_insert (tp_next_id p) (?c iss) (tp_connections p)\<rparr> \<and>
       length (tp_connections p) \<noteq> tc_max_connections (tp_config p) \<and> tp_find local remote p = None \<and>
       tp_next_id p \<noteq> 0xFFFFFFFFFFFFFFFF)"
    using connect by (auto simp: tp_connect_def initial_sequence_def allocate_id_def split: sum.split_asm if_split_asm)
  then show ?thesis
    using inv tp_inv_open [OF inv _ cn_active_inv [OF v]] tuple by (auto simp: same_device_def)
qed

lemma tp_accept_inv:
  assumes inv: "tp_inv p" and accept: "tp_accept a p = (r, p')"
  shows "tp_inv p' \<and> same_device p p'"
proof (cases "p' = p")
  case False
  then obtain i c where f: "find (\<lambda>(_, c). acceptable a c) (tp_connections p) = Some (i, c)"
      "p' = p\<lparr>tp_connections := bt_insert i (c\<lparr>cn_accepted := True\<rparr>) (tp_connections p)\<rparr>"
    using accept by (auto simp: tp_accept_def split: option.split_asm if_split_asm)
  have get: "bt_get (tp_connections p) i = Some c"
    using find_SomeD [OF f(1)] tp_inv_entry [OF inv] by blast
  show ?thesis
    using tp_inv_update [OF inv get] tp_inv_get [OF inv get] f(2) by (simp add: conn_step_def same_device_def)
qed (use assms in simp)

lemma tp_write_wp:
  assumes inv: "tp_inv p"
  shows "wp (tp_write i b p) (\<lambda>(r, p'). tp_inv p' \<and> same_device p p')"
proof (cases "bt_get (tp_connections p) i")
  case (Some c)
  obtain r c' where "cn_write b (tp_config p) c = Some (r, c')" "conn_step (tp_config p) c c'"
    using conn_step_write [OF tp_inv_get [OF inv Some], of b] unfolding wp_eq_Some by blast
  then show ?thesis
    using Some tp_inv_update [OF inv Some] by (simp add: tp_write_def same_device_def)
qed (use inv in \<open>simp add: tp_write_def\<close>)

lemma tp_read_inv:
  assumes inv: "tp_inv p" and read: "tp_read i n p = (r, out, p')"
  shows "tp_inv p' \<and> same_device p p'"
proof (cases "bt_get (tp_connections p) i")
  case (Some c)
  obtain r' out' c' where c': "cn_read n c = (r', out', c')"
    by (metis prod.collapse)
  then have "p' = p\<lparr>tp_connections := bt_insert i c' (tp_connections p)\<rparr>"
    using read Some by (simp add: tp_read_def)
  then show ?thesis
    using tp_inv_update [OF inv Some conn_step_read [OF tp_inv_get [OF inv Some] c']] by (simp add: same_device_def)
qed (use assms in \<open>simp add: tp_read_def\<close>)

lemma tp_close_inv:
  assumes inv: "tp_inv p" and close: "tp_close i p = (r, p')"
  shows "tp_inv p' \<and> same_device p p'"
proof (cases "bt_get (tp_connections p) i")
  case (Some c)
  obtain r' c' where c': "cn_close (tp_now p) (tp_config p) c = (r', c')"
    by (metis prod.collapse)
  then have "p' = p\<lparr>tp_connections := bt_insert i c' (tp_connections p)\<rparr>"
    using close Some by (simp add: tp_close_def)
  then show ?thesis
    using tp_inv_update [OF inv Some conn_step_close [OF tp_inv_get [OF inv Some] c']] by (simp add: same_device_def)
qed (use assms in \<open>simp add: tp_close_def\<close>)

lemma tp_abort_wp:
  assumes inv: "tp_inv p"
  shows "wp (tp_abort i p) (\<lambda>(r, p'). tp_inv p' \<and> same_device p p')"
proof (cases "bt_get (tp_connections p) i")
  case (Some c)
  let ?p = "p\<lparr>tp_connections := bt_insert i (cn_fail ResetState c) (tp_connections p)\<rparr>"
  let ?q = "queue_reset (cn_reset_packet c) ?p"
  have "tp_inv ?p"
    using tp_inv_update [OF inv Some conn_step_fail [OF tp_inv_get [OF inv Some]]] by simp
  then have q: "tp_inv ?q" "same_device ?p ?q"
    using queue_reset_inv by blast+
  have "same_device p p'" if "same_device ?q p'" for p'
    using that q(2) by (simp add: same_device_def)
  then show ?thesis
    using report_states_wp [OF q(1)] Some by (auto simp: tp_abort_def elim!: wp_mono)
qed (use inv in \<open>simp add: tp_abort_def\<close>)

lemma tp_remove_wp:
  assumes inv: "tp_inv p"
  shows "wp (tp_remove i p) (\<lambda>(r, p'). tp_inv p' \<and> same_device p p')"
proof -
  have "tp_inv (p'\<lparr>tp_connections := bt_remove i (tp_connections p')\<rparr>) \<and> same_device p (p'\<lparr>tp_connections := m\<rparr>)"
    if "tp_inv p'" "same_device p p'" for p' m
    using that conns_ok_filter by (auto simp: tp_inv_def same_device_def bt_remove_def)
  then show ?thesis
    using report_states_wp [OF inv] inv by (auto simp: tp_remove_def split: option.split elim!: wp_mono)
qed

section \<open>Polling\<close>

definition tp_held :: "('d \<Rightarrow> packet_buf multiset \<Rightarrow> bool) \<Rightarrow> packet_buf multiset \<Rightarrow> tcp_config \<Rightarrow> 'd tcp_pool \<Rightarrow> bool" where
  "tp_held held M cfg p \<longleftrightarrow> tp_inv p \<and> tp_config p = cfg \<and> held (tp_device p) (mset (tp_rx p) + M)"

lemma tp_heldD:
  assumes "tp_held held M cfg p"
  shows "tp_inv p" and "tp_config p = cfg" and "held (tp_device p) (mset (tp_rx p) + M)" and "tcp_config_valid (tp_config p)"
    and "conns_ok (tp_config p) (tp_next_id p) (tp_connections p)"
proof -
  show inv: "tp_inv p" and "tp_config p = cfg" and "held (tp_device p) (mset (tp_rx p) + M)"
    using assms by (simp_all add: tp_held_def)
  show "tcp_config_valid (tp_config p)" and "conns_ok (tp_config p) (tp_next_id p) (tp_connections p)"
    using inv by (simp_all add: tp_inv_def)
qed

lemma tp_held_same: "tp_held held M cfg p \<Longrightarrow> tp_inv p' \<Longrightarrow> same_device p p' \<Longrightarrow> tp_held held M cfg p'"
  by (simp add: tp_held_def same_device_def)

context device
begin

lemma tp_packets_wp:
  assumes "tp_inv p" and "held (tp_device p) (mset fs + M)"
  shows "wp (tp_packets ops entropy fs p) (\<lambda>(r, p'). tp_inv p' \<and> held (tp_device p') M \<and> tp_rx p' = tp_rx p \<and> tp_config p' = tp_config p)"
  using assms
proof (induction fs arbitrary: p)
  case (Cons f fs)
  obtain r p1 where p1: "tp_packet entropy (as_slice f) p = Some (r, p1)" "tp_inv p1" "same_device p p1"
    using tp_packet_wp [OF Cons.prems(1), of entropy "as_slice f"] unfolding wp_eq_Some by blast
  have "held (tp_device p1) (add_mset f (mset fs + M))"
    using p1(3) Cons.prems(2) by (simp add: same_device_def)
  then obtain d where d: "dv_drop ops f (tp_device p1) = Some d" "held d (mset fs + M)"
    using drop_law unfolding wp_eq_Some by blast
  obtain d' where d': "dv_drop_all ops fs d = Some d'" "held d' M"
    using drop_all_wp [OF d(2)] unfolding wp_eq_Some by blast
  have "wp (tp_packets ops entropy fs (p1\<lparr>tp_device := d\<rparr>)) (\<lambda>(r, p'). tp_inv p' \<and> held (tp_device p') M \<and> tp_rx p' = tp_rx p \<and> tp_config p' = tp_config p)"
    using Cons.IH [of "p1\<lparr>tp_device := d\<rparr>"] p1(2,3) d(2) by (simp add: same_device_def)
  then show ?case
    using p1 d(1) d' by (cases r) (simp_all add: same_device_def)
qed simp

lemma flush_reset_wp:
  assumes "tp_held held M cfg p"
  shows "wp (flush_reset ops p) (\<lambda>(r, p'). tp_held held M cfg p')"
proof (cases "tp_resets p")
  case (Cons reset rest)
  let ?M = "mset (tp_rx p) + M"
  have h: "tp_inv p" "held (tp_device p) ?M" "tp_config p = cfg"
    using tp_heldD [OF assms] by simp_all
  have pop: "tp_held held M cfg (p\<lparr>tp_device := d, tp_resets := rest, tp_stats := st\<rparr>)" "tp_held held M cfg (p\<lparr>tp_device := d\<rparr>)"
    if "held d ?M" for d st
    using h(1,3) that Cons by (auto simp: tp_held_def tp_inv_def)
  obtain r d where d: "dv_alloc ops (tp_device p) = Some (r, d)" "case r of None \<Rightarrow> held d ?M | Some b \<Rightarrow> held d (add_mset b ?M) \<and> pb_len b = 0"
    using alloc_law [OF h(2)] unfolding wp_eq_Some by auto
  show ?thesis
  proof (cases r)
    case None
    then show ?thesis
      using d Cons pop(2) by (simp add: flush_reset_def)
  next
    case (Some frame)
    then have held: "held d (add_mset frame ?M)" "pb_inv frame"
      using d(2) held_inv [of d "add_mset frame ?M" frame] by simp_all
    obtain built frame' where b: "tcp_build_ipv4 frame (reset_segment reset) = Some (built, frame')" "pb_inv frame'" "same_frame frame frame'"
      using tcp_build_wp [OF held(2), of "reset_segment reset"] unfolding wp_eq_Some by auto
    have held': "held d (add_mset frame' ?M)"
      using held_edit [OF held(1) b(3,2)] .
    obtain d1 where d1: "dv_drop ops frame' d = Some d1" "held d1 ?M"
      using drop_law [OF held'] unfolding wp_eq_Some by blast
    have "held d (mset [frame'] + ?M)"
      using held' by simp
    from send_law [OF this] obtain sent slot d2 where d2: "dv_send ops [frame'] d = Some (sent, slot, d2)"
        "case sent of Inl e \<Rightarrow> slot = [frame'] \<and> held d2 (mset [frame'] + ?M)
         | Inr n \<Rightarrow> n \<le> length [frame'] \<and> slot = replicate n empty_buf @ drop n [frame'] \<and> held d2 (mset (drop n [frame']) + ?M)"
      unfolding wp_eq_Some by auto
    have "held d2 (mset slot + ?M)"
    proof (cases sent)
      case (Inr n)
      then have "n = 0 \<or> n = 1"
        using d2(2) by auto
      then show ?thesis
        using d2(2) Inr held_empty by auto
    qed (use d2 in simp)
    then obtain d3 where d3: "dv_drop_all ops slot d2 = Some d3" "held d3 ?M"
      using drop_all_wp unfolding wp_eq_Some by blast
    show ?thesis
      using Cons d Some b(1) d1 d2(1) d3 pop
      by (cases built; cases sent) (simp_all add: flush_reset_def)
  qed
qed (use assms in \<open>simp add: flush_reset_def\<close>)

lemma tp_burst_wp:
  assumes v: "tcp_config_valid cfg" and inv: "cn_inv cfg c" and held: "held d M"
  shows "wp (tp_burst ops now cfg n c d stats) (\<lambda>(r, c', d', stats'). conn_step cfg c c' \<and> held d' M)"
  using inv held
proof (induction n arbitrary: c d stats)
  case (Suc n)
  obtain r c1 d1 where t: "cn_transmit ops now cfg c d = Some (r, c1, d1)" "held d1 M" "cn_inv cfg c1" "tx_step c c1"
    using cn_transmit_wp [OF v Suc.prems, of now] unfolding wp_eq_Some by auto
  have step: "conn_step cfg c c1"
    using t(3,4) by (simp add: conn_step_def tx_step_def same_receiver_def)
  have "conn_step cfg c1 ((cn_fail Failed c1)\<lparr>cn_local_error := e\<rparr>)" for e
    using conn_step_fail [OF t(3), of Failed] by (simp add: conn_step_def)
  then have fail: "conn_step cfg c ((cn_fail Failed c1)\<lparr>cn_local_error := e\<rparr>)" for e
    using conn_step_trans [OF step] by blast
  have rest: "wp (tp_burst ops now cfg n c1 d1 st) (\<lambda>(r, c', d', stats'). conn_step cfg c c' \<and> held d' M)" for st
    by (rule wp_mono [OF Suc.IH [OF t(3,2)]]) (use conn_step_trans [OF step] in auto)
  show ?case
  proof (cases r)
    case (Inl e)
    then show ?thesis
      using t step fail by simp
  next
    case (Inr x)
    then show ?thesis
      using t step rest by (cases x) (simp add: Let_def)
  qed
qed (simp add: conn_step_refl)

lemma tp_transmit_all_wp:
  assumes v: "tcp_config_valid cfg" and inv: "\<forall>(i, c) \<in> set m. cn_inv cfg c" and held: "held d M"
  shows "wp (tp_transmit_all ops now cfg m d stats) (\<lambda>(r, m', d', stats'). conns_step cfg m m' \<and> held d' M)"
  using inv held
proof (induction m arbitrary: d stats)
  case (Cons e m)
  obtain i c where e: "e = (i, c)"
    by (cases e)
  have all: "\<forall>(i, c) \<in> set m. cn_inv cfg c" and c: "cn_inv cfg c"
    using Cons.prems(1) e by auto
  obtain r c1 d1 st1 where b: "tp_burst ops now cfg (tc_tx_burst cfg) c d stats = Some (r, c1, d1, st1)" "conn_step cfg c c1" "held d1 M"
    using tp_burst_wp [OF v c Cons.prems(2), of now "tc_tx_burst cfg" stats] unfolding wp_eq_Some by auto
  obtain r2 m2 d2 st2 where m2: "tp_transmit_all ops now cfg m d1 st1 = Some (r2, m2, d2, st2)" "conns_step cfg m m2" "held d2 M"
    using Cons.IH [OF all b(3), of st1] unfolding wp_eq_Some by auto
  have "conns_step cfg m m"
    using all conn_step_refl by (fastforce simp: conns_step_def)
  then have "conns_step cfg (e # m) ((i, c1) # m)" "conns_step cfg (e # m) ((i, c1) # m2)"
    using b(2) m2(2) by (auto simp: conns_step_def e)
  then show ?case
    using b m2 by (cases r) (simp_all add: e)
qed (simp add: conns_step_def)

lemma tp_poll_output_wp:
  assumes "tp_held held M cfg p"
  shows "wp (tp_poll_output ops now n p) (\<lambda>(r, p'). tp_held held M cfg p')"
proof -
  obtain r1 p1 where p1: "flush_reset ops p = Some (r1, p1)" "tp_held held M cfg p1"
    using flush_reset_wp [OF assms] unfolding wp_eq_Some by auto
  let ?N = "mset (tp_rx p1) + M"
  have h: "tp_inv p1" "tcp_config_valid (tp_config p1)" "conns_ok (tp_config p1) (tp_next_id p1) (tp_connections p1)" "held (tp_device p1) ?N"
      "tp_config p1 = cfg"
    using tp_heldD [OF p1(2)] by simp_all
  have "\<forall>(i, c) \<in> set (tp_connections p1). cn_inv (tp_config p1) c"
    using h(3) by (auto simp: conns_ok_def)
  then obtain r2 m d st where t: "tp_transmit_all ops now (tp_config p1) (tp_connections p1) (tp_device p1) (tp_stats p1) = Some (r2, m, d, st)"
      "conns_step (tp_config p1) (tp_connections p1) m" "held d ?N"
    using tp_transmit_all_wp [OF h(2) _ h(4), of "tp_connections p1" now "tp_stats p1"] unfolding wp_eq_Some by auto
  let ?p = "p1\<lparr>tp_connections := m, tp_device := d, tp_stats := st\<rparr>"
  have p2: "tp_held held M cfg ?p"
    using tp_inv_conns [OF h(1) conns_ok_step [OF h(3) t(2)]] t(3) h(5) by (auto simp: tp_held_def tp_inv_def)
  then obtain p3 where p3: "report_states ?p = Some p3" "tp_held held M cfg p3"
    using report_states_wp [of ?p] tp_held_same [OF p2] unfolding wp_eq_Some by (auto simp: tp_held_def)
  then have "held (tp_device p3) (mset (tp_rx p3) + M)"
    by (simp add: tp_held_def)
  then obtain r4 d4 where d4: "dv_poll_at ops now (tp_device p3) = Some (r4, d4)" "held d4 (mset (tp_rx p3) + M)"
    using poll_law [of _ _ now] unfolding wp_eq_Some by fastforce
  then have "tp_held held M cfg (p3\<lparr>tp_device := d4\<rparr>)"
    using p3(2) by (simp add: tp_held_def)
  then show ?thesis
    using p1 t(1) p2 p3(1) d4(1) by (cases r1; cases r2; cases r4) (simp_all add: tp_poll_output_def)
qed

lemma tp_poll_wp:
  assumes "tp_held held M cfg p"
  shows "wp (tp_poll ops entropy now budget p) (\<lambda>(r, p'). tp_held held M cfg p')"
proof (cases "now < tp_now p")
  case False
  let ?p = "p\<lparr>tp_now := now, tp_connections := map (\<lambda>(i, c). (i, cn_tick now (tp_config p) c)) (tp_connections p)\<rparr>"
  have h: "tp_inv p" "conns_ok (tp_config p) (tp_next_id p) (tp_connections p)" "held (tp_device p) (mset (tp_rx p) + M)"
    using tp_heldD [OF assms] by simp_all
  have "tp_inv ?p"
    using tp_inv_conns [OF h(1) conns_ok_step [OF h(2) conns_step_map [OF h(2) conn_step_tick]]] by (simp add: tp_inv_def)
  then obtain p1 where p1: "report_states ?p = Some p1" "tp_inv p1" "same_device ?p p1"
    using report_states_wp [of ?p] unfolding wp_eq_Some by blast
  let ?q = "p1\<lparr>tp_connections := bt_retain (\<lambda>_ c. cn_accepted c \<or> \<not> is_terminal (cn_state c)) (tp_connections p1)\<rparr>"
  have q: "tp_inv ?q" "tp_device p1 = tp_device p" "tp_rx p1 = tp_rx p" "tp_config p1 = cfg"
    using p1(2,3) assms conns_ok_filter by (auto simp: tp_inv_def bt_retain_def same_device_def tp_held_def)
  obtain r2 d2 where d2: "dv_poll_at ops now (tp_device p) = Some (r2, d2)" "held d2 (mset (tp_rx p) + M)"
    using poll_law [OF h(3), of now] unfolding wp_eq_Some by auto
  obtain r3 rx d3 where d3: "dv_recv ops budget (tp_rx p) d2 = Some (r3, rx, d3)" "held d3 (mset rx + M)"
    using recv_law [OF d2(2), of budget] unfolding wp_eq_Some by auto
  have err: "tp_held held M cfg (?q\<lparr>tp_device := d2\<rparr>)" "tp_held held M cfg (?q\<lparr>tp_device := d3, tp_rx := rx\<rparr>)"
    using q d2(2) d3(2) unfolding tp_held_def tp_inv_simps by simp_all
  let ?q3 = "?q\<lparr>tp_device := d3, tp_rx := []\<rparr>"
  obtain r4 p4 where p4: "tp_packets ops entropy rx ?q3 = Some (r4, p4)" "tp_inv p4" "held (tp_device p4) M" "tp_rx p4 = []" "tp_config p4 = cfg"
    using tp_packets_wp [of ?q3 rx M entropy] q(1,4) d3(2) unfolding wp_eq_Some tp_inv_simps by auto
  then have "tp_held held M cfg p4"
    by (simp add: tp_held_def)
  then show ?thesis
    using False p1(1) q(2,3) d2(1) d3(1) p4(1) err tp_poll_output_wp [of M cfg p4 now "length rx"]
    by (cases r2; cases r3; cases r4) (simp_all add: tp_poll_def Let_def)
qed (use assms in \<open>simp add: tp_poll_def\<close>)

end

section \<open>Runs\<close>

datatype tp_call =
    PoolListen sockaddr
  | PoolUnlisten sockaddr
  | PoolConnect sockaddr sockaddr
  | PoolAccept sockaddr
  | PoolStatus connection_id
  | PoolPopEvent
  | PoolWrite connection_id bytes
  | PoolRead connection_id nat
  | PoolClose connection_id
  | PoolAbort connection_id
  | PoolRemove connection_id
  | PoolPoll duration nat

fun tp_exec :: "'d device_ops \<Rightarrow> entropy \<Rightarrow> tp_call \<Rightarrow> 'd tcp_pool \<Rightarrow> 'd tcp_pool option" where
  "tp_exec ops entropy (PoolListen a) p = Some (snd (tp_listen a p))"
| "tp_exec ops entropy (PoolUnlisten a) p = Some (tp_unlisten a p)"
| "tp_exec ops entropy (PoolConnect local remote) p = Some (snd (tp_connect entropy local remote p))"
| "tp_exec ops entropy (PoolAccept a) p = Some (snd (tp_accept a p))"
| "tp_exec ops entropy (PoolStatus i) p = map_option (\<lambda>_. p) (tp_status i p)"
| "tp_exec ops entropy PoolPopEvent p = Some (snd (tp_pop_event p))"
| "tp_exec ops entropy (PoolWrite i b) p = map_option snd (tp_write i b p)"
| "tp_exec ops entropy (PoolRead i n) p = Some (snd (snd (tp_read i n p)))"
| "tp_exec ops entropy (PoolClose i) p = Some (snd (tp_close i p))"
| "tp_exec ops entropy (PoolAbort i) p = map_option snd (tp_abort i p)"
| "tp_exec ops entropy (PoolRemove i) p = map_option snd (tp_remove i p)"
| "tp_exec ops entropy (PoolPoll now budget) p = map_option snd (tp_poll ops entropy now budget p)"

fun tp_run :: "'d device_ops \<Rightarrow> entropy \<Rightarrow> tp_call list \<Rightarrow> 'd tcp_pool \<Rightarrow> 'd tcp_pool option" where
  "tp_run ops entropy [] p = Some p"
| "tp_run ops entropy (call # calls) p = do { p \<leftarrow> tp_exec ops entropy call p; tp_run ops entropy calls p }"

lemma tp_status_wp:
  assumes "tp_inv p"
  shows "\<exists>r. tp_status i p = Some r"
  using cn_status_some [OF tp_inv_get [OF assms]] by (fastforce simp: tp_status_def split: option.split)

lemma tp_pop_event_inv: "tp_inv p \<Longrightarrow> tp_inv (snd (tp_pop_event p)) \<and> same_device p (snd (tp_pop_event p))"
  by (auto simp: tp_pop_event_def tp_inv_def same_device_def split: list.split)

lemma tp_new_held:
  assumes "held d M" and "tcp_pool_new d cfg = Inr p"
  shows "tp_held held M cfg p"
  using assms by (auto simp: tcp_pool_new_def tp_held_def tp_inv_def conns_ok_def split: if_split_asm)

text \<open>Every operation without the device keeps the invariant.\<close>

lemma tp_exec_local:
  assumes inv: "tp_inv p" and call: "\<And>now budget. call \<noteq> PoolPoll now budget"
  shows "wp (tp_exec ops entropy call p) (\<lambda>p'. tp_inv p' \<and> same_device p p')"
proof (cases call)
  case (PoolStatus i)
  then show ?thesis
    using tp_status_wp [OF inv, of i] inv by auto
next
  case (PoolRead i n)
  then show ?thesis
    using tp_read_inv [OF inv, of i n] by (simp add: prod_eq_iff)
next
  case (PoolWrite i b)
  then show ?thesis
    using tp_write_wp [OF inv, of i b] by (simp add: case_prod_unfold)
next
  case (PoolAbort i)
  then show ?thesis
    using tp_abort_wp [OF inv, of i] by (simp add: case_prod_unfold)
next
  case (PoolRemove i)
  then show ?thesis
    using tp_remove_wp [OF inv, of i] by (simp add: case_prod_unfold)
qed (use call tp_listen_inv [OF inv] tp_unlisten_inv [OF inv] tp_connect_inv [OF inv] tp_accept_inv [OF inv] tp_pop_event_inv [OF inv]
    tp_close_inv [OF inv] in \<open>simp_all add: prod_eq_iff\<close>)

context device
begin

lemma tp_run_wp:
  assumes "tp_held held M cfg p"
  shows "wp (tp_run ops entropy calls p) (tp_held held M cfg)"
  using assms
proof (induction calls arbitrary: p)
  case (Cons call calls)
  have "wp (tp_exec ops entropy call p) (tp_held held M cfg)"
  proof (cases "\<exists>now budget. call = PoolPoll now budget")
    case True
    then show ?thesis
      using tp_poll_wp [OF Cons.prems] by (auto simp: case_prod_unfold)
  next
    case False
    have "tp_inv p"
      using Cons.prems by (simp add: tp_held_def)
    then show ?thesis
      by (rule wp_mono [OF tp_exec_local]) (use False tp_held_same [OF Cons.prems] in auto)
  qed
  then show ?case
    using Cons.IH by (simp add: wp_mono [of _ "tp_held held M cfg"])
qed simp

end

section \<open>Properties\<close>

text \<open>A pool that runs of client calls reach from a new one.\<close>

lemma pool_run:
  assumes "device ops held" and "held d M" and "tcp_pool_new d cfg = Inr p"
  shows "wp (tp_run ops entropy calls p) (tp_held held M cfg)"
  using device.tp_run_wp [OF assms(1) tp_new_held [where held = held, OF assms(2,3)]] .

lemma pool_run_held:
  assumes "device ops held" and "held d M" and "tcp_pool_new d cfg = Inr p" and "tp_run ops entropy calls p = Some p'"
  shows "tp_held held M cfg p'"
  using pool_run [OF assms(1-3), of entropy calls] assms(4) by simp

text \<open>A run on the loopback device: one listener, one connection to it and two polls.\<close>

definition demo_entropy :: entropy where
  "demo_entropy k = Inr (1000 + word_of_nat k)"

definition demo_pool :: "loopback tcp_pool" where
  "demo_pool = \<lparr>tp_device = demo_loopback, tp_config = tcp_config_default, tp_connections = [], tp_listeners = [], tp_resets = [],
     tp_rx = [], tp_now = 0, tp_next_id = 1, tp_stats = tcp_stats_default, tp_events = [], tp_draws = 0\<rparr>"

definition demo_pool_calls :: "tp_call list" where
  "demo_pool_calls = [PoolListen demo_remote, PoolConnect demo_local demo_remote, PoolPoll 0 4, PoolPoll 5 4, PoolAccept demo_remote]"

lemma demo_pool_new: "tcp_pool_new demo_loopback tcp_config_default = Inr demo_pool"
  using default_valid by (simp add: tcp_pool_new_def demo_pool_def)

lemmas demo_pool_premises = lbk.device_axioms demo_held demo_pool_new

lemma demo_pool_run: "\<exists>p. tp_run loopback_ops demo_entropy demo_pool_calls demo_pool = Some p"
  using pool_run [OF demo_pool_premises] unfolding wp_eq_Some by blast

text \<open>The pool after an active open.\<close>

definition demo_pool_open :: "loopback tcp_pool" where
  "demo_pool_open = demo_pool\<lparr>tp_draws := 1, tp_next_id := 2, tp_connections := [(1, demo_conn)]\<rparr>"

lemma demo_pool_connect: "tp_run loopback_ops demo_entropy [PoolConnect demo_local demo_remote] demo_pool = Some demo_pool_open"
  by (simp add: tp_connect_def validate_address_def demo_local_def demo_remote_def is_unspecified_def is_broadcast_def is_multicast_def
      demo_pool_def demo_pool_open_def demo_conn_def tp_find_def initial_sequence_def allocate_id_def demo_entropy_def)
    (simp add: tcp_config_default_def)

text \<open>
  C3. No sequence of client calls on a new pool makes it panic, whatever the device delivers and whatever the
  entropy source returns, and every frame handle it took from the device is accounted for: it is given back or it
  is in the receive buffer of the pool.
\<close>

theorem tcp_pool_safe:
  assumes "device ops held" and "held d M" and "tcp_pool_new d cfg = Inr p"
  shows "\<exists>p'. tp_run ops entropy calls p = Some p' \<and> held (tp_device p') (mset (tp_rx p') + M)"
  using pool_run [OF assms, of entropy calls] tp_heldD(3) unfolding wp_eq_Some by blast

theorem tcp_pool_safe_witness:
  "\<exists>p'. tp_run loopback_ops demo_entropy demo_pool_calls demo_pool = Some p' \<and> loopback_held (tp_device p') (mset (tp_rx p') + {#})"
  by (rule tcp_pool_safe [OF demo_pool_premises])

text \<open>
  C29. The memory of a pool is bounded in every run: the connection table, the listener table, the queue of resets
  and the queue of events stay within their configured capacities, and every connection keeps its buffers within
  the configured sizes.
\<close>

theorem tcp_pool_bounded:
  assumes "device ops held" and "held d M" and "tcp_pool_new d cfg = Inr p" and "tp_run ops entropy calls p = Some p'"
  shows "length (tp_connections p') \<le> tc_max_connections cfg \<and> length (tp_listeners p') \<le> tc_max_listeners cfg \<and>
    length (tp_resets p') \<le> tc_control_capacity cfg \<and> length (tp_events p') \<le> tc_event_capacity cfg \<and>
    list_all (\<lambda>c. cn_send_buffered c \<le> tc_send_capacity cfg \<and> length (cn_received c) \<le> tc_receive_capacity cfg)
      (bt_values (tp_connections p'))"
proof -
  note h = tp_heldD [OF pool_run_held [OF assms]]
  have "cn_send_buffered c \<le> tc_send_capacity cfg \<and> length (cn_received c) \<le> tc_receive_capacity cfg"
    if "(i, c) \<in> set (tp_connections p')" for i c
    using conns_ok_inv [OF h(5) that] h(2) by (simp add: cn_inv_defs queue_inv_def cn_send_buffered_def)
  then have "list_all (\<lambda>c. cn_send_buffered c \<le> tc_send_capacity cfg \<and> length (cn_received c) \<le> tc_receive_capacity cfg)
      (bt_values (tp_connections p'))"
    by (auto simp: list_all_iff bt_values_def)
  then show ?thesis
    using h(1,2) by (simp add: tp_inv_def conns_ok_def)
qed

theorem tcp_pool_bounded_witness:
  "\<exists>p'. tp_run loopback_ops demo_entropy demo_pool_calls demo_pool = Some p' \<and> length (tp_connections p') \<le> 64"
  using demo_pool_run tcp_pool_bounded [OF demo_pool_premises] by (fastforce simp: tcp_config_default_def)

text \<open>
  C13. Demultiplexing is exact: in every reachable pool at most one live connection has a given pair of
  endpoints, and a segment with valid addresses for it is processed by that connection and changes nothing else.
\<close>

theorem tcp_pool_demultiplexes:
  assumes "device ops held" and "held d M" and "tcp_pool_new d cfg = Inr p" and "tp_run ops entropy calls p = Some p'"
    and "bt_get (tp_connections p') i = Some c" and "cn_local c = sg_destination s" and "cn_remote c = sg_source s"
    and "\<not> is_terminal (cn_state c)" and "validate_address (sg_source s) = Inr ()" and "validate_address (sg_destination s) = Inr ()"
    and "\<not> has_flag (sg_flags s) URG"
  shows "\<exists>c'. cn_input s (tp_now p') cfg c = Some c' \<and>
    tp_input entropy s p' = Some (Inr (), p'\<lparr>tp_connections := bt_insert i c' (tp_connections p')\<rparr>)"
proof -
  note h = tp_heldD [OF pool_run_held [OF assms(1-4)]]
  have live: "live_tuple (sg_destination s) (sg_source s) c" and mem: "(i, c) \<in> set (tp_connections p')"
    using assms(5-8) tp_inv_entry [OF h(1)] by (simp_all add: live_tuple_def)
  then obtain j where j: "tp_find (sg_destination s) (sg_source s) p' = Some j"
    using tp_find_None [OF _ mem] by (cases "tp_find (sg_destination s) (sg_source s) p'") auto
  obtain e where e: "bt_get (tp_connections p') j = Some e" "live_tuple (sg_destination s) (sg_source s) e"
    using tp_find_Some [OF h(1) j] by blast
  then have "(j, e) \<in> set (tp_connections p')"
    using tp_inv_entry [OF h(1)] by blast
  then have "j = i"
    using h(5) live mem e(2) unfolding conns_ok_def by blast
  obtain c' where "cn_input s (tp_now p') cfg c = Some c'"
    using conn_step_input [OF h(4) tp_inv_get [OF h(1) assms(5)], of s "tp_now p'"] h(2) unfolding wp_eq_Some by blast
  then show ?thesis
    using j \<open>j = i\<close> assms(5,9-11) h(2) by (simp add: tp_input_def)
qed

theorem tcp_pool_demultiplexes_witness:
  "\<exists>c'. cn_input demo_syn_ack 0 tcp_config_default demo_conn = Some c' \<and>
     tp_input demo_entropy demo_syn_ack demo_pool_open = Some (Inr (), demo_pool_open\<lparr>tp_connections := bt_insert 1 c' [(1, demo_conn)]\<rparr>)"
proof -
  have "tp_now demo_pool_open = 0" "tp_connections demo_pool_open = [(1, demo_conn)]"
    by (simp_all add: demo_pool_open_def demo_pool_def)
  moreover have "cn_local demo_conn = demo_local" "cn_remote demo_conn = demo_remote" "\<not> is_terminal (cn_state demo_conn)"
    by (simp_all add: demo_conn_def cn_active_def cn_start_flight_def is_terminal_def Let_def)
  ultimately show ?thesis
    using tcp_pool_demultiplexes [OF demo_pool_premises demo_pool_connect, of 1 demo_conn demo_syn_ack]
    by (simp add: bt_get_def demo_syn_ack_def validate_address_def demo_local_def demo_remote_def is_unspecified_def is_broadcast_def
        is_multicast_def has_flag_def URG_def SYN_def ACK_def)
qed

text \<open>
  C36. A write is all or nothing on error and a prefix on success: an error leaves the pool as it was, it is
  \<^verbatim>\<open>WouldBlock\<close> only when the send buffer is full, and a success appends exactly the accepted prefix to the queue of
  that connection and changes nothing else.
\<close>

theorem tcp_pool_write_contract:
  assumes "device ops held" and "held d M" and "tcp_pool_new d cfg = Inr p" and "tp_run ops entropy calls p = Some p'"
    and "bt_get (tp_connections p') i = Some c"
  shows "\<exists>r p''. tp_write i b p' = Some (r, p'') \<and>
    (case r of
       Inl e \<Rightarrow> p'' = p' \<and> (e = WouldBlock \<and> cn_send_buffered c = tc_send_capacity cfg \<or> e = NotConnected)
     | Inr n \<Rightarrow> n \<le> length b \<and>
         p'' = p'\<lparr>tp_connections := bt_insert i (c\<lparr>cn_queued := cn_queued c @ take n b\<rparr>) (tp_connections p')\<rparr>)"
proof -
  note h = tp_heldD [OF pool_run_held [OF assms(1-4)]]
  have inv: "cn_inv cfg c"
    using tp_inv_get [OF h(1) assms(5)] h(2) by simp
  then have le: "cn_send_buffered c \<le> tc_send_capacity cfg"
    by (simp add: cn_inv_defs queue_inv_def cn_send_buffered_def)
  have "bt_insert i c (tp_connections p') = tp_connections p'"
    using bt_insert_same [OF _ assms(5)] h(5) by (simp add: conns_ok_def)
  then have same: "p'\<lparr>tp_connections := bt_insert i c (tp_connections p')\<rparr> = p'"
    by simp
  obtain r c' where w: "cn_write b cfg c = Some (r, c')"
      "case r of Inl e \<Rightarrow> c' = c | Inr n \<Rightarrow> n \<le> length b \<and> c' = c\<lparr>cn_queued := cn_queued c @ take n b\<rparr>"
    using cn_write_wp [OF inv, of b] unfolding wp_eq_Some by blast
  have "e = WouldBlock \<and> cn_send_buffered c = tc_send_capacity cfg \<or> e = NotConnected" if "r = Inl e" for e
    using w(1) that le by (auto simp: cn_write_def checked_sub_def Let_def min_def split: if_split_asm)
  then show ?thesis
    using w same assms(5) h(2) by (cases r) (simp_all add: tp_write_def)
qed

theorem tcp_pool_write_contract_witness:
  "tp_write 1 [1, 2, 3] demo_pool_open = Some (Inl NotConnected, demo_pool_open)"
proof -
  have get: "bt_get (tp_connections demo_pool_open) 1 = Some demo_conn" and "cn_state demo_conn = SynSent"
    by (simp_all add: demo_pool_open_def bt_get_def demo_conn_def cn_active_def cn_start_flight_def Let_def)
  then have "\<exists>p. tp_write 1 [1, 2, 3] demo_pool_open = Some (Inl NotConnected, p)"
    by (simp add: tp_write_def cn_write_def)
  then show ?thesis
    using tcp_pool_write_contract [OF demo_pool_premises demo_pool_connect get, of "[1, 2, 3]"] by auto
qed

end
