(* ===== verification/Udp_Sched.thy ===== *)
theory Udp_Sched
  imports Device Ordered_Map "HOL-Library.Product_Lexorder"
begin

text \<open>
  \<^verbatim>\<open>src/api/udp/mod.rs\<close>: the configuration of a UDP pool, its outcomes, and the transmit scheduler with admission
  control, round robin between peers and pacing. An index into the map of peers (\<^verbatim>\<open>self.peers[..]\<close>,
  \<^verbatim>\<open>get_mut(..).unwrap()\<close>) panics when the peer is missing, so the functions that use one return an option.
\<close>

section \<open>Types\<close>

type_synonym datagram_id = u64

record udp_config =
  uc_queue_capacity :: nat
  uc_peer_capacity :: nat
  uc_service_capacity :: nat
  uc_max_tx_peers :: nat
  uc_per_peer_capacity :: nat
  uc_tx_budget :: nat
  uc_fair_queue :: bool
  uc_bytes_per_second :: "nat option"
  uc_per_peer_bytes_per_second :: "nat option"
  uc_queue_lifetime :: "duration option"
  uc_event_capacity :: nat

definition udp_config_default :: udp_config where
  "udp_config_default =
     \<lparr>uc_queue_capacity = 128, uc_peer_capacity = 64, uc_service_capacity = 256, uc_max_tx_peers = 128,
      uc_per_peer_capacity = 128, uc_tx_budget = 128, uc_fair_queue = False, uc_bytes_per_second = None,
      uc_per_peer_bytes_per_second = None, uc_queue_lifetime = None, uc_event_capacity = 0\<rparr>"

definition udp_config_validate :: "udp_config \<Rightarrow> unit io_result" where
  "udp_config_validate cfg =
     (if uc_queue_capacity cfg = 0 \<or> uc_peer_capacity cfg = 0 \<or> uc_service_capacity cfg = 0 \<or> uc_max_tx_peers cfg = 0 \<or>
         uc_per_peer_capacity cfg = 0 \<or> uc_tx_budget cfg = 0 \<or> uc_bytes_per_second cfg = Some 0 \<or>
         uc_per_peer_bytes_per_second cfg = Some 0 \<or> uc_queue_lifetime cfg = Some 0
      then Inl InvalidInput else Inr ())"

datatype udp_failure =
    SourceUnavailable | InvalidDestination | QueueFull | PeerQueueFull | PeerLimit | NoBuffer | InvalidPacket
  | DeadlineExpired | ConfigurationChanged | DeviceFailure io_kind

datatype udp_outcome = OutcomeRejected udp_failure | OutcomeDropped udp_failure | OutcomeSubmitted

record udp_event =
  ue_at :: duration
  ue_id :: "datagram_id option"
  ue_source :: sockaddr
  ue_destination :: sockaddr
  ue_generation :: u64
  ue_outcome :: udp_outcome

record queued =
  qd_frame :: packet_buf
  qd_id :: datagram_id
  qd_source :: sockaddr
  qd_destination :: sockaddr
  qd_deadline :: "duration option"
  qd_generation :: u64

record peer_budget =
  bg_count :: nat
  bg_next :: duration

record scheduler =
  sd_queue :: "queued list"
  sd_peers :: "(sockaddr, peer_budget) btree_map"
  sd_next :: duration
  sd_last :: "sockaddr option"

section \<open>Operations\<close>

definition scheduler_new :: scheduler where
  "scheduler_new = \<lparr>sd_queue = [], sd_peers = [], sd_next = 0, sd_last = None\<rparr>"

definition sd_admission :: "sockaddr \<Rightarrow> duration \<Rightarrow> udp_config \<Rightarrow> scheduler \<Rightarrow> (udp_failure + unit) \<times> scheduler" where
  "sd_admission peer now cfg sd =
     (let sd = sd\<lparr>sd_peers := bt_retain (\<lambda>_ b. 0 < bg_count b \<or> now < bg_next b) (sd_peers sd)\<rparr> in
      if uc_queue_capacity cfg \<le> length (sd_queue sd) then (Inl QueueFull, sd)
      else
        (case bt_get (sd_peers sd) peer of
           Some b \<Rightarrow> if uc_per_peer_capacity cfg \<le> bg_count b then (Inl PeerQueueFull, sd) else (Inr (), sd)
         | None \<Rightarrow> if uc_max_tx_peers cfg \<le> length (sd_peers sd) then (Inl PeerLimit, sd) else (Inr (), sd)))"

definition sd_push :: "queued \<Rightarrow> scheduler \<Rightarrow> scheduler" where
  "sd_push q sd =
     (let b = (case bt_get (sd_peers sd) (qd_destination q) of None \<Rightarrow> \<lparr>bg_count = 0, bg_next = 0\<rparr> | Some b \<Rightarrow> b) in
      sd\<lparr>sd_peers := bt_insert (qd_destination q) (b\<lparr>bg_count := bg_count b + 1\<rparr>) (sd_peers sd),
         sd_queue := sd_queue sd @ [q]\<rparr>)"

definition sd_remove :: "nat \<Rightarrow> scheduler \<Rightarrow> (queued \<times> scheduler) option" where
  "sd_remove i sd = do {
     q \<leftarrow> nth_opt (sd_queue sd) i;
     b \<leftarrow> bt_get (sd_peers sd) (qd_destination q);
     rust_assert (0 < bg_count b);
     Some (q, sd\<lparr>sd_queue := take i (sd_queue sd) @ drop (Suc i) (sd_queue sd),
                 sd_peers := bt_insert (qd_destination q) (b\<lparr>bg_count := bg_count b - 1\<rparr>) (sd_peers sd)\<rparr>)
   }"

definition sd_ready :: "duration \<Rightarrow> sockaddr list \<Rightarrow> scheduler \<Rightarrow> queued \<Rightarrow> bool option" where
  "sd_ready now blocked sd q =
     (if qd_destination q \<in> set blocked then Some False
      else do { b \<leftarrow> bt_get (sd_peers sd) (qd_destination q); Some (bg_next b \<le> now) })"

fun filter_opt :: "('a \<Rightarrow> bool option) \<Rightarrow> 'a list \<Rightarrow> 'a list option" where
  "filter_opt P [] = Some []"
| "filter_opt P (x # xs) = do { b \<leftarrow> P x; ys \<leftarrow> filter_opt P xs; Some (if b then x # ys else ys) }"

definition candidate_key :: "scheduler \<Rightarrow> nat \<times> queued \<Rightarrow> bool \<times> sockaddr \<times> nat" where
  "candidate_key sd = (\<lambda>(i, q).
     (case sd_last sd of None \<Rightarrow> False | Some prev \<Rightarrow> qd_destination q \<le> prev, qd_destination q, i))"

definition sd_candidate :: "duration \<Rightarrow> bool \<Rightarrow> sockaddr list \<Rightarrow> scheduler \<Rightarrow> nat option option" where
  "sd_candidate now fair blocked sd =
     (if now < sd_next sd then Some None
      else if \<not> fair then
        (case sd_queue sd of
           [] \<Rightarrow> Some None
         | q # _ \<Rightarrow> do { ready \<leftarrow> sd_ready now blocked sd q; Some (if ready then Some 0 else None) })
      else do {
        ready \<leftarrow> filter_opt (\<lambda>(_, q). sd_ready now blocked sd q) (enumerate 0 (sd_queue sd));
        Some (if ready = [] then None else Some (fst (arg_min_list (candidate_key sd) ready)))
      })"

text \<open>\<^verbatim>\<open>div_ceil\<close> by zero panics; the validated configurations have no rate of zero.\<close>

definition spacing :: "nat \<Rightarrow> nat option \<Rightarrow> duration" where
  "spacing b rate =
     (case rate of
        None \<Rightarrow> 0
      | Some rate \<Rightarrow>
          (let ns = (b * 1000000000 + (rate - 1)) div rate in
           min (ns div 1000000000) (2 ^ 64 - 1) * 1000000000 + ns mod 1000000000))"

definition sd_accepted :: "sockaddr \<Rightarrow> nat \<Rightarrow> duration \<Rightarrow> udp_config \<Rightarrow> scheduler \<Rightarrow> scheduler option" where
  "sd_accepted peer b now cfg sd = do {
     let sd = sd\<lparr>sd_last := Some peer, sd_next := saturating_add now (spacing b (uc_bytes_per_second cfg))\<rparr>;
     budget \<leftarrow> bt_get (sd_peers sd) peer;
     Some (sd\<lparr>sd_peers := bt_insert peer
       (budget\<lparr>bg_next := saturating_add now (spacing b (uc_per_peer_bytes_per_second cfg))\<rparr>) (sd_peers sd)\<rparr>)
   }"

text \<open>The smallest of the times of a list, if there is one.\<close>

definition earliest :: "duration list \<Rightarrow> duration option" where
  "earliest ts = (if ts = [] then None else Some (Min (set ts)))"

fun ready_times :: "scheduler \<Rightarrow> queued list \<Rightarrow> duration list option" where
  "ready_times sd [] = Some []"
| "ready_times sd (q # qs) = do {
     b \<leftarrow> bt_get (sd_peers sd) (qd_destination q);
     ts \<leftarrow> ready_times sd qs;
     Some (max (sd_next sd) (bg_next b) # ts)
   }"

definition sd_next_deadline :: "bool \<Rightarrow> scheduler \<Rightarrow> duration option option" where
  "sd_next_deadline fair sd = do {
     ready \<leftarrow> ready_times sd (take (if fair then length (sd_queue sd) else 1) (sd_queue sd));
     Some (earliest ((case earliest ready of None \<Rightarrow> [] | Some t \<Rightarrow> [t]) @ List.map_filter qd_deadline (sd_queue sd)))
   }"

section \<open>Invariant\<close>

definition queued_for :: "sockaddr \<Rightarrow> queued list \<Rightarrow> nat" where
  "queued_for peer qs = length (filter (\<lambda>q. qd_destination q = peer) qs)"

definition budget_of :: "(sockaddr, peer_budget) btree_map \<Rightarrow> sockaddr \<Rightarrow> nat" where
  "budget_of m peer = (case bt_get m peer of None \<Rightarrow> 0 | Some b \<Rightarrow> bg_count b)"

definition sched_inv :: "udp_config \<Rightarrow> scheduler \<Rightarrow> bool" where
  "sched_inv cfg sd \<longleftrightarrow> bt_inv (sd_peers sd) \<and> length (sd_queue sd) \<le> uc_queue_capacity cfg \<and>
     length (sd_peers sd) \<le> uc_max_tx_peers cfg \<and>
     (\<forall>peer. budget_of (sd_peers sd) peer = queued_for peer (sd_queue sd)) \<and>
     (\<forall>peer. queued_for peer (sd_queue sd) \<le> uc_per_peer_capacity cfg)"

lemma queued_for_simps [simp]:
  "queued_for peer [] = 0" "queued_for peer (q # qs) = (if qd_destination q = peer then 1 else 0) + queued_for peer qs"
  "queued_for peer (xs @ ys) = queued_for peer xs + queued_for peer ys"
  by (simp_all add: queued_for_def)

lemma queued_for_pos: "q \<in> set qs \<Longrightarrow> 0 < queued_for (qd_destination q) qs"
  by (induction qs) auto

lemma budget_of_insert: "bt_inv m \<Longrightarrow> budget_of (bt_insert peer b m) p = (if p = peer then bg_count b else budget_of m p)"
  by (simp add: budget_of_def btm.get_ins)

lemma budget_of_Some: "bt_get m peer = Some b \<Longrightarrow> budget_of m peer = bg_count b"
  by (simp add: budget_of_def)

lemma sched_inv_new: "sched_inv cfg scheduler_new"
  by (simp add: sched_inv_def scheduler_new_def budget_of_def)

lemma sched_invD:
  assumes "sched_inv cfg sd"
  shows "bt_inv (sd_peers sd)" and "length (sd_queue sd) \<le> uc_queue_capacity cfg" and "length (sd_peers sd) \<le> uc_max_tx_peers cfg"
    and "budget_of (sd_peers sd) peer = queued_for peer (sd_queue sd)" and "queued_for peer (sd_queue sd) \<le> uc_per_peer_capacity cfg"
  using assms by (simp_all add: sched_inv_def)

lemma sched_inv_peer:
  assumes "sched_inv cfg sd" and "q \<in> set (sd_queue sd)"
  obtains b where "bt_get (sd_peers sd) (qd_destination q) = Some b" and "0 < bg_count b"
    and "bg_count b = queued_for (qd_destination q) (sd_queue sd)"
  using that queued_for_pos [OF assms(2)] sched_invD(4) [OF assms(1), of "qd_destination q"]
  by (cases "bt_get (sd_peers sd) (qd_destination q)") (auto simp: budget_of_def)

text \<open>What admission promises to the push that follows.\<close>

definition admitted :: "udp_config \<Rightarrow> sockaddr \<Rightarrow> scheduler \<Rightarrow> bool" where
  "admitted cfg peer sd \<longleftrightarrow> length (sd_queue sd) < uc_queue_capacity cfg \<and>
     (case bt_get (sd_peers sd) peer of
        Some b \<Rightarrow> bg_count b < uc_per_peer_capacity cfg
      | None \<Rightarrow> length (sd_peers sd) < uc_max_tx_peers cfg)"

lemma sd_admission_inv:
  assumes inv: "sched_inv cfg sd" and adm: "sd_admission peer now cfg sd = (r, sd')"
  shows "sched_inv cfg sd'" and "sd_queue sd' = sd_queue sd" and "r = Inr () \<Longrightarrow> admitted cfg peer sd'"
proof -
  let ?keep = "\<lambda>_ :: sockaddr. \<lambda>b. 0 < bg_count b \<or> now < bg_next b"
  note D = sched_invD [OF inv]
  have sd': "sd' = sd\<lparr>sd_peers := bt_retain ?keep (sd_peers sd)\<rparr>"
    using adm by (auto simp: sd_admission_def Let_def split: option.split_asm if_split_asm)
  have "budget_of (bt_retain ?keep (sd_peers sd)) p = budget_of (sd_peers sd) p" for p
    by (auto simp: budget_of_def btm.get_keep [OF D(1)] split: option.split)
  moreover have "length (bt_retain ?keep (sd_peers sd)) \<le> uc_max_tx_peers cfg"
    using D(3) btm.count_keep_le [OF D(1), of ?keep] by (rule le_trans [rotated])
  ultimately show "sched_inv cfg sd'"
    using D btm.ok_keep [OF D(1)] by (simp add: sched_inv_def sd')
  show "sd_queue sd' = sd_queue sd"
    by (simp add: sd')
  show "admitted cfg peer sd'" if "r = Inr ()"
    using adm that by (auto simp: sd_admission_def admitted_def Let_def split: option.split_asm if_split_asm)
qed

lemma sd_push_inv:
  assumes inv: "sched_inv cfg sd" and adm: "admitted cfg (qd_destination q) sd" and cap: "0 < uc_per_peer_capacity cfg"
  shows "sched_inv cfg (sd_push q sd)"
proof -
  let ?peer = "qd_destination q"
  define b where "b = (case bt_get (sd_peers sd) ?peer of None \<Rightarrow> \<lparr>bg_count = 0, bg_next = 0\<rparr> | Some b \<Rightarrow> b)"
  note D = sched_invD [OF inv]
  have "bg_count b = budget_of (sd_peers sd) ?peer" "bg_count b < uc_per_peer_capacity cfg"
    using adm cap by (auto simp: b_def budget_of_def admitted_def split: option.split_asm)
  then have b: "bg_count b = queued_for ?peer (sd_queue sd)" "bg_count b < uc_per_peer_capacity cfg"
    using D(4) by simp_all
  have "length (bt_insert ?peer (b\<lparr>bg_count := bg_count b + 1\<rparr>) (sd_peers sd)) \<le> uc_max_tx_peers cfg"
    using D(3) adm by (intro btm.bounded_ins [OF D(1)]) (auto simp: admitted_def split: option.split_asm)
  moreover have "sd_push q sd = sd\<lparr>sd_peers := bt_insert ?peer (b\<lparr>bg_count := bg_count b + 1\<rparr>) (sd_peers sd),
      sd_queue := sd_queue sd @ [q]\<rparr>"
    by (simp add: sd_push_def b_def Let_def)
  ultimately show ?thesis
    using D adm b btm.ok_ins [OF D(1)] by (auto simp: sched_inv_def admitted_def budget_of_insert)
qed

lemma queue_split: "i < length qs \<Longrightarrow> qs = take i qs @ qs ! i # drop (Suc i) qs"
  by (simp add: id_take_nth_drop [symmetric])

lemma sd_remove_wp:
  assumes inv: "sched_inv cfg sd" and i: "i < length (sd_queue sd)"
  shows "wp (sd_remove i sd) (\<lambda>(q, sd'). sched_inv cfg sd' \<and> q = sd_queue sd ! i \<and>
    sd_queue sd' = take i (sd_queue sd) @ drop (Suc i) (sd_queue sd))"
proof -
  let ?q = "sd_queue sd ! i" and ?qs = "take i (sd_queue sd) @ drop (Suc i) (sd_queue sd)"
  note D = sched_invD [OF inv]
  obtain b where b: "bt_get (sd_peers sd) (qd_destination ?q) = Some b" "0 < bg_count b"
      "bg_count b = queued_for (qd_destination ?q) (sd_queue sd)"
    using sched_inv_peer [OF inv nth_mem [OF i]] .
  let ?m = "bt_insert (qd_destination ?q) (b\<lparr>bg_count := bg_count b - 1\<rparr>) (sd_peers sd)"
  have split: "queued_for p (sd_queue sd) = queued_for p ?qs + (if qd_destination ?q = p then 1 else 0)" for p
    by (subst queue_split [OF i]) (simp only: queued_for_simps)
  have "length ?m \<le> uc_max_tx_peers cfg"
    using D(3) b(1) by (intro btm.bounded_ins [OF D(1)]) auto
  moreover have "length ?qs \<le> uc_queue_capacity cfg"
    using D(2) i by simp
  moreover have "budget_of ?m p = queued_for p ?qs" for p
    using D(4) [of p] split [of p] b(3) by (cases "p = qd_destination ?q") (simp_all add: budget_of_insert [OF D(1)])
  moreover have "queued_for p ?qs \<le> uc_per_peer_capacity cfg" for p
    using D(5) [of p] split [of p] by linarith
  ultimately have "sched_inv cfg (sd\<lparr>sd_queue := ?qs, sd_peers := ?m\<rparr>)"
    using btm.ok_ins [OF D(1)] unfolding sched_inv_def by (simp del: queued_for_simps)
  then show ?thesis
    using i b by (simp add: sd_remove_def nth_opt_def)
qed

lemma sd_ready_some:
  assumes "sched_inv cfg sd" and "q \<in> set (sd_queue sd)"
  shows "\<exists>b. sd_ready now blocked sd q = Some b"
proof -
  obtain b where "bt_get (sd_peers sd) (qd_destination q) = Some b"
    using sched_inv_peer [OF assms] .
  then show ?thesis
    by (cases "qd_destination q \<in> set blocked") (auto simp: sd_ready_def)
qed

lemma filter_opt_some:
  assumes "\<And>x. x \<in> set xs \<Longrightarrow> \<exists>b. P x = Some b"
  shows "filter_opt P xs = Some (filter (\<lambda>x. P x = Some True) xs)"
  using assms
proof (induction xs)
  case (Cons x xs)
  obtain b where "P x = Some b"
    using Cons.prems [of x] by auto
  then show ?case
    using Cons.IH Cons.prems by (cases b) simp_all
qed simp

definition ready_entries :: "duration \<Rightarrow> sockaddr list \<Rightarrow> scheduler \<Rightarrow> (nat \<times> queued) list" where
  "ready_entries now blocked sd = filter (\<lambda>x. sd_ready now blocked sd (snd x) = Some True) (enumerate 0 (sd_queue sd))"

lemma ready_entries_mem: "(i, q) \<in> set (ready_entries now blocked sd) \<longleftrightarrow>
  i < length (sd_queue sd) \<and> q = sd_queue sd ! i \<and> sd_ready now blocked sd q = Some True"
  by (auto simp: ready_entries_def in_set_enumerate_eq)

lemma sd_candidate_fair:
  assumes "sched_inv cfg sd" and "\<not> now < sd_next sd"
  shows "sd_candidate now True blocked sd = Some (if ready_entries now blocked sd = [] then None
    else Some (fst (arg_min_list (candidate_key sd) (ready_entries now blocked sd))))"
proof -
  have "snd x \<in> set (sd_queue sd)" if "x \<in> set (enumerate 0 (sd_queue sd))" for x
    using that nth_mem by (fastforce simp: in_set_enumerate_eq)
  then have "filter_opt (\<lambda>(_, q). sd_ready now blocked sd q) (enumerate 0 (sd_queue sd)) = Some (ready_entries now blocked sd)"
    unfolding ready_entries_def case_prod_unfold using sd_ready_some [OF assms(1)] by (intro filter_opt_some) simp
  then show ?thesis
    using assms(2) by (simp add: sd_candidate_def)
qed

lemma sd_candidate_wp:
  assumes "sched_inv cfg sd"
  shows "wp (sd_candidate now fair blocked sd) (\<lambda>c. case c of None \<Rightarrow> True | Some i \<Rightarrow> i < length (sd_queue sd))"
proof (cases "\<not> now < sd_next sd \<and> fair")
  case True
  let ?r = "ready_entries now blocked sd"
  have "fst (arg_min_list (candidate_key sd) ?r) < length (sd_queue sd)" if "?r \<noteq> []"
    using arg_min_list_in [OF that, of "candidate_key sd"]
      ready_entries_mem [of "fst (arg_min_list (candidate_key sd) ?r)" "snd (arg_min_list (candidate_key sd) ?r)" now blocked sd]
    by simp
  then show ?thesis
    using sd_candidate_fair [OF assms, of now blocked] True by simp
next
  case False
  show ?thesis
  proof (cases "sd_queue sd")
    case (Cons q qs)
    then obtain b where "sd_ready now blocked sd q = Some b"
      using sd_ready_some [OF assms, of q now blocked] by auto
    then show ?thesis
      using False Cons by (auto simp: sd_candidate_def)
  qed (use False in \<open>auto simp: sd_candidate_def\<close>)
qed

lemma sd_accepted_wp:
  assumes inv: "sched_inv cfg sd" and q: "q \<in> set (sd_queue sd)"
  shows "wp (sd_accepted (qd_destination q) b now cfg sd) (\<lambda>sd'. sched_inv cfg sd' \<and> sd_queue sd' = sd_queue sd)"
proof -
  obtain bud where bud: "bt_get (sd_peers sd) (qd_destination q) = Some bud"
    using sched_inv_peer [OF inv q] .
  note D = sched_invD [OF inv]
  have "length (bt_insert (qd_destination q) (bud\<lparr>bg_next := t\<rparr>) (sd_peers sd)) \<le> uc_max_tx_peers cfg" for t
    using D(3) bud by (intro btm.bounded_ins [OF D(1)]) auto
  moreover have "budget_of (bt_insert (qd_destination q) (bud\<lparr>bg_next := t\<rparr>) (sd_peers sd)) p = budget_of (sd_peers sd) p" for p t
    using budget_of_Some [OF bud] by (simp add: budget_of_insert [OF D(1)])
  ultimately show ?thesis
    using D bud btm.ok_ins [OF D(1)] by (simp add: sd_accepted_def sched_inv_def)
qed

lemma ready_times_some:
  assumes "sched_inv cfg sd" and "set qs \<subseteq> set (sd_queue sd)"
  shows "\<exists>ts. ready_times sd qs = Some ts"
  using assms(2)
proof (induction qs)
  case (Cons q qs)
  then obtain b where "bt_get (sd_peers sd) (qd_destination q) = Some b"
    using sched_inv_peer [OF assms(1), of q] by auto
  then show ?case
    using Cons by auto
qed simp

lemma sd_next_deadline_some:
  assumes "sched_inv cfg sd"
  shows "\<exists>t. sd_next_deadline fair sd = Some t"
  using ready_times_some [OF assms, of "take (if fair then length (sd_queue sd) else 1) (sd_queue sd)"] set_take_subset
  by (fastforce simp: sd_next_deadline_def)

section \<open>Properties\<close>

lemma candidate_fair_min:
  assumes "sched_inv cfg sd" and "sd_candidate now True blocked sd = Some (Some i)"
  shows "i < length (sd_queue sd)" and "sd_ready now blocked sd (sd_queue sd ! i) = Some True"
    and "j < length (sd_queue sd) \<Longrightarrow> sd_ready now blocked sd (sd_queue sd ! j) = Some True \<Longrightarrow>
      candidate_key sd (i, sd_queue sd ! i) \<le> candidate_key sd (j, sd_queue sd ! j)"
proof -
  let ?r = "ready_entries now blocked sd"
  let ?m = "arg_min_list (candidate_key sd) ?r"
  have "\<not> now < sd_next sd"
    using assms(2) by (auto simp: sd_candidate_def)
  then have r: "?r \<noteq> []" "i = fst ?m"
    using sd_candidate_fair [OF assms(1), of now blocked] assms(2) by (simp_all split: if_split_asm)
  then have "?m \<in> set ?r"
    using arg_min_list_in by blast
  then have m: "(i, snd ?m) \<in> set ?r"
    using r(2) by simp
  then show "i < length (sd_queue sd)" and "sd_ready now blocked sd (sd_queue sd ! i) = Some True"
    by (auto simp: ready_entries_mem)
  have "snd ?m = sd_queue sd ! i"
    using m by (simp only: ready_entries_mem)
  then have eq: "?m = (i, sd_queue sd ! i)"
    using r(2) by (simp add: prod_eq_iff)
  show "candidate_key sd (i, sd_queue sd ! i) \<le> candidate_key sd (j, sd_queue sd ! j)"
    if "j < length (sd_queue sd)" "sd_ready now blocked sd (sd_queue sd ! j) = Some True"
  proof -
    have "(j, sd_queue sd ! j) \<in> set ?r"
      using that by (simp add: ready_entries_mem)
    then have "candidate_key sd ?m \<le> candidate_key sd (j, sd_queue sd ! j)"
      using f_arg_min_list_f [OF r(1), of "candidate_key sd"] by simp
    then show ?thesis
      by (simp only: eq)
  qed
qed

text \<open>
  The cyclic order of turns, independently of the sort key of the code: the ready peers, and the one whose turn comes
  after the peer served last. After the greatest ready peer the turn passes to the smallest.
\<close>

definition ready_peers :: "duration \<Rightarrow> sockaddr list \<Rightarrow> scheduler \<Rightarrow> sockaddr set" where
  "ready_peers now blocked sd = {peer \<in> qd_destination ` set (sd_queue sd).
     peer \<notin> set blocked \<and> (case bt_get (sd_peers sd) peer of None \<Rightarrow> False | Some b \<Rightarrow> bg_next b \<le> now)}"

definition next_turn :: "sockaddr option \<Rightarrow> sockaddr set \<Rightarrow> sockaddr" where
  "next_turn prev peers =
     (case prev of
        None \<Rightarrow> Min peers
      | Some p \<Rightarrow> if \<exists>x \<in> peers. p < x then Min {x \<in> peers. p < x} else Min peers)"

lemma ready_peers_mem:
  assumes "q \<in> set (sd_queue sd)"
  shows "qd_destination q \<in> ready_peers now blocked sd \<longleftrightarrow> sd_ready now blocked sd q = Some True"
  using assms by (auto simp: ready_peers_def sd_ready_def split: option.split)

lemma ready_peersE:
  assumes "x \<in> ready_peers now blocked sd"
  obtains j where "j < length (sd_queue sd)" and "qd_destination (sd_queue sd ! j) = x"
    and "sd_ready now blocked sd (sd_queue sd ! j) = Some True"
proof -
  obtain q where q: "q \<in> set (sd_queue sd)" "x = qd_destination q"
    using assms by (auto simp: ready_peers_def)
  then obtain j where "j < length (sd_queue sd)" "sd_queue sd ! j = q"
    by (auto simp: in_set_conv_nth)
  then show thesis
    using that q assms ready_peers_mem [OF q(1)] by auto
qed

lemma finite_ready_peers [simp]: "finite (ready_peers now blocked sd)"
  by (simp add: ready_peers_def)

lemma next_turnI:
  assumes "finite peers" and "x \<in> peers"
    and "\<And>y. y \<in> peers \<Longrightarrow>
      ((case prev of None \<Rightarrow> False | Some p \<Rightarrow> x \<le> p), x) \<le> ((case prev of None \<Rightarrow> False | Some p \<Rightarrow> y \<le> p), y)"
  shows "x = next_turn prev peers"
proof (cases prev)
  case None
  then show ?thesis
    using assms by (auto simp: next_turn_def intro!: Min_eqI [symmetric])
next
  case (Some p)
  have key: "x \<le> p \<longrightarrow> y \<le> p \<and> x \<le> y" "\<not> x \<le> p \<and> \<not> y \<le> p \<longrightarrow> x \<le> y" if "y \<in> peers" for y
    using assms(3) [OF that] Some by auto
  show ?thesis
  proof (cases "x \<le> p")
    case True
    then have "\<not> (\<exists>y \<in> peers. p < y)" "\<And>y. y \<in> peers \<Longrightarrow> x \<le> y"
      using key(1) by (auto simp: not_less)
    then show ?thesis
      using Some assms(1,2) by (auto simp: next_turn_def intro!: Min_eqI [symmetric])
  next
    case False
    then have "p < x" "\<And>y. y \<in> peers \<Longrightarrow> p < y \<Longrightarrow> x \<le> y"
      using key(2) by (auto simp: not_le)
    then show ?thesis
      using Some assms(1,2) by (auto simp: next_turn_def intro!: Min_eqI [symmetric])
  qed
qed

text \<open>
  C12. Round robin with FIFO peers. When the pool may send, the scheduler in fair mode finds a datagram exactly when some
  peer is ready: not blocked in this flush and past its own pacing time. The peer it picks is the one whose turn follows
  the peer served last in the cyclic order of addresses, its datagram is the oldest queued for that peer, and accepting
  it passes the turn on from that peer.
\<close>

theorem udp_fair_round_robin:
  assumes "sched_inv cfg sd" and "sd_next sd \<le> now"
  shows "case sd_candidate now True blocked sd of
      None \<Rightarrow> False
    | Some None \<Rightarrow> ready_peers now blocked sd = {}
    | Some (Some i) \<Rightarrow> i < length (sd_queue sd) \<and> qd_destination (sd_queue sd ! i) \<in> ready_peers now blocked sd \<and>
        qd_destination (sd_queue sd ! i) = next_turn (sd_last sd) (ready_peers now blocked sd) \<and>
        (\<forall>j < i. qd_destination (sd_queue sd ! j) \<noteq> qd_destination (sd_queue sd ! i)) \<and>
        (\<exists>sd'. sd_accepted (qd_destination (sd_queue sd ! i)) n now cfg sd = Some sd' \<and>
           sd_last sd' = Some (qd_destination (sd_queue sd ! i)))"
proof -
  let ?P = "ready_peers now blocked sd"
  have now: "\<not> now < sd_next sd"
    using assms(2) by simp
  note c = sd_candidate_fair [OF assms(1) now, of blocked]
  show ?thesis
  proof (cases "ready_entries now blocked sd = []")
    case True
    have "?P = {}"
      using True ready_entries_mem [of _ _ now blocked sd] by (fastforce elim: ready_peersE)
    then show ?thesis
      using c True by simp
  next
    case False
    then obtain i where i: "sd_candidate now True blocked sd = Some (Some i)"
      using c by simp
    note m = candidate_fair_min [OF assms(1) i]
    let ?x = "qd_destination (sd_queue sd ! i)"
    have mem: "sd_queue sd ! i \<in> set (sd_queue sd)"
      using m(1) by simp
    have ready: "?x \<in> ?P"
      using m(2) ready_peers_mem [OF mem] by simp
    have turn: "?x = next_turn (sd_last sd) ?P"
    proof (rule next_turnI [OF finite_ready_peers ready], goal_cases)
      case (1 y)
      then obtain j where "j < length (sd_queue sd)" "qd_destination (sd_queue sd ! j) = y"
          "sd_ready now blocked sd (sd_queue sd ! j) = Some True"
        by (rule ready_peersE)
      then show ?case
        using m(3) [of j] by (auto simp: candidate_key_def)
    qed
    have first: "qd_destination (sd_queue sd ! j) \<noteq> ?x" if "j < i" for j
    proof
      assume eq: "qd_destination (sd_queue sd ! j) = ?x"
      have "sd_ready now blocked sd (sd_queue sd ! j) = Some True"
        using m(2) unfolding sd_ready_def eq .
      then show False
        using m(1) m(3) [of j] that by (cases "sd_last sd") (auto simp: candidate_key_def eq)
    qed
    obtain b where "bt_get (sd_peers sd) ?x = Some b"
      using sched_inv_peer [OF assms(1) mem] .
    then have "\<exists>sd'. sd_accepted ?x n now cfg sd = Some sd' \<and> sd_last sd' = Some ?x"
      by (simp add: sd_accepted_def)
    then show ?thesis
      using i m(1) ready turn first by simp
  qed
qed

lemma ceiling_mult: "0 < rate \<Longrightarrow> n \<le> rate * ((n + (rate - 1)) div rate)" for n rate :: nat
proof -
  assume "0 < rate"
  then have "(n + (rate - 1)) mod rate < rate"
    by simp
  moreover have "rate * ((n + (rate - 1)) div rate) + (n + (rate - 1)) mod rate = n + (rate - 1)"
    by (rule mult_div_mod_eq)
  ultimately show ?thesis
    by linarith
qed

lemma ceiling_le: "0 < rate \<Longrightarrow> (m + (rate - 1)) div rate \<le> m" for m rate :: nat
proof (cases m)
  case (Suc k)
  assume "0 < rate"
  then obtain l where l: "rate = Suc l"
    using gr0_implies_Suc by blast
  have "(m + (rate - 1)) div rate \<le> (m * rate) div rate"
    by (intro div_le_mono) (simp add: Suc l)
  also have "\<dots> = m"
    using \<open>0 < rate\<close> by (rule nonzero_mult_div_cancel_right [OF less_imp_neq [THEN not_sym]])
  finally show ?thesis .
qed simp

text \<open>The time of a packet at a rate is not rounded down, and a \<^verbatim>\<open>usize\<close> length never saturates it.\<close>

lemma spacing_bound:
  assumes "0 < rate" and "n < 2 ^ 64"
  shows "n * 1000000000 \<le> rate * spacing n (Some rate)"
proof -
  define ns where "ns = (n * 1000000000 + (rate - 1)) div rate"
  have "ns \<le> n * 1000000000"
    unfolding ns_def using assms(1) by (rule ceiling_le)
  then have "ns div 1000000000 \<le> 2 ^ 64 - 1"
    using assms(2) div_le_mono [of ns "n * 1000000000" 1000000000] by simp
  then have "spacing n (Some rate) = ns div 1000000000 * 1000000000 + ns mod 1000000000"
    by (simp add: spacing_def ns_def Let_def)
  then have "spacing n (Some rate) = ns"
    by simp
  then show ?thesis
    using ceiling_mult [OF assms(1), of "n * 1000000000"] by (simp add: ns_def)
qed

text \<open>Three peers, the middle one served last: the turn is with the greatest, not with the smallest.\<close>

definition demo_queued :: "u32 \<Rightarrow> queued" where
  "demo_queued ip = \<lparr>qd_frame = empty_buf, qd_id = 1, qd_source = SocketAddrV4 1 1, qd_destination = SocketAddrV4 ip 7,
     qd_deadline = None, qd_generation = 0\<rparr>"

definition demo_sched :: scheduler where
  "demo_sched = (sd_push (demo_queued 3) (sd_push (demo_queued 9) (sd_push (demo_queued 5) scheduler_new)))
     \<lparr>sd_last := Some (SocketAddrV4 5 7)\<rparr>"

definition demo_udp_config :: udp_config where
  "demo_udp_config = udp_config_default\<lparr>uc_fair_queue := True, uc_bytes_per_second := Some 500\<rparr>"

lemma demo_sched_inv: "sched_inv demo_udp_config demo_sched"
proof -
  have cap: "0 < uc_per_peer_capacity demo_udp_config"
    by (simp add: demo_udp_config_def udp_config_default_def)
  have "sched_inv demo_udp_config (sd_push (demo_queued 5) scheduler_new)"
    by (rule sd_push_inv [OF sched_inv_new _ cap])
      (simp add: admitted_def scheduler_new_def demo_udp_config_def udp_config_default_def)
  then have "sched_inv demo_udp_config (sd_push (demo_queued 9) (sd_push (demo_queued 5) scheduler_new))"
    by (rule sd_push_inv [OF _ _ cap])
      (simp add: admitted_def sd_push_def scheduler_new_def demo_queued_def demo_udp_config_def udp_config_default_def bt_get_def)
  then have "sched_inv demo_udp_config (sd_push (demo_queued 3) (sd_push (demo_queued 9) (sd_push (demo_queued 5) scheduler_new)))"
    by (rule sd_push_inv [OF _ _ cap])
      (simp add: admitted_def sd_push_def scheduler_new_def demo_queued_def demo_udp_config_def udp_config_default_def bt_get_def
        less_sockaddr_def less_eq_sockaddr_def)
  then show ?thesis
    by (simp add: demo_sched_def sched_inv_def)
qed

lemma demo_sched_eval:
  "sd_queue demo_sched = [demo_queued 5, demo_queued 9, demo_queued 3]" "sd_next demo_sched = 0"
  "sd_candidate 0 True [] demo_sched = Some (Some 1)"
  by (simp_all add: demo_sched_def sd_push_def scheduler_new_def demo_queued_def sd_ready_def sd_candidate_def bt_get_def
      candidate_key_def less_sockaddr_def less_eq_sockaddr_def)

theorem udp_fair_round_robin_witness:
  "sd_candidate 0 True [] demo_sched = Some (Some 1) \<and>
   next_turn (sd_last demo_sched) (ready_peers 0 [] demo_sched) = SocketAddrV4 9 7"
  using udp_fair_round_robin [OF demo_sched_inv, of 0 "[]" 1000] demo_sched_eval by (simp add: demo_queued_def)

end
