(* ===== verification/Responder.thy ===== *)
theory Responder
  imports Udp_Wire Ethernet
begin

text \<open>
  The stateless responder of \<^verbatim>\<open>src/net/mod.rs\<close>: it answers ARP requests, ICMP echo requests and UDP
  datagrams to one port by rewriting the received frame in place.
\<close>

section \<open>Definitions\<close>

datatype link_layer = LinkIp | LinkEthernet

datatype reply = ReplyArp | ReplyIcmp | ReplyUdp | Ignored | Malformed

definition is_reply :: "reply \<Rightarrow> bool" where
  "is_reply r \<longleftrightarrow> r \<in> {ReplyArp, ReplyIcmp, ReplyUdp}"

record responder =
  rs_ipv4 :: bytes
  rs_mac :: mac
  rs_udp_port :: "u16 option"

definition finish_frame :: "packet_buf \<Rightarrow> nat \<Rightarrow> link_layer \<Rightarrow> packet_buf option" where
  "finish_frame frame len link = do {
     let padded = (if link = LinkEthernet then min (max len 60) (tail_capacity frame) else len);
     frame \<leftarrow> set_len padded frame;
     p \<leftarrow> fill_range len (length (as_slice frame)) 0 (as_slice frame);
     write_packet 0 p frame
   }"

definition respond_arp :: "responder \<Rightarrow> packet_buf \<Rightarrow> nat \<Rightarrow> (reply \<times> packet_buf) option" where
  "respond_arp self frame offset = do {
     let packet = as_slice frame;
     arp \<leftarrow> slice_from offset packet;
     if length arp < 28 then Some (Malformed, frame)
     else do {
       hardware \<leftarrow> read16_at arp 0;
       protocol \<leftarrow> read16_at arp 2;
       sizes \<leftarrow> slice_of 4 6 arp;
       operation \<leftarrow> read16_at arp 6;
       target \<leftarrow> slice_of 24 28 arp;
       if hardware \<noteq> 1 \<or> protocol \<noteq> 0x0800 \<or> sizes \<noteq> [6, 4] \<or> operation \<noteq> 1 \<or> target \<noteq> rs_ipv4 self
       then Some (Ignored, frame)
       else do {
         sender_mac \<leftarrow> slice_of 8 14 arp;
         sender_ip \<leftarrow> slice_of 14 18 arp;
         arp \<leftarrow> copy_into 6 8 (u16_to_be_bytes 2) arp;
         arp \<leftarrow> copy_into 8 14 (rs_mac self) arp;
         arp \<leftarrow> copy_into 14 18 (rs_ipv4 self) arp;
         arp \<leftarrow> copy_into 18 24 sender_mac arp;
         arp \<leftarrow> copy_into 24 28 sender_ip arp;
         let packet = take offset packet @ arp;
         packet \<leftarrow> copy_into 0 6 sender_mac packet;
         packet \<leftarrow> copy_into 6 12 (rs_mac self) packet;
         frame \<leftarrow> write_packet 0 packet frame;
         frame \<leftarrow> finish_frame frame (offset + 28) LinkEthernet;
         Some (ReplyArp, frame)
       }
     }
   }"

text \<open>
  The two protocol arms of \<^verbatim>\<open>respond\<close> on the slice \<^verbatim>\<open>body = &mut ip[ihl..total]\<close>: \<^verbatim>\<open>Inl\<close> is an early
  return, \<^verbatim>\<open>Inr\<close> the reply and the rewritten body.
\<close>

definition respond_icmp :: "bytes \<Rightarrow> (reply + reply \<times> bytes) option" where
  "respond_icmp body =
     (if length body < 8 \<or> checksum body \<noteq> 0 then Some (Inl Malformed)
      else do {
        kind \<leftarrow> nth_opt body 0;
        code \<leftarrow> nth_opt body 1;
        if kind \<noteq> 8 \<or> code \<noteq> 0 then Some (Inl Ignored)
        else do {
          body \<leftarrow> store 0 0 body;
          body \<leftarrow> fill_range 2 4 0 body;
          body \<leftarrow> copy_into 2 4 (u16_to_be_bytes (checksum body)) body;
          Some (Inr (ReplyIcmp, body))
        }
      })"

definition swap :: "nat \<Rightarrow> nat \<Rightarrow> 'a list \<Rightarrow> 'a list option" where
  "swap i j xs = do {
     a \<leftarrow> nth_opt xs i;
     b \<leftarrow> nth_opt xs j;
     Some (xs[i := b, j := a])
   }"

definition respond_udp :: "responder \<Rightarrow> bytes \<Rightarrow> bytes \<Rightarrow> (reply + reply \<times> bytes) option" where
  "respond_udp self source body =
     (if length body < 8 then Some (Inl Malformed)
      else do {
        len \<leftarrow> map_option unat (read16_at body 4);
        if len \<noteq> length body then Some (Inl Malformed)
        else do {
          port \<leftarrow> read16_at body 2;
          if Some port \<noteq> rs_udp_port self then Some (Inl Ignored)
          else do {
            csum \<leftarrow> read16_at body 6;
            if csum \<noteq> 0 \<and> udp_ipv4_checksum source (rs_ipv4 self) body \<noteq> 0 then Some (Inl Malformed)
            else do {
              body \<leftarrow> swap 0 2 body;
              body \<leftarrow> swap 1 3 body;
              Some (Inr (ReplyUdp, body))
            }
          }
        }
      })"

definition respond_body :: "responder \<Rightarrow> u8 \<Rightarrow> bytes \<Rightarrow> bytes \<Rightarrow> (reply + reply \<times> bytes) option" where
  "respond_body self protocol source body =
     (if protocol = 1 then respond_icmp body
      else if protocol = 17 then respond_udp self source body
      else Some (Inl Ignored))"

text \<open>The IPv4 part of \<^verbatim>\<open>respond\<close>, on \<^verbatim>\<open>ip = &mut packet[offset..]\<close>: early return or reply, packet, length.\<close>

definition respond_ip :: "responder \<Rightarrow> bytes \<Rightarrow> (reply + reply \<times> bytes \<times> nat) option" where
  "respond_ip self ip =
     (if length ip < 20 then Some (Inl Malformed)
      else do {
        first \<leftarrow> nth_opt ip 0;
        if drop_bit 4 first \<noteq> 4 then Some (Inl Malformed)
        else do {
          let ihl = unat (first AND 15) * 4;
          total_len \<leftarrow> map_option unat (read16_at ip 2);
          if ihl < 20 \<or> total_len < ihl \<or> total_len > length ip then Some (Inl Malformed)
          else do {
            header \<leftarrow> slice_of 0 ihl ip;
            fragment \<leftarrow> read16_at ip 6;
            target \<leftarrow> slice_of 16 20 ip;
            ttl \<leftarrow> nth_opt ip 8;
            if checksum header \<noteq> 0 then Some (Inl Malformed)
            else if fragment AND NOT 0x4000 \<noteq> 0 then Some (Inl Ignored)
            else if target \<noteq> rs_ipv4 self \<or> ttl = 0 then Some (Inl Ignored)
            else if ihl \<noteq> 20 then Some (Inl Ignored)
            else do {
              source \<leftarrow> slice_of 12 16 ip;
              protocol \<leftarrow> nth_opt ip 9;
              body \<leftarrow> slice_of ihl total_len ip;
              r \<leftarrow> respond_body self protocol source body;
              case r of
                Inl e \<Rightarrow> Some (Inl e)
              | Inr (reply, body) \<Rightarrow> do {
                  ip \<leftarrow> copy_into ihl total_len body ip;
                  ip \<leftarrow> copy_into 12 16 (rs_ipv4 self) ip;
                  ip \<leftarrow> copy_into 16 20 source ip;
                  ip \<leftarrow> store 8 64 ip;
                  ip \<leftarrow> fill_range 10 12 0 ip;
                  header \<leftarrow> slice_of 0 ihl ip;
                  ip \<leftarrow> copy_into 10 12 (u16_to_be_bytes (checksum header)) ip;
                  Some (Inr (reply, ip, total_len))
                }
            }
          }
        }
      })"

text \<open>At most two VLAN tags; \<^verbatim>\<open>None\<close> inside is the malformed case.\<close>

fun vlan_loop :: "nat \<Rightarrow> bytes \<Rightarrow> nat \<Rightarrow> u16 \<Rightarrow> (nat \<times> u16) option option" where
  "vlan_loop 0 packet offset protocol = Some (Some (offset, protocol))"
| "vlan_loop (Suc n) packet offset protocol =
     (if protocol \<noteq> 0x8100 \<and> protocol \<noteq> 0x88a8 then Some (Some (offset, protocol))
      else if length packet < offset + 4 then Some None
      else do {
        protocol \<leftarrow> read16_at packet (offset + 2);
        vlan_loop n packet (offset + 4) protocol
      })"

definition eth_dispatch :: "link_layer \<Rightarrow> bytes \<Rightarrow> (nat \<times> u16) option option" where
  "eth_dispatch link packet =
     (if link = LinkEthernet then
        (if length packet < 14 then Some None
         else do {
           protocol \<leftarrow> read16_at packet 12;
           vlan_loop 2 packet 14 protocol
         })
      else Some (Some (0, 0x0800)))"

definition respond :: "responder \<Rightarrow> packet_buf \<Rightarrow> link_layer \<Rightarrow> (reply \<times> packet_buf) option" where
  "respond self frame link = do {
     let packet = as_slice frame;
     r \<leftarrow> eth_dispatch link packet;
     case r of
       None \<Rightarrow> Some (Malformed, frame)
     | Some (offset, protocol) \<Rightarrow>
         if protocol = 0x0806 then respond_arp self frame offset
         else if protocol \<noteq> 0x0800 then Some (Ignored, frame)
         else do {
           ip \<leftarrow> slice_from offset packet;
           r \<leftarrow> respond_ip self ip;
           case r of
             Inl e \<Rightarrow> Some (e, frame)
           | Inr (reply, ip, total_len) \<Rightarrow> do {
               let packet = take offset packet @ ip;
               packet \<leftarrow> (if link = LinkEthernet then do {
                   peer \<leftarrow> slice_of 6 12 packet;
                   packet \<leftarrow> copy_into 0 6 peer packet;
                   copy_into 6 12 (rs_mac self) packet
                 } else Some packet);
               frame \<leftarrow> write_packet 0 packet frame;
               frame \<leftarrow> finish_frame frame (offset + total_len) link;
               Some (reply, frame)
             }
         }
   }"

text \<open>The type invariants \<^verbatim>\<open>[u8; 4]\<close> and \<^verbatim>\<open>[u8; 6]\<close>.\<close>

definition responder_wf :: "responder \<Rightarrow> bool" where
  "responder_wf self \<longleftrightarrow> length (rs_ipv4 self) = 4 \<and> length (rs_mac self) = 6"

text \<open>
  Where the IPv4 packet of an Ethernet frame starts, read off the frame format: after the two addresses, at most two
  VLAN tags and the type of IPv4; and the link header of a reply, which goes back to the sender of the frame from the
  address of the responder with the same tags and type.
\<close>

definition ipv4_at :: "bytes \<Rightarrow> nat \<Rightarrow> bool" where
  "ipv4_at p off \<longleftrightarrow> off \<le> length p \<and> read16 p (off - 2) = 0x0800 \<and>
     (off = 14 \<or> off = 18 \<and> read16 p 12 \<in> {0x8100, 0x88a8} \<or>
      off = 22 \<and> read16 p 12 \<in> {0x8100, 0x88a8} \<and> read16 p 16 \<in> {0x8100, 0x88a8})"

definition reply_link_header :: "responder \<Rightarrow> link_layer \<Rightarrow> nat \<Rightarrow> bytes \<Rightarrow> bytes" where
  "reply_link_header self link off p =
     (case link of LinkIp \<Rightarrow> [] | LinkEthernet \<Rightarrow> subslice 6 12 p @ rs_mac self @ subslice 12 off p)"

section \<open>No step panics\<close>

lemma vlan_loop_wp: "14 \<le> offset \<Longrightarrow> offset \<le> length packet \<Longrightarrow>
  wp (vlan_loop n packet offset protocol)
    (\<lambda>r. case r of None \<Rightarrow> True | Some (o', _) \<Rightarrow> 14 \<le> o' \<and> o' \<le> length packet)"
  by (induction n packet offset protocol rule: vlan_loop.induct) (auto simp: read16_at_def)

lemma eth_dispatch_wp:
  "wp (eth_dispatch link packet) (\<lambda>r. case r of
     None \<Rightarrow> link = LinkEthernet
   | Some (o', protocol) \<Rightarrow> o' \<le> length packet \<and> (if link = LinkEthernet then 14 \<le> o' else o' = 0 \<and> protocol = 0x0800))"
proof (cases "link = LinkEthernet \<and> 14 \<le> length packet")
  case True
  then show ?thesis
    by (auto simp: eth_dispatch_def read16_at_def intro: wp_mono [OF vlan_loop_wp] split: option.splits)
qed (auto simp: eth_dispatch_def)

lemma eth_dispatch_ipv4:
  assumes "eth_dispatch LinkEthernet p = Some (Some (off, 0x0800))"
  shows "ipv4_at p off"
  using assms
  by (auto simp: eth_dispatch_def numeral_2_eq_2 read16_at_def ipv4_at_def bind_eq_Some_conv split: if_split_asm)

lemma finish_frame_wp:
  assumes "pb_inv f" and "len \<le> pb_len f"
  shows "wp (finish_frame f len link) (\<lambda>f'. pb_inv f' \<and> same_frame f f' \<and>
    pb_data_offset f' = pb_data_offset f \<and>
    (\<exists>n. as_slice f' = take len (as_slice f) @ replicate n 0 \<and> (link = LinkIp \<longrightarrow> n = 0)))"
proof -
  let ?n = "if link = LinkEthernet then min (max len 60) (tail_capacity f) else len"
  have n: "?n \<le> tail_capacity f" "len \<le> ?n"
    using assms by (auto simp: pb_inv_def tail_capacity_def)
  obtain g where g: "set_len ?n f = Some g" "pb_inv g" "same_frame f g" "pb_len g = ?n"
      "pb_data_offset g = pb_data_offset f" "take (pb_len f) (as_slice g) = take ?n (as_slice f)"
    using set_len_wp [OF assms(1) n(1)] by (auto simp: wp_eq_Some simp del: min_less_iff_conj)
  have "take len (as_slice g) = take len (as_slice f)"
    using arg_cong [OF g(6), of "take len"] assms(2) n(2) by (simp add: min_def)
  then have "fill_range len (length (as_slice g)) 0 (as_slice g) =
      Some (take len (as_slice f) @ replicate (?n - len) 0)" (is "_ = Some ?p")
    using g(2,4) n(2) by (simp add: fill_range_def patch_def)
  moreover have "length ?p = pb_len g"
    using assms g(4) n(2) by simp
  ultimately show ?thesis
    using g(1,3,5) write_whole_wp [OF g(2), of ?p]
    by (cases link) (auto simp: finish_frame_def same_frame_def wp_eq_Some simp del: set_len_def)
qed

definition body_post :: "bytes \<Rightarrow> reply + reply \<times> bytes \<Rightarrow> bool" where
  "body_post body r = (case r of
     Inl e \<Rightarrow> \<not> is_reply e
   | Inr (reply, body') \<Rightarrow> is_reply reply \<and> length body' = length body)"

lemma respond_body_wp: "wp (respond_body self protocol source body) (body_post body)"
  by (auto simp: respond_body_def respond_icmp_def respond_udp_def swap_def access_defs body_post_def
      is_reply_def)

lemma first_byte_0x45:
  assumes "drop_bit 4 (w :: u8) = 4" and "unat (w AND 15) * 4 = 20"
  shows "w = 0x45"
proof -
  have "unat w div 16 = 4"
    using arg_cong [OF assms(1), of unat] unfolding unat_drop_bit_eq by (simp add: drop_bit_eq_div)
  moreover have "unat w mod 16 = 5"
  proof -
    have "w AND 15 = take_bit 4 w"
      by (simp add: take_bit_eq_mask mask_eq_exp_minus_1)
    then show ?thesis
      using assms(2) by (simp add: take_bit_eq_mod unat_mod)
  qed
  ultimately have "unat w = unat (0x45 :: u8)"
    using div_mult_mod_eq [of "unat w" 16] by simp
  then show ?thesis
    by (rule unsigned_word_eqI)
qed

text \<open>The header of a reply to \<open>ip\<close> with checksum field \<open>c\<close>.\<close>

definition reply_header :: "responder \<Rightarrow> bytes \<Rightarrow> u16 \<Rightarrow> bytes" where
  "reply_header self ip c =
     take 8 ip @ [64, ip ! 9] @ u16_to_be_bytes c @ rs_ipv4 self @ subslice 12 16 ip"

text \<open>What the guards of \<^verbatim>\<open>respond\<close> have established about a packet it answers.\<close>

definition answerable :: "responder \<Rightarrow> bytes \<Rightarrow> nat \<Rightarrow> bool" where
  "answerable self ip n \<longleftrightarrow> 20 \<le> n \<and> n \<le> length ip \<and> n = unat (read16 ip 2) \<and> ip ! 0 = 0x45 \<and>
     ip ! 8 \<noteq> 0 \<and> checksum (take 20 ip) = 0 \<and> read16 ip 6 AND NOT 0x4000 = 0 \<and>
     subslice 16 20 ip = rs_ipv4 self"

lemma list20_cases:
  assumes "20 \<le> length (b :: 'a list)"
  obtains x0 x1 x2 x3 x4 x5 x6 x7 x8 x9 x10 x11 x12 x13 x14 x15 x16 x17 x18 x19 rest
  where "b = x0 # x1 # x2 # x3 # x4 # x5 # x6 # x7 # x8 # x9 # x10 # x11 # x12 # x13 # x14 # x15 # x16 # x17
    # x18 # x19 # rest"
  using assms by (auto simp: numeral_eq_Suc Suc_le_length_iff)

lemma reply_writes:
  assumes "length (rs_ipv4 self) = 4" and "20 \<le> n" and "n \<le> length ip" and "length body = n - 20"
  shows "do {
      ip' \<leftarrow> copy_into 20 n body ip;
      ip' \<leftarrow> copy_into 12 16 (rs_ipv4 self) ip';
      ip' \<leftarrow> copy_into 16 20 (subslice 12 16 ip) ip';
      ip' \<leftarrow> store 8 64 ip';
      ip' \<leftarrow> fill_range 10 12 0 ip';
      header \<leftarrow> slice_of 0 20 ip';
      ip' \<leftarrow> copy_into 10 12 (u16_to_be_bytes (checksum header)) ip';
      Some (Inr (reply, ip', n))
    } = Some (Inr (reply, reply_header self ip (checksum (reply_header self ip 0)) @ body @ drop n ip, n))"
proof -
  have body: "copy_into 20 n body ip = Some (take 20 ip @ body @ drop n ip)"
    using assms by (simp add: copy_into_def patch_def)
  have "20 \<le> length ip" "replicate 2 (0 :: u8) = [0, 0]"
    using assms by (simp_all add: numeral_2_eq_2)
  with assms(1) show ?thesis
    unfolding body
    by (elim list20_cases length4_cases)
      (simp add: access_defs patch_def subslice_def reply_header_def u16_bytes)
qed

lemma respond_ip_wp:
  assumes "responder_wf self"
  shows "wp (respond_ip self ip) (\<lambda>r. case r of
     Inl e \<Rightarrow> \<not> is_reply e
   | Inr (reply, ip', n) \<Rightarrow> is_reply reply \<and> answerable self ip n \<and> (\<exists>body'.
       respond_body self (ip ! 9) (subslice 12 16 ip) (subslice 20 n ip) = Some (Inr (reply, body')) \<and>
       length body' = n - 20 \<and>
       ip' = reply_header self ip (checksum (reply_header self ip 0)) @ body' @ drop n ip))"
proof (cases "answerable self ip (unat (read16 ip 2))")
  case True
  let ?n = "unat (read16 ip 2)"
  obtain r where r: "respond_body self (ip ! 9) (subslice 12 16 ip) (subslice 20 ?n ip) = Some r"
      "body_post (subslice 20 ?n ip) r"
    using respond_body_wp [of self "ip ! 9" "subslice 12 16 ip" "subslice 20 ?n ip"]
    by (auto simp: wp_eq_Some)
  have len: "20 \<le> length ip"
    using True by (simp add: answerable_def)
  have "respond_ip self ip = (case r of Inl e \<Rightarrow> Some (Inl e)
      | Inr (reply, body') \<Rightarrow> Some (Inr (reply,
          reply_header self ip (checksum (reply_header self ip 0)) @ body' @ drop ?n ip, ?n)))"
    using True r assms len reply_writes [of self ?n ip]
    by (auto simp: respond_ip_def answerable_def responder_wf_def body_post_def nth_opt_def read16_at_def
        slice_of_def [of _ _ ip] subslice_def [of 0] split: sum.splits)
  then show ?thesis
    using True r by (auto simp: body_post_def answerable_def split: sum.splits)
next
  case False
  then show ?thesis
    using first_byte_0x45 [of "ip ! 0"]
    by (auto simp: respond_ip_def answerable_def access_defs is_reply_def subslice_def Let_def
        split: sum.splits)
qed

lemma respond_ip_length_wp:
  assumes "responder_wf self"
  shows "wp (respond_ip self ip) (\<lambda>r. case r of
     Inl e \<Rightarrow> \<not> is_reply e
   | Inr (reply, ip', n) \<Rightarrow> is_reply reply \<and> n \<le> length ip \<and> length ip' = length ip)"
proof (rule wp_mono [OF respond_ip_wp [OF assms, of ip]], goal_cases)
  case (1 r)
  have "length (rs_ipv4 self) = 4"
    using assms by (simp add: responder_wf_def)
  with 1 show ?case
    by (cases r) (auto simp: answerable_def reply_header_def)
qed

lemma respond_arp_wp:
  assumes "responder_wf self" and "pb_inv frame" and "14 \<le> offset" and "offset \<le> pb_len frame"
  shows "wp (respond_arp self frame offset) (\<lambda>(reply, f). pb_inv f \<and> same_frame frame f \<and>
    pb_data_offset f = pb_data_offset frame \<and> (\<not> is_reply reply \<longrightarrow> f = frame) \<and> (is_reply reply \<longrightarrow> reply = ReplyArp))"
proof -
  have edit: "wp (do { f \<leftarrow> write_packet 0 p frame; f \<leftarrow> finish_frame f (offset + 28) LinkEthernet;
        Some (ReplyArp, f) })
      (\<lambda>(reply, f). pb_inv f \<and> same_frame frame f \<and> pb_data_offset f = pb_data_offset frame \<and>
         (\<not> is_reply reply \<longrightarrow> f = frame) \<and> (is_reply reply \<longrightarrow> reply = ReplyArp))"
    if p: "length p = pb_len frame" and n: "offset + 28 \<le> pb_len frame" for p
  proof -
    obtain f where f: "write_packet 0 p frame = Some f" "pb_inv f" "same_frame frame f"
        "pb_data_offset f = pb_data_offset frame" "pb_len f = pb_len frame"
      using write_whole_wp [OF assms(2) p] by (auto simp: wp_eq_Some)
    obtain g where g: "finish_frame f (offset + 28) LinkEthernet = Some g" "pb_inv g" "same_frame f g"
        "pb_data_offset g = pb_data_offset f"
      using finish_frame_wp [OF f(2), of "offset + 28" LinkEthernet] n f(5) by (auto simp: wp_eq_Some)
    show ?thesis
      using same_frame_trans [OF f(3) g(3)] by (simp add: f(1,4) g is_reply_def)
  qed
  have mac: "length (rs_mac self) = 6" "length (rs_ipv4 self) = 4"
    using assms(1) by (simp_all add: responder_wf_def)
  show ?thesis
    using assms(2-4) mac edit
    by (simp add: respond_arp_def access_defs Let_def is_reply_def)
qed

lemma ethernet_reply_header:
  assumes "14 \<le> off" and "off \<le> length p" and "length (rs_mac self) = 6"
  shows "patch 6 (rs_mac self) (patch 0 (subslice 6 12 (take off p @ ip)) (take off p @ ip)) =
    reply_link_header self LinkEthernet off p @ ip" and "length (reply_link_header self LinkEthernet off p) = off"
proof -
  have s: "subslice 6 12 (take off p @ ip) = subslice 6 12 p" "length (subslice 6 12 p) = 6"
    using assms by (simp_all add: subslice_def drop_take min_absorb1)
  show "patch 6 (rs_mac self) (patch 0 (subslice 6 12 (take off p @ ip)) (take off p @ ip)) =
      reply_link_header self LinkEthernet off p @ ip"
    unfolding s(1) using s(2) assms by (simp add: patch_def reply_link_header_def min_absorb2 subslice_def [of 12] drop_take)
  show "length (reply_link_header self LinkEthernet off p) = off"
    using assms by (simp add: reply_link_header_def subslice_def)
qed

lemma respond_wp:
  assumes "responder_wf self" and "pb_inv frame"
  shows "wp (respond self frame link) (\<lambda>(reply, f). pb_inv f \<and> same_frame frame f \<and>
    pb_data_offset f = pb_data_offset frame \<and> (\<not> is_reply reply \<longrightarrow> f = frame) \<and>
    (is_reply reply \<and> reply \<noteq> ReplyArp \<longrightarrow> (\<exists>off ip' n k.
       eth_dispatch link (as_slice frame) = Some (Some (off, 0x0800)) \<and> off \<le> pb_len frame \<and>
       (if link = LinkEthernet then 14 \<le> off else off = 0) \<and>
       respond_ip self (drop off (as_slice frame)) = Some (Inr (reply, ip', n)) \<and>
       as_slice f = reply_link_header self link off (as_slice frame) @ take n ip' @ replicate k 0 \<and> (link = LinkIp \<longrightarrow> k = 0))))"
proof -
  obtain d where d: "eth_dispatch link (as_slice frame) = Some d"
      "case d of None \<Rightarrow> link = LinkEthernet
       | Some (o', pr) \<Rightarrow> o' \<le> pb_len frame \<and> (if link = LinkEthernet then 14 \<le> o' else o' = 0 \<and> pr = 0x0800)"
    using eth_dispatch_wp [of link "as_slice frame"]
    unfolding length_as_slice [OF assms(2)] by (auto simp: wp_eq_Some)
  show ?thesis
  proof (cases "\<exists>offset. d = Some (offset, 0x0800)")
    case False
    have arp: "\<exists>reply f. respond_arp self frame off = Some (reply, f) \<and> pb_inv f \<and> same_frame frame f \<and>
        pb_data_offset f = pb_data_offset frame \<and> (\<not> is_reply reply \<longrightarrow> f = frame) \<and> (is_reply reply \<longrightarrow> reply = ReplyArp)"
      if "14 \<le> off" "off \<le> pb_len frame" for off
      using respond_arp_wp [OF assms that] unfolding wp_eq_Some by auto
    have "is_reply Malformed = False" "is_reply Ignored = False"
      by (simp_all add: is_reply_def)
    then show ?thesis
      using d False arp assms(2)
      by (cases link) (fastforce simp: respond_def Let_def split: option.splits)+
  next
    case True
    then obtain offset where o: "d = Some (offset, 0x0800)" "offset \<le> pb_len frame"
        "if link = LinkEthernet then 14 \<le> offset else offset = 0"
      using d(2) by auto
    let ?ip = "drop offset (as_slice frame)"
    obtain r where r: "respond_ip self ?ip = Some r" "case r of Inl e \<Rightarrow> \<not> is_reply e
        | Inr (reply, ip', n) \<Rightarrow> is_reply reply \<and> n \<le> length ?ip \<and> length ip' = length ?ip"
      using respond_ip_length_wp [OF assms(1), of ?ip] by (auto simp: wp_eq_Some)
    show ?thesis
    proof (cases r)
      case (Inl e)
      then show ?thesis
        using d(1) o r assms(2) by (simp add: respond_def slice_from_def)
    next
      case (Inr x)
      obtain reply ip' n where x: "x = (reply, ip', n)"
        by (cases x)
      let ?p = "take offset (as_slice frame) @ ip'"
      let ?q = "if link = LinkEthernet then patch 6 (rs_mac self) (patch 0 (subslice 6 12 ?p) ?p) else ?p"
      have len: "length ?p = pb_len frame" "offset + n \<le> pb_len frame" "is_reply reply"
        using r(2) Inr x o assms(2) by auto
      have q: "length ?q = pb_len frame"
        using len o assms(1) by (auto simp: responder_wf_def)
      obtain f where f: "write_packet 0 ?q frame = Some f" "pb_inv f" "same_frame frame f"
          "pb_data_offset f = pb_data_offset frame" "pb_len f = pb_len frame" "as_slice f = ?q"
        using write_whole_wp [OF assms(2) q] by (auto simp: wp_eq_Some)
      obtain g k where g: "finish_frame f (offset + n) link = Some g" "pb_inv g" "same_frame f g"
          "pb_data_offset g = pb_data_offset f" "as_slice g = take (offset + n) ?q @ replicate k 0" "link = LinkIp \<longrightarrow> k = 0"
        using finish_frame_wp [OF f(2), of "offset + n" link] f(5,6) len(2) by (auto simp: wp_eq_Some)
      have "respond self frame link = Some (reply, g)"
        using d(1) o r(1) Inr x f(1) g(1) len assms
        by (cases link)
          (simp_all add: respond_def slice_from_def slice_of_def copy_into_def responder_wf_def Let_def)
      moreover have "take (offset + n) ?q = reply_link_header self link offset (as_slice frame) @ take n ip'"
        using o(2,3) assms ethernet_reply_header(1) [of offset "as_slice frame" self ip']
          ethernet_reply_header(2) [of offset "as_slice frame" self]
        by (cases link) (simp_all add: responder_wf_def, simp add: reply_link_header_def)
      ultimately show ?thesis
        using g f(3,4) len(3) o d(1) r(1) Inr x same_frame_trans [OF f(3) g(3)] by auto
    qed
  qed
qed

section \<open>Replies are valid packets\<close>

lemma length_reply_header [simp]:
  "responder_wf self \<Longrightarrow> 20 \<le> length ip \<Longrightarrow> length (reply_header self ip c) = 20"
  by (simp add: reply_header_def responder_wf_def)

lemma reply_header_verifies:
  assumes "responder_wf self" and "20 \<le> length ip"
  shows "checksum (reply_header self ip (checksum (reply_header self ip 0))) = 0"
proof -
  have c: "sum_words (reply_header self ip c) = sum_words (reply_header self ip 0) + unat c" for c
    using assms unat_u16_from_be_bytes [of 0 0] unfolding reply_header_def
    by (simp add: sum_words_append [of "take 8 ip"] u16_bytes)
  show ?thesis
    by (simp add: checksum_def c [of "finish_sum _"] finish_sum_complement)
qed

lemma udp_swap_checksum:
  assumes "8 \<le> length body"
  shows "udp_ipv4_checksum b a ([body ! 2, body ! 3, body ! 0, body ! 1] @ drop 4 body) =
    udp_ipv4_checksum a b body"
proof -
  obtain w x y z rest where "body = w # x # y # z # rest"
    using assms by (auto simp: numeral_eq_Suc Suc_le_length_iff)
  then show ?thesis
    by (simp add: udp_ipv4_checksum_def add_ac)
qed

lemma respond_udp_eq:
  assumes "8 \<le> length body"
  shows "respond_udp self source body = Some
    (if unat (read16 body 4) \<noteq> length body then Inl Malformed
     else if Some (read16 body 2) \<noteq> rs_udp_port self then Inl Ignored
     else if read16 body 6 \<noteq> 0 \<and> udp_ipv4_checksum source (rs_ipv4 self) body \<noteq> 0 then Inl Malformed
     else Inr (ReplyUdp, [body ! 2, body ! 3, body ! 0, body ! 1] @ drop 4 body))"
proof -
  obtain w x y z rest where b: "body = w # x # y # z # rest"
    using assms by (auto simp: numeral_eq_Suc Suc_le_length_iff)
  have "do { body \<leftarrow> swap 0 2 body; body \<leftarrow> swap 1 3 body; Some (Inr (ReplyUdp, body)) } =
      (Some (Inr (ReplyUdp, [body ! 2, body ! 3, body ! 0, body ! 1] @ drop 4 body))
       :: (reply + reply \<times> bytes) option)"
    by (simp add: b swap_def nth_opt_def numeral_eq_Suc)
  then show ?thesis
    using assms by (simp add: respond_udp_def read16_at_def)
qed

lemma u16_zero_bytes: "u16_from_be_bytes a b = 0 \<longleftrightarrow> [a, b] = [0, 0]"
  using u16_bytes_unique [of a b 0] by (auto simp: u16_bytes u16_from_be_bytes_def)

lemma udp_parse_accept:
  assumes "p ! 0 = 0x45" and "p ! 9 = 17" and "p ! 8 \<noteq> 0" and "28 \<le> n" and "n \<le> length p"
    and "n = unat (read16 p 2)" and "read16 p 6 AND NOT 0x4000 = 0" and "checksum (take 20 p) = 0"
    and "unat (read16 (subslice 20 n p) 4) = n - 20"
    and "read16 (subslice 20 n p) 6 = 0 \<or>
      udp_ipv4_checksum (subslice 12 16 p) (subslice 16 20 p) (subslice 20 n p) = 0"
  shows "udp_parse_ipv4 p = Some (Inr
    \<lparr>dg_source = SocketAddrV4 (ip_of_octets (subslice 12 16 p)) (read16 (subslice 20 n p) 0),
     dg_destination = SocketAddrV4 (ip_of_octets (subslice 16 20 p)) (read16 (subslice 20 n p) 2),
     dg_payload = drop 8 (subslice 20 n p)\<rparr>)"
proof -
  let ?u = "subslice 20 n p"
  have len: "length ?u = n - 20" "8 \<le> n - 20"
    using assms by simp_all
  then have "subslice 6 8 ?u = [?u ! 6, ?u ! 7]"
    using subslice_pair [of 6 ?u] by (simp add: assms(5) del: nth_subslice)
  then have "subslice 6 8 ?u \<noteq> [0, 0] \<longleftrightarrow> read16 ?u 6 \<noteq> 0"
    using u16_zero_bytes [of "?u ! 6" "?u ! 7"] by (simp add: read16_def del: nth_subslice)
  then show ?thesis
    using assms len
    by (auto simp: udp_parse_ipv4_def access_defs subslice_def [of 0] simp del: nth_subslice)
qed

lemma reply_header_fields:
  assumes "responder_wf self" and "20 \<le> length ip" and "p = reply_header self ip c @ rest"
  shows "take 20 p = reply_header self ip c" and "drop 20 p = rest" and "take 8 p = take 8 ip"
    and "p ! 8 = 64" and "p ! 9 = ip ! 9" and "subslice 12 16 p = rs_ipv4 self"
    and "subslice 16 20 p = subslice 12 16 ip"
proof -
  show "take 20 p = reply_header self ip c" and "drop 20 p = rest"
    using assms by simp_all
  have "length (rs_ipv4 self) = 4"
    using assms(1) by (simp add: responder_wf_def)
  with assms(2) show "take 8 p = take 8 ip" and "p ! 8 = 64" and "p ! 9 = ip ! 9"
      and "subslice 12 16 p = rs_ipv4 self" and "subslice 16 20 p = subslice 12 16 ip"
    unfolding assms(3)
    by (elim list20_cases length4_cases, simp add: reply_header_def subslice_def u16_bytes)+
qed

lemma take_eq_nth: "take n xs = take n ys \<Longrightarrow> i < n \<Longrightarrow> xs ! i = ys ! i"
  by (metis nth_take)

text \<open>What a reply to an IPv4 packet looks like on either link, behind a link header of \<open>off\<close> bytes.\<close>

lemma respond_replyD:
  assumes "responder_wf self" and "pb_inv frame" and "respond self frame link = Some (reply, f)"
    and "is_reply reply" and "reply \<noteq> ReplyArp"
  obtains off n body' k where "answerable self (drop off (as_slice frame)) n"
    and "respond_body self (drop off (as_slice frame) ! 9) (subslice 12 16 (drop off (as_slice frame)))
           (subslice 20 n (drop off (as_slice frame))) = Some (Inr (reply, body'))"
    and "length body' = n - 20"
    and "drop off (as_slice f) = reply_header self (drop off (as_slice frame)) (checksum (reply_header self (drop off (as_slice frame)) 0)) @
           body' @ replicate k 0"
    and "case link of LinkIp \<Rightarrow> off = 0 \<and> k = 0
         | LinkEthernet \<Rightarrow> ipv4_at (as_slice frame) off \<and> take off (as_slice f) = reply_link_header self link off (as_slice frame)"
proof -
  obtain off ip' n k where r: "eth_dispatch link (as_slice frame) = Some (Some (off, 0x0800))" "off \<le> pb_len frame"
      "if link = LinkEthernet then 14 \<le> off else off = 0"
      "respond_ip self (drop off (as_slice frame)) = Some (Inr (reply, ip', n))"
      "as_slice f = reply_link_header self link off (as_slice frame) @ take n ip' @ replicate k 0" "link = LinkIp \<longrightarrow> k = 0"
    using respond_wp [OF assms(1,2), of link] assms(3-5) by auto
  let ?ip = "drop off (as_slice frame)"
  obtain body' where b: "answerable self ?ip n" "length body' = n - 20"
      "respond_body self (?ip ! 9) (subslice 12 16 ?ip) (subslice 20 n ?ip) = Some (Inr (reply, body'))"
      "ip' = reply_header self ?ip (checksum (reply_header self ?ip 0)) @ body' @ drop n ?ip"
    using respond_ip_wp [OF assms(1), of ?ip] r(4) by auto
  then have len: "20 \<le> length ?ip" "20 \<le> n"
    by (simp_all add: answerable_def)
  have ip: "take n ip' = reply_header self ?ip (checksum (reply_header self ?ip 0)) @ body'"
    using b(2,4) len assms(1) by simp
  have header: "length (reply_link_header self link off (as_slice frame)) = off"
    using r(2,3) assms(1,2) ethernet_reply_header(2) [of off "as_slice frame" self]
    by (cases link) (simp_all add: responder_wf_def, simp add: reply_link_header_def)
  show thesis
    using that [OF b(1,3,2)] r(1,3,5,6) header eth_dispatch_ipv4 [of "as_slice frame" off] unfolding ip
    by (cases link) simp_all
qed

lemma respond_body_UdpD:
  "respond_body self protocol source body = Some (Inr (ReplyUdp, body')) \<Longrightarrow>
     protocol = 17 \<and> 8 \<le> length body \<and> respond_udp self source body = Some (Inr (ReplyUdp, body'))"
  by (auto simp: respond_body_def respond_icmp_def respond_udp_def access_defs split: if_splits)

lemma respond_body_IcmpD:
  "respond_body self protocol source body = Some (Inr (ReplyIcmp, body')) \<Longrightarrow>
     protocol = 1 \<and> 8 \<le> length body \<and> respond_icmp body = Some (Inr (ReplyIcmp, body'))"
  by (auto simp: respond_body_def respond_icmp_def respond_udp_def swap_def access_defs split: if_splits)

lemma respond_icmp_SomeD:
  assumes "respond_icmp body = Some (Inr (ReplyIcmp, body'))" and "8 \<le> length body"
  shows "checksum body' = 0" and "body' ! 0 = 0" and "body' ! 1 = 0" and "drop 4 body' = drop 4 body"
proof -
  obtain w x y z rest where b: "body = w # x # y # z # rest"
    using assms(2) by (auto simp: numeral_eq_Suc Suc_le_length_iff)
  have "replicate 2 (0 :: u8) = [0, 0]"
    by (simp add: numeral_2_eq_2)
  then have b': "body' = 0 # 0 # u16_to_be_bytes (checksum (0 # 0 # 0 # 0 # rest)) @ rest"
    using assms by (simp add: b respond_icmp_def access_defs patch_def u16_bytes split: if_splits)
  show "body' ! 0 = 0" and "body' ! 1 = 0" and "drop 4 body' = drop 4 body"
    by (simp_all add: b b' u16_bytes)
  have "sum_words (0 # 0 # u16_to_be_bytes c @ rest) = sum_words (0 # 0 # 0 # 0 # rest) + unat c" for c
    using unat_u16_from_be_bytes [of 0 0] by (simp add: u16_bytes)
  then show "checksum body' = 0"
    unfolding b' by (simp add: checksum_def finish_sum_complement del: sum_words.simps)
qed

lemma udp_reply_parses:
  assumes "responder_wf self" and n: "answerable self ip n"
      "respond_body self (ip ! 9) (subslice 12 16 ip) (subslice 20 n ip) = Some (Inr (ReplyUdp, body'))" "length body' = n - 20"
    and f: "f = reply_header self ip (checksum (reply_header self ip 0)) @ body' @ padding"
  shows "\<exists>a b payload. udp_parse_ipv4 ip = Some (Inr \<lparr>dg_source = a, dg_destination = b, dg_payload = payload\<rparr>) \<and>
    udp_parse_ipv4 f = Some (Inr \<lparr>dg_source = b, dg_destination = a, dg_payload = payload\<rparr>)"
proof -
  let ?u = "subslice 20 n ip" and ?s = "subslice 12 16 ip"
  have len: "20 \<le> length ip" "n \<le> length ip" "length ?u = n - 20" "8 \<le> n - 20" "28 \<le> n"
    using n respond_body_UdpD [OF n(2)] by (auto simp: answerable_def)
  have udp: "unat (read16 ?u 4) = n - 20" "ip ! 9 = 17"
      "read16 ?u 6 = 0 \<or> udp_ipv4_checksum ?s (rs_ipv4 self) ?u = 0"
      "body' = [?u ! 2, ?u ! 3, ?u ! 0, ?u ! 1] @ drop 4 ?u"
    using respond_body_UdpD [OF n(2)] len(3) by (auto simp: respond_udp_eq split: if_splits)
  have u: "read16 body' 0 = read16 ?u 2" "read16 body' 2 = read16 ?u 0" "read16 body' 4 = read16 ?u 4"
      "read16 body' 6 = read16 ?u 6" "drop 8 body' = drop 8 ?u"
    using udp(4) len(3,4) by (simp_all add: read16_def nth_append)
  note h = reply_header_fields [OF assms(1) len(1) f]
  have sub: "subslice 20 n f = body'"
    unfolding subslice_def [of 20 n f] h(2) using n(3) by simp
  have nth: "f ! i = ip ! i" if "i < 8" for i
    using take_eq_nth [OF h(3) that] .
  have "udp_ipv4_checksum (rs_ipv4 self) ?s body' = udp_ipv4_checksum ?s (rs_ipv4 self) ?u"
    using udp_swap_checksum [of ?u] len(3,4) udp(4) by (simp only:)
  moreover have "n \<le> length f"
    using f n(3) len(1,5) assms(1) by simp
  ultimately have "udp_parse_ipv4 f = Some (Inr
      \<lparr>dg_source = SocketAddrV4 (ip_of_octets (rs_ipv4 self)) (read16 ?u 2),
       dg_destination = SocketAddrV4 (ip_of_octets ?s) (read16 ?u 0), dg_payload = drop 8 ?u\<rparr>)"
    using udp_parse_accept [of f n] n(1) h u udp len(5) sub nth
      reply_header_verifies [OF assms(1) len(1)] by (simp add: answerable_def read16_def [of f] read16_def [of ip])
  moreover have "udp_parse_ipv4 ip = Some (Inr
      \<lparr>dg_source = SocketAddrV4 (ip_of_octets ?s) (read16 ?u 0),
       dg_destination = SocketAddrV4 (ip_of_octets (rs_ipv4 self)) (read16 ?u 2), dg_payload = drop 8 ?u\<rparr>)"
    using udp_parse_accept [of ip n] n(1) udp len(2,5) by (simp add: answerable_def)
  ultimately show ?thesis
    by blast
qed

section \<open>Properties\<close>

text \<open>
  C26. The responder never panics, whatever the frame holds: it ends with a reply code, keeps the frame
  and headroom of the handle, and leaves the packet untouched unless it replies.
\<close>

theorem respond_total:
  assumes "responder_wf self" and "pb_inv frame"
  shows "\<exists>reply f. respond self frame link = Some (reply, f) \<and> pb_inv f \<and> same_frame frame f \<and>
    pb_data_offset f = pb_data_offset frame \<and> (\<not> is_reply reply \<longrightarrow> f = frame)"
  using respond_wp [OF assms, of link] by (auto simp: wp_eq_Some)

theorem respond_total_witness:
  "\<exists>reply f. respond \<lparr>rs_ipv4 = [10, 0, 0, 2], rs_mac = [2, 0, 0, 0, 0, 1], rs_udp_port = None\<rparr>
      \<lparr>pb_mem = [0x45, 0, 0], pb_data_offset = 0, pb_capacity = 3, pb_len = 3, pb_idx = 0, pb_pool = None\<rparr>
      LinkIp = Some (reply, f) \<and> pb_inv f"
  using respond_total [of "\<lparr>rs_ipv4 = [10, 0, 0, 2], rs_mac = [2, 0, 0, 0, 0, 1], rs_udp_port = None\<rparr>"
      "\<lparr>pb_mem = [0x45, 0, 0], pb_data_offset = 0, pb_capacity = 3, pb_len = 3, pb_idx = 0, pb_pool = None\<rparr>"
      LinkIp]
  by (auto simp: responder_wf_def pb_inv_def)

text \<open>
  C25. A UDP reply is the echo of a valid datagram, on a bare IP link and on Ethernet with up to two VLAN tags. Behind a
  link header of \<open>off\<close> bytes the received packet parses, and the reply parses to the same payload with source and
  destination exchanged; in particular swapping the addresses and ports keeps the UDP checksum valid. On a bare IP link
  there is no link header; on Ethernet the IPv4 packet is where the frame format puts it, and the reply goes to the
  sender of the frame from the address of the responder with the VLAN tags and the type unchanged.
\<close>

theorem respond_udp_echo:
  assumes "responder_wf self" and "pb_inv frame" and "respond self frame link = Some (ReplyUdp, f)"
  shows "\<exists>off a b payload.
    (case link of
       LinkIp \<Rightarrow> off = 0
     | LinkEthernet \<Rightarrow> ipv4_at (as_slice frame) off \<and>
         take off (as_slice f) = subslice 6 12 (as_slice frame) @ rs_mac self @ subslice 12 off (as_slice frame)) \<and>
    udp_parse_ipv4 (drop off (as_slice frame)) = Some (Inr \<lparr>dg_source = a, dg_destination = b, dg_payload = payload\<rparr>) \<and>
    udp_parse_ipv4 (drop off (as_slice f)) = Some (Inr \<lparr>dg_source = b, dg_destination = a, dg_payload = payload\<rparr>)"
proof -
  have "is_reply ReplyUdp" "ReplyUdp \<noteq> ReplyArp"
    by (simp_all add: is_reply_def)
  from respond_replyD [OF assms this]
  obtain off n body' k where n: "answerable self (drop off (as_slice frame)) n"
      "respond_body self (drop off (as_slice frame) ! 9) (subslice 12 16 (drop off (as_slice frame)))
         (subslice 20 n (drop off (as_slice frame))) = Some (Inr (ReplyUdp, body'))" "length body' = n - 20"
      and f: "drop off (as_slice f) = reply_header self (drop off (as_slice frame))
        (checksum (reply_header self (drop off (as_slice frame)) 0)) @ body' @ replicate k 0"
      and hdr: "case link of LinkIp \<Rightarrow> off = 0 \<and> k = 0
         | LinkEthernet \<Rightarrow> ipv4_at (as_slice frame) off \<and> take off (as_slice f) = reply_link_header self link off (as_slice frame)" .
  have "case link of LinkIp \<Rightarrow> off = 0 | LinkEthernet \<Rightarrow> ipv4_at (as_slice frame) off \<and>
      take off (as_slice f) = subslice 6 12 (as_slice frame) @ rs_mac self @ subslice 12 off (as_slice frame)"
    using hdr by (cases link) (simp_all add: reply_link_header_def)
  then show ?thesis
    using udp_reply_parses [OF assms(1) n f] by blast
qed

text \<open>A datagram of one byte in an Ethernet frame with a VLAN tag.\<close>

theorem respond_udp_echo_witness:
  "\<exists>f a b. respond \<lparr>rs_ipv4 = [10, 0, 0, 2], rs_mac = [2, 0, 0, 0, 0, 1], rs_udp_port = Some 9000\<rparr>
      \<lparr>pb_mem = [2, 0, 0, 0, 0, 1, 2, 0, 0, 0, 0, 9, 0x81, 0, 0, 5, 8, 0,
         0x45, 0, 0, 29, 0, 0, 0x40, 0, 64, 17, 0x26, 0xce, 10, 0, 0, 1, 10, 0, 0, 2,
         0x30, 0x39, 0x23, 0x28, 0, 9, 0, 0, 104],
       pb_data_offset = 0, pb_capacity = 47, pb_len = 47, pb_idx = 0, pb_pool = None\<rparr> LinkEthernet
      = Some (ReplyUdp, f) \<and>
     take 18 (as_slice f) = [2, 0, 0, 0, 0, 9, 2, 0, 0, 0, 0, 1, 0x81, 0, 0, 5, 8, 0] \<and>
     udp_parse_ipv4 (drop 18 (as_slice f)) = Some (Inr \<lparr>dg_source = b, dg_destination = a, dg_payload = [104]\<rparr>)"
proof -
  let ?h = "[2, 0, 0, 0, 0, 1, 2, 0, 0, 0, 0, 9, 0x81, 0, 0, 5, 8, 0] :: bytes"
  let ?p = "[0x45, 0, 0, 29, 0, 0, 0x40, 0, 64, 17, 0x26, 0xce, 10, 0, 0, 1, 10, 0, 0, 2,
         0x30, 0x39, 0x23, 0x28, 0, 9, 0, 0, 104] :: bytes"
  let ?m = "[2, 0, 0, 0, 0, 1, 2, 0, 0, 0, 0, 9, 0x81, 0, 0, 5, 8, 0,
         0x45, 0, 0, 29, 0, 0, 0x40, 0, 64, 17, 0x26, 0xce, 10, 0, 0, 1, 10, 0, 0, 2,
         0x30, 0x39, 0x23, 0x28, 0, 9, 0, 0, 104] :: bytes"
  let ?frame = "\<lparr>pb_mem = ?m, pb_data_offset = 0, pb_capacity = 47, pb_len = 47, pb_idx = 0, pb_pool = None\<rparr>"
  let ?self = "\<lparr>rs_ipv4 = [10, 0, 0, 2], rs_mac = [2, 0, 0, 0, 0, 1], rs_udp_port = Some 9000\<rparr>"
  have pre: "responder_wf ?self" "pb_inv ?frame" and slice: "as_slice ?frame = ?h @ ?p"
    by (simp_all add: responder_wf_def pb_inv_def as_slice_take)
  have sum: "checksum (take 20 ?p) = 0"
    by (simp add: checksum_def finish_sum_zero_iff unat_u16_from_be_bytes)
  then have ip: "\<exists>ip'. respond_ip ?self ?p = Some (Inr (ReplyUdp, ip', 29))"
    by (simp add: respond_ip_def respond_body_def respond_udp_def swap_def access_defs read16_def
        u16_from_be_bytes_def subslice_def patch_def)
  have at: "eth_dispatch LinkEthernet (?h @ ?p) = Some (Some (18, 0x0800))"
  proof -
    have words: "read16_at (?h @ ?p) 12 = Some 0x8100" "read16_at (?h @ ?p) 16 = Some 0x0800" "length (?h @ ?p) = 47"
      by (simp_all add: read16_at_def read16_def u16_from_be_bytes_def)
    have "vlan_loop (Suc (Suc n)) xs 14 0x8100 = Some (Some (18, 0x0800))"
      if "read16_at xs 16 = Some 0x0800" "length xs = 47" for n xs
      using that by simp
    from this [OF words(2,3), of 0] show ?thesis
      unfolding eth_dispatch_def words by (simp add: numeral_2_eq_2 [symmetric])
  qed
  obtain reply f where f: "respond ?self ?frame LinkEthernet = Some (reply, f)"
    using respond_wp [OF pre, of LinkEthernet] by (auto simp: wp_eq_Some)
  have "reply = ReplyUdp"
    using f ip by (auto simp: respond_def slice at slice_from_def Let_def bind_eq_Some_conv simp del: append_Cons)
  with f have f: "respond ?self ?frame LinkEthernet = Some (ReplyUdp, f)"
    by simp
  from respond_udp_echo [OF pre f] obtain off a b payload where e: "ipv4_at (?h @ ?p) off"
      "take off (as_slice f) = subslice 6 12 (?h @ ?p) @ rs_mac ?self @ subslice 12 off (?h @ ?p)"
      "udp_parse_ipv4 (drop off (?h @ ?p)) = Some (Inr \<lparr>dg_source = a, dg_destination = b, dg_payload = payload\<rparr>)"
      "udp_parse_ipv4 (drop off (as_slice f)) = Some (Inr \<lparr>dg_source = b, dg_destination = a, dg_payload = payload\<rparr>)"
    unfolding slice by auto
  have off: "off = 18"
    using e(1) by (auto simp: ipv4_at_def read16_def u16_from_be_bytes_def)
  have "payload = [104]"
    using e(3) sum unfolding off
    by (auto simp: udp_parse_ipv4_def access_defs read16_def u16_from_be_bytes_def subslice_def)
  moreover have "take 18 (as_slice f) = [2, 0, 0, 0, 0, 9, 2, 0, 0, 0, 0, 1, 0x81, 0, 0, 5, 8, 0]"
    using e(2) unfolding off by (simp add: subslice_def)
  ultimately show ?thesis
    using f e(4) off by blast
qed

text \<open>
  An ICMP reply is an echo reply: both its checksums verify, it goes from the responder to the
  sender, its type and code are zero, and identifier, sequence number and data are those received.
\<close>

lemma respond_icmp_echo:
  assumes "responder_wf self" and "pb_inv frame" and "respond self frame LinkIp = Some (ReplyIcmp, f)"
  shows "checksum (take 20 (as_slice f)) = 0 \<and> checksum (drop 20 (as_slice f)) = 0 \<and>
    subslice 12 16 (as_slice f) = rs_ipv4 self \<and>
    subslice 16 20 (as_slice f) = subslice 12 16 (as_slice frame) \<and>
    as_slice f ! 20 = 0 \<and> as_slice f ! 21 = 0 \<and>
    drop 24 (as_slice f) = subslice 24 (unat (read16 (as_slice frame) 2)) (as_slice frame)"
proof -
  let ?ip = "as_slice frame"
  have "is_reply ReplyIcmp" "ReplyIcmp \<noteq> ReplyArp"
    by (simp_all add: is_reply_def)
  from respond_replyD [OF assms this] obtain off n body' k where r: "answerable self (drop off ?ip) n"
      "respond_body self (drop off ?ip ! 9) (subslice 12 16 (drop off ?ip)) (subslice 20 n (drop off ?ip)) = Some (Inr (ReplyIcmp, body'))"
      "length body' = n - 20"
      "drop off (as_slice f) = reply_header self (drop off ?ip) (checksum (reply_header self (drop off ?ip) 0)) @ body' @ replicate k 0"
      "case LinkIp of LinkIp \<Rightarrow> off = 0 \<and> k = 0
       | LinkEthernet \<Rightarrow> ipv4_at ?ip off \<and> take off (as_slice f) = reply_link_header self LinkIp off ?ip" .
  have "off = 0" "k = 0"
    using r(5) by simp_all
  then have n: "answerable self ?ip n" "length body' = n - 20"
      "respond_body self (?ip ! 9) (subslice 12 16 ?ip) (subslice 20 n ?ip) = Some (Inr (ReplyIcmp, body'))"
      and f: "as_slice f = reply_header self ?ip (checksum (reply_header self ?ip 0)) @ body'"
    using r(1-4) by simp_all
  have len: "20 \<le> length ?ip" "n \<le> length ?ip" "n = unat (read16 ?ip 2)"
    using n(1) by (auto simp: answerable_def)
  note h = reply_header_fields [OF assms(1) len(1) f]
  note b = respond_body_IcmpD [OF n(3)]
  note i = respond_icmp_SomeD [of "subslice 20 n ?ip" body']
  have "as_slice f ! 20 = body' ! 0" "as_slice f ! 21 = body' ! 1" "drop 24 (as_slice f) = drop 4 body'"
    using f assms(1) len(1) by (simp_all add: nth_append)
  moreover have "drop 4 (subslice 20 n ?ip) = subslice 24 n ?ip"
    by (simp add: subslice_def drop_take add.commute)
  ultimately show ?thesis
    using h i b reply_header_verifies [OF assms(1) len(1)] len(3) by simp
qed

lemma respond_icmp_echo_example:
  "\<exists>f. respond \<lparr>rs_ipv4 = [10, 0, 0, 2], rs_mac = [2, 0, 0, 0, 0, 1], rs_udp_port = None\<rparr>
      \<lparr>pb_mem = [0x45, 0, 0, 28, 0, 0, 0x40, 0, 64, 1, 0x26, 0xdf, 10, 0, 0, 1, 10, 0, 0, 2,
         8, 0, 0xe5, 0xca, 0x12, 0x34, 0, 1],
       pb_data_offset = 0, pb_capacity = 28, pb_len = 28, pb_idx = 0, pb_pool = None\<rparr> LinkIp
      = Some (ReplyIcmp, f) \<and> checksum (drop 20 (as_slice f)) = 0 \<and> drop 24 (as_slice f) = [0x12, 0x34, 0, 1]"
proof -
  let ?p = "[0x45, 0, 0, 28, 0, 0, 0x40, 0, 64, 1, 0x26, 0xdf, 10, 0, 0, 1, 10, 0, 0, 2,
         8, 0, 0xe5, 0xca, 0x12, 0x34, 0, 1] :: bytes"
  let ?frame = "\<lparr>pb_mem = ?p, pb_data_offset = 0, pb_capacity = 28, pb_len = 28, pb_idx = 0, pb_pool = None\<rparr>"
  let ?self = "\<lparr>rs_ipv4 = [10, 0, 0, 2], rs_mac = [2, 0, 0, 0, 0, 1], rs_udp_port = None\<rparr>"
  have pre: "responder_wf ?self" "pb_inv ?frame" and slice: "as_slice ?frame = ?p"
    by (simp_all add: responder_wf_def pb_inv_def as_slice_take)
  have "checksum (take 20 ?p) = 0" "checksum (drop 20 ?p) = 0"
    by (simp_all add: checksum_def finish_sum_zero_iff unat_u16_from_be_bytes)
  then have ip: "\<exists>ip'. respond_ip ?self ?p = Some (Inr (ReplyIcmp, ip', 28))"
    by (simp add: respond_ip_def respond_body_def respond_icmp_def access_defs read16_def
        u16_from_be_bytes_def subslice_def patch_def)
  obtain reply f where f: "respond ?self ?frame LinkIp = Some (reply, f)"
    using respond_wp [OF pre, of LinkIp] by (auto simp: wp_eq_Some)
  moreover have "reply = ReplyIcmp"
    using f ip slice by (auto simp: respond_def eth_dispatch_def slice_from_def Let_def bind_eq_Some_conv)
  moreover have "subslice 24 (unat (read16 ?p 2)) ?p = [0x12, 0x34, 0, 1]"
    by (simp add: subslice_def read16_def u16_from_be_bytes_def)
  ultimately show ?thesis
    using respond_icmp_echo [OF pre, of f] slice by (simp del: nth_Cons)
qed

end
