(* ===== verification/Udp_Pool.thy ===== *)
theory Udp_Pool
  imports Udp_Sched Udp_Wire Responder Eth_Ipv4
begin

text \<open>
  \<^verbatim>\<open>src/api/mod.rs\<close>: the pool of UDP endpoints over one device, with admission, scheduling, deadlines, service
  discovery and the application's handler. The handler is a parameter: a function of its own state and a
  datagram. Statistics wrap as \<^verbatim>\<open>u64\<close>, except the saturating count of overwritten events. Dropping a queued
  datagram drops its frame, which returns it to the device.
\<close>

section \<open>Types\<close>

record service =
  sv_address :: sockaddr
  sv_id :: u32

record peer =
  pr_service :: service
  pr_last_seen :: duration

record pool_stats =
  ps_received :: u64
  ps_invalid :: u64
  ps_unbound :: u64
  ps_submitted :: u64
  ps_response_drops :: u64
  ps_peer_overflow :: u64
  ps_rejected :: u64
  ps_dropped :: u64
  ps_events_overwritten :: nat

definition pool_stats_default :: pool_stats where
  "pool_stats_default = \<lparr>ps_received = 0, ps_invalid = 0, ps_unbound = 0, ps_submitted = 0, ps_response_drops = 0,
     ps_peer_overflow = 0, ps_rejected = 0, ps_dropped = 0, ps_events_overwritten = 0\<rparr>"

datatype action = ActionIgnore | ActionEcho

type_synonym 'h handler = "datagram \<Rightarrow> 'h \<Rightarrow> action \<times> 'h"

record 'd udp_pool =
  up_device :: 'd
  up_services :: "(sockaddr, u32) btree_map"
  up_peers :: "(sockaddr, peer) btree_map"
  up_tx :: scheduler
  up_config :: udp_config
  up_events :: "udp_event list"
  up_next_id :: u64
  up_generation :: u64
  up_blocked_peers :: "sockaddr list"
  up_service_work :: "(sockaddr \<times> u32) list"
  up_rx :: "packet_buf list"
  up_capacity :: nat
  up_peer_capacity :: nat
  up_now :: duration
  up_stats :: pool_stats

definition QUERY :: bytes where
  "QUERY = [0x41, 0x4E, 0x53, 0x50, 1, 0]"

definition ADVERT :: bytes where
  "ADVERT = [0x41, 0x4E, 0x53, 0x50, 1, 1]"

section \<open>Construction, events and outcomes\<close>

definition udp_with_config :: "'d \<Rightarrow> udp_config \<Rightarrow> 'd udp_pool io_result" where
  "udp_with_config d cfg =
     (case udp_config_validate cfg of
        Inl e \<Rightarrow> Inl e
      | Inr _ \<Rightarrow> Inr \<lparr>up_device = d, up_services = [], up_peers = [], up_tx = scheduler_new, up_config = cfg, up_events = [],
          up_next_id = 1, up_generation = 0, up_blocked_peers = [], up_service_work = [], up_rx = [],
          up_capacity = uc_queue_capacity cfg, up_peer_capacity = uc_peer_capacity cfg, up_now = 0,
          up_stats = pool_stats_default\<rparr>)"

definition udp_pool_new :: "'d \<Rightarrow> nat \<Rightarrow> nat \<Rightarrow> 'd udp_pool io_result" where
  "udp_pool_new d queue_capacity peer_capacity =
     udp_with_config d (udp_config_default\<lparr>uc_queue_capacity := queue_capacity, uc_peer_capacity := peer_capacity,
       uc_max_tx_peers := queue_capacity, uc_per_peer_capacity := queue_capacity, uc_tx_budget := queue_capacity\<rparr>)"

definition up_pop_event :: "'d udp_pool \<Rightarrow> udp_event option \<times> 'd udp_pool" where
  "up_pop_event p = (case up_events p of [] \<Rightarrow> (None, p) | e # es \<Rightarrow> (Some e, p\<lparr>up_events := es\<rparr>))"

definition up_next_deadline :: "'d udp_pool \<Rightarrow> duration option option" where
  "up_next_deadline p = map_option (map_option (\<lambda>at. max at (up_now p))) (sd_next_deadline (uc_fair_queue (up_config p)) (up_tx p))"

definition up_event :: "udp_event \<Rightarrow> 'd udp_pool \<Rightarrow> 'd udp_pool" where
  "up_event e p =
     (if uc_event_capacity (up_config p) = 0 then p
      else
        (let p = (if length (up_events p) = uc_event_capacity (up_config p)
                  then p\<lparr>up_events := tl (up_events p),
                         up_stats := (up_stats p)\<lparr>ps_events_overwritten := min (ps_events_overwritten (up_stats p) + 1) (2 ^ 64 - 1)\<rparr>\<rparr>
                  else p) in
         p\<lparr>up_events := up_events p @ [e]\<rparr>))"

definition up_rejected :: "sockaddr \<Rightarrow> sockaddr \<Rightarrow> udp_failure \<Rightarrow> 'd udp_pool \<Rightarrow> 'd udp_pool" where
  "up_rejected source destination reason p =
     up_event \<lparr>ue_at = up_now p, ue_id = None, ue_source = source, ue_destination = destination,
         ue_generation = up_generation p, ue_outcome = OutcomeRejected reason\<rparr>
       (p\<lparr>up_stats := (up_stats p)\<lparr>ps_rejected := ps_rejected (up_stats p) + 1\<rparr>\<rparr>)"

text \<open>\<^verbatim>\<open>finish\<close> consumes the queued datagram, so its frame is dropped at the end.\<close>

definition up_finish :: "'d device_ops \<Rightarrow> queued \<Rightarrow> udp_outcome \<Rightarrow> 'd udp_pool \<Rightarrow> 'd udp_pool option" where
  "up_finish ops q outcome p = do {
     let p = (case outcome of
                OutcomeDropped _ \<Rightarrow> p\<lparr>up_stats := (up_stats p)\<lparr>ps_dropped := ps_dropped (up_stats p) + 1\<rparr>\<rparr>
              | _ \<Rightarrow> p);
     let p = up_event \<lparr>ue_at = up_now p, ue_id = Some (qd_id q), ue_source = qd_source q, ue_destination = qd_destination q,
                ue_generation = qd_generation q, ue_outcome = outcome\<rparr> p;
     d \<leftarrow> dv_drop ops (qd_frame q) (up_device p);
     Some (p\<lparr>up_device := d\<rparr>)
   }"

text \<open>
  The loop that removes the datagrams satisfying a condition, from index \<open>i\<close>. Each round removes one entry or
  moves to the next, so the length of the queue bounds the number of rounds.
\<close>

fun up_cancel_loop ::
  "'d device_ops \<Rightarrow> (queued \<Rightarrow> bool) \<Rightarrow> udp_failure \<Rightarrow> nat \<Rightarrow> nat \<Rightarrow> 'd udp_pool \<Rightarrow> 'd udp_pool option"
where
  "up_cancel_loop ops P reason 0 i p = Some p"
| "up_cancel_loop ops P reason (Suc rounds) i p =
     (case nth_opt (sd_queue (up_tx p)) i of
        None \<Rightarrow> Some p
      | Some q \<Rightarrow>
          if P q then do {
            (q, tx) \<leftarrow> sd_remove i (up_tx p);
            p \<leftarrow> up_finish ops q (OutcomeDropped reason) (p\<lparr>up_tx := tx\<rparr>);
            up_cancel_loop ops P reason rounds i p
          }
          else up_cancel_loop ops P reason rounds (Suc i) p)"

definition up_cancel :: "'d device_ops \<Rightarrow> (queued \<Rightarrow> bool) \<Rightarrow> udp_failure \<Rightarrow> 'd udp_pool \<Rightarrow> 'd udp_pool option" where
  "up_cancel ops P reason p = up_cancel_loop ops P reason (length (sd_queue (up_tx p))) 0 p"

section \<open>Endpoints\<close>

definition validate_bind :: "sockaddr \<Rightarrow> unit io_result" where
  "validate_bind a =
     (if sa_port a = 0 \<or> is_unspecified (sa_ip a) \<or> is_broadcast (sa_ip a) \<or> is_multicast (sa_ip a)
      then Inl InvalidInput else Inr ())"

definition up_unbind :: "'d device_ops \<Rightarrow> sockaddr \<Rightarrow> 'd udp_pool \<Rightarrow> (bool \<times> 'd udp_pool) option" where
  "up_unbind ops address p =
     (if \<not> bt_contains (up_services p) address then Some (False, p)
      else do {
        let p = p\<lparr>up_services := bt_remove address (up_services p), up_generation := up_generation p + 1, up_peers := []\<rparr>;
        p \<leftarrow> up_cancel ops (\<lambda>q. qd_source q = address) udp_failure.ConfigurationChanged p;
        Some (True, p)
      })"

fun collect_services :: "service list \<Rightarrow> (sockaddr, u32) btree_map \<Rightarrow> (sockaddr, u32) btree_map io_result" where
  "collect_services [] m = Inr m"
| "collect_services (s # ss) m =
     (case validate_bind (sv_address s) of
        Inl e \<Rightarrow> Inl e
      | Inr _ \<Rightarrow>
          if bt_contains m (sv_address s) then Inl AddrInUse
          else collect_services ss (bt_insert (sv_address s) (sv_id s) m))"

definition validate_services :: "service list \<Rightarrow> 'd udp_pool \<Rightarrow> (sockaddr, u32) btree_map io_result" where
  "validate_services services p =
     (if uc_service_capacity (up_config p) < length services then Inl WouldBlock else collect_services services [])"

fun up_drain :: "'d device_ops \<Rightarrow> nat \<Rightarrow> 'd udp_pool \<Rightarrow> 'd udp_pool option" where
  "up_drain ops 0 p = Some p"
| "up_drain ops (Suc rounds) p =
     (if sd_queue (up_tx p) = [] then Some p
      else do {
        (q, tx) \<leftarrow> sd_remove 0 (up_tx p);
        p \<leftarrow> up_finish ops q (OutcomeDropped udp_failure.ConfigurationChanged) (p\<lparr>up_tx := tx\<rparr>);
        up_drain ops rounds p
      })"

definition install_services :: "'d device_ops \<Rightarrow> (sockaddr, u32) btree_map \<Rightarrow> 'd udp_pool \<Rightarrow> 'd udp_pool option" where
  "install_services ops services p = do {
     p \<leftarrow> up_drain ops (length (sd_queue (up_tx p))) p;
     Some (p\<lparr>up_tx := scheduler_new, up_services := services, up_peers := [], up_generation := up_generation p + 1\<rparr>)
   }"

definition replace_services :: "'d device_ops \<Rightarrow> service list \<Rightarrow> 'd udp_pool \<Rightarrow> (unit io_result \<times> 'd udp_pool) option" where
  "replace_services ops services p =
     (case validate_services services p of
        Inl e \<Rightarrow> Some (Inl e, p)
      | Inr replacement \<Rightarrow>
          if replacement \<noteq> up_services p then map_option (\<lambda>p. (Inr (), p)) (install_services ops replacement p)
          else Some (Inr (), p))"

definition up_bind :: "service \<Rightarrow> 'd udp_pool \<Rightarrow> unit io_result \<times> 'd udp_pool" where
  "up_bind s p =
     (case validate_bind (sv_address s) of
        Inl e \<Rightarrow> (Inl e, p)
      | Inr _ \<Rightarrow>
          if bt_contains (up_services p) (sv_address s) then (Inl AddrInUse, p)
          else if uc_service_capacity (up_config p) \<le> length (up_services p) then (Inl WouldBlock, p)
          else (Inr (), p\<lparr>up_services := bt_insert (sv_address s) (sv_id s) (up_services p)\<rparr>))"

section \<open>Sending\<close>

definition failure_error :: "udp_failure \<Rightarrow> io_kind" where
  "failure_error reason =
     (case reason of
        SourceUnavailable \<Rightarrow> AddrNotAvailable
      | InvalidDestination \<Rightarrow> InvalidInput
      | InvalidPacket \<Rightarrow> InvalidInput
      | DeadlineExpired \<Rightarrow> TimedOut
      | _ \<Rightarrow> WouldBlock)"

text \<open>The options are the optional deadline of \<^verbatim>\<open>SendOptions\<close>.\<close>

definition up_admit :: "sockaddr \<Rightarrow> sockaddr \<Rightarrow> duration option \<Rightarrow> 'd udp_pool \<Rightarrow> (udp_failure + unit) \<times> 'd udp_pool" where
  "up_admit source destination deadline p =
     (if \<not> bt_contains (up_services p) source then (Inl SourceUnavailable, p)
      else if sa_port destination = 0 \<or> is_unspecified (sa_ip destination) \<or> is_multicast (sa_ip destination)
      then (Inl InvalidDestination, p)
      else if (case deadline of None \<Rightarrow> False | Some at \<Rightarrow> at \<le> up_now p) then (Inl DeadlineExpired, p)
      else (let (r, tx) = sd_admission destination (up_now p) (up_config p) (up_tx p) in (r, p\<lparr>up_tx := tx\<rparr>)))"

definition up_enqueue ::
  "'d device_ops \<Rightarrow> packet_buf \<Rightarrow> sockaddr \<Rightarrow> sockaddr \<Rightarrow> duration option \<Rightarrow> 'd udp_pool \<Rightarrow> (datagram_id io_result \<times> 'd udp_pool) option"
where
  "up_enqueue ops frame source destination deadline p =
     (if up_next_id p = 0xFFFFFFFFFFFFFFFF then do {
        d \<leftarrow> dv_drop ops frame (up_device p);
        Some (Inl OtherKind, p\<lparr>up_device := d\<rparr>)
      }
      else
        (let i = up_next_id p;
             lifetime = map_option (\<lambda>t. saturating_add (up_now p) t) (uc_queue_lifetime (up_config p));
             deadline = earliest ((case deadline of None \<Rightarrow> [] | Some t \<Rightarrow> [t]) @ (case lifetime of None \<Rightarrow> [] | Some t \<Rightarrow> [t])) in
         Some (Inr i, p\<lparr>up_next_id := up_next_id p + 1,
           up_tx := sd_push \<lparr>qd_frame = frame, qd_id = i, qd_source = source, qd_destination = destination,
             qd_deadline = deadline, qd_generation = up_generation p\<rparr> (up_tx p)\<rparr>)))"

definition send_with_options ::
  "'d device_ops \<Rightarrow> sockaddr \<Rightarrow> sockaddr \<Rightarrow> bytes \<Rightarrow> duration option \<Rightarrow> 'd udp_pool \<Rightarrow> (datagram_id io_result \<times> 'd udp_pool) option"
where
  "send_with_options ops source destination payload deadline p =
     (case up_admit source destination deadline p of
        (Inl reason, p) \<Rightarrow> Some (Inl (failure_error reason), up_rejected source destination reason p)
      | (Inr _, p) \<Rightarrow> do {
          (r, d) \<leftarrow> dv_alloc ops (up_device p);
          let p = p\<lparr>up_device := d\<rparr>;
          case r of
            None \<Rightarrow> Some (Inl WouldBlock, up_rejected source destination NoBuffer p)
          | Some frame \<Rightarrow> do {
              (built, frame) \<leftarrow> udp_build_ipv4 frame (octets (sa_ip source), sa_port source)
                (octets (sa_ip destination), sa_port destination) payload 0;
              case built of
                Inl e \<Rightarrow> do {
                  let p = up_rejected source destination InvalidPacket p;
                  d \<leftarrow> dv_drop ops frame (up_device p);
                  Some (Inl e, p\<lparr>up_device := d\<rparr>)
                }
              | Inr _ \<Rightarrow> up_enqueue ops frame source destination deadline p
            }
        })"

definition send_to :: "'d device_ops \<Rightarrow> sockaddr \<Rightarrow> sockaddr \<Rightarrow> bytes \<Rightarrow> 'd udp_pool \<Rightarrow> (unit io_result \<times> 'd udp_pool) option" where
  "send_to ops source destination payload p = do {
     (r, p) \<leftarrow> send_with_options ops source destination payload None p;
     Some (case r of Inl e \<Rightarrow> Inl e | Inr _ \<Rightarrow> Inr (), p)
   }"

definition discover :: "'d device_ops \<Rightarrow> sockaddr \<Rightarrow> sockaddr \<Rightarrow> u32 \<Rightarrow> 'd udp_pool \<Rightarrow> (unit io_result \<times> 'd udp_pool) option" where
  "discover ops source seed service_id p = send_to ops source seed (QUERY @ u32_to_be_bytes service_id) p"

section \<open>Transmission\<close>

definition up_advance :: "'d device_ops \<Rightarrow> duration \<Rightarrow> 'd udp_pool \<Rightarrow> (unit io_result \<times> 'd udp_pool) option" where
  "up_advance ops now p =
     (if now < up_now p then Some (Inl InvalidInput, p)
      else do {
        p \<leftarrow> up_cancel ops (\<lambda>q. case qd_deadline q of None \<Rightarrow> False | Some at \<Rightarrow> at \<le> now) DeadlineExpired (p\<lparr>up_now := now\<rparr>);
        Some (Inr (), p)
      })"

definition drop_failure :: "io_kind \<Rightarrow> bool" where
  "drop_failure e \<longleftrightarrow> e \<in> {InvalidInput, AddrNotAvailable, NotConnected, PermissionDenied}"

definition block_peer :: "sockaddr \<Rightarrow> 'd udp_pool \<Rightarrow> 'd udp_pool" where
  "block_peer peer p = p\<lparr>up_blocked_peers := up_blocked_peers p @ [peer]\<rparr>"

text \<open>
  One submission of the loop of \<^verbatim>\<open>flush\<close>. The device takes the frame out of the queue entry in place; what it leaves
  there is dropped with the entry.
\<close>

definition up_submit :: "'d device_ops \<Rightarrow> nat \<Rightarrow> 'd udp_pool \<Rightarrow> (nat io_result \<times> 'd udp_pool) option" where
  "up_submit ops i p = do {
     q \<leftarrow> nth_opt (sd_queue (up_tx p)) i;
     let peer = qd_destination q;
     let b = pb_len (qd_frame q);
     (r, slot, d) \<leftarrow> dv_send ops [qd_frame q] (up_device p);
     frame \<leftarrow> nth_opt slot 0;
     let tx = (up_tx p)\<lparr>sd_queue := (sd_queue (up_tx p))[i := q\<lparr>qd_frame := frame\<rparr>]\<rparr>;
     let p = p\<lparr>up_device := d, up_tx := tx\<rparr>;
     case r of
       Inr n \<Rightarrow>
         if n = 1 then do {
           tx \<leftarrow> sd_accepted peer b (up_now p) (up_config p) (up_tx p);
           (q, tx) \<leftarrow> sd_remove i tx;
           p \<leftarrow> up_finish ops q OutcomeSubmitted (p\<lparr>up_tx := tx\<rparr>);
           Some (Inr 1, p\<lparr>up_stats := (up_stats p)\<lparr>ps_submitted := ps_submitted (up_stats p) + 1\<rparr>\<rparr>)
         }
         else if n = 0 then Some (Inr 0, block_peer peer p)
         else Some (Inl InvalidData, p)
     | Inl e \<Rightarrow>
         if e = WouldBlock then Some (Inr 0, block_peer peer p)
         else if drop_failure e then do {
           (q, tx) \<leftarrow> sd_remove i (up_tx p);
           p \<leftarrow> up_finish ops q (OutcomeDropped (DeviceFailure e)) (p\<lparr>up_tx := tx\<rparr>);
           Some (Inr 0, if uc_fair_queue (up_config p) then block_peer peer p else p)
         }
         else Some (Inl e, p)
   }"

fun up_flush_loop :: "'d device_ops \<Rightarrow> nat \<Rightarrow> nat \<Rightarrow> 'd udp_pool \<Rightarrow> (nat io_result \<times> 'd udp_pool) option" where
  "up_flush_loop ops 0 accepted p = Some (Inr accepted, p)"
| "up_flush_loop ops (Suc budget) accepted p = do {
     c \<leftarrow> sd_candidate (up_now p) (uc_fair_queue (up_config p)) (up_blocked_peers p) (up_tx p);
     case c of
       None \<Rightarrow> Some (Inr accepted, p)
     | Some i \<Rightarrow> do {
         (r, p) \<leftarrow> up_submit ops i p;
         case r of
           Inl e \<Rightarrow> Some (Inl e, p)
         | Inr n \<Rightarrow> up_flush_loop ops budget (accepted + n) p
       }
   }"

definition up_flush :: "'d device_ops \<Rightarrow> 'd udp_pool \<Rightarrow> (nat io_result \<times> 'd udp_pool) option" where
  "up_flush ops p = do {
     (r, p) \<leftarrow> up_advance ops (up_now p) p;
     case r of
       Inl e \<Rightarrow> Some (Inl e, p)
     | Inr _ \<Rightarrow> up_flush_loop ops (uc_tx_budget (up_config p)) 0 (p\<lparr>up_blocked_peers := []\<rparr>)
   }"

section \<open>Received packets\<close>

text \<open>The answers to a discovery query, over a copy of the table of services.\<close>

fun answer_query ::
  "'d device_ops \<Rightarrow> sockaddr \<Rightarrow> sockaddr \<Rightarrow> u32 \<Rightarrow> (sockaddr \<times> u32) list \<Rightarrow> 'd udp_pool \<Rightarrow> 'd udp_pool option"
where
  "answer_query ops source destination i [] p = Some p"
| "answer_query ops source destination i ((address, service_id) # services) p =
     (if service_id \<noteq> i \<or> sa_port address \<noteq> sa_port destination \<or>
         address \<noteq> destination \<and> \<not> is_broadcast (sa_ip destination)
      then answer_query ops source destination i services p
      else do {
        (r, p) \<leftarrow> send_to ops address source (ADVERT @ u32_to_be_bytes i) p;
        let p = (case r of
                   Inl _ \<Rightarrow> p\<lparr>up_stats := (up_stats p)\<lparr>ps_response_drops := ps_response_drops (up_stats p) + 1\<rparr>\<rparr>
                 | Inr _ \<Rightarrow> p);
        answer_query ops source destination i services p
      })"

definition learn_peer :: "sockaddr \<Rightarrow> u32 \<Rightarrow> duration \<Rightarrow> 'd udp_pool \<Rightarrow> 'd udp_pool" where
  "learn_peer source i now p =
     (if length (up_peers p) < up_peer_capacity p \<or> bt_contains (up_peers p) source
      then p\<lparr>up_peers := bt_insert source \<lparr>pr_service = \<lparr>sv_address = source, sv_id = i\<rparr>, pr_last_seen = now\<rparr> (up_peers p)\<rparr>
      else p\<lparr>up_stats := (up_stats p)\<lparr>ps_peer_overflow := ps_peer_overflow (up_stats p) + 1\<rparr>\<rparr>)"

text \<open>The echo of a received datagram in its own frame. The frame is consumed on every path.\<close>

definition up_echo ::
  "'d device_ops \<Rightarrow> packet_buf \<Rightarrow> sockaddr \<Rightarrow> sockaddr \<Rightarrow> 'd udp_pool \<Rightarrow> (unit io_result \<times> 'd udp_pool) option"
where
  "up_echo ops frame source destination p =
     (case up_admit destination source None p of
        (Inl reason, p) \<Rightarrow> do {
          let p = up_rejected destination source reason
            (p\<lparr>up_stats := (up_stats p)\<lparr>ps_response_drops := ps_response_drops (up_stats p) + 1\<rparr>\<rparr>);
          d \<leftarrow> dv_drop ops frame (up_device p);
          Some (Inr (), p\<lparr>up_device := d\<rparr>)
        }
      | (Inr _, p) \<Rightarrow> do {
          (reply, frame) \<leftarrow> respond \<lparr>rs_ipv4 = octets (sa_ip destination), rs_mac = replicate 6 0,
            rs_udp_port = Some (sa_port destination)\<rparr> frame LinkIp;
          if is_reply reply then do {
            (r, p) \<leftarrow> up_enqueue ops frame destination source None p;
            Some (case r of Inl e \<Rightarrow> Inl e | Inr _ \<Rightarrow> Inr (), p)
          }
          else do { d \<leftarrow> dv_drop ops frame (up_device p); Some (Inr (), p\<lparr>up_device := d\<rparr>) }
        })"

definition up_packet ::
  "'d device_ops \<Rightarrow> 'h handler \<Rightarrow> duration \<Rightarrow> packet_buf \<Rightarrow> 'd udp_pool \<times> 'h \<Rightarrow> (unit io_result \<times> 'd udp_pool \<times> 'h) option"
where
  "up_packet ops handler now frame = (\<lambda>(p, h). do {
     let discard = (\<lambda>p h. do { d \<leftarrow> dv_drop ops frame (up_device p); Some (Inr (), p\<lparr>up_device := d\<rparr>, h) });
     parsed \<leftarrow> udp_parse_ipv4 (as_slice frame);
     case parsed of
       Inl _ \<Rightarrow> discard (p\<lparr>up_stats := (up_stats p)\<lparr>ps_invalid := ps_invalid (up_stats p) + 1\<rparr>\<rparr>) h
     | Inr dg \<Rightarrow> do {
         let p = p\<lparr>up_stats := (up_stats p)\<lparr>ps_received := ps_received (up_stats p) + 1\<rparr>\<rparr>;
         let source = dg_source dg;
         let destination = dg_destination dg;
         let payload = dg_payload dg;
         let discovery = (length payload = 10 \<and> take 4 payload = take 4 QUERY);
         if discovery \<and> take 6 payload = QUERY then do {
           i \<leftarrow> read32_at payload 6;
           p \<leftarrow> answer_query ops source destination i (up_services p) p;
           discard (p\<lparr>up_service_work := []\<rparr>) h
         }
         else if \<not> bt_contains (up_services p) destination then
           discard (p\<lparr>up_stats := (up_stats p)\<lparr>ps_unbound := ps_unbound (up_stats p) + 1\<rparr>\<rparr>) h
         else if discovery then
           (if take 6 payload = ADVERT then do {
              i \<leftarrow> read32_at payload 6;
              discard (learn_peer source i now p) h
            }
            else discard p h)
         else
           (case handler dg h of
              (ActionIgnore, h) \<Rightarrow> discard p h
            | (ActionEcho, h) \<Rightarrow> map_option (\<lambda>(r, p). (r, p, h)) (up_echo ops frame source destination p))
       }
   })"

fun up_packets ::
  "'d device_ops \<Rightarrow> 'h handler \<Rightarrow> duration \<Rightarrow> packet_buf list \<Rightarrow> 'd udp_pool \<times> 'h \<Rightarrow> (unit io_result \<times> 'd udp_pool \<times> 'h) option"
where
  "up_packets ops handler now [] s = Some (Inr (), s)"
| "up_packets ops handler now (f # fs) s = do {
     (r, p, h) \<leftarrow> up_packet ops handler now f s;
     case r of
       Inl e \<Rightarrow> do { d \<leftarrow> dv_drop_all ops fs (up_device p); Some (Inl e, p\<lparr>up_device := d\<rparr>, h) }
     | Inr _ \<Rightarrow> up_packets ops handler now fs (p, h)
   }"

section \<open>Polling\<close>

text \<open>\<^verbatim>\<open>now - peer.last_seen\<close> panics when it underflows.\<close>

definition peer_fresh :: "duration \<Rightarrow> duration \<Rightarrow> sockaddr \<times> peer \<Rightarrow> bool option" where
  "peer_fresh now lease e = (if pr_last_seen (snd e) \<le> now then Some (now - pr_last_seen (snd e) < lease) else None)"

definition up_poll ::
  "'d device_ops \<Rightarrow> 'h handler \<Rightarrow> duration \<Rightarrow> duration \<Rightarrow> nat \<Rightarrow> 'd udp_pool \<times> 'h \<Rightarrow> (nat io_result \<times> 'd udp_pool \<times> 'h) option"
where
  "up_poll ops handler now lease budget = (\<lambda>(p, h).
     if now < up_now p then Some (Inl InvalidInput, p, h)
     else do {
       (r, p) \<leftarrow> up_advance ops now p;
       case r of
         Inl e \<Rightarrow> Some (Inl e, p, h)
       | Inr _ \<Rightarrow> do {
           (r, d) \<leftarrow> dv_poll_at ops now (up_device p);
           let p = p\<lparr>up_device := d\<rparr>;
           case r of
             Inl e \<Rightarrow> Some (Inl e, p, h)
           | Inr _ \<Rightarrow> do {
               peers \<leftarrow> filter_opt (peer_fresh now lease) (up_peers p);
               (r, p) \<leftarrow> up_flush ops (p\<lparr>up_peers := peers\<rparr>);
               case r of
                 Inl e \<Rightarrow> Some (Inl e, p, h)
               | Inr _ \<Rightarrow> do {
                   (r, rx, d) \<leftarrow> dv_recv ops (min budget (up_capacity p)) (up_rx p) (up_device p);
                   let p = p\<lparr>up_device := d, up_rx := rx\<rparr>;
                   case r of
                     Inl e \<Rightarrow> Some (Inl e, p, h)
                   | Inr _ \<Rightarrow> do {
                       (r, p, h) \<leftarrow> up_packets ops handler now rx (p\<lparr>up_rx := []\<rparr>, h);
                       Some (case r of Inl e \<Rightarrow> Inl e | Inr _ \<Rightarrow> Inr (length rx), p, h)
                     }
                 }
             }
         }
     })"

section \<open>Over the Ethernet adapter\<close>

definition up_configure_ipv4 ::
  "'d device_ops \<Rightarrow> ipv4addr \<Rightarrow> u8 \<Rightarrow> ipv4addr option \<Rightarrow> service list \<Rightarrow> 'd eth_ipv4 udp_pool \<Rightarrow>
     (unit io_result \<times> 'd eth_ipv4 udp_pool) option"
where
  "up_configure_ipv4 ops address prefix gateway services p =
     (case validate_services services p of
        Inl e \<Rightarrow> Some (Inl e, p)
      | Inr replacement \<Rightarrow>
          if list_ex (\<lambda>s. sa_ip (sv_address s) \<noteq> address) services then Some (Inl InvalidInput, p)
          else do {
            (r, d) \<leftarrow> configure_ipv4 ops address prefix gateway (up_device p);
            let p = p\<lparr>up_device := d\<rparr>;
            case r of
              Inl e \<Rightarrow> Some (Inl e, p)
            | Inr changed \<Rightarrow>
                if changed \<or> replacement \<noteq> up_services p then do {
                  d \<leftarrow> (if \<not> changed then reset_link ops (up_device p) else Some (up_device p));
                  p \<leftarrow> install_services (eth_ops ops) replacement (p\<lparr>up_device := d\<rparr>);
                  Some (Inr (), p)
                }
                else Some (Inr (), p)
          })"

definition up_withdraw_ipv4 :: "'d device_ops \<Rightarrow> 'd eth_ipv4 udp_pool \<Rightarrow> 'd eth_ipv4 udp_pool option" where
  "up_withdraw_ipv4 ops p = do {
     d \<leftarrow> withdraw_ipv4 ops (up_device p);
     install_services (eth_ops ops) [] (p\<lparr>up_device := d\<rparr>)
   }"

end
