(* ===== verification/Dns_Wire.thy ===== *)
theory Dns_Wire
  imports Net_Prelude "HOL-Library.Sublist"
begin

text \<open>
  \<^verbatim>\<open>src/dns/wire.rs\<close>: the DNS codec for address queries, and \<^verbatim>\<open>ResolveError\<close> of \<^verbatim>\<open>src/dns/mod.rs\<close>. A \<^verbatim>\<open>String\<close> is the
  list of its bytes; everything the codec accepts is ASCII. The error of the codec is the unit value, so
  \<^verbatim>\<open>Result<T, ()>\<close> is an option with \<open>None\<close> as the error. The functions that could panic, by an index or a
  subtraction, have a second option around that, whose \<open>None\<close> is the panic.
\<close>

unbundle bit_operations_syntax

section \<open>Types\<close>

datatype resolve_error =
    InvalidName | Busy | Timeout | NotFound | NoData | ServerFailure | Refused | ProtocolError | TcpRequired | AliasLimit
  | Cancelled | NetworkChanged | LocalError io_kind

record dns_record =
  rr_owner :: bytes
  rr_kind :: u16
  rr_ttl :: u32
  rr_start :: nat
  rr_end :: nat
  rr_authority :: bool

datatype wire_answer =
    Addresses bytes "ipv4addr list" u32
  | Alias bytes u32 nat
  | Negative resolve_error "u32 option"
  | Failure resolve_error

section \<open>Names as text\<close>

definition dot :: u8 where
  "dot = 0x2E"

fun split_dots :: "bytes \<Rightarrow> bytes list" where
  "split_dots [] = [[]]"
| "split_dots (c # cs) =
     (if c = dot then [] # split_dots cs
      else (case split_dots cs of [] \<Rightarrow> [[c]] | l # ls \<Rightarrow> (c # l) # ls))"

definition host_byte :: "u8 \<Rightarrow> bool" where
  "host_byte c \<longleftrightarrow> 0x30 \<le> c \<and> c \<le> 0x39 \<or> 0x41 \<le> c \<and> c \<le> 0x5A \<or> 0x61 \<le> c \<and> c \<le> 0x7A \<or> c = 0x2D \<or> c = 0x5F"

definition ascii_lower :: "u8 \<Rightarrow> u8" where
  "ascii_lower c = (if 0x41 \<le> c \<and> c \<le> 0x5A then c + 0x20 else c)"

definition to_ascii_lowercase :: "bytes \<Rightarrow> bytes" where
  "to_ascii_lowercase s = map ascii_lower s"

definition strip_dot :: "bytes \<Rightarrow> bytes" where
  "strip_dot s = (if s \<noteq> [] \<and> last s = dot then butlast s else s)"

definition label_ok :: "bytes \<Rightarrow> bool" where
  "label_ok l \<longleftrightarrow> l \<noteq> [] \<and> length l \<le> 63 \<and> list_all host_byte l"

definition dns_normalize :: "bytes \<Rightarrow> resolve_error + bytes" where
  "dns_normalize input =
     (let name = strip_dot input in
      if name = [] \<or> 253 < length name \<or> list_ex (\<lambda>l. \<not> label_ok l) (split_dots name) then Inl InvalidName
      else Inr (to_ascii_lowercase name))"

section \<open>Queries\<close>

definition encode_label :: "bytes \<Rightarrow> bytes" where
  "encode_label l = word_of_nat (length l) # l"

definition dns_query :: "u16 \<Rightarrow> bytes \<Rightarrow> bytes" where
  "dns_query i name =
     u16_to_be_bytes i @ [1, 0, 0, 1, 0, 0, 0, 0, 0, 0] @ concat (map encode_label (split_dots name)) @ [0, 0, 1, 0, 1]"

section \<open>Reading\<close>

definition dns_word :: "bytes \<Rightarrow> nat \<Rightarrow> u16 option" where
  "dns_word b at = (if at + 2 \<le> length b then Some (read16 b at) else None)"

definition dns_long :: "bytes \<Rightarrow> nat \<Rightarrow> u32 option" where
  "dns_long b at = (if at + 4 \<le> length b then Some (read32 b at) else None)"

fun dns_name_loop :: "nat \<Rightarrow> bytes \<Rightarrow> nat \<Rightarrow> nat option \<Rightarrow> bytes \<Rightarrow> (bytes \<times> nat) option" where
  "dns_name_loop 0 b at fin out = None"
| "dns_name_loop (Suc rounds) b at fin out = do {
     len \<leftarrow> nth_opt b at;
     if len AND 0xC0 = 0xC0 then do {
       w \<leftarrow> dns_word b at;
       let target = unat (w AND 0x3FFF);
       if target < 12 \<or> at \<le> target then None
       else dns_name_loop rounds b target (Some (case fin of None \<Rightarrow> at + 2 | Some e \<Rightarrow> e)) out
     }
     else if len = 0 then Some (out, case fin of None \<Rightarrow> at + 1 | Some e \<Rightarrow> e)
     else if 63 < len then None
     else do {
       label \<leftarrow> slice_of (at + 1) (at + 1 + unat len) b;
       let out = (if out \<noteq> [] then out @ [dot] else out);
       if \<not> list_all host_byte label then None
       else
         (let out = out @ label in
          if 253 < length out then None else dns_name_loop rounds b (at + 1 + unat len) fin out)
     }
   }"

definition dns_name :: "bytes \<Rightarrow> nat \<Rightarrow> (bytes \<times> nat) option" where
  "dns_name b start = dns_name_loop 128 b start None []"

section \<open>Responses\<close>

text \<open>The resource records from index \<open>i\<close> on, of \<open>answers\<close> answers followed by \<open>authority\<close> authority records.\<close>

fun dns_records :: "nat \<Rightarrow> nat \<Rightarrow> nat \<Rightarrow> nat \<Rightarrow> bytes \<Rightarrow> nat \<Rightarrow> dns_record list \<Rightarrow> (dns_record list \<times> nat) option" where
  "dns_records 0 i answers authority b at rs = Some (rs, at)"
| "dns_records (Suc n) i answers authority b at rs = do {
     (owner, at) \<leftarrow> dns_name b at;
     kind \<leftarrow> dns_word b at;
     cls \<leftarrow> dns_word b (at + 2);
     ttl \<leftarrow> dns_long b (at + 4);
     len \<leftarrow> dns_word b (at + 8);
     let at = at + 10;
     let e = at + unat len;
     if \<not> e \<le> length b then None
     else
       (let rs = (if cls = 1 \<and> i < answers + authority
                  then rs @ [\<lparr>rr_owner = to_ascii_lowercase owner, rr_kind = kind,
                    rr_ttl = (if ttl AND 0x80000000 \<noteq> 0 then 0 else ttl), rr_start = at, rr_end = e, rr_authority = (answers \<le> i)\<rparr>]
                  else rs) in
        dns_records n (Suc i) answers authority b e rs)
   }"

type_synonym scan = "ipv4addr list \<times> bytes option \<times> u32"

text \<open>The address in the data of a record; the four indices and the subtraction of the length check can panic.\<close>

definition record_ip :: "bytes \<Rightarrow> dns_record \<Rightarrow> ipv4addr option" where
  "record_ip b rr = do {
     a0 \<leftarrow> nth_opt b (rr_start rr);
     a1 \<leftarrow> nth_opt b (rr_start rr + 1);
     a2 \<leftarrow> nth_opt b (rr_start rr + 2);
     a3 \<leftarrow> nth_opt b (rr_start rr + 3);
     Some (ip_of_octets [a0, a1, a2, a3])
   }"

fun scan_answers :: "bytes \<Rightarrow> dns_record list \<Rightarrow> scan \<Rightarrow> scan option option" where
  "scan_answers b [] s = Some (Some s)"
| "scan_answers b (rr # rs) (addresses, alias, ttl) =
     (if rr_kind rr = 1 then do {
        rust_assert (rr_start rr \<le> rr_end rr);
        if rr_end rr - rr_start rr \<noteq> 4 then Some None
        else do {
          ip \<leftarrow> record_ip b rr;
          scan_answers b rs (if ip \<in> set addresses then addresses else addresses @ [ip], alias, min ttl (rr_ttl rr))
        }
      }
      else if rr_kind rr = 5 then
        (case dns_name b (rr_start rr) of
           None \<Rightarrow> Some None
         | Some (target, e) \<Rightarrow>
             if e \<noteq> rr_end rr \<or> target = [] then Some None
             else
               (let target = to_ascii_lowercase target in
                if (case alias of None \<Rightarrow> False | Some old \<Rightarrow> old \<noteq> target) then Some None
                else scan_answers b rs (addresses, Some target, min ttl (rr_ttl rr))))
      else scan_answers b rs (addresses, alias, ttl))"

definition covers :: "bytes \<Rightarrow> bytes \<Rightarrow> bool" where
  "covers owner current \<longleftrightarrow> owner = [] \<or> current = owner \<or> suffix (dot # owner) current"

fun negative_ttl :: "bytes \<Rightarrow> bytes \<Rightarrow> u32 \<Rightarrow> dns_record list \<Rightarrow> u32 option \<Rightarrow> u32 option option" where
  "negative_ttl b current ttl [] acc = Some acc"
| "negative_ttl b current ttl (rr # rs) acc =
     (if \<not> covers (rr_owner rr) current then negative_ttl b current ttl rs acc
      else do {
        (_, at) \<leftarrow> dns_name b (rr_start rr);
        (_, at) \<leftarrow> dns_name b at;
        if at + 20 \<noteq> rr_end rr then None
        else do {
          minimum \<leftarrow> dns_long b (at + 16);
          let v = min (min (rr_ttl rr) minimum) ttl;
          negative_ttl b current ttl rs (Some (case acc of None \<Rightarrow> v | Some old \<Rightarrow> min old v))
        }
      })"

text \<open>The loop over the aliases of a response.\<close>

fun dns_chase :: "nat \<Rightarrow> bytes \<Rightarrow> u16 \<Rightarrow> bytes \<Rightarrow> dns_record list \<Rightarrow> bytes \<Rightarrow> bytes list \<Rightarrow> u32 \<Rightarrow> wire_answer option option" where
  "dns_chase 0 b flags question records current seen ttl = Some (Some (Failure AliasLimit))"
| "dns_chase (Suc rounds) b flags question records current seen ttl =
     (if current \<in> set seen then Some (Some (Failure AliasLimit))
      else do {
        let seen = seen @ [current];
        scanned \<leftarrow> scan_answers b (filter (\<lambda>r. \<not> rr_authority r \<and> rr_owner r = current) records) ([], None, ttl);
        case scanned of
          None \<Rightarrow> Some None
        | Some (addresses, alias, ttl) \<Rightarrow>
            if addresses \<noteq> [] then
              Some (if alias \<noteq> None \<or> flags AND 15 = 3 then None else Some (Addresses current addresses ttl))
            else
              (case alias of
                 Some target \<Rightarrow> dns_chase rounds b flags question records target seen ttl
               | None \<Rightarrow>
                   Some (do {
                     negative \<leftarrow> negative_ttl b current ttl (filter (\<lambda>r. rr_authority r \<and> rr_kind r = 6) records) None;
                     Some (if flags AND 15 = 3 then Negative NotFound negative
                           else if current \<noteq> question \<and> negative = None then Alias current ttl (length seen - 1)
                           else Negative NoData negative)
                   }))
      })"

text \<open>The checks up to the question, giving the flags and the position after the question.\<close>

definition dns_header :: "bytes \<Rightarrow> u16 \<Rightarrow> bytes \<Rightarrow> (u16 \<times> nat) option" where
  "dns_header b i question =
     (if length b < 12 \<or> 512 < length b then None
      else do {
        w \<leftarrow> dns_word b 0;
        if w \<noteq> i then None
        else do {
          flags \<leftarrow> dns_word b 2;
          if flags AND 0x8000 = 0 \<or> flags AND 0x7800 \<noteq> 0 \<or> flags AND 0x0040 \<noteq> 0 then None
          else do {
            questions \<leftarrow> dns_word b 4;
            if questions \<noteq> 1 then None
            else do {
              (q, at) \<leftarrow> dns_name b 12;
              if to_ascii_lowercase q \<noteq> to_ascii_lowercase question then None
              else do {
                kind \<leftarrow> dns_word b at;
                if kind \<noteq> 1 then None
                else do {
                  cls \<leftarrow> dns_word b (at + 2);
                  if cls \<noteq> 1 then None else Some (flags, at + 4)
                }
              }
            }
          }
        }
      })"

definition dns_sections :: "bytes \<Rightarrow> nat \<Rightarrow> dns_record list option" where
  "dns_sections b at = do {
     answers \<leftarrow> map_option unat (dns_word b 6);
     authority \<leftarrow> map_option unat (dns_word b 8);
     additional \<leftarrow> map_option unat (dns_word b 10);
     let total = answers + authority + additional;
     if 64 < total then None
     else do {
       (records, at) \<leftarrow> dns_records total 0 answers authority b at [];
       if at \<noteq> length b then None else Some records
     }
   }"

definition dns_response :: "bytes \<Rightarrow> u16 \<Rightarrow> bytes \<Rightarrow> nat \<Rightarrow> wire_answer option option" where
  "dns_response b i question alias_budget =
     (case dns_header b i question of
        None \<Rightarrow> Some None
      | Some (flags, at) \<Rightarrow>
          if flags AND 0x0200 \<noteq> 0 then Some (Some (Failure TcpRequired))
          else if flags AND 15 = 2 then Some (Some (Failure ServerFailure))
          else if flags AND 15 = 5 then Some (Some (Failure Refused))
          else if flags AND 15 \<noteq> 0 \<and> flags AND 15 \<noteq> 3 then Some (Some (Failure ProtocolError))
          else
            (case dns_sections b at of
               None \<Rightarrow> Some None
             | Some records \<Rightarrow>
                 dns_chase (min alias_budget 8 + 1) b flags question records question [] 0xFFFFFFFF))"

section \<open>Names and their encoding\<close>

lemma small_len:
  assumes "0 < k" and "k \<le> 63"
  shows "(word_of_nat k :: u8) AND 0xC0 \<noteq> 0xC0" and "(word_of_nat k :: u8) \<noteq> 0" and "\<not> 63 < (word_of_nat k :: u8)"
    and "unat (word_of_nat k :: u8) = k"
proof -
  have "list_all (\<lambda>k. (word_of_nat k :: u8) AND 0xC0 \<noteq> 0xC0) [0..<64]"
    by code_simp
  then show "(word_of_nat k :: u8) AND 0xC0 \<noteq> 0xC0"
    using assms by (simp add: list_all_iff)
  show u: "unat (word_of_nat k :: u8) = k"
    using assms by (simp add: unat_of_nat_u8)
  then show "(word_of_nat k :: u8) \<noteq> 0" "\<not> 63 < (word_of_nat k :: u8)"
    using assms by (auto simp: word_less_nat_alt)
qed

lemma unat_ascii_lower: "unat (ascii_lower c) = (if 0x41 \<le> unat c \<and> unat c \<le> 0x5A then unat c + 0x20 else unat c)"
  by (simp add: ascii_lower_def word_le_nat_alt unat_word_ariths)

lemma ascii_lower_host: "host_byte c \<Longrightarrow> host_byte (ascii_lower c)"
  by (auto simp: host_byte_def word_le_nat_alt unat_ascii_lower word_unat_eq_iff)

lemma ascii_lower_dot: "ascii_lower c = dot \<longleftrightarrow> c = dot"
  by (auto simp: dot_def word_unat_eq_iff unat_ascii_lower split: if_splits)

lemma ascii_lower_idem: "ascii_lower (ascii_lower c) = ascii_lower c"
  by (simp add: word_unat_eq_iff [of "ascii_lower (ascii_lower c)"] unat_ascii_lower)

lemma lowercase_idem [simp]: "to_ascii_lowercase (to_ascii_lowercase s) = to_ascii_lowercase s"
  by (simp add: to_ascii_lowercase_def ascii_lower_idem)

lemma length_lowercase [simp]: "length (to_ascii_lowercase s) = length s"
  by (simp add: to_ascii_lowercase_def)

lemma length_encode_label [simp]: "length (encode_label l) = Suc (length l)"
  by (simp add: encode_label_def)

lemma label_ok_lowercase: "label_ok l \<Longrightarrow> label_ok (to_ascii_lowercase l)"
  using ascii_lower_host by (auto simp: label_ok_def to_ascii_lowercase_def list_all_iff)

lemma split_dots_not_Nil [simp]: "split_dots s \<noteq> []"
  by (induction s) (auto split: list.split)

text \<open>What the parser accumulates from a list of labels.\<close>

definition join_from :: "bytes \<Rightarrow> bytes list \<Rightarrow> bytes" where
  "join_from out ls = foldl (\<lambda>out l. (if out \<noteq> [] then out @ [dot] else out) @ l) out ls"

lemma join_from_simps [simp]:
  "join_from out [] = out"
  "join_from out (l # ls) = join_from ((if out \<noteq> [] then out @ [dot] else out) @ l) ls"
  by (simp_all add: join_from_def)

lemma join_from_length: "length out \<le> length (join_from out ls)"
proof (induction ls arbitrary: out)
  case (Cons l ls)
  show ?case
    using Cons.IH [of "(if out \<noteq> [] then out @ [dot] else out) @ l"] by (auto split: if_split_asm)
qed simp

lemma join_from_prefix: "out \<noteq> [] \<Longrightarrow> join_from out ls = out @ concat (map (\<lambda>l. dot # l) ls)"
  by (induction ls arbitrary: out) simp_all

lemma join_split: "hd (split_dots s) @ concat (map (\<lambda>l. dot # l) (tl (split_dots s))) = s"
  by (induction s) (auto split: list.split)

lemma join_from_split: "list_all label_ok (split_dots s) \<Longrightarrow> join_from [] (split_dots s) = s"
  using join_split [of s] join_from_prefix [of "hd (split_dots s)" "tl (split_dots s)"]
  by (cases "split_dots s") (auto simp: label_ok_def)

lemma split_lengths: "length (concat (map encode_label (split_dots s))) = Suc (length s)"
  by (induction s) (auto simp: encode_label_def split: list.split)

lemma encoded_labels_length: "list_all label_ok ls \<Longrightarrow> 2 * length ls \<le> length (concat (map encode_label ls))"
proof (induction ls)
  case (Cons l ls)
  then show ?case
    by (cases l) (auto simp: encode_label_def label_ok_def)
qed simp

lemma split_lower: "split_dots (to_ascii_lowercase s) = map to_ascii_lowercase (split_dots s)"
  by (induction s) (auto simp: to_ascii_lowercase_def ascii_lower_dot split: list.split)

text \<open>The name fits the 128 rounds of the parser: the longest one has 127 labels of one byte.\<close>

lemma dns_name_loop_labels:
  assumes "list_all label_ok ls" and "length ls < rounds" and "length (join_from out ls) \<le> 253"
    and "b = pre @ concat (map encode_label ls) @ 0 # rest"
  shows "dns_name_loop rounds b (length pre) None out =
    Some (join_from out ls, length pre + length (concat (map encode_label ls)) + 1)"
  using assms
proof (induction ls arbitrary: rounds pre out)
  case Nil
  then show ?case
    by (cases rounds) (simp_all add: nth_opt_def)
next
  case (Cons l ls)
  obtain r where r: "rounds = Suc r" "length ls < r"
    using Cons.prems(2) by (cases rounds) auto
  have l: "0 < length l" "length l \<le> 63" "list_all host_byte l"
    using Cons.prems(1) by (auto simp: label_ok_def)
  let ?out = "(if out \<noteq> [] then out @ [dot] else out) @ l"
  let ?pre = "pre @ encode_label l"
  have b: "b = ?pre @ concat (map encode_label ls) @ 0 # rest"
    using Cons.prems(4) by simp
  have out: "length ?out \<le> 253"
    using join_from_length [of ?out ls] Cons.prems(3) by simp
  have first: "nth_opt b (length pre) = Some (word_of_nat (length l))"
    by (simp add: b encode_label_def nth_opt_def nth_append)
  have label: "slice_of (length pre + 1) (length pre + 1 + length l) b = Some l"
    by (simp add: b encode_label_def slice_of_def subslice_def)
  have "dns_name_loop r b (length ?pre) None ?out =
      Some (join_from ?out ls, length ?pre + length (concat (map encode_label ls)) + 1)"
    using Cons.prems r b by (intro Cons.IH) simp_all
  then show ?case
    using first label out small_len [OF l(1,2)] l(3)
    by (simp add: r(1) Let_def)
qed

lemma normalize_labels:
  assumes "dns_normalize input = Inr n"
  shows "list_all label_ok (split_dots n)" and "length n \<le> 253" and "to_ascii_lowercase n = n" and "n \<noteq> []"
proof -
  let ?m = "strip_dot input"
  have m: "list_all label_ok (split_dots ?m)" "length ?m \<le> 253" "n = to_ascii_lowercase ?m" "?m \<noteq> []"
    using assms by (auto simp: dns_normalize_def Let_def list_ex_iff list_all_iff split: if_split_asm)
  then show "length n \<le> 253" "to_ascii_lowercase n = n"
    by simp_all
  show "list_all label_ok (split_dots n)"
    using m(1) label_ok_lowercase by (auto simp: m(3) split_lower list_all_iff)
  show "n \<noteq> []"
    using m(3,4) by (simp add: to_ascii_lowercase_def)
qed

lemma dns_query_length: "length (dns_query i n) = length n + 18"
  by (simp add: dns_query_def split_lengths)

lemma dns_query_name:
  assumes "dns_normalize input = Inr n"
  shows "dns_name (dns_query i n) 12 = Some (n, length n + 14)"
proof -
  note n = normalize_labels [OF assms]
  let ?ls = "split_dots n"
  let ?pre = "u16_to_be_bytes i @ [1, 0, 0, 1, 0, 0, 0, 0, 0, 0]"
  have "2 * length ?ls \<le> 254"
    using encoded_labels_length [OF n(1)] split_lengths [of n] n(2) by simp
  then have "length ?ls < 128"
    by simp
  moreover have "dns_query i n = ?pre @ concat (map encode_label ?ls) @ 0 # [0, 1, 0, 1]"
    by (simp add: dns_query_def)
  ultimately have "dns_name_loop 128 (dns_query i n) (length ?pre) None [] =
      Some (join_from [] ?ls, length ?pre + length (concat (map encode_label ?ls)) + 1)"
    using n(1,2) join_from_split [OF n(1)] by (intro dns_name_loop_labels) simp_all
  then show ?thesis
    using join_from_split [OF n(1)] by (simp add: dns_name_def split_lengths)
qed

section \<open>The response parser never panics\<close>

definition record_inv :: "bytes \<Rightarrow> dns_record \<Rightarrow> bool" where
  "record_inv b rr \<longleftrightarrow> rr_start rr \<le> rr_end rr \<and> rr_end rr \<le> length b"

lemma dns_records_inv:
  assumes "dns_records n i answers authority b at rs = Some (rs', at')" and "list_all (record_inv b) rs"
  shows "list_all (record_inv b) rs'"
  using assms
proof (induction n arbitrary: i at rs)
  case (Suc n)
  then show ?case
    by (auto simp: bind_eq_Some_conv Let_def record_inv_def split: if_split_asm)
qed simp

lemma record_ip_some: "record_inv b rr \<Longrightarrow> rr_end rr - rr_start rr = 4 \<Longrightarrow> \<exists>ip. record_ip b rr = Some ip"
  unfolding record_ip_def nth_opt_def record_inv_def by (cases "rr_start rr + 3 < length b") auto

lemma scan_answers_some:
  assumes "list_all (record_inv b) rs"
  shows "\<exists>r. scan_answers b rs s = Some r"
  using assms
proof (induction rs arbitrary: s)
  case (Cons rr rs)
  obtain addresses al ttl where s: "s = (addresses, al, ttl)"
    by (cases s) auto
  have inv: "record_inv b rr" and IH: "\<exists>r. scan_answers b rs s = Some r" for s
    using Cons by simp_all
  consider (a) "rr_kind rr = 1" | (cname) "rr_kind rr = 5" | (other) "rr_kind rr \<noteq> 1" "rr_kind rr \<noteq> 5"
    by blast
  then show ?case
  proof cases
    case a
    then show ?thesis
      using record_ip_some [OF inv] IH inv by (auto simp: s rust_assert_def record_inv_def)
  next
    case cname
    then show ?thesis
      using IH by (simp add: s Let_def split: option.split prod.split)
  qed (use IH in \<open>simp add: s\<close>)
qed simp

lemma dns_chase_some:
  assumes "list_all (record_inv b) records"
  shows "\<exists>r. dns_chase rounds b flags question records current seen ttl = Some r"
proof (induction rounds arbitrary: current seen ttl)
  case (Suc rounds)
  obtain r where r: "scan_answers b (filter (\<lambda>r. \<not> rr_authority r \<and> rr_owner r = current) records) ([], None, ttl) = Some r"
    using scan_answers_some [of b "filter (\<lambda>r. \<not> rr_authority r \<and> rr_owner r = current) records"] assms
    by (fastforce simp: list_all_iff)
  show ?case
    using Suc.IH by (simp add: r Let_def split: option.split prod.split)
qed simp

lemma dns_sections_inv: "dns_sections b at = Some records \<Longrightarrow> list_all (record_inv b) records"
  by (auto simp: dns_sections_def bind_eq_Some_conv Let_def dest!: dns_records_inv split: if_split_asm)

lemma dns_response_some: "\<exists>r. dns_response b i question alias_budget = Some r"
  using dns_chase_some [OF dns_sections_inv] by (auto simp: dns_response_def simp del: dns_chase.simps split: option.split)

section \<open>Where the addresses of an answer come from\<close>

text \<open>
  A record of the answer section that makes \<open>target\<close> the alias target of \<open>name\<close>, a chain of such records, and
  the address and alias records of the names of a chain, whose lifetimes the answer has to respect.
\<close>

definition alias_to :: "bytes \<Rightarrow> dns_record list \<Rightarrow> bytes \<Rightarrow> bytes \<Rightarrow> bool" where
  "alias_to b records name target \<longleftrightarrow> (\<exists>rr \<in> set records. \<exists>t. \<not> rr_authority rr \<and> rr_owner rr = name \<and> rr_kind rr = 5 \<and>
     dns_name b (rr_start rr) = Some (t, rr_end rr) \<and> target = to_ascii_lowercase t)"

fun alias_chain :: "bytes \<Rightarrow> dns_record list \<Rightarrow> bytes list \<Rightarrow> bool" where
  "alias_chain b records (name # target # names) \<longleftrightarrow> alias_to b records name target \<and> alias_chain b records (target # names)"
| "alias_chain b records names \<longleftrightarrow> length names = 1"

definition chain_records :: "dns_record list \<Rightarrow> bytes list \<Rightarrow> dns_record set" where
  "chain_records records names =
     {rr \<in> set records. \<not> rr_authority rr \<and> rr_owner rr \<in> set names \<and> (rr_kind rr = 1 \<or> rr_kind rr = 5)}"

definition name_addresses :: "bytes \<Rightarrow> dns_record list \<Rightarrow> bytes \<Rightarrow> ipv4addr set" where
  "name_addresses b records name =
     {ip. \<exists>rr \<in> set records. \<not> rr_authority rr \<and> rr_owner rr = name \<and> rr_kind rr = 1 \<and> record_ip b rr = Some ip}"

text \<open>\<open>t\<close> is the least of \<open>t0\<close> and the lifetimes of some records.\<close>

definition least_ttl :: "u32 \<Rightarrow> dns_record set \<Rightarrow> u32 \<Rightarrow> bool" where
  "least_ttl t0 rs t \<longleftrightarrow> t \<le> t0 \<and> (\<forall>rr \<in> rs. t \<le> rr_ttl rr) \<and> (t = t0 \<or> (\<exists>rr \<in> rs. t = rr_ttl rr))"

lemma least_ttl_insert: "least_ttl (min t0 (rr_ttl rr)) rs t \<Longrightarrow> least_ttl t0 (insert rr rs) t"
  by (auto simp: least_ttl_def min_def split: if_split_asm)

lemma least_ttl_union: "least_ttl t0 rs t \<Longrightarrow> least_ttl t rs' t' \<Longrightarrow> least_ttl t0 (rs \<union> rs') t'"
  by (auto simp: least_ttl_def)

lemma scan_answers_sound:
  assumes "scan_answers b rs (addresses, al, ttl) = Some (Some (addresses', al', ttl'))" and "distinct addresses"
  shows "distinct addresses' \<and> set addresses' = set addresses \<union> {ip. \<exists>rr \<in> set rs. rr_kind rr = 1 \<and> record_ip b rr = Some ip} \<and>
    least_ttl ttl {rr \<in> set rs. rr_kind rr = 1 \<or> rr_kind rr = 5} ttl' \<and>
    (\<forall>target. al' = Some target \<longrightarrow> al = Some target \<or>
       (\<exists>rr \<in> set rs. \<exists>t. rr_kind rr = 5 \<and> dns_name b (rr_start rr) = Some (t, rr_end rr) \<and> target = to_ascii_lowercase t))"
  using assms
proof (induction rs arbitrary: addresses al ttl)
  case Nil
  then show ?case
    by (simp add: least_ttl_def)
next
  case (Cons rr rs)
  let ?least = "\<lambda>rs. {rr \<in> set rs. rr_kind rr = 1 \<or> rr_kind rr = 5}"
  consider (a) "rr_kind rr = 1" | (cname) "rr_kind rr = 5" | (other) "rr_kind rr \<noteq> 1" "rr_kind rr \<noteq> 5"
    by blast
  then show ?case
  proof cases
    case a
    then obtain ip where ip: "record_ip b rr = Some ip"
        "scan_answers b rs (if ip \<in> set addresses then addresses else addresses @ [ip], al, min ttl (rr_ttl rr)) =
          Some (Some (addresses', al', ttl'))"
      using Cons.prems(1) by (auto simp: rust_assert_def bind_eq_Some_conv split: if_split_asm)
    have dist: "distinct (if ip \<in> set addresses then addresses else addresses @ [ip])"
      using Cons.prems(2) by simp
    note IH = Cons.IH [OF ip(2) dist]
    have "?least (rr # rs) = insert rr (?least rs)"
      using a by auto
    then have "least_ttl ttl (?least (rr # rs)) ttl'"
      using IH least_ttl_insert by simp
    moreover have "set addresses' = set addresses \<union> {ip. \<exists>rr \<in> set (rr # rs). rr_kind rr = 1 \<and> record_ip b rr = Some ip}"
      using IH a ip(1) by (auto split: if_split_asm)
    ultimately show ?thesis
      using IH by auto
  next
    case cname
    then obtain name where name: "dns_name b (rr_start rr) = Some (name, rr_end rr)"
        "scan_answers b rs (addresses, Some (to_ascii_lowercase name), min ttl (rr_ttl rr)) = Some (Some (addresses', al', ttl'))"
      using Cons.prems(1) by (auto simp: Let_def split: option.split_asm if_split_asm prod.split_asm)
    note IH = Cons.IH [OF name(2) Cons.prems(2)]
    have "?least (rr # rs) = insert rr (?least rs)"
      using cname by auto
    then have "least_ttl ttl (?least (rr # rs)) ttl'"
      using IH least_ttl_insert by simp
    then show ?thesis
      using IH cname name(1) by auto
  next
    case other
    then have "scan_answers b rs (addresses, al, ttl) = Some (Some (addresses', al', ttl'))"
      using Cons.prems(1) by simp
    note IH = Cons.IH [OF this Cons.prems(2)]
    have "?least (rr # rs) = ?least rs"
      using other by auto
    then show ?thesis
      using IH other by auto
  qed
qed

lemma dns_chase_sound:
  assumes "dns_chase rounds b flags question records current seen ttl = Some (Some (Addresses canonical addresses least))"
  shows "\<exists>names. alias_chain b records (current # names) \<and> last (current # names) = canonical \<and>
    length names < rounds \<and> distinct (current # names) \<and> set (current # names) \<inter> set seen = {} \<and>
    addresses \<noteq> [] \<and> distinct addresses \<and> set addresses = name_addresses b records canonical \<and>
    least_ttl ttl (chain_records records (current # names)) least"
  using assms
proof (induction rounds arbitrary: current seen ttl)
  case (Suc rounds)
  let ?rs = "filter (\<lambda>r. \<not> rr_authority r \<and> rr_owner r = current) records"
  have new: "current \<notin> set seen"
    using Suc.prems by auto
  obtain x where x: "scan_answers b ?rs ([], None, ttl) = Some x"
    using Suc.prems new by (cases "scan_answers b ?rs ([], None, ttl)") (simp_all add: Let_def)
  then obtain as al t where scan: "scan_answers b ?rs ([], None, ttl) = Some (Some (as, al, t))"
    using Suc.prems new by (cases x) (auto simp: Let_def)
  note sound = scan_answers_sound [OF scan distinct.simps(1) [THEN iffD2, OF TrueI]]
  have own: "{rr \<in> set ?rs. rr_kind rr = 1 \<or> rr_kind rr = 5} = chain_records records [current]"
    by (auto simp: chain_records_def)
  have t: "least_ttl ttl (chain_records records [current]) t"
    using sound unfolding own by blast
  show ?case
  proof (cases "as = []")
    case True
    then obtain target where al: "al = Some target"
        "dns_chase rounds b flags question records target (seen @ [current]) t = Some (Some (Addresses canonical addresses least))"
      using Suc.prems scan new by (cases al) (auto simp: Let_def bind_eq_Some_conv split: if_split_asm)
    obtain names where n: "alias_chain b records (target # names)" "last (target # names) = canonical" "length names < rounds"
        "distinct (target # names)" "set (target # names) \<inter> set (seen @ [current]) = {}" "addresses \<noteq> []" "distinct addresses"
        "set addresses = name_addresses b records canonical" "least_ttl t (chain_records records (target # names)) least"
      using Suc.IH [OF al(2)] by blast
    have "alias_to b records current target"
      using sound al(1) by (auto simp: alias_to_def)
    moreover have "chain_records records (current # target # names) = chain_records records [current] \<union> chain_records records (target # names)"
      by (auto simp: chain_records_def)
    ultimately show ?thesis
      using n new least_ttl_union [OF t n(9)] by (intro exI [of _ "target # names"]) auto
  next
    case False
    then have eq: "canonical = current" "addresses = as" "least = t"
      using Suc.prems scan new by (auto simp: Let_def split: if_split_asm)
    have "set as = name_addresses b records current"
      using sound by (auto simp: name_addresses_def)
    then show ?thesis
      using False eq sound t new by (intro exI [of _ "[]"]) simp
  qed
qed simp

section \<open>Properties\<close>

text \<open>
  C24. The response parser never panics and its loops end, whatever the bytes are: compression pointers, record
  counts and alias chains are all bounded.
\<close>

theorem dns_response_total: "\<exists>r. dns_response b i question alias_budget = Some r"
  by (rule dns_response_some)

text \<open>
  C23. A query carries exactly the name: for every name the normalization accepts, the name parser reads the
  question of the query back as that name and stops right after it, also for the longest names, and the query fits
  a classic DNS packet.
\<close>

theorem dns_query_roundtrip:
  assumes "dns_normalize input = Inr name"
  shows "dns_name (dns_query i name) 12 = Some (name, length name + 14) \<and> length (dns_query i name) = length name + 18 \<and>
    length (dns_query i name) \<le> 512"
  using dns_query_name [OF assms] normalize_labels(2) [OF assms] by (simp add: dns_query_length)

text \<open>\<^verbatim>\<open>Ab.c\<close> with a trailing dot.\<close>

theorem dns_query_roundtrip_witness:
  "dns_normalize [0x41, 0x62, 0x2E, 0x63, 0x2E] = Inr [0x61, 0x62, 0x2E, 0x63] \<and>
   dns_name (dns_query 7 [0x61, 0x62, 0x2E, 0x63]) 12 = Some ([0x61, 0x62, 0x2E, 0x63], 18)"
proof -
  have "dns_normalize [0x41, 0x62, 0x2E, 0x63, 0x2E] = Inr [0x61, 0x62, 0x2E, 0x63]"
    by (simp add: dns_normalize_def strip_dot_def dot_def label_ok_def host_byte_def to_ascii_lowercase_def ascii_lower_def)
  from dns_query_roundtrip [OF this, of 7] this show ?thesis
    by simp
qed

text \<open>
  C22. Addresses come from the packet and belong to the question: a chain of at most nine distinct names, bounded by the
  alias budget, leads from the question to the canonical name through alias records of the answer section. The
  addresses are distinct and exactly those of the address records of the canonical name there, and the reported lifetime
  is exactly the least among all address and alias records of the names of the chain: it exceeds none of theirs.
\<close>

theorem dns_answer_sound:
  assumes "dns_response b i question alias_budget = Some (Some (Addresses canonical addresses ttl))"
  shows "\<exists>flags at records names. dns_header b i question = Some (flags, at) \<and> dns_sections b at = Some records \<and>
    alias_chain b records (question # names) \<and> last (question # names) = canonical \<and> distinct (question # names) \<and>
    length names \<le> min alias_budget 8 \<and> addresses \<noteq> [] \<and> distinct addresses \<and>
    (\<forall>ip. ip \<in> set addresses \<longleftrightarrow> (\<exists>rr \<in> set records. \<not> rr_authority rr \<and> rr_owner rr = canonical \<and> rr_kind rr = 1 \<and>
       record_ip b rr = Some ip)) \<and>
    (\<forall>rr \<in> set records. \<not> rr_authority rr \<and> rr_owner rr \<in> set (question # names) \<and> (rr_kind rr = 1 \<or> rr_kind rr = 5) \<longrightarrow>
       ttl \<le> rr_ttl rr) \<and>
    (\<exists>rr \<in> set records. \<not> rr_authority rr \<and> rr_owner rr \<in> set (question # names) \<and> (rr_kind rr = 1 \<or> rr_kind rr = 5) \<and>
       ttl = rr_ttl rr)"
proof -
  obtain flags at records where r: "dns_header b i question = Some (flags, at)" "dns_sections b at = Some records"
      "dns_chase (min alias_budget 8 + 1) b flags question records question [] 0xFFFFFFFF =
        Some (Some (Addresses canonical addresses ttl))"
    using assms by (auto simp: dns_response_def simp del: dns_chase.simps split: option.split_asm if_split_asm)
  obtain names where n: "alias_chain b records (question # names)" "last (question # names) = canonical"
      "length names < min alias_budget 8 + 1" "distinct (question # names)" "addresses \<noteq> []" "distinct addresses"
      "set addresses = name_addresses b records canonical" "least_ttl 0xFFFFFFFF (chain_records records (question # names)) ttl"
    using dns_chase_sound [OF r(3)] by blast
  have ips: "ip \<in> set addresses \<longleftrightarrow> (\<exists>rr \<in> set records. \<not> rr_authority rr \<and> rr_owner rr = canonical \<and> rr_kind rr = 1 \<and>
      record_ip b rr = Some ip)" for ip
    by (simp add: n(7) name_addresses_def)
  have low: "ttl \<le> rr_ttl rr" if "rr \<in> chain_records records (question # names)" for rr
    using n(8) that by (simp add: least_ttl_def)
  have "\<exists>rr \<in> chain_records records (question # names). ttl = rr_ttl rr"
  proof (cases "ttl = 0xFFFFFFFF")
    case True
    obtain ip where "ip \<in> set addresses"
      using n(5) by (cases addresses) auto
    moreover have "canonical \<in> set (question # names)"
      using n(2) last_in_set [of "question # names"] by simp
    ultimately obtain rr where rr: "rr \<in> chain_records records (question # names)"
      using ips by (auto simp: chain_records_def)
    have "(0xFFFFFFFF :: u32) = - 1"
      by simp
    then have "rr_ttl rr \<le> 0xFFFFFFFF"
      by (simp only: word_order.extremum)
    then show ?thesis
      using low [OF rr] rr True by (intro bexI [OF _ rr]) simp
  qed (use n(8) in \<open>auto simp: least_ttl_def\<close>)
  then have least: "\<exists>rr \<in> set records. \<not> rr_authority rr \<and> rr_owner rr \<in> set (question # names) \<and> (rr_kind rr = 1 \<or> rr_kind rr = 5) \<and>
      ttl = rr_ttl rr"
    by (auto simp: chain_records_def)
  have low': "\<forall>rr \<in> set records. \<not> rr_authority rr \<and> rr_owner rr \<in> set (question # names) \<and> (rr_kind rr = 1 \<or> rr_kind rr = 5) \<longrightarrow>
      ttl \<le> rr_ttl rr"
    using low by (simp add: chain_records_def)
  have "length names \<le> min alias_budget 8"
    using n(3) by linarith
  then show ?thesis
    using r(1,2) n(1,2,4-6) ips least low' by blast
qed

text \<open>A response with one address record, 10.0.0.9 for \<^verbatim>\<open>a\<close>.\<close>

definition demo_dns_response :: bytes where
  "demo_dns_response = [0, 7, 0x80, 0, 0, 1, 0, 1, 0, 0, 0, 0, 1, 0x61, 0, 0, 1, 0, 1,
     0xC0, 12, 0, 1, 0, 1, 0, 0, 0, 60, 0, 4, 10, 0, 0, 9]"

lemma demo_dns_words:
  "dns_word demo_dns_response 0 = Some 7" "dns_word demo_dns_response 2 = Some 0x8000" "dns_word demo_dns_response 4 = Some 1"
  "dns_word demo_dns_response 6 = Some 1" "dns_word demo_dns_response 8 = Some 0" "dns_word demo_dns_response 10 = Some 0"
  "dns_word demo_dns_response 15 = Some 1" "dns_word demo_dns_response 17 = Some 1"
  "dns_word demo_dns_response 19 = Some 0xC00C" "dns_word demo_dns_response 21 = Some 1" "dns_word demo_dns_response 23 = Some 1"
  "dns_word demo_dns_response 29 = Some 4" "dns_long demo_dns_response 25 = Some 60" "length demo_dns_response = 35"
  by (simp_all add: demo_dns_response_def dns_word_def dns_long_def read16_def read32_def u16_from_be_bytes_def u32_from_be_bytes_def)

lemma demo_dns_names:
  "dns_name demo_dns_response 12 = Some ([0x61], 15)" "dns_name demo_dns_response 19 = Some ([0x61], 21)"
proof -
  have bytes: "nth_opt demo_dns_response 12 = Some 1" "nth_opt demo_dns_response 14 = Some 0"
      "nth_opt demo_dns_response 19 = Some 0xC0" "slice_of 13 14 demo_dns_response = Some [0x61]"
    by (simp_all add: demo_dns_response_def nth_opt_def slice_of_def subslice_def)
  have name: "dns_name_loop (Suc (Suc rounds)) demo_dns_response 12 fin [] = Some ([0x61], case fin of None \<Rightarrow> 15 | Some e \<Rightarrow> e)"
    for rounds fin
    by (simp add: bytes host_byte_def split: option.split)
  have "dns_name_loop (Suc (Suc (Suc rounds))) demo_dns_response 19 None [] = Some ([0x61], 21)" for rounds
    using name [of rounds "Some 21"] by (subst dns_name_loop.simps(2)) (simp add: bytes demo_dns_words)
  from name [of 126 None] this [of 125] show "dns_name demo_dns_response 12 = Some ([0x61], 15)"
      "dns_name demo_dns_response 19 = Some ([0x61], 21)"
    by (simp_all add: dns_name_def)
qed

lemma demo_dns_header: "dns_header demo_dns_response 7 [0x61] = Some (0x8000, 19)"
  by (simp add: dns_header_def demo_dns_names demo_dns_words)

lemma demo_dns_sections:
  "dns_sections demo_dns_response 19 =
     Some [\<lparr>rr_owner = [0x61], rr_kind = 1, rr_ttl = 60, rr_start = 31, rr_end = 35, rr_authority = False\<rparr>]"
  by (simp add: dns_sections_def demo_dns_names demo_dns_words to_ascii_lowercase_def ascii_lower_def)

lemma demo_dns_response_parses: "dns_response demo_dns_response 7 [0x61] 8 = Some (Some (Addresses [0x61] [0x0A000009] 60))"
proof -
  have "record_ip demo_dns_response
      \<lparr>rr_owner = [0x61], rr_kind = 1, rr_ttl = 60, rr_start = 31, rr_end = 35, rr_authority = False\<rparr> = Some 0x0A000009"
    by (simp add: record_ip_def nth_opt_def demo_dns_response_def ip_of_octets_def read32_def u32_from_be_bytes_def)
  then have "dns_chase (Suc rounds) demo_dns_response 0x8000 [0x61]
      [\<lparr>rr_owner = [0x61], rr_kind = 1, rr_ttl = 60, rr_start = 31, rr_end = 35, rr_authority = False\<rparr>] [0x61] [] 0xFFFFFFFF =
      Some (Some (Addresses [0x61] [0x0A000009] 60))" for rounds
    by (simp add: rust_assert_def Let_def)
  from this [of 8] show ?thesis
    by (simp add: dns_response_def demo_dns_header demo_dns_sections)
qed

theorem dns_answer_sound_witness:
  "\<exists>flags at records names. dns_header demo_dns_response 7 [0x61] = Some (flags, at) \<and>
     dns_sections demo_dns_response at = Some records \<and> alias_chain demo_dns_response records ([0x61] # names) \<and>
     (\<exists>rr \<in> set records. 60 = rr_ttl rr)"
  using dns_answer_sound [OF demo_dns_response_parses] by blast

end
