(* ===== verification/Dns_Resolver.thy ===== *)
theory Dns_Resolver
  imports Udp_Pool Dns_Wire "HOL-Library.List_Lexorder"
begin

text \<open>
  \<^verbatim>\<open>src/dns/mod.rs\<close>: the poll-driven stub resolver over the UDP pool, with pending lookups, retries over the
  configured servers, alias chasing across responses, a cache and the queue of completions. The source of random
  bytes is a parameter, a function from the number of earlier reads to four bytes or an error. Cache keys are
  ordered bytewise, as strings are. The scratch vector \<^verbatim>\<open>incoming\<close> is empty between polls and is a value inside
  \<open>rv_poll\<close>. \<^verbatim>\<open>Answer\<close> of this file is \<open>dns_answer\<close>; the type of the same name in the codec is
  \<open>wire_answer\<close>. Statistics wrap as \<^verbatim>\<open>u64\<close>.
\<close>

section \<open>Types\<close>

type_synonym query_id = u64

record dns_answer =
  an_canonical_name :: bytes
  an_addresses :: "ipv4addr list"
  an_expires_at :: duration

type_synonym resolve_result = "resolve_error + dns_answer"

record completion =
  cp_id :: query_id
  cp_name :: bytes
  cp_generation :: u64
  cp_from_cache :: bool
  cp_result :: resolve_result

record network_config =
  nc_local_address :: ipv4addr
  nc_servers :: "sockaddr list"

definition nc_unicast :: "ipv4addr \<Rightarrow> bool" where
  "nc_unicast ip \<longleftrightarrow> \<not> is_unspecified ip \<and> \<not> is_multicast ip \<and> \<not> is_broadcast ip"

definition network_validate :: "network_config \<Rightarrow> unit io_result" where
  "network_validate n =
     (if \<not> nc_unicast (nc_local_address n) \<or> nc_servers n = [] \<or> 8 < length (nc_servers n) \<or>
         list_ex (\<lambda>s. sa_port s = 0 \<or> \<not> nc_unicast (sa_ip s)) (nc_servers n)
      then Inl InvalidInput else Inr ())"

record resolver_config =
  rc_capacity :: nat
  rc_cache_capacity :: nat
  rc_max_cache_ttl :: duration
  rc_lookup_timeout :: duration
  rc_attempt_timeout :: duration
  rc_attempts_per_name :: nat
  rc_receive_budget :: nat

definition resolver_config_default :: resolver_config where
  "resolver_config_default =
     \<lparr>rc_capacity = 64, rc_cache_capacity = 128, rc_max_cache_ttl = from_secs 3600, rc_lookup_timeout = from_secs 10,
      rc_attempt_timeout = from_secs 1, rc_attempts_per_name = 3, rc_receive_budget = 64\<rparr>"

record resolver_stats =
  rs_queries_submitted :: u64
  rs_cache_hits :: u64
  rs_ignored_responses :: u64
  rs_malformed_responses :: u64
  rs_completed :: u64

definition resolver_stats_default :: resolver_stats where
  "resolver_stats_default = \<lparr>rs_queries_submitted = 0, rs_cache_hits = 0, rs_ignored_responses = 0, rs_malformed_responses = 0,
     rs_completed = 0\<rparr>"

record pending_query =
  pq_original :: bytes
  pq_question :: bytes
  pq_aliases :: "bytes list"
  pq_alias_expires :: "duration option"
  pq_deadline :: duration
  pq_next :: duration
  pq_attempts :: nat
  pq_local :: "sockaddr option"
  pq_server :: sockaddr
  pq_wire_id :: u16
  pq_datagram :: "datagram_id option"

record cached =
  ca_expires :: duration
  ca_result :: resolve_result

record incoming =
  in_source :: sockaddr
  in_destination :: sockaddr
  in_payload :: bytes

record 'd udp_resolver =
  rv_pool :: "'d udp_pool"
  rv_config :: resolver_config
  rv_network :: network_config
  rv_draws :: nat
  rv_pending :: "(query_id, pending_query) btree_map"
  rv_results :: "completion list"
  rv_cache :: "(bytes, cached) btree_map"
  rv_now :: duration
  rv_generation :: u64
  rv_next_id :: u64
  rv_stats :: resolver_stats

type_synonym random_source = "nat \<Rightarrow> (u8 \<times> u8 \<times> u8 \<times> u8) io_result"

section \<open>Construction\<close>

definition limits_valid :: "resolver_config \<Rightarrow> bool" where
  "limits_valid cfg \<longleftrightarrow>
     \<not> (rc_capacity cfg = 0 \<or> 4096 < rc_capacity cfg \<or> 4096 < rc_cache_capacity cfg \<or> rc_lookup_timeout cfg = 0 \<or>
        rc_attempt_timeout cfg = 0 \<or> rc_attempts_per_name cfg = 0 \<or> 16 < rc_attempts_per_name cfg \<or>
        rc_receive_budget cfg = 0 \<or> 256 < rc_receive_budget cfg)"

definition resolver_udp_config :: "resolver_config \<Rightarrow> udp_config" where
  "resolver_udp_config cfg =
     udp_config_default\<lparr>uc_queue_capacity := rc_capacity cfg, uc_service_capacity := rc_capacity cfg, uc_max_tx_peers := 8,
       uc_per_peer_capacity := rc_capacity cfg, uc_tx_budget := rc_capacity cfg,
       uc_queue_lifetime := Some (rc_attempt_timeout cfg), uc_event_capacity := rc_capacity cfg * 4, uc_fair_queue := True\<rparr>"

text \<open>\<open>opened\<close> is the result of opening the source of randomness.\<close>

definition udp_resolver_new ::
  "unit io_result \<Rightarrow> 'd \<Rightarrow> network_config \<Rightarrow> resolver_config \<Rightarrow> 'd udp_resolver io_result"
where
  "udp_resolver_new opened d network cfg =
     (case network_validate network of
        Inl e \<Rightarrow> Inl e
      | Inr _ \<Rightarrow>
          if \<not> limits_valid cfg then Inl InvalidInput
          else
            (case opened of
               Inl e \<Rightarrow> Inl e
             | Inr _ \<Rightarrow>
                 (case udp_with_config d (resolver_udp_config cfg) of
                    Inl e \<Rightarrow> Inl e
                  | Inr pool \<Rightarrow>
                      Inr \<lparr>rv_pool = pool, rv_config = cfg, rv_network = network, rv_draws = 0, rv_pending = [], rv_results = [],
                        rv_cache = [], rv_now = 0, rv_generation = 0, rv_next_id = 1, rv_stats = resolver_stats_default\<rparr>)))"

section \<open>Finishing a lookup\<close>

definition rv_close ::
  "'d device_ops \<Rightarrow> pending_query \<Rightarrow> 'd udp_resolver \<Rightarrow> (pending_query \<times> 'd udp_resolver) option"
where
  "rv_close ops q rv =
     (case pq_local q of
        None \<Rightarrow> Some (q\<lparr>pq_datagram := None\<rparr>, rv)
      | Some local \<Rightarrow> do {
          (_, pool) \<leftarrow> up_unbind ops local (rv_pool rv);
          Some (q\<lparr>pq_local := None, pq_datagram := None\<rparr>, rv\<lparr>rv_pool := pool\<rparr>)
        })"

definition evict_oldest :: "(bytes, cached) btree_map \<Rightarrow> (bytes, cached) btree_map" where
  "evict_oldest c = (if c = [] then c else bt_remove (fst (arg_min_list (\<lambda>e. ca_expires (snd e)) c)) c)"

definition cache_insert ::
  "resolver_config \<Rightarrow> duration \<Rightarrow> bytes \<Rightarrow> resolve_result \<Rightarrow> duration \<Rightarrow> (bytes, cached) btree_map \<Rightarrow> (bytes, cached) btree_map"
where
  "cache_insert cfg now name result ttl c =
     (let expires = saturating_add now (min ttl (rc_max_cache_ttl cfg)) in
      if now < expires \<and> 0 < rc_cache_capacity cfg
      then bt_insert name \<lparr>ca_expires = expires, ca_result = result\<rparr>
             (if rc_cache_capacity cfg \<le> length c then evict_oldest c else c)
      else c)"

definition count_completed :: "'d udp_resolver \<Rightarrow> 'd udp_resolver" where
  "count_completed rv = rv\<lparr>rv_stats := (rv_stats rv)\<lparr>rs_completed := rs_completed (rv_stats rv) + 1\<rparr>\<rparr>"

definition rv_finish ::
  "'d device_ops \<Rightarrow> query_id \<Rightarrow> resolve_result \<Rightarrow> duration option \<Rightarrow> 'd udp_resolver \<Rightarrow> 'd udp_resolver option"
where
  "rv_finish ops i result ttl rv =
     (case bt_get (rv_pending rv) i of
        None \<Rightarrow> Some rv
      | Some q \<Rightarrow> do {
          (q, rv) \<leftarrow> rv_close ops q (rv\<lparr>rv_pending := bt_remove i (rv_pending rv)\<rparr>);
          let rv = (case ttl of
                      None \<Rightarrow> rv
                    | Some ttl \<Rightarrow> rv\<lparr>rv_cache := cache_insert (rv_config rv) (rv_now rv) (pq_original q) result ttl (rv_cache rv)\<rparr>);
          let rv = count_completed rv;
          Some (rv\<lparr>rv_results := rv_results rv @ [\<lparr>cp_id = i, cp_name = pq_original q, cp_generation = rv_generation rv,
            cp_from_cache = False, cp_result = result\<rparr>]\<rparr>)
        })"

section \<open>Attempts\<close>

text \<open>At most 32 reads of the random source look for a free local port.\<close>

fun attempt_loop ::
  "nat \<Rightarrow> 'd device_ops \<Rightarrow> random_source \<Rightarrow> pending_query \<Rightarrow> 'd udp_resolver \<Rightarrow> (unit io_result \<times> pending_query \<times> 'd udp_resolver) option"
where
  "attempt_loop 0 ops random q rv = Some (Inl WouldBlock, q, rv)"
| "attempt_loop (Suc rounds) ops random q rv =
     (case random (rv_draws rv) of
        Inl e \<Rightarrow> Some (Inl e, q, rv\<lparr>rv_draws := Suc (rv_draws rv)\<rparr>)
      | Inr (r0, r1, r2, r3) \<Rightarrow>
          (let rv = rv\<lparr>rv_draws := Suc (rv_draws rv)\<rparr>;
               port = u16_from_be_bytes r2 r3;
               local = SocketAddrV4 (nc_local_address (rv_network rv)) port in
           if port < 1024 then attempt_loop rounds ops random q rv
           else
             (case up_bind \<lparr>sv_address = local, sv_id = 0\<rparr> (rv_pool rv) of
                (Inl e, pool) \<Rightarrow>
                  if e = AddrInUse then attempt_loop rounds ops random q (rv\<lparr>rv_pool := pool\<rparr>)
                  else Some (Inl e, q, rv\<lparr>rv_pool := pool\<rparr>)
              | (Inr _, pool) \<Rightarrow> do {
                  let q = q\<lparr>pq_local := Some local, pq_wire_id := u16_from_be_bytes r0 r1\<rparr>;
                  rust_assert (nc_servers (rv_network rv) \<noteq> []);
                  server \<leftarrow> nth_opt (nc_servers (rv_network rv)) (pq_attempts q mod length (nc_servers (rv_network rv)));
                  let q = q\<lparr>pq_server := server\<rparr>;
                  rust_assert (pq_attempts q < 32);
                  let retry = min (saturating_add (rv_now rv) (saturating_mul (rc_attempt_timeout (rv_config rv)) (2 ^ pq_attempts q)))
                    (pq_deadline q);
                  (r, pool) \<leftarrow> send_with_options ops local server (dns_query (pq_wire_id q) (pq_question q)) (Some retry) pool;
                  let rv = rv\<lparr>rv_pool := pool\<rparr>;
                  case r of
                    Inl e \<Rightarrow> Some (Inl e, q, rv)
                  | Inr datagram \<Rightarrow>
                      Some (Inr (), q\<lparr>pq_datagram := Some datagram, pq_attempts := pq_attempts q + 1, pq_next := retry\<rparr>,
                        rv\<lparr>rv_stats := (rv_stats rv)\<lparr>rs_queries_submitted := rs_queries_submitted (rv_stats rv) + 1\<rparr>\<rparr>)
                })))"

definition rv_attempt ::
  "'d device_ops \<Rightarrow> random_source \<Rightarrow> query_id \<Rightarrow> 'd udp_resolver \<Rightarrow> (unit io_result \<times> 'd udp_resolver) option"
where
  "rv_attempt ops random i rv = do {
     q \<leftarrow> bt_get (rv_pending rv) i;
     (q, rv) \<leftarrow> rv_close ops q (rv\<lparr>rv_pending := bt_remove i (rv_pending rv)\<rparr>);
     (r, q, rv) \<leftarrow> attempt_loop 32 ops random q rv;
     (q, rv) \<leftarrow> (case r of Inl _ \<Rightarrow> rv_close ops q rv | Inr _ \<Rightarrow> Some (q, rv));
     Some (r, rv\<lparr>rv_pending := bt_insert i q (rv_pending rv)\<rparr>)
   }"

section \<open>Responses\<close>

definition count_ignored :: "'d udp_resolver \<Rightarrow> 'd udp_resolver" where
  "count_ignored rv = rv\<lparr>rv_stats := (rv_stats rv)\<lparr>rs_ignored_responses := rs_ignored_responses (rv_stats rv) + 1\<rparr>\<rparr>"

definition count_malformed :: "'d udp_resolver \<Rightarrow> 'd udp_resolver" where
  "count_malformed rv = rv\<lparr>rv_stats := (rv_stats rv)\<lparr>rs_malformed_responses := rs_malformed_responses (rv_stats rv) + 1\<rparr>\<rparr>"

definition awaits :: "incoming \<Rightarrow> u16 \<Rightarrow> pending_query \<Rightarrow> bool" where
  "awaits input wire_id q \<longleftrightarrow> pq_local q = Some (in_destination input) \<and> pq_server q = in_source input \<and> pq_wire_id q = wire_id \<and>
     pq_datagram q \<noteq> None"

text \<open>When an answer of lifetime \<open>ttl\<close> seconds ends, also counting the aliases that led to it.\<close>

definition answer_expiry :: "resolver_config \<Rightarrow> duration \<Rightarrow> duration option \<Rightarrow> u32 \<Rightarrow> duration" where
  "answer_expiry cfg now chain ttl =
     (let expires = saturating_add now (min (from_secs (unat ttl)) (rc_max_cache_ttl cfg)) in
      case chain of None \<Rightarrow> expires | Some old \<Rightarrow> min old expires)"

definition follow_alias :: "bytes \<Rightarrow> nat \<Rightarrow> duration \<Rightarrow> duration \<Rightarrow> pending_query \<Rightarrow> pending_query" where
  "follow_alias target hops expires now q =
     q\<lparr>pq_aliases := pq_aliases q @ replicate (max hops 1) target, pq_question := target, pq_alias_expires := Some expires,
       pq_attempts := 0, pq_next := now, pq_datagram := None\<rparr>"

definition rv_receive :: "'d device_ops \<Rightarrow> incoming \<Rightarrow> 'd udp_resolver \<Rightarrow> 'd udp_resolver option" where
  "rv_receive ops input rv =
     (if length (in_payload input) < 2 then Some (count_malformed rv)
      else do {
        let wire_id = read16 (in_payload input) 0;
        case find (\<lambda>(_, q). awaits input wire_id q) (rv_pending rv) of
          None \<Rightarrow> Some (count_ignored rv)
        | Some (i, q) \<Rightarrow>
            if pq_deadline q \<le> rv_now rv \<or> pq_next q \<le> rv_now rv then Some (count_ignored rv)
            else do {
              rust_assert (pq_aliases q \<noteq> []);
              parsed \<leftarrow> dns_response (in_payload input) wire_id (pq_question q) (8 - (length (pq_aliases q) - 1));
              let expiry = answer_expiry (rv_config rv) (rv_now rv) (pq_alias_expires q);
              case parsed of
                None \<Rightarrow> Some (count_malformed rv)
              | Some (Addresses canonical addresses ttl) \<Rightarrow>
                  rv_finish ops i (Inr \<lparr>an_canonical_name = canonical, an_addresses = addresses, an_expires_at = expiry ttl\<rparr>)
                    (Some (expiry ttl - rv_now rv)) rv
              | Some (Alias target ttl hops) \<Rightarrow>
                  if target \<in> set (pq_aliases q) \<or> 8 < length (pq_aliases q) - 1 + hops
                  then rv_finish ops i (Inl AliasLimit) None rv
                  else Some (rv\<lparr>rv_pending := bt_insert i (follow_alias target hops (expiry ttl) (rv_now rv) q) (rv_pending rv)\<rparr>)
              | Some (Negative e ttl) \<Rightarrow>
                  rv_finish ops i (Inl e) (map_option (\<lambda>ttl. expiry ttl - rv_now rv) ttl) rv
              | Some (Failure e) \<Rightarrow>
                  if (e = ServerFailure \<or> e = Refused) \<and> pq_attempts q < rc_attempts_per_name (rv_config rv)
                  then Some (rv\<lparr>rv_pending := bt_insert i (q\<lparr>pq_next := rv_now rv, pq_datagram := None\<rparr>) (rv_pending rv)\<rparr>)
                  else rv_finish ops i (Inl e) None rv
            }
      })"

fun receive_all :: "'d device_ops \<Rightarrow> incoming list \<Rightarrow> 'd udp_resolver \<Rightarrow> 'd udp_resolver option" where
  "receive_all ops [] rv = Some rv"
| "receive_all ops (x # xs) rv = do { rv \<leftarrow> rv_receive ops x rv; receive_all ops xs rv }"

section \<open>The operations of the resolver\<close>

definition rv_start :: "query_id \<Rightarrow> bytes \<Rightarrow> 'd udp_resolver \<Rightarrow> ((resolve_error + query_id) \<times> 'd udp_resolver) option" where
  "rv_start i name rv = do {
     server \<leftarrow> nth_opt (nc_servers (rv_network rv)) 0;
     Some (Inr i, rv\<lparr>rv_pending := bt_insert i
       \<lparr>pq_original = name, pq_question = name, pq_aliases = [name], pq_alias_expires = None,
        pq_deadline = saturating_add (rv_now rv) (rc_lookup_timeout (rv_config rv)), pq_next = rv_now rv, pq_attempts = 0,
        pq_local = None, pq_server = server, pq_wire_id = 0, pq_datagram = None\<rparr> (rv_pending rv)\<rparr>)
   }"

definition rv_resolve :: "bytes \<Rightarrow> 'd udp_resolver \<Rightarrow> ((resolve_error + query_id) \<times> 'd udp_resolver) option" where
  "rv_resolve input rv =
     (case dns_normalize input of
        Inl e \<Rightarrow> Some (Inl e, rv)
      | Inr name \<Rightarrow>
          if rc_capacity (rv_config rv) \<le> length (rv_pending rv) + length (rv_results rv) then Some (Inl Busy, rv)
          else if rv_next_id rv = 0xFFFFFFFFFFFFFFFF then Some (Inl Busy, rv)
          else
            (let i = rv_next_id rv;
                 rv = rv\<lparr>rv_next_id := rv_next_id rv + 1\<rparr> in
             case bt_get (rv_cache rv) name of
               Some c \<Rightarrow>
                 if rv_now rv < ca_expires c
                 then Some (Inr i, count_completed (rv\<lparr>rv_results := rv_results rv @ [\<lparr>cp_id = i, cp_name = name,
                        cp_generation = rv_generation rv, cp_from_cache = True, cp_result = ca_result c\<rparr>],
                        rv_stats := (rv_stats rv)\<lparr>rs_cache_hits := rs_cache_hits (rv_stats rv) + 1\<rparr>\<rparr>))
                 else rv_start i name rv
             | None \<Rightarrow> rv_start i name rv))"

text \<open>The handler of the pool: datagrams of at most 512 bytes are kept, in order.\<close>

definition collect_incoming :: "incoming list handler" where
  "collect_incoming dg xs =
     (ActionIgnore,
      if length (dg_payload dg) \<le> 512
      then xs @ [\<lparr>in_source = dg_source dg, in_destination = dg_destination dg, in_payload = dg_payload dg\<rparr>] else xs)"

definition handle_event :: "'d device_ops \<Rightarrow> duration \<Rightarrow> udp_event \<Rightarrow> 'd udp_resolver \<Rightarrow> 'd udp_resolver option" where
  "handle_event ops now e rv =
     (case ue_outcome e of
        OutcomeDropped reason \<Rightarrow>
          (case find (\<lambda>(_, q). pq_datagram q \<noteq> None \<and> pq_datagram q = ue_id e) (rv_pending rv) of
             None \<Rightarrow> Some rv
           | Some (i, q) \<Rightarrow>
               (case reason of
                  DeviceFailure kind \<Rightarrow> rv_finish ops i (Inl (LocalError kind)) None rv
                | _ \<Rightarrow> Some (rv\<lparr>rv_pending := bt_insert i (q\<lparr>pq_next := now\<rparr>) (rv_pending rv)\<rparr>)))
      | _ \<Rightarrow> Some rv)"

text \<open>
  The loop over the events of the pool. Finishing a lookup unbinds its port, which can turn queued datagrams into
  further events; the rounds in \<open>rv_poll\<close> count both.
\<close>

fun drain_events :: "nat \<Rightarrow> 'd device_ops \<Rightarrow> duration \<Rightarrow> 'd udp_resolver \<Rightarrow> 'd udp_resolver option" where
  "drain_events 0 ops now rv = Some rv"
| "drain_events (Suc rounds) ops now rv =
     (case up_pop_event (rv_pool rv) of
        (None, _) \<Rightarrow> Some rv
      | (Some e, pool) \<Rightarrow> do {
          rv \<leftarrow> handle_event ops now e (rv\<lparr>rv_pool := pool\<rparr>);
          drain_events rounds ops now rv
        })"

definition rv_timer :: "'d device_ops \<Rightarrow> random_source \<Rightarrow> duration \<Rightarrow> query_id \<Rightarrow> 'd udp_resolver \<Rightarrow> 'd udp_resolver option" where
  "rv_timer ops random now i rv = do {
     q \<leftarrow> bt_get (rv_pending rv) i;
     if pq_deadline q \<le> now \<or> pq_next q \<le> now \<and> rc_attempts_per_name (rv_config rv) \<le> pq_attempts q
     then rv_finish ops i (Inl Timeout) None rv
     else if pq_next q \<le> now then do {
       (r, rv) \<leftarrow> rv_attempt ops random i rv;
       case r of
         Inr _ \<Rightarrow> Some rv
       | Inl e \<Rightarrow>
           if e = WouldBlock then do {
             q \<leftarrow> bt_get (rv_pending rv) i;
             Some (rv\<lparr>rv_pending := bt_insert i (q\<lparr>pq_next := saturating_add now (from_millis 10)\<rparr>) (rv_pending rv)\<rparr>)
           }
           else rv_finish ops i (Inl (LocalError e)) None rv
     }
     else Some rv
   }"

fun rv_timers :: "'d device_ops \<Rightarrow> random_source \<Rightarrow> duration \<Rightarrow> query_id list \<Rightarrow> 'd udp_resolver \<Rightarrow> 'd udp_resolver option" where
  "rv_timers ops random now [] rv = Some rv"
| "rv_timers ops random now (i # is) rv = do { rv \<leftarrow> rv_timer ops random now i rv; rv_timers ops random now is rv }"

definition rv_poll :: "'d device_ops \<Rightarrow> random_source \<Rightarrow> duration \<Rightarrow> 'd udp_resolver \<Rightarrow> (unit io_result \<times> 'd udp_resolver) option" where
  "rv_poll ops random now rv =
     (if now < rv_now rv then Some (Inl InvalidInput, rv)
      else do {
        let rv = rv\<lparr>rv_now := now, rv_cache := bt_retain (\<lambda>_ c. now < ca_expires c) (rv_cache rv)\<rparr>;
        (r, pool, inputs) \<leftarrow> up_poll ops collect_incoming now 0 (rc_receive_budget (rv_config rv)) (rv_pool rv, []);
        let rv = rv\<lparr>rv_pool := pool\<rparr>;
        case r of
          Inl e \<Rightarrow> Some (Inl e, rv)
        | Inr _ \<Rightarrow> do {
            rv \<leftarrow> receive_all ops inputs rv;
            rv \<leftarrow> drain_events (length (up_events (rv_pool rv)) + length (sd_queue (up_tx (rv_pool rv)))) ops now rv;
            rv \<leftarrow> rv_timers ops random now (map fst (rv_pending rv)) rv;
            (r, pool) \<leftarrow> up_flush ops (rv_pool rv);
            Some (case r of Inl e \<Rightarrow> Inl e | Inr _ \<Rightarrow> Inr (), rv\<lparr>rv_pool := pool\<rparr>)
          }
      })"

definition rv_pop_result :: "'d udp_resolver \<Rightarrow> completion option \<times> 'd udp_resolver" where
  "rv_pop_result rv = (case rv_results rv of [] \<Rightarrow> (None, rv) | c # cs \<Rightarrow> (Some c, rv\<lparr>rv_results := cs\<rparr>))"

definition rv_cancel :: "'d device_ops \<Rightarrow> query_id \<Rightarrow> 'd udp_resolver \<Rightarrow> (bool \<times> 'd udp_resolver) option" where
  "rv_cancel ops i rv =
     (if \<not> bt_contains (rv_pending rv) i then Some (False, rv)
      else do { rv \<leftarrow> rv_finish ops i (Inl Cancelled) None rv; Some (True, rv) })"

definition rv_next_deadline :: "'d udp_resolver \<Rightarrow> duration option option" where
  "rv_next_deadline rv = do {
     pool \<leftarrow> up_next_deadline (rv_pool rv);
     Some (earliest (map (\<lambda>q. min (pq_next q) (pq_deadline q)) (bt_values (rv_pending rv)) @
       (case pool of None \<Rightarrow> [] | Some t \<Rightarrow> [t])))
   }"

fun finish_all :: "'d device_ops \<Rightarrow> query_id list \<Rightarrow> 'd udp_resolver \<Rightarrow> 'd udp_resolver option" where
  "finish_all ops [] rv = Some rv"
| "finish_all ops (i # is) rv = do { rv \<leftarrow> rv_finish ops i (Inl NetworkChanged) None rv; finish_all ops is rv }"

definition rv_invalidate :: "'d device_ops \<Rightarrow> 'd udp_resolver \<Rightarrow> 'd udp_resolver option" where
  "rv_invalidate ops rv = do {
     rv \<leftarrow> finish_all ops (map fst (rv_pending rv)) rv;
     Some (rv\<lparr>rv_cache := [], rv_generation := rv_generation rv + 1\<rparr>)
   }"

definition rv_configure :: "'d device_ops \<Rightarrow> network_config \<Rightarrow> 'd udp_resolver \<Rightarrow> (unit io_result \<times> 'd udp_resolver) option" where
  "rv_configure ops network rv =
     (case network_validate network of
        Inl e \<Rightarrow> Some (Inl e, rv)
      | Inr _ \<Rightarrow>
          if rv_network rv \<noteq> network then do {
            rv \<leftarrow> rv_invalidate ops rv;
            Some (Inr (), rv\<lparr>rv_network := network\<rparr>)
          }
          else Some (Inr (), rv))"

end
