(* ===== verification/Udp_Pool_Spec.thy ===== *)
theory Udp_Pool_Spec
  imports Udp_Pool Eth_Ipv4_Spec
begin

text \<open>
  The invariant of the UDP pool, its preservation by every operation over any device that keeps the device
  contract, and the properties of the pool.
\<close>

section \<open>Invariant\<close>

definition up_inv :: "'d udp_pool \<Rightarrow> bool" where
  "up_inv p \<longleftrightarrow> udp_config_validate (up_config p) = Inr () \<and> sched_inv (up_config p) (up_tx p) \<and>
     bt_inv (up_services p) \<and> length (up_services p) \<le> uc_service_capacity (up_config p) \<and>
     bt_inv (up_peers p) \<and> length (up_peers p) \<le> up_peer_capacity p \<and> up_peer_capacity p = uc_peer_capacity (up_config p) \<and>
     length (up_events p) \<le> uc_event_capacity (up_config p) \<and> (\<forall>(a, q) \<in> set (up_peers p). pr_last_seen q \<le> up_now p)"

definition up_frames :: "'d udp_pool \<Rightarrow> packet_buf multiset" where
  "up_frames p = mset (map qd_frame (sd_queue (up_tx p)))"

definition up_held ::
  "('d \<Rightarrow> packet_buf multiset \<Rightarrow> bool) \<Rightarrow> packet_buf multiset \<Rightarrow> udp_config \<Rightarrow> duration \<Rightarrow> 'd udp_pool \<Rightarrow> bool"
where
  "up_held held M cfg now p \<longleftrightarrow> up_inv p \<and> up_config p = cfg \<and> up_now p = now \<and>
     held (up_device p) (up_frames p + mset (up_rx p) + M)"

lemma up_heldD:
  assumes "up_held held M cfg now p"
  shows "up_inv p" and "up_config p = cfg" and "up_now p = now" and "held (up_device p) (up_frames p + mset (up_rx p) + M)"
    and "sched_inv cfg (up_tx p)"
  using assms by (auto simp: up_held_def up_inv_def)

text \<open>Operations that only touch counters, events and scratch space.\<close>

definition quiet :: "'d udp_pool \<Rightarrow> 'd udp_pool \<Rightarrow> bool" where
  "quiet p p' \<longleftrightarrow> up_device p' = up_device p \<and> up_services p' = up_services p \<and> up_peers p' = up_peers p \<and> up_tx p' = up_tx p \<and>
     up_config p' = up_config p \<and> up_rx p' = up_rx p \<and> up_peer_capacity p' = up_peer_capacity p \<and> up_now p' = up_now p \<and>
     (length (up_events p) \<le> uc_event_capacity (up_config p) \<longrightarrow> length (up_events p') \<le> uc_event_capacity (up_config p))"

text \<open>Steps that leave the endpoints and the discovered peers alone.\<close>

definition same_tables :: "'d udp_pool \<Rightarrow> 'd udp_pool \<Rightarrow> bool" where
  "same_tables p p' \<longleftrightarrow> up_services p' = up_services p \<and> up_peers p' = up_peers p"

lemma same_tables_simps [simp]: "same_tables p p" "same_tables (p\<lparr>up_tx := tx\<rparr>) p' = same_tables p p'"
  by (simp_all add: same_tables_def)

lemma same_tables_trans: "same_tables p q \<Longrightarrow> same_tables q r \<Longrightarrow> same_tables p r"
  by (simp add: same_tables_def)

lemma quiet_held: "quiet p p' \<Longrightarrow> up_held held M cfg now p \<Longrightarrow> up_held held M cfg now p'"
  by (auto simp: quiet_def up_held_def up_inv_def up_frames_def)

lemma quiet_trans: "quiet p q \<Longrightarrow> quiet q r \<Longrightarrow> quiet p r"
  by (auto simp: quiet_def)

lemma quiet_simps [simp]:
  "quiet p p" "quiet p (p\<lparr>up_stats := s\<rparr>)" "quiet p (p\<lparr>up_blocked_peers := b\<rparr>)" "quiet p (p\<lparr>up_service_work := w\<rparr>)"
  "quiet p (block_peer a p)"
  by (simp_all add: quiet_def block_peer_def)

lemma quiet_event: "quiet p (up_event e p)"
  by (auto simp: quiet_def up_event_def Let_def)

lemma quiet_rejected: "quiet p (up_rejected a b r p)"
  unfolding up_rejected_def by (rule quiet_trans [OF _ quiet_event]) simp

lemma quiet_pop: "quiet p (snd (up_pop_event p))"
  by (auto simp: quiet_def up_pop_event_def split: list.split)

lemma up_held_device:
  assumes "up_held held M cfg now p" and "held d (up_frames p + mset (up_rx p) + N)"
  shows "up_held held N cfg now (p\<lparr>up_device := d\<rparr>)"
  using assms by (auto simp: up_held_def up_inv_def up_frames_def)

lemma up_held_tx:
  assumes "up_held held M cfg now p" and "sched_inv cfg tx"
    and "held d (mset (map qd_frame (sd_queue tx)) + mset (up_rx p) + N)"
  shows "up_held held N cfg now (p\<lparr>up_tx := tx, up_device := d\<rparr>)"
  using assms by (auto simp: up_held_def up_inv_def up_frames_def)

lemma queued_for_map: "map qd_destination qs = map qd_destination qs' \<Longrightarrow> queued_for p qs = queued_for p qs'"
proof -
  have "queued_for p xs = length (filter (\<lambda>d. d = p) (map qd_destination xs))" for xs
    by (induction xs) auto
  then show "map qd_destination qs = map qd_destination qs' \<Longrightarrow> queued_for p qs = queued_for p qs'"
    by (simp only:)
qed

lemma sched_inv_frames:
  assumes "sched_inv cfg sd" and "map qd_destination qs = map qd_destination (sd_queue sd)"
  shows "sched_inv cfg (sd\<lparr>sd_queue := qs\<rparr>)"
  using assms queued_for_map [OF assms(2)] map_eq_imp_length_eq [OF assms(2)] by (simp add: sched_inv_def)

lemma validated:
  assumes "up_held held M cfg now p"
  shows "0 < uc_per_peer_capacity cfg"
  using assms by (auto simp: up_held_def up_inv_def udp_config_validate_def split: if_split_asm)

lemma collect_services_inv:
  assumes "collect_services ss m = Inr m'" and "bt_inv m"
  shows "bt_inv m' \<and> length m' = length m + length ss"
  using assms
proof (induction ss m rule: collect_services.induct)
  case (2 s ss m)
  then have c: "\<not> bt_contains m (sv_address s)" "collect_services ss (bt_insert (sv_address s) (sv_id s) m) = Inr m'"
    by (auto split: sum.split_asm if_split_asm)
  have "bt_inv (bt_insert (sv_address s) (sv_id s) m)" "length (bt_insert (sv_address s) (sv_id s) m) = Suc (length m)"
    using btm.ok_ins [OF 2(3)] btm.count_ins [OF 2(3)] c(1) by (simp_all add: bt_contains_def)
  then show ?case
    using 2(1) 2(2) c by (auto split: sum.split_asm)
qed simp

lemma validate_services_inv:
  assumes "validate_services services p = Inr m"
  shows "bt_inv m" and "length m \<le> uc_service_capacity (up_config p)"
  using assms collect_services_inv [of services "[]" m] by (auto simp: validate_services_def split: if_split_asm)

lemma up_bind_held:
  assumes h: "up_held held M cfg now p" and b: "up_bind s p = (r, p')"
  shows "up_held held M cfg now p'"
proof (cases "p' = p")
  case False
  then have p': "p' = p\<lparr>up_services := bt_insert (sv_address s) (sv_id s) (up_services p)\<rparr>"
      "length (up_services p) < uc_service_capacity (up_config p)"
    using b by (auto simp: up_bind_def split: sum.split_asm if_split_asm)
  have bt: "bt_inv (up_services p)"
    using up_heldD(1) [OF h] by (simp add: up_inv_def)
  have "length (bt_insert (sv_address s) (sv_id s) (up_services p)) \<le> uc_service_capacity (up_config p)"
    using p'(2) by (intro btm.bounded_ins [OF bt]) auto
  then show ?thesis
    using h p'(1) btm.ok_ins [OF bt] by (auto simp: up_held_def up_inv_def up_frames_def)
qed (use h in simp)

context device
begin

lemma up_finish_wp:
  assumes "up_held held (add_mset (qd_frame q) M) cfg now p"
  shows "wp (up_finish ops q outcome p) (\<lambda>p'. up_held held M cfg now p' \<and> up_tx p' = up_tx p \<and> same_tables p p')"
proof -
  let ?e = "\<lambda>p. \<lparr>ue_at = up_now p, ue_id = Some (qd_id q), ue_source = qd_source q, ue_destination = qd_destination q,
    ue_generation = qd_generation q, ue_outcome = outcome\<rparr>"
  define p1 where "p1 = (case outcome of OutcomeDropped _ \<Rightarrow> p\<lparr>up_stats := (up_stats p)\<lparr>ps_dropped := ps_dropped (up_stats p) + 1\<rparr>\<rparr>
    | _ \<Rightarrow> p)"
  define p2 where "p2 = up_event (?e p1) p1"
  have q2: "quiet p p2"
    unfolding p2_def by (rule quiet_trans [OF _ quiet_event]) (simp add: p1_def split: udp_outcome.split)
  note h = quiet_held [OF q2 assms]
  have "held (up_device p2) (add_mset (qd_frame q) (up_frames p2 + mset (up_rx p2) + M))"
    using up_heldD(4) [OF h] by simp
  then obtain d where d: "dv_drop ops (qd_frame q) (up_device p2) = Some d" "held d (up_frames p2 + mset (up_rx p2) + M)"
    using drop_law unfolding wp_eq_Some by blast
  moreover have "up_finish ops q outcome p = Some (p2\<lparr>up_device := d\<rparr>)"
    using d(1) by (simp add: up_finish_def p2_def p1_def Let_def)
  ultimately show ?thesis
    using up_held_device [OF h d(2)] q2 by (simp add: quiet_def same_tables_def)
qed

text \<open>Removing one queue entry with its outcome.\<close>

lemma up_drop_entry_wp:
  assumes h: "up_held held M cfg now p" and i: "i < length (sd_queue (up_tx p))"
  shows "wp (sd_remove i (up_tx p)) (\<lambda>(q, tx). wp (up_finish ops q outcome (p\<lparr>up_tx := tx\<rparr>)) (\<lambda>p'. up_held held M cfg now p' \<and> same_tables p p' \<and>
    sd_queue (up_tx p') = take i (sd_queue (up_tx p)) @ drop (Suc i) (sd_queue (up_tx p))))"
proof -
  let ?qs = "take i (sd_queue (up_tx p)) @ drop (Suc i) (sd_queue (up_tx p))"
  obtain q tx where r: "sd_remove i (up_tx p) = Some (q, tx)" "sched_inv cfg tx" "q = sd_queue (up_tx p) ! i" "sd_queue tx = ?qs"
    using sd_remove_wp [OF up_heldD(5) [OF h] i] unfolding wp_eq_Some by auto
  have "mset (map qd_frame (sd_queue (up_tx p))) = add_mset (qd_frame q) (mset (map qd_frame ?qs))"
    using arg_cong [OF mset_nth_split [OF i], of "image_mset qd_frame"] r(3) by simp
  then have "held (up_device p) (mset (map qd_frame (sd_queue tx)) + mset (up_rx p) + add_mset (qd_frame q) M)"
    using up_heldD(4) [OF h] r(4) by (simp add: up_frames_def)
  from up_held_tx [OF h r(2) this] have "up_held held (add_mset (qd_frame q) M) cfg now (p\<lparr>up_tx := tx\<rparr>)"
    by (auto simp: up_held_def up_inv_def up_frames_def)
  from up_finish_wp [OF this, of outcome] show ?thesis
    using r by (auto elim!: wp_mono)
qed

lemma up_cancel_loop_wp:
  assumes "up_held held M cfg now p" and "length (sd_queue (up_tx p)) - i \<le> rounds"
  shows "wp (up_cancel_loop ops P reason rounds i p) (\<lambda>p'. up_held held M cfg now p' \<and> same_tables p p' \<and>
    sd_queue (up_tx p') = take i (sd_queue (up_tx p)) @ filter (\<lambda>q. \<not> P q) (drop i (sd_queue (up_tx p))))"
  using assms
proof (induction rounds arbitrary: i p)
  case (Suc rounds)
  let ?qs = "sd_queue (up_tx p)"
  show ?case
  proof (cases "i < length ?qs")
    case True
    then have drop: "drop i ?qs = ?qs ! i # drop (Suc i) ?qs"
      by (simp add: Cons_nth_drop_Suc)
    show ?thesis
    proof (cases "P (?qs ! i)")
      case P: True
      let ?rest = "take i ?qs @ drop (Suc i) ?qs"
      obtain q tx p1 where p1: "sd_remove i (up_tx p) = Some (q, tx)" "up_finish ops q (OutcomeDropped reason) (p\<lparr>up_tx := tx\<rparr>) = Some p1"
          "up_held held M cfg now p1" "sd_queue (up_tx p1) = ?rest" "same_tables p p1"
        using up_drop_entry_wp [OF Suc.prems(1) True, of "OutcomeDropped reason"] unfolding wp_eq_Some by auto
      have "length (sd_queue (up_tx p1)) - i \<le> rounds"
        using Suc.prems(2) True p1(4) by simp
      from Suc.IH [OF p1(3) this] have "wp (up_cancel_loop ops P reason rounds i p1) (\<lambda>p'. up_held held M cfg now p' \<and> same_tables p1 p' \<and>
          sd_queue (up_tx p') = take i ?qs @ filter (\<lambda>q. \<not> P q) (drop i ?qs))"
        using True P by (simp add: p1(4) drop)
      then have "wp (up_cancel_loop ops P reason rounds i p1) (\<lambda>p'. up_held held M cfg now p' \<and> same_tables p p' \<and>
          sd_queue (up_tx p') = take i ?qs @ filter (\<lambda>q. \<not> P q) (drop i ?qs))"
        by (rule wp_mono) (use same_tables_trans [OF p1(5)] in blast)
      then show ?thesis
        using True P p1(1,2) by (simp add: nth_opt_def)
    next
      case P: False
      have "take (Suc i) ?qs @ filter (\<lambda>q. \<not> P q) (drop (Suc i) ?qs) = take i ?qs @ filter (\<lambda>q. \<not> P q) (drop i ?qs)"
        using True P by (simp add: drop take_Suc_conv_app_nth)
      then show ?thesis
        using Suc.IH [OF Suc.prems(1), of "Suc i"] Suc.prems(2) True P by (simp add: nth_opt_def)
    qed
  qed (use Suc.prems in \<open>simp add: nth_opt_def\<close>)
qed simp

lemma up_cancel_wp:
  assumes "up_held held M cfg now p"
  shows "wp (up_cancel ops P reason p) (\<lambda>p'. up_held held M cfg now p' \<and> same_tables p p' \<and>
    sd_queue (up_tx p') = filter (\<lambda>q. \<not> P q) (sd_queue (up_tx p)))"
  using up_cancel_loop_wp [OF assms, of 0 "length (sd_queue (up_tx p))" P reason] by (simp add: up_cancel_def)

lemma up_drain_wp:
  assumes "up_held held M cfg now p" and "length (sd_queue (up_tx p)) \<le> rounds"
  shows "wp (up_drain ops rounds p) (\<lambda>p'. up_held held M cfg now p' \<and> sd_queue (up_tx p') = [])"
  using assms
proof (induction rounds arbitrary: p)
  case (Suc rounds)
  show ?case
  proof (cases "sd_queue (up_tx p)")
    case (Cons q0 qs)
    then obtain q tx p1 where p1: "sd_remove 0 (up_tx p) = Some (q, tx)"
        "up_finish ops q (OutcomeDropped udp_failure.ConfigurationChanged) (p\<lparr>up_tx := tx\<rparr>) = Some p1"
        "up_held held M cfg now p1" "sd_queue (up_tx p1) = qs"
      using up_drop_entry_wp [OF Suc.prems(1), of 0 "OutcomeDropped udp_failure.ConfigurationChanged"] unfolding wp_eq_Some by auto
    then show ?thesis
      using Suc.IH [OF p1(3)] Suc.prems(2) Cons by simp
  qed (use Suc.prems in simp)
qed simp

lemma install_services_wp:
  assumes h: "up_held held M cfg now p" and m: "bt_inv m" "length m \<le> uc_service_capacity cfg"
  shows "wp (install_services ops m p) (\<lambda>p'. up_held held M cfg now p' \<and> up_services p' = m \<and> up_peers p' = [] \<and>
    sd_queue (up_tx p') = [])"
proof -
  obtain p1 where p1: "up_drain ops (length (sd_queue (up_tx p))) p = Some p1" "up_held held M cfg now p1" "sd_queue (up_tx p1) = []"
    using up_drain_wp [OF h order_refl] unfolding wp_eq_Some by blast
  then have "up_held held M cfg now (p1\<lparr>up_tx := scheduler_new, up_services := m, up_peers := [], up_generation := g\<rparr>)" for g
    using m sched_inv_new [of cfg] by (auto simp: up_held_def up_inv_def up_frames_def scheduler_new_def)
  then show ?thesis
    using p1(1) by (simp add: install_services_def scheduler_new_def)
qed

text \<open>Sending.\<close>

lemma up_admit_held:
  assumes h: "up_held held M cfg now p" and adm: "up_admit a b t p = (r, p')"
  shows "up_held held M cfg now p'" and "r = Inr () \<Longrightarrow> admitted cfg b (up_tx p')"
proof -
  obtain r' tx where tx: "sd_admission b (up_now p) (up_config p) (up_tx p) = (r', tx)"
    by (metis prod.collapse)
  note D = up_heldD [OF h]
  have inv: "sched_inv cfg tx" "sd_queue tx = sd_queue (up_tx p)" "r' = Inr () \<Longrightarrow> admitted cfg b tx"
    using sd_admission_inv [OF D(5)] tx D(2) by simp_all
  have h': "up_held held M cfg now (p\<lparr>up_tx := tx\<rparr>)"
    using h inv(1,2) by (auto simp: up_held_def up_inv_def up_frames_def)
  have res: "p' = p \<and> r \<noteq> Inr () \<or> r = r' \<and> p' = p\<lparr>up_tx := tx\<rparr>"
    using adm tx by (auto simp: up_admit_def split: if_split_asm option.split_asm)
  then show "up_held held M cfg now p'"
    using h h' by auto
  show "admitted cfg b (up_tx p')" if "r = Inr ()"
    using res that inv(3) by auto
qed

lemma up_enqueue_wp:
  assumes h: "up_held held (add_mset frame M) cfg now p" and adm: "admitted cfg b (up_tx p)"
  shows "wp (up_enqueue ops frame a b t p) (\<lambda>(r, p'). up_held held M cfg now p')"
proof (cases "up_next_id p = 0xFFFFFFFFFFFFFFFF")
  case True
  have "held (up_device p) (add_mset frame (up_frames p + mset (up_rx p) + M))"
    using up_heldD(4) [OF h] by simp
  then obtain d where "dv_drop ops frame (up_device p) = Some d" "held d (up_frames p + mset (up_rx p) + M)"
    using drop_law unfolding wp_eq_Some by blast
  then show ?thesis
    using True up_held_device [OF h] by (simp add: up_enqueue_def)
next
  case False
  let ?tx = "\<lambda>q. sd_push q (up_tx p)"
  have "up_held held M cfg now (p\<lparr>up_next_id := n, up_tx := ?tx q\<rparr>)" if q: "qd_destination q = b" "qd_frame q = frame" for q n
  proof -
    have "sched_inv cfg (?tx q)"
      using sd_push_inv [OF up_heldD(5) [OF h] _ validated [OF h]] adm q(1) by simp
    moreover have "mset (map qd_frame (sd_queue (?tx q))) = add_mset frame (up_frames p)"
      by (simp add: sd_push_def up_frames_def q(2) Let_def)
    ultimately show ?thesis
      using h by (auto simp: up_held_def up_inv_def up_frames_def)
  qed
  then show ?thesis
    using False by (simp add: up_enqueue_def Let_def)
qed

lemma send_with_options_wp:
  assumes h: "up_held held M cfg now p"
  shows "wp (send_with_options ops a b payload t p) (\<lambda>(r, p'). up_held held M cfg now p')"
proof -
  obtain r p1 where p1: "up_admit a b t p = (r, p1)"
    by (metis prod.collapse)
  note h1 = up_admit_held(1) [OF h p1]
  show ?thesis
  proof (cases r)
    case (Inl e)
    then show ?thesis
      using p1 quiet_held [OF quiet_rejected h1] by (simp add: send_with_options_def)
  next
    case (Inr u)
    let ?N = "up_frames p1 + mset (up_rx p1) + M"
    obtain fo d where d: "dv_alloc ops (up_device p1) = Some (fo, d)"
        "case fo of None \<Rightarrow> held d ?N | Some f \<Rightarrow> held d (add_mset f ?N) \<and> pb_len f = 0"
      using alloc_law [OF up_heldD(4) [OF h1]] unfolding wp_eq_Some by auto
    show ?thesis
    proof (cases fo)
      case None
      then have "up_held held M cfg now (p1\<lparr>up_device := d\<rparr>)"
        using up_held_device [OF h1] d(2) by simp
      then show ?thesis
        using p1 Inr d(1) None quiet_held [OF quiet_rejected] by (simp add: send_with_options_def)
    next
      case (Some f)
      then have f: "held d (add_mset f ?N)" "pb_inv f"
        using d(2) held_inv [of d "add_mset f ?N" f] by simp_all
      obtain built f' where b: "udp_build_ipv4 f (octets (sa_ip a), sa_port a) (octets (sa_ip b), sa_port b) payload 0 = Some (built, f')"
          "pb_inv f'" "same_frame f f'"
        using udp_build_wp [OF f(2), of "sa_ip a" "sa_port a" "sa_ip b" "sa_port b" payload 0] unfolding wp_eq_Some by auto
      have "held d (up_frames p1 + mset (up_rx p1) + add_mset f' M)"
        using held_edit [OF f(1) b(3,2)] by simp
      then have h2: "up_held held (add_mset f' M) cfg now (p1\<lparr>up_device := d\<rparr>)"
        using up_held_device [OF h1] by simp
      let ?p2 = "up_rejected a b InvalidPacket (p1\<lparr>up_device := d\<rparr>)"
      have h3: "up_held held (add_mset f' M) cfg now ?p2"
        using quiet_held [OF quiet_rejected h2] .
      then have "held (up_device ?p2) (add_mset f' (up_frames ?p2 + mset (up_rx ?p2) + M))"
        using up_heldD(4) by fastforce
      then obtain d' where d': "dv_drop ops f' (up_device ?p2) = Some d'" "held d' (up_frames ?p2 + mset (up_rx ?p2) + M)"
        using drop_law unfolding wp_eq_Some by blast
      have "admitted cfg b (up_tx (p1\<lparr>up_device := d\<rparr>))"
        using up_admit_held(2) [OF h p1] Inr by simp
      then show ?thesis
        using p1 Inr d(1) Some b(1) d'(1) up_held_device [OF h3 d'(2)] up_enqueue_wp [OF h2]
        by (cases built) (simp_all add: send_with_options_def)
    qed
  qed
qed

lemma send_to_wp: "up_held held M cfg now p \<Longrightarrow> wp (send_to ops a b payload p) (\<lambda>(r, p'). up_held held M cfg now p')"
  using send_with_options_wp [of M cfg now p a b payload None] by (simp add: send_to_def case_prod_unfold)

text \<open>Transmission.\<close>

lemma up_advance_wp:
  assumes h: "up_held held M cfg t p" and t: "t \<le> now"
  shows "wp (up_advance ops now p) (\<lambda>(r, p'). r = Inr () \<and> up_held held M cfg now p' \<and> same_tables p p' \<and>
    sd_queue (up_tx p') = filter (\<lambda>q. case qd_deadline q of None \<Rightarrow> True | Some at \<Rightarrow> now < at) (sd_queue (up_tx p)))"
proof -
  have live: "(\<lambda>q. case qd_deadline q of None \<Rightarrow> True | Some at \<Rightarrow> now < at) =
      (\<lambda>q. \<not> (case qd_deadline q of None \<Rightarrow> False | Some at \<Rightarrow> at \<le> now))"
    by (auto simp: fun_eq_iff split: option.split)
  have "\<not> now < up_now p" and h': "up_held held M cfg now (p\<lparr>up_now := now\<rparr>)"
    using h t by (fastforce simp: up_held_def up_inv_def up_frames_def)+
  then show ?thesis
    using up_cancel_wp [OF h', of "\<lambda>q. case qd_deadline q of None \<Rightarrow> False | Some at \<Rightarrow> at \<le> now" DeadlineExpired]
    unfolding live by (auto simp: up_advance_def same_tables_def elim!: wp_mono)
qed

text \<open>The queue entry after the device took or left its frame.\<close>

lemma up_held_slot:
  assumes h: "up_held held M cfg now p" and i: "i < length (sd_queue (up_tx p))"
    and d: "held d (add_mset f (mset (map qd_frame (take i (sd_queue (up_tx p)) @ drop (Suc i) (sd_queue (up_tx p)))) + mset (up_rx p) + M))"
  shows "up_held held M cfg now (p\<lparr>up_device := d, up_tx := (up_tx p)\<lparr>sd_queue := (sd_queue (up_tx p))[i := (sd_queue (up_tx p) ! i)\<lparr>qd_frame := f\<rparr>]\<rparr>\<rparr>)"
proof -
  let ?qs = "sd_queue (up_tx p)"
  let ?qs' = "?qs[i := (?qs ! i)\<lparr>qd_frame := f\<rparr>]"
  have eq: "?qs' = take i ?qs @ (?qs ! i)\<lparr>qd_frame := f\<rparr> # drop (Suc i) ?qs"
    using i by (simp add: upd_conv_take_nth_drop)
  have "map qd_destination ?qs' = map qd_destination ?qs"
    using i by (simp add: map_update list_update_same_conv)
  then have "sched_inv cfg ((up_tx p)\<lparr>sd_queue := ?qs'\<rparr>)"
    using sched_inv_frames [OF up_heldD(5) [OF h]] by blast
  moreover have "held d (mset (map qd_frame ?qs') + mset (up_rx p) + M)"
    using d by (simp add: eq)
  ultimately show ?thesis
    using h by (auto simp: up_held_def up_inv_def up_frames_def)
qed

lemma up_submit_wp:
  assumes h: "up_held held M cfg now p" and i: "i < length (sd_queue (up_tx p))"
  shows "wp (up_submit ops i p) (\<lambda>(r, p'). up_held held M cfg now p')"
proof -
  let ?qs = "sd_queue (up_tx p)" and ?q = "sd_queue (up_tx p) ! i"
  let ?N = "mset (map qd_frame (take i ?qs @ drop (Suc i) ?qs)) + mset (up_rx p) + M"
  have "up_frames p + mset (up_rx p) + M = mset [qd_frame ?q] + ?N"
    using arg_cong [OF mset_nth_split [OF i], of "image_mset qd_frame"] by (simp add: up_frames_def)
  then have "held (up_device p) (mset [qd_frame ?q] + ?N)"
    using up_heldD(4) [OF h] by simp
  from send_law [OF this] obtain r slot d where d: "dv_send ops [qd_frame ?q] (up_device p) = Some (r, slot, d)"
      "case r of Inl e \<Rightarrow> slot = [qd_frame ?q] \<and> held d (mset [qd_frame ?q] + ?N)
       | Inr n \<Rightarrow> n \<le> length [qd_frame ?q] \<and> slot = replicate n empty_buf @ drop n [qd_frame ?q] \<and>
           held d (mset (drop n [qd_frame ?q]) + ?N)"
    unfolding wp_eq_Some by auto
  obtain f where f: "nth_opt slot 0 = Some f" "held d (add_mset f ?N)"
  proof (cases r)
    case (Inl e)
    then show ?thesis
      using d(2) that by (simp add: nth_opt_def)
  next
    case (Inr n)
    then have "n = 0 \<or> n = 1"
      using d(2) by auto
    then show ?thesis
      using d(2) Inr that held_empty by (auto simp: nth_opt_def)
  qed
  define p1 where "p1 = p\<lparr>up_device := d, up_tx := (up_tx p)\<lparr>sd_queue := ?qs[i := ?q\<lparr>qd_frame := f\<rparr>]\<rparr>\<rparr>"
  have h1: "up_held held M cfg now p1"
    unfolding p1_def by (rule up_held_slot [OF h i f(2)])
  have i1: "i < length (sd_queue (up_tx p1))" and q1: "sd_queue (up_tx p1) ! i = ?q\<lparr>qd_frame := f\<rparr>"
    using i by (simp_all add: p1_def)
  have blocked: "up_held held M cfg now (block_peer (qd_destination ?q) p1)"
    using quiet_held [OF quiet_simps(5) h1] .
  define b where "b = pb_len (qd_frame ?q)"
  have "sd_queue (up_tx p1) ! i \<in> set (sd_queue (up_tx p1))"
    using i1 by simp
  from sd_accepted_wp [OF up_heldD(5) [OF h1] this, of b now]
  obtain tx where tx: "sd_accepted (qd_destination ?q) b now cfg (up_tx p1) = Some tx" "sched_inv cfg tx" "sd_queue tx = sd_queue (up_tx p1)"
    unfolding wp_eq_Some q1 by auto
  have h2: "up_held held M cfg now (p1\<lparr>up_tx := tx\<rparr>)"
    using h1 tx(2,3) by (auto simp: up_held_def up_inv_def up_frames_def)
  have finished: "wp (sd_remove i tx) (\<lambda>(q, tx). wp (up_finish ops q OutcomeSubmitted (p1\<lparr>up_tx := tx\<rparr>)) (up_held held M cfg now))"
    using up_drop_entry_wp [OF h2, of i OutcomeSubmitted] i1 by (auto simp: tx(3) case_prod_unfold elim!: wp_mono)
  have failed: "wp (sd_remove i (up_tx p1)) (\<lambda>(q, tx). wp (up_finish ops q (OutcomeDropped (DeviceFailure e)) (p1\<lparr>up_tx := tx\<rparr>))
      (\<lambda>p2. up_held held M cfg now p2 \<and> up_held held M cfg now (block_peer (qd_destination ?q) p2)))" for e
    using up_drop_entry_wp [OF h1 i1, of "OutcomeDropped (DeviceFailure e)"] quiet_held [OF quiet_simps(5)]
    by (auto simp: case_prod_unfold elim!: wp_mono)
  have quiet': "up_held held M cfg now p2 \<Longrightarrow> up_held held M cfg now (p2\<lparr>up_stats := st\<rparr>)" for p2 :: "'d udp_pool" and st
    by (rule quiet_held [OF quiet_simps(2)])
  have eval: "up_submit ops i p = (case r of
       Inr n \<Rightarrow>
         if n = 1 then do {
           (q, tx) \<leftarrow> sd_remove i tx;
           p \<leftarrow> up_finish ops q OutcomeSubmitted (p1\<lparr>up_tx := tx\<rparr>);
           Some (Inr 1, p\<lparr>up_stats := (up_stats p)\<lparr>ps_submitted := ps_submitted (up_stats p) + 1\<rparr>\<rparr>)
         }
         else if n = 0 then Some (Inr 0, block_peer (qd_destination ?q) p1)
         else Some (Inl InvalidData, p1)
     | Inl e \<Rightarrow>
         if e = WouldBlock then Some (Inr 0, block_peer (qd_destination ?q) p1)
         else if drop_failure e then do {
           (q, tx) \<leftarrow> sd_remove i (up_tx p1);
           p \<leftarrow> up_finish ops q (OutcomeDropped (DeviceFailure e)) (p1\<lparr>up_tx := tx\<rparr>);
           Some (Inr 0, if uc_fair_queue (up_config p) then block_peer (qd_destination ?q) p else p)
         }
         else Some (Inl e, p1))"
  proof -
    have "up_now p = now" "up_config p = cfg"
      using up_heldD(2,3) [OF h] by simp_all
    then show ?thesis
      using i d(1) f(1) tx(1) by (cases r) (simp_all add: up_submit_def nth_opt_def b_def p1_def)
  qed
  show ?thesis
  proof (cases r)
    case (Inl e)
    then show ?thesis
      using failed [of e] blocked h1 unfolding eval by (auto simp: case_prod_unfold elim!: wp_mono)
  next
    case (Inr n)
    then show ?thesis
      using finished blocked h1 quiet' unfolding eval by (auto simp: case_prod_unfold elim!: wp_mono)
  qed
qed

lemma up_flush_loop_wp:
  assumes "up_held held M cfg now p"
  shows "wp (up_flush_loop ops budget n p) (\<lambda>(r, p'). up_held held M cfg now p')"
  using assms
proof (induction budget arbitrary: n p)
  case (Suc budget)
  obtain c where c: "sd_candidate (up_now p) (uc_fair_queue (up_config p)) (up_blocked_peers p) (up_tx p) = Some c"
      "case c of None \<Rightarrow> True | Some i \<Rightarrow> i < length (sd_queue (up_tx p))"
    using sd_candidate_wp [OF up_heldD(5) [OF Suc.prems], of "up_now p" "uc_fair_queue (up_config p)" "up_blocked_peers p"]
    unfolding wp_eq_Some by blast
  show ?case
  proof (cases c)
    case (Some i)
    then obtain r p1 where "up_submit ops i p = Some (r, p1)" "up_held held M cfg now p1"
      using up_submit_wp [OF Suc.prems, of i] c(2) unfolding wp_eq_Some by auto
    then show ?thesis
      using Some c(1) Suc.IH [of p1] by (cases r) simp_all
  qed (use c Suc.prems in simp)
qed simp

lemma up_flush_wp:
  assumes h: "up_held held M cfg now p"
  shows "wp (up_flush ops p) (\<lambda>(r, p'). up_held held M cfg now p')"
proof -
  have "up_now p = now"
    using up_heldD(3) [OF h] .
  then obtain p1 where p1: "up_advance ops (up_now p) p = Some (Inr (), p1)" "up_held held M cfg now p1"
    using up_advance_wp [OF h order_refl] unfolding wp_eq_Some by auto
  show ?thesis
    using p1(1) up_flush_loop_wp [OF quiet_held [OF quiet_simps(3) p1(2)]] by (simp add: up_flush_def)
qed

text \<open>Received packets.\<close>

lemma up_discard_wp:
  assumes "up_held held (add_mset f M) cfg now p"
  shows "wp (dv_drop ops f (up_device p)) (\<lambda>d. up_held held M cfg now (p\<lparr>up_device := d\<rparr>))"
proof -
  have "held (up_device p) (add_mset f (up_frames p + mset (up_rx p) + M))"
    using up_heldD(4) [OF assms] by simp
  then show ?thesis
    by (rule wp_mono [OF drop_law]) (rule up_held_device [OF assms])
qed

lemma answer_query_wp:
  assumes "up_held held M cfg now p"
  shows "wp (answer_query ops source destination i services p) (up_held held M cfg now)"
  using assms
proof (induction services arbitrary: p)
  case (Cons e services)
  obtain address service_id where e: "e = (address, service_id)"
    by (cases e)
  obtain r p1 where p1: "send_to ops address source (ADVERT @ u32_to_be_bytes i) p = Some (r, p1)" "up_held held M cfg now p1"
    using send_to_wp [OF Cons.prems, of address source "ADVERT @ u32_to_be_bytes i"] unfolding wp_eq_Some by auto
  have "up_held held M cfg now (p1\<lparr>up_stats := st\<rparr>)" for st
    using quiet_held [OF quiet_simps(2) p1(2)] .
  then show ?case
    using Cons.IH Cons.prems p1 by (cases r) (simp_all add: e)
qed simp

lemma learn_peer_held:
  assumes h: "up_held held M cfg now p"
  shows "up_held held M cfg now (learn_peer source i now p)"
proof -
  let ?q = "\<lparr>pr_service = \<lparr>sv_address = source, sv_id = i\<rparr>, pr_last_seen = now\<rparr>"
  have bt: "bt_inv (up_peers p)" "length (up_peers p) \<le> up_peer_capacity p"
    using up_heldD(1) [OF h] by (simp_all add: up_inv_def)
  have "length (bt_insert source ?q (up_peers p)) \<le> up_peer_capacity p"
    if "length (up_peers p) < up_peer_capacity p \<or> bt_contains (up_peers p) source"
    using btm.bounded_ins [OF bt] that by (auto simp: bt_contains_def)
  moreover have "\<forall>(a, q) \<in> set (bt_insert source ?q (up_peers p)). pr_last_seen q \<le> now"
    using h set_bt_insert [of source ?q "up_peers p"] by (fastforce simp: up_held_def up_inv_def)
  ultimately show ?thesis
    using h btm.ok_ins [OF bt(1), of source ?q] by (auto simp: learn_peer_def up_held_def up_inv_def up_frames_def)
qed

lemma up_echo_wp:
  assumes h: "up_held held (add_mset f M) cfg now p"
  shows "wp (up_echo ops f source destination p) (\<lambda>(r, p'). up_held held M cfg now p')"
proof -
  obtain r p1 where p1: "up_admit destination source None p = (r, p1)"
    by (metis prod.collapse)
  note h1 = up_admit_held(1) [OF h p1]
  show ?thesis
  proof (cases r)
    case (Inl e)
    let ?p = "up_rejected destination source e (p1\<lparr>up_stats := (up_stats p1)\<lparr>ps_response_drops := ps_response_drops (up_stats p1) + 1\<rparr>\<rparr>)"
    have "up_held held (add_mset f M) cfg now ?p"
      using quiet_held [OF quiet_trans [OF quiet_simps(2) quiet_rejected] h1] .
    then show ?thesis
      using up_discard_wp p1 Inl by (simp add: up_echo_def)
  next
    case (Inr u)
    let ?self = "\<lparr>rs_ipv4 = octets (sa_ip destination), rs_mac = replicate 6 0, rs_udp_port = Some (sa_port destination)\<rparr>"
    have f: "held (up_device p1) (add_mset f (up_frames p1 + mset (up_rx p1) + M))" "pb_inv f"
      using up_heldD(4) [OF h1] held_inv by simp_all
    have "responder_wf ?self"
      by (simp add: responder_wf_def)
    then obtain reply f' where f': "respond ?self f LinkIp = Some (reply, f')" "pb_inv f'" "same_frame f f'" "\<not> is_reply reply \<longrightarrow> f' = f"
      using respond_wp [OF _ f(2), of ?self LinkIp] unfolding wp_eq_Some by auto
    have "held (up_device p1) (up_frames p1 + mset (up_rx p1) + add_mset f' M)"
      using held_edit [OF f(1) f'(3,2)] by simp
    from up_held_device [OF h1 this] have h2: "up_held held (add_mset f' M) cfg now p1"
      by simp
    have "admitted cfg source (up_tx p1)"
      using up_admit_held(2) [OF h p1] Inr by simp
    then show ?thesis
      using p1 Inr f'(1) up_enqueue_wp [OF h2] up_discard_wp [OF h2] by (simp add: up_echo_def case_prod_unfold)
  qed
qed

lemma up_packet_wp:
  assumes h: "up_held held (add_mset f M) cfg now p"
  shows "wp (up_packet ops handler now f (p, s)) (\<lambda>(r, p', s'). up_held held M cfg now p')"
proof -
  obtain parsed where parsed: "udp_parse_ipv4 (as_slice f) = Some parsed"
    using udp_parse_total by blast
  have discard: "wp (dv_drop ops f (up_device q)) (\<lambda>d. up_held held M cfg now (q\<lparr>up_device := d\<rparr>))"
    if "up_held held (add_mset f M) cfg now q" for q
    using up_discard_wp [OF that] .
  have stats: "up_held held (add_mset f M) cfg now (p\<lparr>up_stats := st\<rparr>)" for st
    using quiet_held [OF quiet_simps(2) h] .
  have discard_stats: "wp (dv_drop ops f (up_device q)) (\<lambda>d. up_held held M cfg now (q\<lparr>up_stats := st, up_device := d\<rparr>))"
    if "up_held held (add_mset f M) cfg now q" for q st
    using discard [OF quiet_held [OF quiet_simps(2) that]] by simp
  show ?thesis
  proof (cases parsed)
    case (Inl e)
    then show ?thesis
      using parsed discard_stats [OF h] by (simp add: up_packet_def)
  next
    case (Inr dg)
    define p1 where "p1 = p\<lparr>up_stats := (up_stats p)\<lparr>ps_received := ps_received (up_stats p) + 1\<rparr>\<rparr>"
    have h1: "up_held held (add_mset f M) cfg now p1"
      unfolding p1_def by (rule stats)
    have work: "up_held held (add_mset f M) cfg now q \<Longrightarrow> up_held held (add_mset f M) cfg now (q\<lparr>up_service_work := []\<rparr>)" for q
      using quiet_held [OF quiet_simps(4)] .
    have query: "wp (answer_query ops a b i services p1)
        (\<lambda>q. wp (dv_drop ops f (up_device q)) (\<lambda>d. up_held held M cfg now (q\<lparr>up_service_work := [], up_device := d\<rparr>)))" for a b i services
      by (rule wp_mono [OF answer_query_wp [OF h1]]) (use discard [OF work] in simp)
    have read: "\<exists>i. read32_at xs 6 = Some i" if "length xs = 10" for xs
      using that by (simp add: read32_at_def)
    show ?thesis
      using parsed Inr discard [OF h1] discard_stats [OF h1] query read [of "dg_payload dg"] discard [OF learn_peer_held [OF h1]] up_echo_wp [OF h1]
      by (auto simp: up_packet_def p1_def [symmetric] Let_def case_prod_unfold split: prod.split action.split)
  qed
qed

lemma up_packets_wp:
  assumes "up_held held (mset fs + M) cfg now p"
  shows "wp (up_packets ops handler now fs (p, s)) (\<lambda>(r, p', s'). up_held held M cfg now p')"
  using assms
proof (induction fs arbitrary: p s)
  case (Cons f fs)
  have "up_held held (add_mset f (mset fs + M)) cfg now p"
    using Cons.prems by simp
  from up_packet_wp [OF this, of handler s] obtain r p1 s1 where p1: "up_packet ops handler now f (p, s) = Some (r, p1, s1)"
      "up_held held (mset fs + M) cfg now p1"
    unfolding wp_eq_Some by auto
  have "held (up_device p1) (mset fs + (up_frames p1 + mset (up_rx p1) + M))"
    using up_heldD(4) [OF p1(2)] by (simp add: ac_simps)
  then obtain d where d: "dv_drop_all ops fs (up_device p1) = Some d" "held d (up_frames p1 + mset (up_rx p1) + M)"
    using drop_all_wp unfolding wp_eq_Some by blast
  show ?case
    using p1 d(1) up_held_device [OF p1(2) d(2)] Cons.IH [OF p1(2), of s1] by (cases r) simp_all
qed simp

lemma up_poll_wp:
  assumes h: "up_held held M cfg t p"
  shows "wp (up_poll ops handler now lease budget (p, s)) (\<lambda>(r, p', s'). up_held held M cfg (max t now) p')"
proof (cases "now < t")
  case True
  then show ?thesis
    using h up_heldD(3) [OF h] by (simp add: up_poll_def max_def)
next
  case False
  have max: "max t now = now"
    using False by simp
  obtain p1 where p1: "up_advance ops now p = Some (Inr (), p1)" "up_held held M cfg now p1"
    using up_advance_wp [OF h, of now] False unfolding wp_eq_Some by auto
  obtain r d where d: "dv_poll_at ops now (up_device p1) = Some (r, d)" "held d (up_frames p1 + mset (up_rx p1) + M)"
    using poll_law [OF up_heldD(4) [OF p1(2)], of now] unfolding wp_eq_Some by auto
  note h2 = up_held_device [OF p1(2) d(2)]
  let ?p2 = "p1\<lparr>up_device := d\<rparr>"
  let ?peers = "filter (\<lambda>e. peer_fresh now lease e = Some True) (up_peers p1)"
  have "filter_opt (peer_fresh now lease) (up_peers p1) = Some ?peers"
    using p1(2) by (intro filter_opt_some) (fastforce simp: peer_fresh_def up_held_def up_inv_def)
  then have peers: "filter_opt (peer_fresh now lease) (up_peers ?p2) = Some ?peers"
    by simp
  have h3: "up_held held M cfg now (?p2\<lparr>up_peers := ?peers\<rparr>)"
    using h2 bt_inv_filter [of "up_peers p1" "\<lambda>e. peer_fresh now lease e = Some True"] unfolding up_held_def up_inv_def up_frames_def
    by (auto intro: le_trans [OF length_filter_le])
  obtain r4 p4 where p4: "up_flush ops (?p2\<lparr>up_peers := ?peers\<rparr>) = Some (r4, p4)" "up_held held M cfg now p4"
    using up_flush_wp [OF h3] unfolding wp_eq_Some by auto
  have "held (up_device p4) (mset (up_rx p4) + (up_frames p4 + M))"
    using up_heldD(4) [OF p4(2)] by (simp add: ac_simps)
  from recv_law [OF this] obtain r5 rx d5 where d5: "dv_recv ops (min budget (up_capacity p4)) (up_rx p4) (up_device p4) = Some (r5, rx, d5)"
      "held d5 (mset rx + (up_frames p4 + M))"
    unfolding wp_eq_Some by fastforce
  have h5: "up_held held M cfg now (p4\<lparr>up_device := d5, up_rx := rx\<rparr>)"
      "up_held held (mset rx + M) cfg now (p4\<lparr>up_device := d5, up_rx := []\<rparr>)"
    using p4(2) d5(2) by (auto simp: up_held_def up_inv_def up_frames_def ac_simps)
  obtain r6 p6 s6 where p6: "up_packets ops handler now rx (p4\<lparr>up_device := d5, up_rx := []\<rparr>, s) = Some (r6, p6, s6)" "up_held held M cfg now p6"
    using up_packets_wp [OF h5(2), of handler s] unfolding wp_eq_Some by auto
  have "\<not> now < up_now p"
    using False up_heldD(3) [OF h] by simp
  then show ?thesis
    unfolding max using p1(1) d(1) h2 peers p4 d5(1) h5(1) p6 by (cases r; cases r4; cases r5) (simp_all add: up_poll_def)
qed

lemma up_unbind_wp:
  assumes h: "up_held held M cfg now p"
  shows "wp (up_unbind ops a p) (\<lambda>(r, p'). up_held held M cfg now p' \<and>
    sd_queue (up_tx p') = (if r then filter (\<lambda>q. qd_source q \<noteq> a) (sd_queue (up_tx p)) else sd_queue (up_tx p)) \<and>
    (r \<longrightarrow> \<not> bt_contains (up_services p') a \<and> up_peers p' = []))"
proof (cases "bt_contains (up_services p) a")
  case True
  let ?p = "p\<lparr>up_services := bt_remove a (up_services p), up_generation := up_generation p + 1, up_peers := []\<rparr>"
  have bt: "bt_inv (up_services p)"
    using up_heldD(1) [OF h] by (simp add: up_inv_def)
  have "length (bt_remove a (up_services p)) \<le> length (up_services p)"
    using btm.count_del_le [OF bt] .
  then have h1: "up_held held M cfg now ?p"
    using h btm.ok_del [OF bt] by (auto simp: up_held_def up_inv_def up_frames_def)
  have "\<not> bt_contains (bt_remove a (up_services p)) a"
    by (simp add: bt_contains_def btm.get_del [OF bt])
  then show ?thesis
    using True up_cancel_wp [OF h1, of "\<lambda>q. qd_source q = a" udp_failure.ConfigurationChanged]
    by (auto simp: up_unbind_def same_tables_def elim!: wp_mono)
qed (use h in \<open>simp add: up_unbind_def\<close>)

lemma replace_services_wp:
  assumes h: "up_held held M cfg now p"
  shows "wp (replace_services ops services p) (\<lambda>(r, p'). up_held held M cfg now p' \<and> (r \<noteq> Inr () \<longrightarrow> p' = p))"
proof (cases "validate_services services p")
  case (Inr m)
  then have "bt_inv m" "length m \<le> uc_service_capacity cfg"
    using validate_services_inv [OF Inr] up_heldD(2) [OF h] by simp_all
  from install_services_wp [OF h this] show ?thesis
    using Inr h by (auto simp: replace_services_def elim!: wp_mono)
qed (use h in \<open>simp add: replace_services_def\<close>)

end

section \<open>Runs of client calls\<close>

datatype 'h up_call =
    UdpBind service
  | UdpUnbind sockaddr
  | UdpReplace "service list"
  | UdpSend sockaddr sockaddr bytes "duration option"
  | UdpDiscover sockaddr sockaddr u32
  | UdpAdvance duration
  | UdpFlush
  | UdpPoll "'h handler" duration duration nat
  | UdpPopEvent
  | UdpNextDeadline

fun up_exec :: "'d device_ops \<Rightarrow> 'h up_call \<Rightarrow> 'd udp_pool \<times> 'h \<Rightarrow> ('d udp_pool \<times> 'h) option" where
  "up_exec ops (UdpBind s) (p, h) = Some (snd (up_bind s p), h)"
| "up_exec ops (UdpUnbind a) (p, h) = map_option (\<lambda>(r, p). (p, h)) (up_unbind ops a p)"
| "up_exec ops (UdpReplace ss) (p, h) = map_option (\<lambda>(r, p). (p, h)) (replace_services ops ss p)"
| "up_exec ops (UdpSend source destination payload deadline) (p, h) =
     map_option (\<lambda>(r, p). (p, h)) (send_with_options ops source destination payload deadline p)"
| "up_exec ops (UdpDiscover source seed i) (p, h) = map_option (\<lambda>(r, p). (p, h)) (discover ops source seed i p)"
| "up_exec ops (UdpAdvance now) (p, h) = map_option (\<lambda>(r, p). (p, h)) (up_advance ops now p)"
| "up_exec ops UdpFlush (p, h) = map_option (\<lambda>(r, p). (p, h)) (up_flush ops p)"
| "up_exec ops (UdpPoll handler now lease budget) (p, h) =
     map_option (\<lambda>(r, p, h). (p, h)) (up_poll ops handler now lease budget (p, h))"
| "up_exec ops UdpPopEvent (p, h) = Some (snd (up_pop_event p), h)"
| "up_exec ops UdpNextDeadline (p, h) = map_option (\<lambda>r. (p, h)) (up_next_deadline p)"

fun up_run :: "'d device_ops \<Rightarrow> 'h up_call list \<Rightarrow> 'd udp_pool \<times> 'h \<Rightarrow> ('d udp_pool \<times> 'h) option" where
  "up_run ops [] s = Some s"
| "up_run ops (call # calls) s = do { s \<leftarrow> up_exec ops call s; up_run ops calls s }"

lemma up_new_held:
  assumes "held d M" and "udp_with_config d cfg = Inr p"
  shows "up_held held M cfg 0 p"
proof -
  have "udp_config_validate cfg = Inr ()"
    using assms(2) by (auto simp: udp_with_config_def split: sum.split_asm)
  moreover have "sd_queue scheduler_new = []"
    by (simp add: scheduler_new_def)
  ultimately show ?thesis
    using assms by (auto simp: udp_with_config_def up_held_def up_inv_def up_frames_def sched_inv_new)
qed

lemma up_next_deadline_some: "up_held held M cfg now p \<Longrightarrow> \<exists>r. up_next_deadline p = Some r"
  using sd_next_deadline_some [OF up_heldD(5)] by (fastforce simp: up_next_deadline_def)

context device
begin

lemma up_exec_wp:
  assumes h: "up_held held M cfg now p"
  shows "wp (up_exec ops call (p, s)) (\<lambda>(p', s'). \<exists>now'. up_held held M cfg now' p')"
proof (cases call)
  case (UdpBind x)
  then show ?thesis
    using up_bind_held [OF h, of x] by (cases "up_bind x p") auto
next
  case (UdpUnbind a)
  then show ?thesis
    using up_unbind_wp [OF h, of a] unfolding wp_eq_Some by auto
next
  case (UdpReplace ss)
  then show ?thesis
    using replace_services_wp [OF h, of ss] unfolding wp_eq_Some by auto
next
  case (UdpSend a b payload deadline)
  then show ?thesis
    using send_with_options_wp [OF h, of a b payload deadline] unfolding wp_eq_Some by auto
next
  case (UdpDiscover a b i)
  then show ?thesis
    using send_to_wp [OF h, of a b "QUERY @ u32_to_be_bytes i"] unfolding wp_eq_Some by (auto simp: discover_def)
next
  case (UdpAdvance t)
  then show ?thesis
    using up_advance_wp [OF h, of t] h up_heldD(3) [OF h] unfolding wp_eq_Some by (cases "now \<le> t") (auto simp: up_advance_def)
next
  case UdpFlush
  then show ?thesis
    using up_flush_wp [OF h] unfolding wp_eq_Some by auto
next
  case (UdpPoll handler t lease budget)
  then show ?thesis
    using up_poll_wp [OF h, of handler t lease budget s] unfolding wp_eq_Some by auto
next
  case UdpPopEvent
  then show ?thesis
    using quiet_held [OF quiet_pop h] by auto
next
  case UdpNextDeadline
  then show ?thesis
    using up_next_deadline_some [OF h] h by auto
qed

lemma up_run_wp:
  assumes "up_held held M cfg now p"
  shows "wp (up_run ops calls (p, s)) (\<lambda>(p', s'). \<exists>now'. up_held held M cfg now' p')"
  using assms
proof (induction calls arbitrary: now p s)
  case (Cons call calls)
  show ?case
    using up_exec_wp [OF Cons.prems, of call s] Cons.IH unfolding wp_eq_Some by fastforce
qed auto

end

section \<open>The pool over the Ethernet adapter\<close>

text \<open>The endpoints a client asks for, by address.\<close>

definition requested :: "service list \<Rightarrow> sockaddr \<Rightarrow> u32 option" where
  "requested services = map_of (map (\<lambda>s. (sv_address s, sv_id s)) services)"

lemma collect_services_fresh:
  assumes "collect_services ss m = Inr m'" and "bt_inv m" and "bt_contains m a"
  shows "a \<notin> sv_address ` set ss"
  using assms
proof (induction ss m rule: collect_services.induct)
  case (2 s ss m)
  have ins: "bt_inv (bt_insert (sv_address s) (sv_id s) m)" "bt_contains (bt_insert (sv_address s) (sv_id s) m) a"
    using 2(3,4) btm.ok_ins [OF 2(3)] by (simp_all add: bt_contains_get btm.get_ins)
  moreover have "sv_address s \<noteq> a" "\<not> bt_contains m (sv_address s)" "\<exists>u. validate_bind (sv_address s) = Inr u"
      "collect_services ss (bt_insert (sv_address s) (sv_id s) m) = Inr m'"
    using 2(2,4) by (auto split: sum.split_asm if_split_asm)
  ultimately show ?case
    using 2(1) by auto
qed simp

lemma collect_services_get:
  assumes "collect_services ss m = Inr m'" and "bt_inv m"
  shows "bt_get m' = bt_get m ++ requested ss"
  using assms
proof (induction ss m rule: collect_services.induct)
  case (2 s ss m)
  let ?m = "bt_insert (sv_address s) (sv_id s) m"
  have c: "\<not> bt_contains m (sv_address s)" "\<exists>u. validate_bind (sv_address s) = Inr u" "collect_services ss ?m = Inr m'"
    using 2(2) by (auto split: sum.split_asm if_split_asm)
  have ins: "bt_inv ?m" "bt_contains ?m (sv_address s)"
    using btm.ok_ins [OF 2(3)] by (simp_all add: bt_contains_get btm.get_ins [OF 2(3)])
  have eq: "bt_get m' = bt_get ?m ++ requested ss"
    using 2(1) c ins(1) by auto
  have fresh: "requested ss (sv_address s) = None"
    using collect_services_fresh [OF c(3) ins] by (auto simp: requested_def map_of_eq_None_iff)
  show ?case
  proof
    fix a
    show "bt_get m' a = (bt_get m ++ requested (s # ss)) a"
      using fresh
      by (cases "a = sv_address s") (simp_all add: eq map_add_def btm.get_ins [OF 2(3)] requested_def split: option.split)
  qed
qed (simp add: requested_def)

text \<open>Draining the queue of a pool over the adapter only returns frames to the device below.\<close>

lemma ei_device_same: "\<exists>d. i = i\<lparr>ei_device := d\<rparr>"
  by (rule exI [of _ "ei_device i"]) simp

lemma up_drain_eth: "up_drain (eth_ops ops) rounds p = Some p' \<Longrightarrow> \<exists>d. up_device p' = (up_device p)\<lparr>ei_device := d\<rparr>"
proof (induction rounds arbitrary: p)
  case (Suc rounds)
  show ?case
  proof (cases "sd_queue (up_tx p) = []")
    case False
    then obtain q tx p1 where p1: "up_finish (eth_ops ops) q (OutcomeDropped udp_failure.ConfigurationChanged) (p\<lparr>up_tx := tx\<rparr>) = Some p1"
        "up_drain (eth_ops ops) rounds p1 = Some p'"
      using Suc.prems by (auto simp: bind_eq_Some_conv)
    have "up_device (up_event e r) = up_device r" for e and r :: "'a eth_ipv4 udp_pool"
      using quiet_event by (auto simp: quiet_def)
    then have "\<exists>d. up_device p1 = (up_device p)\<lparr>ei_device := d\<rparr>"
      using p1(1) by (auto simp: up_finish_def eth_ops_def drop_frame_def bind_eq_Some_conv Let_def)
    then show ?thesis
      using Suc.IH [OF p1(2)] by auto
  qed (use Suc.prems ei_device_same in auto)
qed (use ei_device_same in auto)

lemma install_services_eth:
  "install_services (eth_ops ops) m p = Some p' \<Longrightarrow> \<exists>d. up_device p' = (up_device p)\<lparr>ei_device := d\<rparr>"
  by (auto simp: install_services_def bind_eq_Some_conv dest!: up_drain_eth)

text \<open>Nothing of the time before a change of the configuration is left in the pool or in the adapter.\<close>

definition traffic_cleared :: "'d eth_ipv4 udp_pool \<Rightarrow> bool" where
  "traffic_cleared p \<longleftrightarrow> sd_queue (up_tx p) = [] \<and> up_peers p = [] \<and> ei_pending (up_device p) = [] \<and> ei_ready (up_device p) = [] \<and>
     ei_control (up_device p) = [] \<and> list_all (\<lambda>e. is_static (snd e)) (ei_neighbors (up_device p))"

lemma up_configure_wp:
  assumes dev: "device ops held" and h: "up_held (eth_held held) M cfg now p"
  shows "wp (up_configure_ipv4 ops address prefix gateway services p) (\<lambda>(r, p'). up_held (eth_held held) M cfg now p' \<and>
    (case r of
       Inl e \<Rightarrow> p' = p
     | Inr _ \<Rightarrow> bt_get (up_services p') = requested services \<and> length (up_services p') = length services \<and>
         list_all (\<lambda>s. sa_ip (sv_address s) = address) services \<and> lease_applied address prefix gateway (up_device p') \<and>
         (p' = p \<or> traffic_cleared p')))"
proof (cases "validate_services services p")
  case (Inr m)
  then have m: "bt_inv m" "length m \<le> uc_service_capacity cfg" "bt_get m = requested services" "length m = length services"
    using validate_services_inv [OF Inr] up_heldD(2) [OF h] collect_services_get [of services "[]" m] collect_services_inv [of services "[]" m]
    by (auto simp: validate_services_def bt_get_def map_add_def split: if_split_asm option.split)
  show ?thesis
  proof (cases "list_ex (\<lambda>s. sa_ip (sv_address s) \<noteq> address) services")
    case False
    then have ips: "list_all (\<lambda>s. sa_ip (sv_address s) = address) services"
      by (auto simp: list_all_iff list_ex_iff)
    note hd = up_heldD(4) [OF h]
    obtain r d where c: "configure_ipv4 ops address prefix gateway (up_device p) = Some (r, d)"
      using device.configure_ipv4_wp [OF dev hd, of address prefix gateway] unfolding wp_eq_Some by auto
    then have d: "eth_held held d (up_frames p + mset (up_rx p) + M)"
        "case r of Inl e \<Rightarrow> d = up_device p | Inr changed \<Rightarrow> lease_applied address prefix gateway d \<and>
           (if changed then ei_pending d = [] \<and> ei_ready d = [] \<and> ei_control d = [] \<and> ei_neighbors d = [] else d = up_device p)"
      using device.configure_ipv4_wp [OF dev hd, of address prefix gateway] by simp_all
    obtain d' where d': "reset_link ops d = Some d'" "eth_held held d' (up_frames p + mset (up_rx p) + M)"
        "ei_config d' = ei_config d" "ei_configured d' = ei_configured d" "ei_routes d' = ei_routes d"
        "ei_pending d' = []" "ei_ready d' = []" "ei_control d' = []" "list_all (\<lambda>e. is_static (snd e)) (ei_neighbors d')"
      using device.reset_link_wp [OF dev d(1)] unfolding wp_eq_Some by blast
    have install: "\<exists>p'. install_services (eth_ops ops) m (p\<lparr>up_device := e\<rparr>) = Some p' \<and> up_held (eth_held held) M cfg now p' \<and>
        up_services p' = m \<and> lease_applied address prefix gateway (up_device p') \<and> traffic_cleared p'"
      if e: "eth_held held e (up_frames p + mset (up_rx p) + M)" "lease_applied address prefix gateway e"
        "ei_pending e = []" "ei_ready e = []" "ei_control e = []" "list_all (\<lambda>e. is_static (snd e)) (ei_neighbors e)" for e
    proof -
      obtain p' where p': "install_services (eth_ops ops) m (p\<lparr>up_device := e\<rparr>) = Some p'" "up_held (eth_held held) M cfg now p'"
          "up_services p' = m" "sd_queue (up_tx p') = []" "up_peers p' = []"
        using device.install_services_wp [OF device.eth_device [OF dev] up_held_device [OF h e(1)] m(1,2)] unfolding wp_eq_Some by blast
      obtain d where "up_device p' = e\<lparr>ei_device := d\<rparr>"
        using install_services_eth [OF p'(1)] by auto
      then show ?thesis
        using p' e(2-6) by (simp add: traffic_cleared_def lease_applied_def)
    qed
    show ?thesis
    proof (cases r)
      case (Inl e)
      then show ?thesis
        using Inr False c d h by (simp add: up_configure_ipv4_def)
    next
      case r: (Inr changed)
      then have lease: "lease_applied address prefix gateway d"
        using d(2) by simp
      show ?thesis
      proof (cases changed)
        case True
        then show ?thesis
          using install [OF d(1) lease] d(2) r Inr False c m(3,4) ips by (auto simp: up_configure_ipv4_def)
      next
        case changed: False
        then have same: "p\<lparr>up_device := d\<rparr> = p" "d = up_device p"
          using d(2) r by simp_all
        have "lease_applied address prefix gateway d'"
          using lease d'(3-5) by (simp add: lease_applied_def)
        from install [OF d'(2) this d'(6-9)] show ?thesis
          using lease changed r Inr False c d'(1) m(3,4) ips h same by (auto simp: up_configure_ipv4_def)
      qed
    qed
  qed (use Inr h in \<open>simp add: up_configure_ipv4_def\<close>)
qed (use h in \<open>simp add: up_configure_ipv4_def\<close>)

lemma up_withdraw_wp:
  assumes dev: "device ops held" and h: "up_held (eth_held held) M cfg now p"
  shows "wp (up_withdraw_ipv4 ops p) (\<lambda>p'. up_held (eth_held held) M cfg now p' \<and> up_services p' = [] \<and> up_peers p' = [] \<and>
    sd_queue (up_tx p') = [])"
proof -
  obtain d where d: "withdraw_ipv4 ops (up_device p) = Some d" "eth_held held d (up_frames p + mset (up_rx p) + M)"
    using device.withdraw_ipv4_wp [OF dev up_heldD(4) [OF h]] unfolding wp_eq_Some by blast
  have "bt_inv ([] :: (sockaddr, u32) btree_map)"
    by simp
  from device.install_services_wp [OF device.eth_device [OF dev] up_held_device [OF h d(2)] this] show ?thesis
    using d(1) by (auto simp: up_withdraw_ipv4_def elim!: wp_mono)
qed

section \<open>Properties\<close>

lemma udp_run:
  assumes "device ops held" and "held d M" and "udp_with_config d cfg = Inr p"
  shows "wp (up_run ops calls (p, s)) (\<lambda>(p', s'). \<exists>now'. up_held held M cfg now' p')"
  using device.up_run_wp [OF assms(1) up_new_held [where held = held, OF assms(2,3)]] .

lemma udp_run_held:
  assumes "device ops held" and "held d M" and "udp_with_config d cfg = Inr p" and "up_run ops calls (p, s) = Some (p', s')"
  shows "\<exists>now'. up_held held M cfg now' p'"
  using udp_run [OF assms(1-3), of calls s] assms(4) by simp

text \<open>
  A pool on the loopback device with one endpoint that sends a datagram to itself and answers what it receives,
  counting the received datagrams.
\<close>

definition demo_udp_pool :: "loopback udp_pool" where
  "demo_udp_pool = \<lparr>up_device = demo_loopback, up_services = [], up_peers = [], up_tx = scheduler_new, up_config = udp_config_default,
     up_events = [], up_next_id = 1, up_generation = 0, up_blocked_peers = [], up_service_work = [], up_rx = [], up_capacity = 128,
     up_peer_capacity = 64, up_now = 0, up_stats = pool_stats_default\<rparr>"

definition demo_endpoint :: sockaddr where
  "demo_endpoint = SocketAddrV4 0x0A000001 7"

definition demo_handler :: "nat handler" where
  "demo_handler dg n = (ActionEcho, Suc n)"

definition demo_udp_calls :: "nat up_call list" where
  "demo_udp_calls = [UdpBind \<lparr>sv_address = demo_endpoint, sv_id = 1\<rparr>, UdpSend demo_endpoint demo_endpoint [1, 2, 3] (Some 5),
     UdpPoll demo_handler 1 10 4, UdpPoll demo_handler 2 10 4, UdpPopEvent]"

lemma demo_udp_premises: "device loopback_ops loopback_held" "loopback_held demo_loopback {#}"
  "udp_with_config demo_loopback udp_config_default = Inr demo_udp_pool"
  by (rule lbk.device_axioms demo_held)+ (simp add: demo_udp_pool_def udp_with_config_def udp_config_validate_def udp_config_default_def)

lemma demo_udp_run: "\<exists>p n. up_run loopback_ops demo_udp_calls (demo_udp_pool, 0) = Some (p, n)"
  using udp_run [OF demo_udp_premises, of demo_udp_calls 0] unfolding wp_eq_Some by auto

text \<open>
  C5. No sequence of client calls on a new pool makes it panic, whatever the device delivers and whatever the
  application's handler decides, and every frame handle it took from the device is accounted for: it is given back,
  it is queued for transmission or it is in the receive buffer of the pool.
\<close>

theorem udp_pool_safe:
  assumes "device ops held" and "held d M" and "udp_with_config d cfg = Inr p"
  shows "\<exists>p' s'. up_run ops calls (p, s) = Some (p', s') \<and> held (up_device p') (up_frames p' + mset (up_rx p') + M)"
proof -
  obtain p' s' now where "up_run ops calls (p, s) = Some (p', s')" "up_held held M cfg now p'"
    using udp_run [OF assms, of calls s] unfolding wp_eq_Some by auto
  then show ?thesis
    using up_heldD(4) by blast
qed

theorem udp_pool_safe_witness:
  "\<exists>p n. up_run loopback_ops demo_udp_calls (demo_udp_pool, 0) = Some (p, n) \<and>
     loopback_held (up_device p) (up_frames p + mset (up_rx p) + {#})"
  by (rule udp_pool_safe [OF demo_udp_premises])

text \<open>
  C30. The memory of a pool is bounded in every run: the queue as a whole and the share of every destination, the
  tables of endpoints and of discovered peers and the queue of events stay within their configured capacities.
\<close>

theorem udp_pool_bounded:
  assumes "device ops held" and "held d M" and "udp_with_config d cfg = Inr p" and "up_run ops calls (p, s) = Some (p', s')"
  shows "length (sd_queue (up_tx p')) \<le> uc_queue_capacity cfg \<and>
    queued_for destination (sd_queue (up_tx p')) \<le> uc_per_peer_capacity cfg \<and>
    length (up_services p') \<le> uc_service_capacity cfg \<and> length (up_peers p') \<le> uc_peer_capacity cfg \<and>
    length (up_events p') \<le> uc_event_capacity cfg"
proof -
  obtain now where h: "up_held held M cfg now p'"
    using udp_run_held [OF assms] by blast
  then show ?thesis
    using up_heldD(1,2) [OF h] unfolding up_inv_def sched_inv_def by simp
qed

theorem udp_pool_bounded_witness:
  "\<exists>p n. up_run loopback_ops demo_udp_calls (demo_udp_pool, 0) = Some (p, n) \<and> length (sd_queue (up_tx p)) \<le> 128"
proof -
  obtain p n where run: "up_run loopback_ops demo_udp_calls (demo_udp_pool, 0) = Some (p, n)"
    using demo_udp_run by blast
  then have "length (sd_queue (up_tx p)) \<le> 128"
    using udp_pool_bounded [OF demo_udp_premises run, of demo_endpoint] by (simp add: udp_config_default_def)
  then show ?thesis
    using run by blast
qed

text \<open>
  C34. Deadlines are honoured: in every reachable pool, moving the clock forward to \<open>now\<close> removes exactly the queued
  datagrams whose deadline is not after \<open>now\<close> and keeps the others in order, so nothing expired is ever handed to
  the device by the transmission that follows.
\<close>

theorem udp_deadlines_honoured:
  assumes "device ops held" and "held d M" and "udp_with_config d cfg = Inr p" and "up_run ops calls (p, s) = Some (p', s')"
    and "now = up_now p' + elapsed"
  shows "\<exists>q. up_advance ops now p' = Some (Inr (), q) \<and> up_now q = now \<and>
    sd_queue (up_tx q) = filter (\<lambda>e. case qd_deadline e of None \<Rightarrow> True | Some at \<Rightarrow> now < at) (sd_queue (up_tx p'))"
proof -
  obtain t where h: "up_held held M cfg t p'"
    using udp_run_held [OF assms(1-4)] by blast
  have "t \<le> now"
    using assms(5) up_heldD(3) [OF h] by simp
  from device.up_advance_wp [OF assms(1) h this] obtain q where q: "up_advance ops now p' = Some (Inr (), q)" "up_held held M cfg now q"
      "sd_queue (up_tx q) = filter (\<lambda>e. case qd_deadline e of None \<Rightarrow> True | Some at \<Rightarrow> now < at) (sd_queue (up_tx p'))"
    unfolding wp_eq_Some by blast
  then show ?thesis
    using up_heldD(3) [OF q(2)] by blast
qed

theorem udp_deadlines_honoured_witness:
  "\<exists>p n q. up_run loopback_ops demo_udp_calls (demo_udp_pool, 0) = Some (p, n) \<and>
     up_advance loopback_ops (up_now p + 6) p = Some (Inr (), q) \<and> up_now q = up_now p + 6"
proof -
  obtain p n where run: "up_run loopback_ops demo_udp_calls (demo_udp_pool, 0) = Some (p, n)"
    using demo_udp_run by blast
  then show ?thesis
    using udp_deadlines_honoured [OF demo_udp_premises run refl, of 6] by blast
qed

text \<open>
  C17. Applying a lease to a pool over the Ethernet adapter is all or nothing over both layers. An error leaves the
  pool and the adapter as they were. After a success the adapter is configured with the requested address and prefix
  and exactly the routes of the lease, the pool has exactly the requested endpoints with their identifiers, all of them
  at the new address, and either nothing at all changed, as for the renewal of the same lease, or no queued traffic,
  discovered peer or learned neighbor is left in the pool or in the adapter.
\<close>

theorem udp_configure_atomic:
  assumes "device ops held" and "up_held (eth_held held) M cfg now p"
  shows "\<exists>r p'. up_configure_ipv4 ops address prefix gateway services p = Some (r, p') \<and> up_held (eth_held held) M cfg now p' \<and>
    (case r of
       Inl e \<Rightarrow> p' = p
     | Inr _ \<Rightarrow>
         ei_configured (up_device p') \<and> ic_address (ei_config (up_device p')) = address \<and>
         ic_prefix_len (ei_config (up_device p')) = prefix \<and>
         rtb_entries (ei_routes (up_device p')) = lease_routes address prefix gateway \<and>
         bt_get (up_services p') = map_of (map (\<lambda>s. (sv_address s, sv_id s)) services) \<and>
         length (up_services p') = length services \<and> list_all (\<lambda>s. sa_ip (sv_address s) = address) services \<and>
         (p' = p \<or> sd_queue (up_tx p') = [] \<and> up_peers p' = [] \<and> ei_pending (up_device p') = [] \<and> ei_ready (up_device p') = [] \<and>
            ei_control (up_device p') = [] \<and> list_all (\<lambda>e. is_static (snd e)) (ei_neighbors (up_device p'))))"
proof -
  obtain r p' where "up_configure_ipv4 ops address prefix gateway services p = Some (r, p')" "up_held (eth_held held) M cfg now p'"
      "case r of Inl e \<Rightarrow> p' = p
       | Inr _ \<Rightarrow> bt_get (up_services p') = requested services \<and> length (up_services p') = length services \<and>
           list_all (\<lambda>s. sa_ip (sv_address s) = address) services \<and> lease_applied address prefix gateway (up_device p') \<and>
           (p' = p \<or> traffic_cleared p')"
    using up_configure_wp [OF assms, of address prefix gateway services] unfolding wp_eq_Some by blast
  then show ?thesis
    by (intro exI [of _ r] exI [of _ p']) (cases r; simp add: lease_applied_def traffic_cleared_def requested_def)
qed

text \<open>A pool over the adapter on the loopback device: the lease is applied and the endpoint is there.\<close>

theorem udp_configure_atomic_witness:
  "\<exists>i p p'. udp_with_config (i :: loopback eth_ipv4) udp_config_default = Inr p \<and>
     up_configure_ipv4 loopback_ops 0x0A000005 24 None [\<lparr>sv_address = SocketAddrV4 0x0A000005 7, sv_id = 1\<rparr>] p = Some (Inr (), p') \<and>
     ic_address (ei_config (up_device p')) = 0x0A000005 \<and> bt_get (up_services p') (SocketAddrV4 0x0A000005 7) = Some 1"
proof -
  let ?ss = "[\<lparr>sv_address = SocketAddrV4 0x0A000005 7, sv_id = 1\<rparr>]"
  obtain i where i: "eth_held loopback_held i {#}" "ei_config i = demo_config"
    by (rule demo_adapter [of "\<lambda>_. 1"])
  obtain p where p: "udp_with_config i udp_config_default = Inr p"
    by (simp add: udp_with_config_def udp_config_validate_def udp_config_default_def)
  then have dev: "up_device p = i" and cap: "uc_service_capacity (up_config p) = 256"
    by (auto simp: udp_with_config_def udp_config_validate_def udp_config_default_def)
  have "up_held (eth_held loopback_held) {#} udp_config_default 0 p"
    by (rule up_new_held [where held = "eth_held loopback_held", OF i(1) p])
  from udp_configure_atomic [OF lbk.device_axioms this, where address = "0x0A000005" and prefix = 24 and gateway = None and
      services = ?ss]
  obtain r p' where c: "up_configure_ipv4 loopback_ops 0x0A000005 24 None ?ss p = Some (r, p')"
      "case r of Inl e \<Rightarrow> p' = p | Inr _ \<Rightarrow> ic_address (ei_config (up_device p')) = 0x0A000005 \<and>
         bt_get (up_services p') = map_of (map (\<lambda>s. (sv_address s, sv_id s)) ?ss)"
    by (fastforce split: sum.splits)
  have "\<exists>m. validate_services ?ss p = Inr m"
    using cap by (simp add: validate_services_def validate_bind_def is_unspecified_def is_broadcast_def is_multicast_def bt_contains_def)
  moreover obtain j where "configure_ipv4 loopback_ops 0x0A000005 24 None (up_device p) = Some (Inr True, j)"
    using demo_configure [OF i] dev by blast
  ultimately have "r = Inr ()"
    using c(1) by (auto simp: up_configure_ipv4_def bind_eq_Some_conv)
  then show ?thesis
    using p c by (intro exI [of _ i] exI [of _ p] exI [of _ p']) simp
qed

end
