(* ===== verification/Dns_Resolver_Spec.thy ===== *)
theory Dns_Resolver_Spec
  imports Dns_Resolver Udp_Pool_Spec
begin

text \<open>
  The invariant of the resolver over any device that keeps the device contract, its preservation by every
  operation, and the properties of the resolver. Lookups are tracked by their identifiers: the multiset \<open>rv_ids\<close> holds
  those that are pending or whose completion has not been taken yet.
\<close>

section \<open>Invariant\<close>

text \<open>The function \<open>dl\<close> below is a ghost: the deadline each lookup was started with.\<close>

definition pq_ok :: "resolver_config \<Rightarrow> duration \<Rightarrow> pending_query \<Rightarrow> bool" where
  "pq_ok cfg deadline q \<longleftrightarrow> pq_aliases q \<noteq> [] \<and> pq_attempts q \<le> rc_attempts_per_name cfg \<and> pq_deadline q = deadline"

definition started :: "resolver_config \<Rightarrow> duration \<Rightarrow> duration" where
  "started cfg now = saturating_add now (rc_lookup_timeout cfg)"

definition rv_ids :: "'d udp_resolver \<Rightarrow> query_id multiset" where
  "rv_ids rv = mset (map fst (rv_pending rv)) + mset (map cp_id (rv_results rv))"

definition rv_tables :: "resolver_config \<Rightarrow> duration \<Rightarrow> (query_id \<Rightarrow> duration) \<Rightarrow> u64 \<Rightarrow> 'd udp_resolver \<Rightarrow> bool" where
  "rv_tables cfg now dl fresh rv \<longleftrightarrow> rv_config rv = cfg \<and> limits_valid cfg \<and> nc_servers (rv_network rv) \<noteq> [] \<and> rv_now rv = now \<and>
     rv_next_id rv = fresh \<and> bt_inv (rv_pending rv) \<and> (\<forall>i q. bt_get (rv_pending rv) i = Some q \<longrightarrow> pq_ok cfg (dl i) q) \<and>
     bt_inv (rv_cache rv) \<and> length (rv_cache rv) \<le> rc_cache_capacity cfg"

definition rv_held ::
  "('d \<Rightarrow> packet_buf multiset \<Rightarrow> bool) \<Rightarrow> packet_buf multiset \<Rightarrow> resolver_config \<Rightarrow> duration \<Rightarrow> (query_id \<Rightarrow> duration) \<Rightarrow> u64 \<Rightarrow>
     query_id multiset \<Rightarrow>
     'd udp_resolver \<Rightarrow> bool"
where
  "rv_held held M cfg now dl fresh ids rv \<longleftrightarrow> rv_tables cfg now dl fresh rv \<and> rv_ids rv = ids \<and>
     up_held held M (resolver_udp_config cfg) now (rv_pool rv)"

lemma rv_heldD:
  assumes "rv_held held M cfg now dl fresh ids rv"
  shows "rv_tables cfg now dl fresh rv" and "rv_ids rv = ids" and "up_held held M (resolver_udp_config cfg) now (rv_pool rv)"
    and "rv_config rv = cfg" and "rv_now rv = now" and "bt_inv (rv_pending rv)" and "bt_inv (rv_cache rv)"
    and "bt_get (rv_pending rv) i = Some q \<Longrightarrow> pq_ok cfg (dl i) q" and "nc_servers (rv_network rv) \<noteq> []" and "limits_valid cfg"
    and "length (rv_cache rv) \<le> rc_cache_capacity cfg" and "rv_next_id rv = fresh"
  using assms by (auto simp: rv_held_def rv_tables_def)

lemma rv_held_pool:
  assumes "rv_held held M cfg now dl fresh ids rv" and "up_held held M (resolver_udp_config cfg) now pool"
  shows "rv_held held M cfg now dl fresh ids (rv\<lparr>rv_pool := pool\<rparr>)"
  using assms by (simp add: rv_held_def rv_tables_def rv_ids_def)

lemma rv_held_stats [simp]: "rv_held held M cfg now dl fresh ids (rv\<lparr>rv_stats := s\<rparr>) = rv_held held M cfg now dl fresh ids rv"
  by (simp add: rv_held_def rv_tables_def rv_ids_def)

lemma rv_held_draws [simp]: "rv_held held M cfg now dl fresh ids (rv\<lparr>rv_draws := n\<rparr>) = rv_held held M cfg now dl fresh ids rv"
  by (simp add: rv_held_def rv_tables_def rv_ids_def)

lemma rv_held_counts [simp]:
  "rv_held held M cfg now dl fresh ids (count_ignored rv) = rv_held held M cfg now dl fresh ids rv"
  "rv_held held M cfg now dl fresh ids (count_malformed rv) = rv_held held M cfg now dl fresh ids rv"
  "rv_held held M cfg now dl fresh ids (count_completed rv) = rv_held held M cfg now dl fresh ids rv"
  by (simp_all add: count_ignored_def count_malformed_def count_completed_def)

lemma rv_held_remove:
  assumes "rv_held held M cfg now dl fresh ids rv" and "bt_get (rv_pending rv) i = Some q"
  shows "rv_held held M cfg now dl fresh (ids - {#i#}) (rv\<lparr>rv_pending := bt_remove i (rv_pending rv)\<rparr>)"
    and "ids = add_mset i (ids - {#i#})"
proof -
  note D = rv_heldD [OF assms(1)]
  have ids: "ids = add_mset i (mset (map fst (bt_remove i (rv_pending rv))) + mset (map cp_id (rv_results rv)))"
    using keys_remove [OF D(6) assms(2)] D(2) by (simp add: rv_ids_def)
  show "rv_held held M cfg now dl fresh (ids - {#i#}) (rv\<lparr>rv_pending := bt_remove i (rv_pending rv)\<rparr>)"
    using assms(1) ids btm.ok_del [OF D(6)] btm.get_del [OF D(6)] by (simp add: rv_held_def rv_tables_def rv_ids_def)
  show "ids = add_mset i (ids - {#i#})"
    using ids by simp
qed

lemma rv_held_insert:
  assumes "rv_held held M cfg now dl fresh ids rv" and "bt_get (rv_pending rv) i = None" and "pq_ok cfg (dl i) q"
  shows "rv_held held M cfg now dl fresh (add_mset i ids) (rv\<lparr>rv_pending := bt_insert i q (rv_pending rv)\<rparr>)"
proof -
  note D = rv_heldD [OF assms(1)]
  show ?thesis
    using assms(1,3) keys_insert [OF assms(2), of q] btm.ok_ins [OF D(6)] btm.get_ins [OF D(6)]
    by (simp add: rv_held_def rv_tables_def rv_ids_def)
qed

lemma rv_held_replace:
  assumes "rv_held held M cfg now dl fresh ids rv" and "bt_get (rv_pending rv) i = Some q" and "pq_ok cfg (dl i) q'"
  shows "rv_held held M cfg now dl fresh ids (rv\<lparr>rv_pending := bt_insert i q' (rv_pending rv)\<rparr>)"
proof -
  note D = rv_heldD [OF assms(1)]
  show ?thesis
    using assms(1,3) keys_replace [OF D(6) assms(2), of q'] btm.ok_ins [OF D(6)] btm.get_ins [OF D(6)]
    by (simp add: rv_held_def rv_tables_def rv_ids_def)
qed

lemma rv_held_complete:
  assumes "rv_held held M cfg now dl fresh ids rv"
  shows "rv_held held M cfg now dl fresh (add_mset (cp_id c) ids) (rv\<lparr>rv_results := rv_results rv @ [c]\<rparr>)"
  using assms by (simp add: rv_held_def rv_tables_def rv_ids_def)

lemma evict_oldest_le:
  assumes "bt_inv c"
  shows "bt_inv (evict_oldest c)" and "length (evict_oldest c) \<le> length c - 1"
proof -
  have "length (evict_oldest c) < length c" if "c \<noteq> []"
  proof -
    let ?e = "arg_min_list (\<lambda>e. ca_expires (snd e)) c"
    have "?e \<in> set c"
      by (rule arg_min_list_in [OF that])
    then show ?thesis
      using that by (auto simp: evict_oldest_def bt_remove_def intro!: length_filter_less [of ?e])
  qed
  then show "length (evict_oldest c) \<le> length c - 1"
    by (cases "c = []") (auto simp: evict_oldest_def)
  show "bt_inv (evict_oldest c)"
    using btm.ok_del [OF assms] assms by (simp add: evict_oldest_def)
qed

lemma cache_insert_ok:
  assumes "bt_inv c" and "length c \<le> rc_cache_capacity cfg"
  shows "bt_inv (cache_insert cfg now name r ttl c)" and "length (cache_insert cfg now name r ttl c) \<le> rc_cache_capacity cfg"
proof -
  let ?c = "if rc_cache_capacity cfg \<le> length c then evict_oldest c else c"
  have c: "bt_inv ?c" "0 < rc_cache_capacity cfg \<Longrightarrow> length ?c < rc_cache_capacity cfg"
    using evict_oldest_le [OF assms(1)] assms by (auto simp: not_le simp flip: length_greater_0_conv)
  then show "bt_inv (cache_insert cfg now name r ttl c)"
    using btm.ok_ins [OF c(1)] assms(1) by (simp add: cache_insert_def Let_def)
  show "length (cache_insert cfg now name r ttl c) \<le> rc_cache_capacity cfg"
    using btm.count_ins [OF c(1)] c(2) assms(2) by (auto simp: cache_insert_def Let_def split: if_split_asm)
qed

lemma rv_held_cache:
  assumes "rv_held held M cfg now dl fresh ids rv" and "bt_inv c" and "length c \<le> rc_cache_capacity cfg"
  shows "rv_held held M cfg now dl fresh ids (rv\<lparr>rv_cache := c\<rparr>)"
  using assms by (simp add: rv_held_def rv_tables_def rv_ids_def)

text \<open>Steps that only use the pool, the random source and the counters.\<close>

definition same_lookups :: "'d udp_resolver \<Rightarrow> 'd udp_resolver \<Rightarrow> bool" where
  "same_lookups rv rv' \<longleftrightarrow> rv_config rv' = rv_config rv \<and> rv_network rv' = rv_network rv \<and> rv_pending rv' = rv_pending rv \<and>
     rv_results rv' = rv_results rv \<and> rv_cache rv' = rv_cache rv \<and> rv_now rv' = rv_now rv \<and> rv_next_id rv' = rv_next_id rv"

lemma same_lookups_simps [simp]:
  "same_lookups rv rv" "same_lookups rv (rv'\<lparr>rv_pool := p\<rparr>) = same_lookups rv rv'"
  "same_lookups rv (rv'\<lparr>rv_draws := n\<rparr>) = same_lookups rv rv'" "same_lookups rv (rv'\<lparr>rv_stats := s\<rparr>) = same_lookups rv rv'"
  "same_lookups (rv\<lparr>rv_pool := p\<rparr>) rv' = same_lookups rv rv'" "same_lookups (rv\<lparr>rv_draws := n\<rparr>) rv' = same_lookups rv rv'"
  by (simp_all add: same_lookups_def)

lemma same_lookups_held:
  assumes "rv_held held M cfg now dl fresh ids rv" and "same_lookups rv rv'" and "up_held held M (resolver_udp_config cfg) now (rv_pool rv')"
  shows "rv_held held M cfg now dl fresh ids rv'"
  using assms by (simp add: rv_held_def rv_tables_def rv_ids_def same_lookups_def)

section \<open>The work left in the pool\<close>

text \<open>Events and queued datagrams, which bound the rounds of the event loop.\<close>

definition pool_work :: "'d udp_pool \<Rightarrow> nat" where
  "pool_work p = length (up_events p) + length (sd_queue (up_tx p))"

lemma up_finish_work:
  assumes "up_finish ops q outcome p = Some p'"
  shows "up_tx p' = up_tx p" and "length (up_events p') \<le> Suc (length (up_events p))"
  using assms by (auto simp: up_finish_def up_event_def Let_def bind_eq_Some_conv split: udp_outcome.split_asm if_split_asm)

lemma up_cancel_loop_work:
  assumes "up_cancel_loop ops P reason rounds i p = Some p'"
  shows "pool_work p' \<le> pool_work p"
  using assms
proof (induction ops P reason rounds i p rule: up_cancel_loop.induct)
  case (2 ops P reason rounds i p)
  show ?case
  proof (cases "nth_opt (sd_queue (up_tx p)) i")
    case None
    then show ?thesis
      using "2.prems" by simp
  next
    case (Some q)
    show ?thesis
    proof (cases "P q")
      case True
      then obtain q' tx p1 where p1: "sd_remove i (up_tx p) = Some (q', tx)"
          "up_finish ops q' (OutcomeDropped reason) (p\<lparr>up_tx := tx\<rparr>) = Some p1"
          "up_cancel_loop ops P reason rounds i p1 = Some p'"
        using "2.prems" Some by (auto simp: bind_eq_Some_conv)
      have "length (sd_queue tx) < length (sd_queue (up_tx p))"
        using p1(1) by (auto simp: sd_remove_def nth_opt_def bind_eq_Some_conv rust_assert_def split: if_split_asm)
      then have "pool_work p1 \<le> pool_work p"
        using up_finish_work [OF p1(2)] by (simp add: pool_work_def)
      then show ?thesis
        using "2.IH"(1) [OF Some True p1(1) refl p1(2,3)] by linarith
    next
      case False
      then show ?thesis
        using "2.IH"(2) [OF Some False] "2.prems" Some by simp
    qed
  qed
qed simp

lemma up_unbind_work: "up_unbind ops a p = Some (r, p') \<Longrightarrow> pool_work p' \<le> pool_work p"
  using up_cancel_loop_work by (fastforce simp: up_unbind_def up_cancel_def pool_work_def bind_eq_Some_conv split: if_split_asm)

section \<open>Every operation keeps the invariant\<close>

context device
begin

lemma rv_close_wp:
  assumes h: "up_held held M ucfg now (rv_pool rv)"
  shows "wp (rv_close ops q rv) (\<lambda>(q', rv'). q' = q\<lparr>pq_local := None, pq_datagram := None\<rparr> \<and> same_lookups rv rv' \<and>
    rv_generation rv' = rv_generation rv \<and> up_held held M ucfg now (rv_pool rv') \<and> pool_work (rv_pool rv') \<le> pool_work (rv_pool rv))"
proof (cases "pq_local q")
  case None
  then have "q\<lparr>pq_datagram := None\<rparr> = q\<lparr>pq_local := None, pq_datagram := None\<rparr>"
    by simp
  then show ?thesis
    using None h by (simp add: rv_close_def)
next
  case (Some a)
  obtain r pool where p: "up_unbind ops a (rv_pool rv) = Some (r, pool)" "up_held held M ucfg now pool"
    using up_unbind_wp [OF h, of a] unfolding wp_eq_Some by auto
  then show ?thesis
    using Some up_unbind_work [OF p(1)] by (simp add: rv_close_def)
qed

lemma rv_finish_wp:
  assumes h: "rv_held held M cfg now dl fresh ids rv"
  shows "wp (rv_finish ops i result ttl rv) (\<lambda>rv'. rv_held held M cfg now dl fresh ids rv' \<and>
    rv_pending rv' = bt_remove i (rv_pending rv) \<and> pool_work (rv_pool rv') \<le> pool_work (rv_pool rv))"
proof (cases "bt_get (rv_pending rv) i")
  case None
  then show ?thesis
    using h bt_remove_absent [OF None] by (simp add: rv_finish_def)
next
  case (Some q)
  note r = rv_held_remove [OF h Some]
  let ?rv = "rv\<lparr>rv_pending := bt_remove i (rv_pending rv)\<rparr>"
  obtain q1 rv1 where c: "rv_close ops q ?rv = Some (q1, rv1)" "same_lookups ?rv rv1"
      "up_held held M (resolver_udp_config cfg) now (rv_pool rv1)" "pool_work (rv_pool rv1) \<le> pool_work (rv_pool rv)"
    using rv_close_wp [of M "resolver_udp_config cfg" now ?rv q] rv_heldD(3) [OF r(1)] unfolding wp_eq_Some by auto
  have h1: "rv_held held M cfg now dl fresh (ids - {#i#}) rv1"
    by (rule same_lookups_held [OF r(1) c(2,3)])
  define rv2 where "rv2 = (case ttl of None \<Rightarrow> rv1
    | Some ttl \<Rightarrow> rv1\<lparr>rv_cache := cache_insert (rv_config rv1) (rv_now rv1) (pq_original q1) result ttl (rv_cache rv1)\<rparr>)"
  have h2: "rv_held held M cfg now dl fresh (ids - {#i#}) (count_completed rv2)"
    using h1 rv_held_cache [OF h1] cache_insert_ok [OF rv_heldD(7) [OF h1] rv_heldD(11) [OF h1]] rv_heldD(4) [OF h1]
    by (simp add: rv2_def split: option.split)
  let ?c = "\<lparr>cp_id = i, cp_name = pq_original q1, cp_generation = rv_generation (count_completed rv2), cp_from_cache = False,
    cp_result = result\<rparr>"
  have "rv_finish ops i result ttl rv = Some ((count_completed rv2)\<lparr>rv_results := rv_results (count_completed rv2) @ [?c]\<rparr>)"
    using Some c(1) by (simp add: rv_finish_def rv2_def Let_def)
  moreover have "rv_held held M cfg now dl fresh ids ((count_completed rv2)\<lparr>rv_results := rv_results (count_completed rv2) @ [?c]\<rparr>)"
    using rv_held_complete [OF h2, of ?c] r(2) by simp
  moreover have "rv_pending rv2 = bt_remove i (rv_pending rv)" "rv_pool rv2 = rv_pool rv1"
    using c(2) by (simp_all add: rv2_def same_lookups_def split: option.split)
  ultimately show ?thesis
    using c(4) by (simp add: count_completed_def)
qed

lemma attempt_loop_wp:
  assumes "up_held held M ucfg now (rv_pool rv)" and "nc_servers (rv_network rv) \<noteq> []" and "pq_attempts q < 32"
  shows "wp (attempt_loop rounds ops random q rv) (\<lambda>(r, q', rv'). same_lookups rv rv' \<and> up_held held M ucfg now (rv_pool rv') \<and>
    pq_aliases q' = pq_aliases q \<and> pq_attempts q' \<le> Suc (pq_attempts q) \<and> pq_deadline q' = pq_deadline q)"
  using assms
proof (induction rounds arbitrary: rv)
  case (Suc rounds)
  let ?rv = "rv\<lparr>rv_draws := Suc (rv_draws rv)\<rparr>"
  show ?case
  proof (cases "random (rv_draws rv)")
    case (Inl e)
    then show ?thesis
      using Suc.prems by simp
  next
    case (Inr bs)
    obtain r0 r1 r2 r3 where bs: "bs = (r0, r1, r2, r3)"
      by (metis prod_cases4)
    let ?port = "u16_from_be_bytes r2 r3"
    let ?a = "SocketAddrV4 (nc_local_address (rv_network rv)) ?port"
    obtain b pool where b: "up_bind \<lparr>sv_address = ?a, sv_id = 0\<rparr> (rv_pool rv) = (b, pool)"
      by (metis prod.collapse)
    have hb: "up_held held M ucfg now pool"
      by (rule up_bind_held [OF Suc.prems(1) b])
    have again: "wp (attempt_loop rounds ops random q rv'') (\<lambda>(r, q', rv'). same_lookups rv rv' \<and> up_held held M ucfg now (rv_pool rv') \<and>
        pq_aliases q' = pq_aliases q \<and> pq_attempts q' \<le> Suc (pq_attempts q) \<and> pq_deadline q' = pq_deadline q)"
      if "rv'' = ?rv \<or> rv'' = ?rv\<lparr>rv_pool := pool\<rparr>" for rv''
      using Suc.IH [of rv''] that Suc.prems hb by auto
    define retry where "retry = min (saturating_add (rv_now rv) (saturating_mul (rc_attempt_timeout (rv_config rv)) (2 ^ pq_attempts q)))
      (pq_deadline q)"
    define server where "server = nc_servers (rv_network rv) ! (pq_attempts q mod length (nc_servers (rv_network rv)))"
    have server: "nth_opt (nc_servers (rv_network rv)) (pq_attempts q mod length (nc_servers (rv_network rv))) = Some server"
      using Suc.prems(2) by (simp add: nth_opt_def server_def)
    obtain s pool' where s: "send_with_options ops ?a server (dns_query (u16_from_be_bytes r0 r1) (pq_question q)) (Some retry) pool =
        Some (s, pool')" "up_held held M ucfg now pool'"
      using send_with_options_wp [OF hb, of ?a server] unfolding wp_eq_Some by fast
    show ?thesis
    proof (cases "?port < 1024")
      case True
      then show ?thesis
        using again Inr bs by simp
    next
      case False
      show ?thesis
        using Inr bs False b hb again Suc.prems server s
        by (cases b; cases s) (simp_all add: rust_assert_def retry_def)
    qed
  qed
qed simp

lemma rv_attempt_wp:
  assumes h: "rv_held held M cfg now dl fresh ids rv" and q: "bt_get (rv_pending rv) i = Some q"
    and a: "pq_attempts q < rc_attempts_per_name cfg"
  shows "wp (rv_attempt ops random i rv) (\<lambda>(r, rv'). rv_held held M cfg now dl fresh ids rv' \<and>
    (\<exists>q'. bt_get (rv_pending rv') i = Some q' \<and> pq_ok cfg (dl i) q' \<and> pq_deadline q' = pq_deadline q) \<and>
    (\<forall>j. j \<noteq> i \<longrightarrow> bt_get (rv_pending rv') j = bt_get (rv_pending rv) j))"
proof -
  let ?ucfg = "resolver_udp_config cfg"
  let ?m = "bt_remove i (rv_pending rv)"
  let ?rv = "rv\<lparr>rv_pending := ?m\<rparr>"
  note r = rv_held_remove [OF h q]
  have m: "bt_inv ?m" "bt_get ?m i = None"
    using btm.ok_del [OF rv_heldD(6) [OF h]] btm.get_del [OF rv_heldD(6) [OF h]] by simp_all
  obtain q1 rv1 where c1: "rv_close ops q ?rv = Some (q1, rv1)" "q1 = q\<lparr>pq_local := None, pq_datagram := None\<rparr>" "same_lookups ?rv rv1"
      "up_held held M ?ucfg now (rv_pool rv1)"
    using rv_close_wp [of M ?ucfg now ?rv q] rv_heldD(3) [OF r(1)] unfolding wp_eq_Some by auto
  have "pq_attempts q1 < 32" "nc_servers (rv_network rv1) \<noteq> []"
    using a rv_heldD(9,10) [OF h] c1(2,3) by (auto simp: limits_valid_def same_lookups_def)
  from attempt_loop_wp [OF c1(4) this(2,1), of 32 random]
  obtain r2 q2 rv2 where c2: "attempt_loop 32 ops random q1 rv1 = Some (r2, q2, rv2)" "same_lookups rv1 rv2"
      "up_held held M ?ucfg now (rv_pool rv2)" "pq_aliases q2 = pq_aliases q1" "pq_attempts q2 \<le> Suc (pq_attempts q1)"
      "pq_deadline q2 = pq_deadline q1"
    unfolding wp_eq_Some by (auto simp del: attempt_loop.simps)
  obtain q3 rv3 where c3: "(case r2 of Inl _ \<Rightarrow> rv_close ops q2 rv2 | Inr _ \<Rightarrow> Some (q2, rv2)) = Some (q3, rv3)" "same_lookups rv2 rv3"
      "up_held held M ?ucfg now (rv_pool rv3)" "pq_aliases q3 = pq_aliases q2" "pq_attempts q3 = pq_attempts q2"
      "pq_deadline q3 = pq_deadline q2"
  proof (cases r2)
    case (Inl e)
    obtain rv' where "rv_close ops q2 rv2 = Some (q2\<lparr>pq_local := None, pq_datagram := None\<rparr>, rv')" "same_lookups rv2 rv'"
        "up_held held M ?ucfg now (rv_pool rv')"
      using rv_close_wp [OF c2(3), of q2] unfolding wp_eq_Some by auto
    then show thesis
      using that [of "q2\<lparr>pq_local := None, pq_datagram := None\<rparr>" rv'] Inl by simp
  next
    case (Inr u)
    then show thesis
      using that [of q2 rv2] c2(3) by simp
  qed
  have same: "same_lookups ?rv rv3"
    using c1(3) c2(2) c3(2) by (simp add: same_lookups_def)
  have ok: "pq_ok cfg (dl i) q3"
    using rv_heldD(8) [OF h q] a c1(2) c2(4-6) c3(4-6) by (simp add: pq_ok_def)
  have pending: "rv_pending rv3 = ?m"
    using same by (simp add: same_lookups_def)
  have "bt_get (rv_pending rv3) i = None"
    using m(2) pending by simp
  from rv_held_insert [OF same_lookups_held [OF r(1) same c3(3)] this ok]
  have "rv_held held M cfg now dl fresh ids (rv3\<lparr>rv_pending := bt_insert i q3 (rv_pending rv3)\<rparr>)"
    by (simp only: r(2) [symmetric])
  then show ?thesis
    using q c1(1,2) c2(1,6) c3(1,6) ok pending btm.get_ins [OF m(1)] btm.get_del [OF rv_heldD(6) [OF h]]
    by (simp add: rv_attempt_def del: attempt_loop.simps)
qed

lemma rv_timer_wp:
  assumes h: "rv_held held M cfg now dl fresh ids rv" and q: "bt_get (rv_pending rv) i = Some q"
  shows "wp (rv_timer ops random now i rv) (\<lambda>rv'. rv_held held M cfg now dl fresh ids rv' \<and>
    (\<forall>q'. bt_get (rv_pending rv') i = Some q' \<longrightarrow> now < pq_deadline q') \<and>
    (\<forall>j. j \<noteq> i \<longrightarrow> bt_get (rv_pending rv') j = bt_get (rv_pending rv) j))"
proof -
  note cfg = rv_heldD(4) [OF h]
  have finish: "wp (rv_finish ops i e None rv') (\<lambda>rv''. rv_held held M cfg now dl fresh ids rv'' \<and>
      (\<forall>q'. bt_get (rv_pending rv'') i = Some q' \<longrightarrow> now < pq_deadline q') \<and>
      (\<forall>j. j \<noteq> i \<longrightarrow> bt_get (rv_pending rv'') j = bt_get (rv_pending rv') j))"
    if "rv_held held M cfg now dl fresh ids rv'" for e rv'
    using rv_finish_wp [OF that, of i e None] btm.get_del [OF rv_heldD(6) [OF that]] by (auto elim!: wp_mono)
  show ?thesis
  proof (cases "pq_deadline q \<le> now \<or> pq_next q \<le> now \<and> rc_attempts_per_name cfg \<le> pq_attempts q")
    case True
    then show ?thesis
      using finish [OF h] q cfg by (simp add: rv_timer_def)
  next
    case live: False
    show ?thesis
    proof (cases "pq_next q \<le> now")
      case True
      then have "pq_attempts q < rc_attempts_per_name cfg"
        using live by auto
      from rv_attempt_wp [OF h q this, of random] obtain r rv1 q1 where c: "rv_attempt ops random i rv = Some (r, rv1)"
          "rv_held held M cfg now dl fresh ids rv1" "bt_get (rv_pending rv1) i = Some q1" "pq_ok cfg (dl i) q1" "pq_deadline q1 = pq_deadline q"
          "\<forall>j. j \<noteq> i \<longrightarrow> bt_get (rv_pending rv1) j = bt_get (rv_pending rv) j"
        unfolding wp_eq_Some by auto
      let ?q = "q1\<lparr>pq_next := saturating_add now (from_millis 10)\<rparr>"
      have "rv_held held M cfg now dl fresh ids (rv1\<lparr>rv_pending := bt_insert i ?q (rv_pending rv1)\<rparr>)"
        using c(4) by (intro rv_held_replace [OF c(2,3)]) (simp add: pq_ok_def)
      then show ?thesis
        using True live q cfg c finish [OF c(2)] btm.get_ins [OF rv_heldD(6) [OF c(2)], of i ?q]
        by (cases r) (simp_all add: rv_timer_def)
    next
      case False
      then show ?thesis
        using live q cfg h by (simp add: rv_timer_def)
    qed
  qed
qed

lemma rv_timers_wp:
  assumes "rv_held held M cfg now dl fresh ids rv" and "distinct is" and "\<forall>i \<in> set is. bt_get (rv_pending rv) i \<noteq> None"
  shows "wp (rv_timers ops random now is rv) (\<lambda>rv'. rv_held held M cfg now dl fresh ids rv' \<and>
    (\<forall>i q. i \<in> set is \<longrightarrow> bt_get (rv_pending rv') i = Some q \<longrightarrow> now < pq_deadline q) \<and>
    (\<forall>j. j \<notin> set is \<longrightarrow> bt_get (rv_pending rv') j = bt_get (rv_pending rv) j))"
  using assms
proof (induction "is" arbitrary: rv)
  case (Cons i "is")
  obtain q where q: "bt_get (rv_pending rv) i = Some q"
    using Cons.prems(3) by auto
  obtain rv1 where c: "rv_timer ops random now i rv = Some rv1" "rv_held held M cfg now dl fresh ids rv1"
      "\<forall>q'. bt_get (rv_pending rv1) i = Some q' \<longrightarrow> now < pq_deadline q'"
      "\<forall>j. j \<noteq> i \<longrightarrow> bt_get (rv_pending rv1) j = bt_get (rv_pending rv) j"
    using rv_timer_wp [OF Cons.prems(1) q, of random] unfolding wp_eq_Some by blast
  have "\<forall>j \<in> set is. bt_get (rv_pending rv1) j \<noteq> None"
    using Cons.prems(2,3) c(4) by auto
  from Cons.IH [OF c(2) _ this] show ?case
    using Cons.prems(2) c(1,3,4) by (auto elim!: wp_mono)
qed simp

lemma rv_receive_wp:
  assumes h: "rv_held held M cfg now dl fresh ids rv"
  shows "wp (rv_receive ops input rv) (rv_held held M cfg now dl fresh ids)"
proof (cases "length (in_payload input) < 2")
  case False
  let ?w = "read16 (in_payload input) 0"
  show ?thesis
  proof (cases "find (\<lambda>(_, q). awaits input ?w q) (rv_pending rv)")
    case (Some e)
    obtain i q where e: "e = (i, q)"
      by (cases e)
    have q: "bt_get (rv_pending rv) i = Some q"
      using find_entry [OF rv_heldD(6) [OF h]] Some e by blast
    have ok: "pq_ok cfg (dl i) q"
      by (rule rv_heldD(8) [OF h q])
    obtain parsed where parsed: "dns_response (in_payload input) ?w (pq_question q) (8 - (length (pq_aliases q) - 1)) = Some parsed"
      using dns_response_some by blast
    have replace: "rv_held held M cfg now dl fresh ids (rv\<lparr>rv_pending := bt_insert i q' (rv_pending rv)\<rparr>)" if "pq_ok cfg (dl i) q'" for q'
      by (rule rv_held_replace [OF h q that])
    have finish: "wp (rv_finish ops i r ttl rv) (rv_held held M cfg now dl fresh ids)" for r ttl
      using rv_finish_wp [OF h, of i r ttl] by (auto elim!: wp_mono)
    have followed: "pq_ok cfg (dl i) (follow_alias target hops expires now q)" for target hops expires
      using ok by (simp add: pq_ok_def follow_alias_def)
    have retry: "pq_ok cfg (dl i) (q\<lparr>pq_next := now, pq_datagram := None\<rparr>)"
      using ok by (simp add: pq_ok_def)
    have aliases: "pq_aliases q \<noteq> []"
      using ok by (simp add: pq_ok_def)
    note eqs = False Some e parsed aliases rv_heldD(4,5) [OF h]
    show ?thesis
    proof (cases "pq_deadline q \<le> now \<or> pq_next q \<le> now")
      case True
      then show ?thesis
        using eqs h by (auto simp: rv_receive_def)
    next
      case live: False
      show ?thesis
      proof (cases parsed)
        case None
        then show ?thesis
          using eqs h live by (simp add: rv_receive_def rust_assert_def)
      next
        case (Some a)
        then show ?thesis
          using eqs h live finish replace [OF followed] replace [OF retry]
          by (cases a) (simp_all add: rv_receive_def rust_assert_def)
      qed
    qed
  qed (use False h in \<open>simp add: rv_receive_def\<close>)
qed (use h in \<open>simp add: rv_receive_def\<close>)

lemma receive_all_wp: "rv_held held M cfg now dl fresh ids rv \<Longrightarrow> wp (receive_all ops xs rv) (rv_held held M cfg now dl fresh ids)"
proof (induction xs arbitrary: rv)
  case (Cons x xs)
  then show ?case
    using rv_receive_wp [OF Cons.prems, of x] by (auto elim!: wp_mono)
qed simp

lemma handle_event_wp:
  assumes h: "rv_held held M cfg now dl fresh ids rv"
  shows "wp (handle_event ops now e rv) (\<lambda>rv'. rv_held held M cfg now dl fresh ids rv' \<and>
    pool_work (rv_pool rv') \<le> pool_work (rv_pool rv))"
proof (cases "find (\<lambda>(_, q). pq_datagram q \<noteq> None \<and> pq_datagram q = ue_id e) (rv_pending rv)")
  case None
  then show ?thesis
    using h by (simp add: handle_event_def split: udp_outcome.split)
next
  case (Some x)
  obtain i q where x: "x = (i, q)"
    by (cases x)
  have q: "bt_get (rv_pending rv) i = Some q"
    using find_entry [OF rv_heldD(6) [OF h]] Some x by blast
  have "pq_ok cfg (dl i) (q\<lparr>pq_next := now\<rparr>)"
    using rv_heldD(8) [OF h q] by (simp add: pq_ok_def)
  from rv_held_replace [OF h q this]
  have replace: "rv_held held M cfg now dl fresh ids (rv\<lparr>rv_pending := bt_insert i (q\<lparr>pq_next := now\<rparr>) (rv_pending rv)\<rparr>)" .
  have "wp (rv_finish ops i r None rv) (\<lambda>rv'. rv_held held M cfg now dl fresh ids rv' \<and>
      pool_work (rv_pool rv') \<le> pool_work (rv_pool rv))" for r
    using rv_finish_wp [OF h, of i r None] by (auto elim!: wp_mono)
  then show ?thesis
    using Some x h replace by (simp add: handle_event_def split: udp_outcome.split udp_failure.split)
qed

text \<open>The rounds are enough: no event is left.\<close>

lemma drain_events_wp:
  assumes "rv_held held M cfg now dl fresh ids rv" and "pool_work (rv_pool rv) \<le> rounds"
  shows "wp (drain_events rounds ops now rv) (\<lambda>rv'. rv_held held M cfg now dl fresh ids rv' \<and> up_events (rv_pool rv') = [])"
  using assms
proof (induction rounds arbitrary: rv)
  case 0
  then show ?case
    by (simp add: pool_work_def)
next
  case (Suc rounds)
  show ?case
  proof (cases "up_events (rv_pool rv)")
    case Nil
    then show ?thesis
      using Suc.prems by (simp add: up_pop_event_def)
  next
    case (Cons e es)
    let ?pool = "(rv_pool rv)\<lparr>up_events := es\<rparr>"
    have pop: "up_pop_event (rv_pool rv) = (Some e, ?pool)"
      by (simp add: up_pop_event_def Cons)
    have "rv_held held M cfg now dl fresh ids (rv\<lparr>rv_pool := ?pool\<rparr>)"
      using rv_held_pool [OF Suc.prems(1)] quiet_held [OF quiet_pop rv_heldD(3) [OF Suc.prems(1)]] pop by simp
    from handle_event_wp [OF this, of e] obtain rv1 where rv1: "handle_event ops now e (rv\<lparr>rv_pool := ?pool\<rparr>) = Some rv1"
        "rv_held held M cfg now dl fresh ids rv1" "pool_work (rv_pool rv1) \<le> pool_work ?pool"
      unfolding wp_eq_Some by auto
    have "pool_work (rv_pool rv1) \<le> rounds"
      using rv1(3) Suc.prems(2) by (simp add: pool_work_def Cons)
    then show ?thesis
      using Suc.IH [OF rv1(2)] pop rv1(1) by simp
  qed
qed

lemma rv_poll_wp:
  assumes h: "rv_held held M cfg t dl fresh ids rv"
  shows "wp (rv_poll ops random now rv) (\<lambda>(r, rv'). rv_held held M cfg (max t now) dl fresh ids rv' \<and>
    (r = Inr () \<longrightarrow> (\<forall>i q. bt_get (rv_pending rv') i = Some q \<longrightarrow> now < pq_deadline q)))"
proof (cases "now < t")
  case True
  then show ?thesis
    using h rv_heldD(5) [OF h] by (simp add: rv_poll_def max_def)
next
  case False
  have max: "max t now = now"
    using False by simp
  let ?ucfg = "resolver_udp_config cfg"
  let ?cache = "bt_retain (\<lambda>_ c. now < ca_expires c) (rv_cache rv)"
  let ?rv = "rv\<lparr>rv_now := now, rv_cache := ?cache\<rparr>"
  obtain r pool inputs where c: "up_poll ops collect_incoming now 0 (rc_receive_budget cfg) (rv_pool rv, []) = Some (r, pool, inputs)"
      "up_held held M ?ucfg now pool"
    using up_poll_wp [OF rv_heldD(3) [OF h], of collect_incoming now 0 "rc_receive_budget cfg" "[]"] max unfolding wp_eq_Some by auto
  have h1: "rv_held held M cfg now dl fresh ids (?rv\<lparr>rv_pool := pool\<rparr>)"
    using h c(2) btm.ok_keep [OF rv_heldD(7) [OF h]] btm.count_keep_le [OF rv_heldD(7) [OF h], of "\<lambda>_ c. now < ca_expires c"]
      rv_heldD(11) [OF h] by (simp add: rv_held_def rv_tables_def rv_ids_def)
  obtain rv2 where rv2: "receive_all ops inputs (?rv\<lparr>rv_pool := pool\<rparr>) = Some rv2" "rv_held held M cfg now dl fresh ids rv2"
    using receive_all_wp [OF h1, of inputs] unfolding wp_eq_Some by blast
  obtain rv3 where rv3: "drain_events (pool_work (rv_pool rv2)) ops now rv2 = Some rv3" "rv_held held M cfg now dl fresh ids rv3"
    using drain_events_wp [OF rv2(2) order_refl] unfolding wp_eq_Some by blast
  note inv = rv_heldD(6) [OF rv3(2)]
  have ids: "bt_get (rv_pending rv3) i \<noteq> None \<longleftrightarrow> i \<in> set (map fst (rv_pending rv3))" for i
    by (simp add: bt_get_def map_of_eq_None_iff)
  have "distinct (map fst (rv_pending rv3))" "\<forall>i \<in> set (map fst (rv_pending rv3)). bt_get (rv_pending rv3) i \<noteq> None"
    using btm.distinct_entries [OF inv] ids by blast+
  from rv_timers_wp [OF rv3(2) this, of random] obtain rv4 where rv4:
      "rv_timers ops random now (map fst (rv_pending rv3)) rv3 = Some rv4" "rv_held held M cfg now dl fresh ids rv4"
      "\<forall>i q. i \<in> set (map fst (rv_pending rv3)) \<longrightarrow> bt_get (rv_pending rv4) i = Some q \<longrightarrow> now < pq_deadline q"
      "\<forall>j. j \<notin> set (map fst (rv_pending rv3)) \<longrightarrow> bt_get (rv_pending rv4) j = bt_get (rv_pending rv3) j"
    unfolding wp_eq_Some by blast
  have live: "now < pq_deadline q" if "bt_get (rv_pending rv4) i = Some q" for i q
    using rv4(3,4) that ids [of i] by (cases "i \<in> set (map fst (rv_pending rv3))") force+
  obtain r5 pool5 where c5: "up_flush ops (rv_pool rv4) = Some (r5, pool5)" "up_held held M ?ucfg now pool5"
    using up_flush_wp [OF rv_heldD(3) [OF rv4(2)]] unfolding wp_eq_Some by auto
  have "\<not> now < rv_now rv"
    using False rv_heldD(5) [OF h] by simp
  then show ?thesis
    unfolding max using c(1) h1 rv2(1) rv3(1) rv4(1) live c5 rv_held_pool [OF rv4(2) c5(2)] rv_heldD(4) [OF h]
    by (cases r) (simp_all add: rv_poll_def pool_work_def)
qed

lemma rv_cancel_wp:
  assumes "rv_held held M cfg now dl fresh ids rv"
  shows "wp (rv_cancel ops i rv) (\<lambda>(r, rv'). rv_held held M cfg now dl fresh ids rv')"
  using rv_finish_wp [OF assms, of i "Inl Cancelled" None] assms by (auto simp: rv_cancel_def elim!: wp_mono)

lemma finish_all_wp: "rv_held held M cfg now dl fresh ids rv \<Longrightarrow> wp (finish_all ops is rv) (rv_held held M cfg now dl fresh ids)"
proof (induction "is" arbitrary: rv)
  case (Cons i "is")
  then show ?case
    using rv_finish_wp [OF Cons.prems, of i "Inl NetworkChanged" None] by (auto elim!: wp_mono)
qed simp

lemma rv_invalidate_wp:
  assumes "rv_held held M cfg now dl fresh ids rv"
  shows "wp (rv_invalidate ops rv) (rv_held held M cfg now dl fresh ids)"
proof -
  have "rv_held held M cfg now dl fresh ids (rv'\<lparr>rv_cache := [], rv_generation := g\<rparr>)" if "rv_held held M cfg now dl fresh ids rv'" for rv' g
    using that by (simp add: rv_held_def rv_tables_def rv_ids_def)
  then show ?thesis
    using finish_all_wp [OF assms, of "map fst (rv_pending rv)"] by (auto simp: rv_invalidate_def elim!: wp_mono)
qed

lemma rv_configure_wp:
  assumes "rv_held held M cfg now dl fresh ids rv"
  shows "wp (rv_configure ops network rv) (\<lambda>(r, rv'). rv_held held M cfg now dl fresh ids rv')"
proof (cases "network_validate network")
  case (Inr u)
  then have "nc_servers network \<noteq> []"
    by (auto simp: network_validate_def split: if_split_asm)
  then have "rv_held held M cfg now dl fresh ids (rv'\<lparr>rv_network := network\<rparr>)" if "rv_held held M cfg now dl fresh ids rv'" for rv'
    using that by (simp add: rv_held_def rv_tables_def rv_ids_def)
  then show ?thesis
    using Inr assms rv_invalidate_wp [OF assms] by (auto simp: rv_configure_def elim!: wp_mono)
qed (use assms in \<open>simp add: rv_configure_def\<close>)

lemma rv_resolve_wp:
  assumes h: "rv_held held M cfg now dl fresh ids rv" and new: "fresh \<notin># ids"
  shows "wp (rv_resolve input rv) (\<lambda>(r, rv'). case r of
      Inl e \<Rightarrow> rv' = rv
    | Inr i \<Rightarrow> i = fresh \<and> fresh \<noteq> 0xFFFFFFFFFFFFFFFF \<and> size ids < rc_capacity cfg \<and>
        rv_held held M cfg now (dl(fresh := started cfg now)) (fresh + 1) (add_mset fresh ids) rv')"
proof (cases "dns_normalize input")
  case (Inr name)
  note D = rv_heldD [OF h]
  have size: "size ids = length (rv_pending rv) + length (rv_results rv)"
    using D(2) by (auto simp: rv_ids_def)
  let ?rv = "rv\<lparr>rv_next_id := fresh + 1\<rparr>"
  have none: "bt_get (rv_pending rv) fresh = None"
    using new D(2) by (force simp: rv_ids_def bt_get_def map_of_eq_None_iff)
  have h1: "rv_held held M cfg now (dl(fresh := started cfg now)) (fresh + 1) ids ?rv"
    using h none by (auto simp: rv_held_def rv_tables_def rv_ids_def)
  have start: "wp (rv_start fresh name ?rv) (\<lambda>(r, rv'). r = Inr fresh \<and> rv_held held M cfg now (dl(fresh := started cfg now)) (fresh + 1) (add_mset fresh ids) rv')"
    using rv_held_insert [OF h1, of fresh] none D(4,5,9) by (simp add: rv_start_def nth_opt_def pq_ok_def started_def)
  have hit: "rv_held held M cfg now (dl(fresh := started cfg now)) (fresh + 1) (add_mset fresh ids)
      (count_completed (?rv\<lparr>rv_results := rv_results ?rv @ [c], rv_stats := s\<rparr>))" if "cp_id c = fresh" for c s
    using rv_held_complete [OF h1, of c] that by simp
  show ?thesis
  proof (cases "rc_capacity cfg \<le> size ids \<or> fresh = 0xFFFFFFFFFFFFFFFF")
    case True
    then show ?thesis
      using Inr D(4,12) size by (auto simp: rv_resolve_def)
  next
    case False
    have "wp (rv_start fresh name ?rv) (\<lambda>(r, rv'). case r of Inl e \<Rightarrow> rv' = rv
        | Inr i \<Rightarrow> i = fresh \<and> fresh \<noteq> 0xFFFFFFFFFFFFFFFF \<and> size ids < rc_capacity cfg \<and>
            rv_held held M cfg now (dl(fresh := started cfg now)) (fresh + 1) (add_mset fresh ids) rv')"
      using start False by (auto elim!: wp_mono)
    then show ?thesis
      using Inr D(4,12) size False hit [of "\<lparr>cp_id = fresh, cp_name = name, cp_generation = rv_generation rv, cp_from_cache = True, cp_result = r\<rparr>" for r]
      by (simp add: rv_resolve_def Let_def not_le split: option.split)
  qed
qed (simp add: rv_resolve_def)

end

section \<open>Runs of client calls\<close>

datatype rv_call =
    DnsResolve bytes
  | DnsPoll duration
  | DnsPopResult
  | DnsCancel query_id
  | DnsConfigure network_config
  | DnsInvalidate
  | DnsNextDeadline

text \<open>A run also collects the identifiers of the accepted lookups and the completions taken.\<close>

type_synonym 'd rv_state = "'d udp_resolver \<times> query_id list \<times> completion list"

fun rv_exec :: "'d device_ops \<Rightarrow> random_source \<Rightarrow> rv_call \<Rightarrow> 'd rv_state \<Rightarrow> 'd rv_state option" where
  "rv_exec ops random (DnsResolve input) (rv, accepted, taken) = do {
     (r, rv) \<leftarrow> rv_resolve input rv;
     Some (rv, case r of Inl _ \<Rightarrow> accepted | Inr i \<Rightarrow> accepted @ [i], taken)
   }"
| "rv_exec ops random (DnsPoll now) (rv, accepted, taken) = do { (_, rv) \<leftarrow> rv_poll ops random now rv; Some (rv, accepted, taken) }"
| "rv_exec ops random DnsPopResult (rv, accepted, taken) =
     (case rv_pop_result rv of
        (None, rv) \<Rightarrow> Some (rv, accepted, taken)
      | (Some c, rv) \<Rightarrow> Some (rv, accepted, taken @ [c]))"
| "rv_exec ops random (DnsCancel i) (rv, accepted, taken) = do { (_, rv) \<leftarrow> rv_cancel ops i rv; Some (rv, accepted, taken) }"
| "rv_exec ops random (DnsConfigure network) (rv, accepted, taken) = do {
     (_, rv) \<leftarrow> rv_configure ops network rv;
     Some (rv, accepted, taken)
   }"
| "rv_exec ops random DnsInvalidate (rv, accepted, taken) = do { rv \<leftarrow> rv_invalidate ops rv; Some (rv, accepted, taken) }"
| "rv_exec ops random DnsNextDeadline (rv, accepted, taken) = do { _ \<leftarrow> rv_next_deadline rv; Some (rv, accepted, taken) }"

fun rv_run :: "'d device_ops \<Rightarrow> random_source \<Rightarrow> rv_call list \<Rightarrow> 'd rv_state \<Rightarrow> 'd rv_state option" where
  "rv_run ops random [] s = Some s"
| "rv_run ops random (call # calls) s = do { s \<leftarrow> rv_exec ops random call s; rv_run ops random calls s }"

definition run_inv ::
  "('d \<Rightarrow> packet_buf multiset \<Rightarrow> bool) \<Rightarrow> packet_buf multiset \<Rightarrow> resolver_config \<Rightarrow> (query_id \<Rightarrow> duration) \<Rightarrow> 'd rv_state \<Rightarrow> bool"
where
  "run_inv held M cfg dl = (\<lambda>(rv, accepted, taken). \<exists>now fresh ids. rv_held held M cfg now dl fresh ids rv \<and>
     mset accepted = ids + mset (map cp_id taken) \<and> distinct accepted \<and> list_all (\<lambda>i. i < fresh) accepted \<and> size ids \<le> rc_capacity cfg)"

lemma run_invI:
  assumes "rv_held held M cfg now dl fresh ids rv" and "mset accepted = ids + mset (map cp_id taken)" and "distinct accepted"
    and "list_all (\<lambda>i. i < fresh) accepted" and "size ids \<le> rc_capacity cfg"
  shows "run_inv held M cfg dl (rv, accepted, taken)"
  using assms by (auto simp: run_inv_def)

lemma rv_new_held:
  assumes "held d M" and "udp_resolver_new opened d network cfg = Inr rv"
  shows "run_inv held M cfg dl (rv, [], [])"
proof -
  obtain pool where p: "udp_with_config d (resolver_udp_config cfg) = Inr pool" "limits_valid cfg" "network_validate network = Inr ()"
      "rv = \<lparr>rv_pool = pool, rv_config = cfg, rv_network = network, rv_draws = 0, rv_pending = [], rv_results = [],
        rv_cache = [], rv_now = 0, rv_generation = 0, rv_next_id = 1, rv_stats = resolver_stats_default\<rparr>"
    using assms(2) by (auto simp: udp_resolver_new_def split: sum.split_asm if_split_asm)
  have "nc_servers network \<noteq> []"
    using p(3) by (auto simp: network_validate_def split: if_split_asm)
  then have "rv_held held M cfg 0 dl 1 {#} rv"
    using p(2,4) up_new_held [where held = held, OF assms(1) p(1)] by (simp add: rv_held_def rv_tables_def rv_ids_def)
  then show ?thesis
    by (rule run_invI) simp_all
qed

context device
begin

lemma rv_exec_wp:
  assumes inv: "run_inv held M cfg dl (rv, accepted, taken)"
  shows "wp (rv_exec ops random call (rv, accepted, taken)) (\<lambda>s. \<exists>dl'. run_inv held M cfg dl' s \<and>
    (\<forall>i \<in> set accepted. i \<in> set (fst (snd s)) \<and> dl' i = dl i))"
proof -
  obtain now fresh ids where h: "rv_held held M cfg now dl fresh ids rv" "mset accepted = ids + mset (map cp_id taken)"
      "distinct accepted" "list_all (\<lambda>i. i < fresh) accepted" "size ids \<le> rc_capacity cfg"
    using inv by (auto simp: run_inv_def)
  have keep: "\<exists>dl'. run_inv held M cfg dl' (rv', accepted, taken) \<and> (\<forall>i \<in> set accepted. dl' i = dl i)"
    if "rv_held held M cfg now' dl fresh ids rv'" for rv' now'
    using run_invI [OF that h(2-5)] by blast
  show ?thesis
  proof (cases call)
    case (DnsResolve input)
    have "fresh \<notin># ids"
    proof
      assume "fresh \<in># ids"
      then have "fresh \<in># mset accepted"
        by (simp add: h(2))
      then show False
        using h(4) by (auto simp: list_all_iff)
    qed
    from rv_resolve_wp [OF h(1) this, of input] obtain r rv' where r: "rv_resolve input rv = Some (r, rv')"
        "case r of Inl e \<Rightarrow> rv' = rv | Inr i \<Rightarrow> i = fresh \<and> fresh \<noteq> 0xFFFFFFFFFFFFFFFF \<and> size ids < rc_capacity cfg \<and>
          rv_held held M cfg now (dl(fresh := started cfg now)) (fresh + 1) (add_mset fresh ids) rv'"
      unfolding wp_eq_Some by auto
    show ?thesis
    proof (cases r)
      case (Inl e)
      then show ?thesis
        using DnsResolve r keep [OF h(1)] by simp
    next
      case (Inr i)
      then have i: "i = fresh" "fresh \<noteq> 0xFFFFFFFFFFFFFFFF" "size ids < rc_capacity cfg"
          "rv_held held M cfg now (dl(fresh := started cfg now)) (fresh + 1) (add_mset fresh ids) rv'"
        using r(2) by simp_all
      have new: "fresh \<notin> set accepted" "list_all (\<lambda>i. i < fresh + 1) (accepted @ [fresh])"
        using h(4) id_less [OF i(2)] less_trans by (auto simp: list_all_iff)
      have "run_inv held M cfg (dl(fresh := started cfg now)) (rv', accepted @ [fresh], taken)"
        using h(2,3) new i(3) by (intro run_invI [OF i(4)]) simp_all
      moreover have "\<forall>j \<in> set accepted. (dl(fresh := started cfg now)) j = dl j"
        using new(1) by auto
      ultimately show ?thesis
        using DnsResolve r(1) Inr i(1) by (auto intro!: exI [of _ "dl(fresh := started cfg now)"])
    qed
  next
    case (DnsPoll t)
    then show ?thesis
      using rv_poll_wp [OF h(1), of random t] keep unfolding wp_eq_Some by fastforce
  next
    case DnsPopResult
    show ?thesis
    proof (cases "rv_results rv")
      case Nil
      then show ?thesis
        using DnsPopResult keep [OF h(1)] by (simp add: rv_pop_result_def)
    next
      case (Cons c cs)
      have ids: "ids = add_mset (cp_id c) (mset (map fst (rv_pending rv)) + mset (map cp_id cs))"
        using rv_heldD(2) [OF h(1)] by (simp add: rv_ids_def Cons)
      have rest: "rv_held held M cfg now dl fresh (mset (map fst (rv_pending rv)) + mset (map cp_id cs)) (rv\<lparr>rv_results := cs\<rparr>)"
        using h(1) by (simp add: rv_held_def rv_tables_def rv_ids_def)
      have "run_inv held M cfg dl (rv\<lparr>rv_results := cs\<rparr>, accepted, taken @ [c])"
        using h(2-5) ids by (intro run_invI [OF rest]) simp_all
      then show ?thesis
        using DnsPopResult Cons by (auto simp: rv_pop_result_def)
    qed
  next
    case (DnsCancel i)
    then show ?thesis
      using rv_cancel_wp [OF h(1), of i] keep unfolding wp_eq_Some by fastforce
  next
    case (DnsConfigure network)
    then show ?thesis
      using rv_configure_wp [OF h(1), of network] keep unfolding wp_eq_Some by fastforce
  next
    case DnsInvalidate
    then show ?thesis
      using rv_invalidate_wp [OF h(1)] keep unfolding wp_eq_Some by fastforce
  next
    case DnsNextDeadline
    then show ?thesis
      using up_next_deadline_some [OF rv_heldD(3) [OF h(1)]] keep [OF h(1)] by (auto simp: rv_next_deadline_def)
  qed
qed

lemma rv_run_wp:
  assumes "run_inv held M cfg dl (rv, accepted, taken)"
  shows "wp (rv_run ops random calls (rv, accepted, taken)) (\<lambda>s. \<exists>dl'. run_inv held M cfg dl' s \<and>
    (\<forall>i \<in> set accepted. i \<in> set (fst (snd s)) \<and> dl' i = dl i))"
  using assms
proof (induction calls arbitrary: rv accepted taken dl)
  case (Cons call calls)
  obtain rv1 accepted1 taken1 dl1 where s: "rv_exec ops random call (rv, accepted, taken) = Some (rv1, accepted1, taken1)"
      "run_inv held M cfg dl1 (rv1, accepted1, taken1)" "\<forall>i \<in> set accepted. i \<in> set accepted1 \<and> dl1 i = dl i"
    using rv_exec_wp [OF Cons.prems, of random call] unfolding wp_eq_Some by auto
  show ?case
    using Cons.IH [OF s(2)] s(1,3) by (fastforce elim!: wp_mono)
qed auto

end

section \<open>Properties\<close>

lemma dns_run_inv:
  assumes "device ops held" and "held d M" and "udp_resolver_new opened d network cfg = Inr rv"
    and "rv_run ops random calls (rv, [], []) = Some s"
  shows "\<exists>dl. run_inv held M cfg dl s"
  using device.rv_run_wp [OF assms(1) rv_new_held [where held = held, OF assms(2,3)], of random calls] assms(4) by auto

text \<open>A resolver on the loopback device with one server, one lookup and its polls.\<close>

definition demo_network :: network_config where
  "demo_network = \<lparr>nc_local_address = 0x0A000001, nc_servers = [SocketAddrV4 0x0A000002 53]\<rparr>"

definition demo_random :: random_source where
  "demo_random n = Inr (0, 7, 0x10, word_of_nat n)"

definition demo_resolver :: "loopback udp_resolver" where
  "demo_resolver = \<lparr>rv_pool = \<lparr>up_device = demo_loopback, up_services = [], up_peers = [], up_tx = scheduler_new,
       up_config = resolver_udp_config resolver_config_default, up_events = [], up_next_id = 1, up_generation = 0,
       up_blocked_peers = [], up_service_work = [], up_rx = [], up_capacity = 64, up_peer_capacity = 64, up_now = 0,
       up_stats = pool_stats_default\<rparr>,
     rv_config = resolver_config_default, rv_network = demo_network, rv_draws = 0, rv_pending = [], rv_results = [], rv_cache = [],
     rv_now = 0, rv_generation = 0, rv_next_id = 1, rv_stats = resolver_stats_default\<rparr>"

definition demo_dns_calls :: "rv_call list" where
  "demo_dns_calls = [DnsPoll 1, DnsResolve [0x61], DnsPoll 2, DnsPoll 3, DnsCancel 1, DnsPopResult]"

lemma demo_resolver_premises: "device loopback_ops loopback_held" "loopback_held demo_loopback {#}"
  "udp_resolver_new (Inr ()) demo_loopback demo_network resolver_config_default = Inr demo_resolver"
proof -
  have "network_validate demo_network = Inr ()"
    by (simp add: network_validate_def demo_network_def nc_unicast_def is_unspecified_def is_multicast_def is_broadcast_def)
  moreover have "limits_valid resolver_config_default"
    by (simp add: limits_valid_def resolver_config_default_def from_secs_def)
  moreover have "udp_config_validate (resolver_udp_config resolver_config_default) = Inr ()"
    by (simp add: udp_config_validate_def resolver_udp_config_def resolver_config_default_def udp_config_default_def from_secs_def)
  ultimately show "udp_resolver_new (Inr ()) demo_loopback demo_network resolver_config_default = Inr demo_resolver"
    by (simp add: udp_resolver_new_def udp_with_config_def demo_resolver_def)
      (simp add: resolver_udp_config_def resolver_config_default_def udp_config_default_def)
qed (rule lbk.device_axioms demo_held)+

lemma demo_dns_run:
  "\<exists>rv accepted taken. rv_run loopback_ops demo_random calls (demo_resolver, [], []) = Some (rv, accepted, taken)"
  using device.rv_run_wp [OF demo_resolver_premises(1) rv_new_held [where held = loopback_held, OF demo_resolver_premises(2,3)],
    of demo_random calls] unfolding wp_eq_Some by auto

text \<open>
  C18. No sequence of client calls makes the resolver panic, whatever the network answers, whatever the random source
  returns and however lookups are cancelled or the network is reconfigured, and every frame handle it took from the
  device is accounted for.
\<close>

theorem dns_resolver_safe:
  assumes "device ops held" and "held d M" and "udp_resolver_new opened d network cfg = Inr rv"
  shows "\<exists>rv' accepted taken. rv_run ops random calls (rv, [], []) = Some (rv', accepted, taken) \<and>
    held (up_device (rv_pool rv')) (up_frames (rv_pool rv') + mset (up_rx (rv_pool rv')) + M)"
proof -
  obtain rv' accepted taken where run: "rv_run ops random calls (rv, [], []) = Some (rv', accepted, taken)"
    using device.rv_run_wp [OF assms(1) rv_new_held [where held = held, OF assms(2,3)], of random calls] unfolding wp_eq_Some by auto
  obtain now dl fresh ids where "rv_held held M cfg now dl fresh ids rv'"
    using dns_run_inv [OF assms run] by (auto simp: run_inv_def)
  then show ?thesis
    using run up_heldD(4) [OF rv_heldD(3)] by blast
qed

theorem dns_resolver_safe_witness:
  "\<exists>rv accepted taken. rv_run loopback_ops demo_random demo_dns_calls (demo_resolver, [], []) = Some (rv, accepted, taken) \<and>
     loopback_held (up_device (rv_pool rv)) (up_frames (rv_pool rv) + mset (up_rx (rv_pool rv)) + {#})"
  by (rule dns_resolver_safe [OF demo_resolver_premises])

text \<open>
  C19. Lookups are completed exactly once: in every run the identifiers of the accepted lookups are distinct, and each of
  them belongs to exactly one completion taken by the client, one completion waiting to be taken, or one pending lookup.
  Completions are never overwritten or lost, and waiting completions and pending lookups together stay within the
  configured capacity, as does the cache.
\<close>

theorem dns_completes_once:
  assumes "device ops held" and "held d M" and "udp_resolver_new opened d network cfg = Inr rv"
    and "rv_run ops random calls (rv, [], []) = Some (rv', accepted, taken)"
  shows "distinct accepted \<and>
    mset accepted = mset (map cp_id taken) + mset (map cp_id (rv_results rv')) + mset (map fst (rv_pending rv')) \<and>
    length (rv_pending rv') + length (rv_results rv') \<le> rc_capacity cfg \<and> length (rv_cache rv') \<le> rc_cache_capacity cfg"
proof -
  obtain now dl fresh ids where h: "rv_held held M cfg now dl fresh ids rv'" "mset accepted = ids + mset (map cp_id taken)"
      "distinct accepted" "size ids \<le> rc_capacity cfg"
    using dns_run_inv [OF assms] by (auto simp: run_inv_def)
  have "ids = mset (map fst (rv_pending rv')) + mset (map cp_id (rv_results rv'))"
    using rv_heldD(2) [OF h(1)] by (simp add: rv_ids_def)
  then show ?thesis
    using h(2-4) rv_heldD(11) [OF h(1)] by (simp add: ac_simps)
qed

theorem dns_completes_once_witness:
  "\<exists>rv accepted taken. rv_run loopback_ops demo_random demo_dns_calls (demo_resolver, [], []) = Some (rv, accepted, taken) \<and>
     mset accepted = mset (map cp_id taken) + mset (map cp_id (rv_results rv)) + mset (map fst (rv_pending rv))"
proof -
  obtain rv accepted taken where run:
      "rv_run loopback_ops demo_random demo_dns_calls (demo_resolver, [], []) = Some (rv, accepted, taken)"
    using demo_dns_run by blast
  then show ?thesis
    using dns_completes_once [OF demo_resolver_premises run] by blast
qed

text \<open>
  C20. Lookups end: a lookup accepted at time \<open>t\<close> is not pending any more after any successful poll at or after \<open>t\<close> plus the
  lookup timeout, whatever was called, received, retried or aliased in between.
\<close>

theorem dns_lookup_ends:
  assumes "device ops held" and "held d M" and "udp_resolver_new opened d network cfg = Inr rv0"
    and "rv_run ops random calls (rv0, [], []) = Some (rv, accepted, taken)"
    and "rv_resolve input rv = Some (Inr i, rv1)"
    and "rv_run ops random later (rv1, accepted @ [i], taken) = Some (rv2, accepted2, taken2)"
    and "rv_poll ops random now rv2 = Some (Inr (), rv3)"
    and "saturating_add (rv_now rv) (rc_lookup_timeout cfg) \<le> now"
  shows "\<not> bt_contains (rv_pending rv3) i"
proof -
  obtain dl t fresh ids where h: "rv_held held M cfg t dl fresh ids rv" "mset accepted = ids + mset (map cp_id taken)"
      "distinct accepted" "list_all (\<lambda>i. i < fresh) accepted" "size ids \<le> rc_capacity cfg"
    using dns_run_inv [OF assms(1-4)] by (auto simp: run_inv_def)
  have "fresh \<notin> set accepted"
    using h(4) by (auto simp: list_all_iff)
  then have new: "fresh \<notin># ids"
    using arg_cong [OF h(2), of set_mset] by auto
  let ?dl = "dl(fresh := started cfg t)"
  have i: "i = fresh" "rv_held held M cfg t ?dl (fresh + 1) (add_mset fresh ids) rv1" "fresh \<noteq> 0xFFFFFFFFFFFFFFFF"
      "size ids < rc_capacity cfg"
    using device.rv_resolve_wp [OF assms(1) h(1) new, of input] assms(5) by simp_all
  have "run_inv held M cfg ?dl (rv1, accepted @ [i], taken)"
    using h(2-4) i(1,4) \<open>fresh \<notin> set accepted\<close> id_less [OF i(3)] less_trans
    by (intro run_invI [OF i(2)]) (auto simp: list_all_iff)
  from device.rv_run_wp [OF assms(1) this, of random later] assms(6)
  obtain dl2 where dl2: "run_inv held M cfg dl2 (rv2, accepted2, taken2)" "dl2 i = ?dl i"
    by auto
  then obtain t2 fresh2 ids2 where h2: "rv_held held M cfg t2 dl2 fresh2 ids2 rv2"
    by (auto simp: run_inv_def)
  from device.rv_poll_wp [OF assms(1) h2, of random now] assms(7)
  have p: "rv_held held M cfg (max t2 now) dl2 fresh2 ids2 rv3" "\<forall>j q. bt_get (rv_pending rv3) j = Some q \<longrightarrow> now < pq_deadline q"
    by simp_all
  have "dl2 i \<le> now"
    using dl2(2) i(1) assms(8) rv_heldD(5) [OF h(1)] by (simp add: started_def)
  then show ?thesis
    using p(2) rv_heldD(8) [OF p(1)] by (fastforce simp: bt_contains_def pq_ok_def)
qed

text \<open>
  C21. Off-path responses are ignored: a received datagram changes a lookup, a completion or the cache only if it comes from the
  server the pending lookup was sent to, to the port it was sent from, with its identifier, and before its deadline and
  its retry time.
\<close>

theorem dns_response_matched:
  assumes "rv_receive ops input rv = Some rv'"
    and "rv_pending rv' \<noteq> rv_pending rv \<or> rv_results rv' \<noteq> rv_results rv \<or> rv_cache rv' \<noteq> rv_cache rv"
  shows "\<exists>(i, q) \<in> set (rv_pending rv). pq_local q = Some (in_destination input) \<and> pq_server q = in_source input \<and>
    2 \<le> length (in_payload input) \<and> pq_wire_id q = read16 (in_payload input) 0 \<and> pq_datagram q \<noteq> None \<and>
    rv_now rv < pq_deadline q \<and> rv_now rv < pq_next q"
proof -
  have same: "rv' \<noteq> count_malformed rv" "rv' \<noteq> count_ignored rv"
    using assms(2) by (auto simp: count_malformed_def count_ignored_def)
  have long: "2 \<le> length (in_payload input)"
    using assms(1) same(1) by (cases "length (in_payload input) < 2") (auto simp: rv_receive_def)
  obtain i q where f: "find (\<lambda>(_, q). awaits input (read16 (in_payload input) 0) q) (rv_pending rv) = Some (i, q)"
    using assms(1) same(2) long
    by (cases "find (\<lambda>(_, q). awaits input (read16 (in_payload input) 0) q) (rv_pending rv)") (auto simp: rv_receive_def)
  have "rv_now rv < pq_deadline q \<and> rv_now rv < pq_next q"
    using assms(1) same(2) long f
    by (cases "pq_deadline q \<le> rv_now rv \<or> pq_next q \<le> rv_now rv") (simp_all add: rv_receive_def)
  then show ?thesis
    using find_SomeD [OF f] long by (auto simp: awaits_def)
qed

text \<open>The resolver while a query for \<^verbatim>\<open>a\<close> is outstanding.\<close>

definition demo_query :: pending_query where
  "demo_query = \<lparr>pq_original = [0x61], pq_question = [0x61], pq_aliases = [[0x61]], pq_alias_expires = None, pq_deadline = 10,
     pq_next = 5, pq_attempts = 1, pq_local = Some (SocketAddrV4 0x0A000001 0x1001), pq_server = SocketAddrV4 0x0A000002 53,
     pq_wire_id = 7, pq_datagram = Some 1\<rparr>"

definition demo_incoming :: incoming where
  "demo_incoming = \<lparr>in_source = SocketAddrV4 0x0A000002 53, in_destination = SocketAddrV4 0x0A000001 0x1001,
     in_payload = demo_dns_response\<rparr>"

theorem dns_response_matched_witness:
  "\<exists>rv'. rv_receive loopback_ops demo_incoming (demo_resolver\<lparr>rv_pending := [(1, demo_query)]\<rparr>) = Some rv' \<and>
     rv_pending rv' = [] \<and> pq_server demo_query = in_source demo_incoming"
proof -
  let ?rv = "demo_resolver\<lparr>rv_pending := [(1, demo_query)]\<rparr>"
  have "read16 demo_dns_response 0 = 7" "\<not> length demo_dns_response < 2"
    by (simp_all add: demo_dns_response_def read16_def u16_from_be_bytes_def)
  then obtain rv' where r: "rv_receive loopback_ops demo_incoming ?rv = Some rv'" "rv_pending rv' = []"
    using demo_dns_response_parses
    by (simp add: rv_receive_def demo_incoming_def demo_query_def awaits_def demo_resolver_def rust_assert_def rv_finish_def bt_get_def
        rv_close_def up_unbind_def bt_contains_def bt_remove_def count_completed_def Let_def)
  have "rv_pending rv' \<noteq> rv_pending ?rv \<or> rv_results rv' \<noteq> rv_results ?rv \<or> rv_cache rv' \<noteq> rv_cache ?rv"
    using r(2) by simp
  from dns_response_matched [OF r(1) this] show ?thesis
    using r by auto
qed

text \<open>The lookup times out at the first poll after ten seconds.\<close>

definition demo_started :: "loopback udp_resolver" where
  "demo_started = demo_resolver\<lparr>rv_next_id := 2, rv_pending := [(1, \<lparr>pq_original = [0x61], pq_question = [0x61], pq_aliases = [[0x61]],
     pq_alias_expires = None, pq_deadline = from_secs 10, pq_next = 0, pq_attempts = 0, pq_local = None,
     pq_server = SocketAddrV4 0x0A000002 53, pq_wire_id = 0, pq_datagram = None\<rparr>)]\<rparr>"

lemma demo_resolve: "rv_resolve [0x61] demo_resolver = Some (Inr 1, demo_started)"
proof -
  have "dns_normalize [0x61] = Inr [0x61]"
    by (simp add: dns_normalize_def strip_dot_def dot_def label_ok_def host_byte_def to_ascii_lowercase_def ascii_lower_def)
  then show ?thesis
    by (simp add: rv_resolve_def demo_resolver_def demo_started_def rv_start_def demo_network_def nth_opt_def resolver_config_default_def
        saturating_add_def duration_max_def from_secs_def)
qed

lemma up_flush_idle:
  assumes "sd_queue (up_tx p) = []"
  shows "up_flush ops p = Some (Inr 0, p\<lparr>up_blocked_peers := []\<rparr>)"
proof -
  have loop: "up_flush_loop ops budget 0 p' = Some (Inr 0, p')" if "sd_queue (up_tx p') = []" for budget p'
    using that by (cases budget) (simp_all add: sd_candidate_def)
  show ?thesis
    using assms loop [of "p\<lparr>up_blocked_peers := []\<rparr>"] by (simp add: up_flush_def up_advance_def up_cancel_def)
qed

lemma demo_dns_poll: "\<exists>rv. rv_poll loopback_ops demo_random (from_secs 10) demo_started = Some (Inr (), rv)"
proof -
  let ?t = "from_secs 10"
  let ?pool = "rv_pool demo_started"
  have idle: "sd_queue (up_tx ?pool) = []" "up_peers ?pool = []" "up_rx ?pool = []" "up_device ?pool = demo_loopback" "up_now ?pool = 0"
      "up_services ?pool = []" "up_events ?pool = []"
    by (simp_all add: demo_started_def demo_resolver_def scheduler_new_def)
  have recv: "dv_recv loopback_ops n [] demo_loopback = Some (Inr 0, [], demo_loopback)" for n
    by (simp add: loopback_ops_def loopback_recv_def demo_loopback_def pool_alloc_batch_def alloc_batch_loop.simps [of 0])
  have poll: "dv_poll_at loopback_ops t demo_loopback = Some (Inr (), demo_loopback)" for t
    by (simp add: loopback_ops_def default_poll_at_def)
  obtain p1 where p1: "up_poll loopback_ops collect_incoming ?t 0 64 (?pool, []) = Some (Inr 0, p1, [])"
      "sd_queue (up_tx p1) = []" "up_events p1 = []"
    using idle recv poll by (simp add: up_poll_def up_advance_def up_cancel_def up_flush_idle)
  have bind: "rv_poll loopback_ops demo_random ?t demo_started = do {
      rv \<leftarrow> rv_timers loopback_ops demo_random ?t [1] (demo_started\<lparr>rv_now := ?t, rv_cache := [], rv_pool := p1\<rparr>);
      (r, pool) \<leftarrow> up_flush loopback_ops (rv_pool rv);
      Some (case r of Inl e \<Rightarrow> Inl e | Inr _ \<Rightarrow> Inr (), rv\<lparr>rv_pool := pool\<rparr>)
    }"
    using p1 by (simp add: rv_poll_def demo_started_def demo_resolver_def bt_retain_def resolver_config_default_def)
  show ?thesis
    unfolding bind using p1(2)
    by (simp add: rv_timer_def rv_finish_def rv_close_def bt_get_def bt_remove_def count_completed_def demo_started_def up_flush_idle)
qed

theorem dns_lookup_ends_witness:
  "\<exists>rv. rv_poll loopback_ops demo_random (from_secs 10) demo_started = Some (Inr (), rv) \<and> \<not> bt_contains (rv_pending rv) 1"
proof -
  obtain rv where rv: "rv_poll loopback_ops demo_random (from_secs 10) demo_started = Some (Inr (), rv)"
    using demo_dns_poll by blast
  have "rv_run loopback_ops demo_random [] (demo_resolver, [], []) = Some (demo_resolver, [], [])"
      "rv_run loopback_ops demo_random [] (demo_started, [] @ [1], []) = Some (demo_started, [1], [])"
      "saturating_add (rv_now demo_resolver) (rc_lookup_timeout resolver_config_default) \<le> from_secs 10"
    by (simp_all add: demo_resolver_def resolver_config_default_def saturating_add_def)
  from dns_lookup_ends [OF demo_resolver_premises this(1) demo_resolve this(2) rv this(3)] show ?thesis
    using rv by blast
qed

end
