(* ===== verification/Udp_Pacing.thy ===== *)
theory Udp_Pacing
  imports Udp_Pool_Spec
begin

text \<open>
  Pacing over the life of a UDP pool. The scheduler records, when the device accepts a datagram, the time before which
  nothing else may be sent and the time before which nothing else may be sent to the same peer. Here these two debts are
  followed through everything the pool does afterwards, as long as its endpoints are not replaced.
\<close>

section \<open>Steps that keep every debt\<close>

text \<open>
  Up to the time \<open>now\<close>, the scheduler \<open>sd'\<close> has the same pool-wide debt as \<open>sd\<close> and every debt of a peer that is still due.
\<close>

definition keeps_debt :: "duration \<Rightarrow> scheduler \<Rightarrow> scheduler \<Rightarrow> bool" where
  "keeps_debt now sd sd' \<longleftrightarrow> sd_next sd' = sd_next sd \<and> (bt_inv (sd_peers sd) \<longrightarrow> bt_inv (sd_peers sd') \<and>
     (\<forall>peer b. bt_get (sd_peers sd) peer = Some b \<longrightarrow> now < bg_next b \<longrightarrow>
        (\<exists>b'. bt_get (sd_peers sd') peer = Some b' \<and> bg_next b' = bg_next b)))"

lemma keeps_debt_refl [simp]: "keeps_debt now sd sd"
  by (simp add: keeps_debt_def)

lemma keeps_debt_trans: "keeps_debt now a b \<Longrightarrow> keeps_debt now b c \<Longrightarrow> keeps_debt now a c"
  unfolding keeps_debt_def by metis

lemma keeps_debt_later: "keeps_debt now a b \<Longrightarrow> now \<le> later \<Longrightarrow> keeps_debt later a b"
  unfolding keeps_debt_def by (meson le_less_trans)

lemma keeps_debt_queue [simp]: "keeps_debt now sd (sd'\<lparr>sd_queue := qs\<rparr>) = keeps_debt now sd sd'"
  by (simp add: keeps_debt_def)

lemma keeps_debt_insert:
  assumes "bt_get (sd_peers sd) peer = Some b" and "bg_next b' = bg_next b"
  shows "keeps_debt now sd (sd\<lparr>sd_peers := bt_insert peer b' (sd_peers sd)\<rparr>)"
  using assms by (auto simp: keeps_debt_def btm.ok_ins btm.get_ins)

lemma sd_remove_debt:
  assumes "sd_remove i sd = Some (q, sd')"
  shows "keeps_debt now sd sd'"
proof -
  obtain b where b: "bt_get (sd_peers sd) (qd_destination q) = Some b"
      "sd' = sd\<lparr>sd_queue := take i (sd_queue sd) @ drop (Suc i) (sd_queue sd),
         sd_peers := bt_insert (qd_destination q) (b\<lparr>bg_count := bg_count b - 1\<rparr>) (sd_peers sd)\<rparr>"
    using assms by (auto simp: sd_remove_def bind_eq_Some_conv)
  have "keeps_debt now sd (sd\<lparr>sd_peers := bt_insert (qd_destination q) (b\<lparr>bg_count := bg_count b - 1\<rparr>) (sd_peers sd)\<rparr>)"
    by (rule keeps_debt_insert [OF b(1)]) simp
  then show ?thesis
    by (simp add: b(2) keeps_debt_def)
qed

lemma sd_push_debt: "keeps_debt now sd (sd_push q sd)"
proof (cases "bt_get (sd_peers sd) (qd_destination q)")
  case None
  then show ?thesis
    by (auto simp: sd_push_def Let_def keeps_debt_def btm.ok_ins btm.get_ins)
next
  case (Some b)
  have "keeps_debt now sd (sd\<lparr>sd_peers := bt_insert (qd_destination q) (b\<lparr>bg_count := bg_count b + 1\<rparr>) (sd_peers sd)\<rparr>)"
    by (rule keeps_debt_insert [OF Some]) simp
  then show ?thesis
    by (simp add: sd_push_def Some keeps_debt_def)
qed

lemma sd_admission_debt: "keeps_debt now sd (snd (sd_admission peer now cfg sd))"
proof -
  have "snd (sd_admission peer now cfg sd) = sd\<lparr>sd_peers := bt_retain (\<lambda>_ b. 0 < bg_count b \<or> now < bg_next b) (sd_peers sd)\<rparr>"
    by (simp add: sd_admission_def Let_def split: option.split)
  then show ?thesis
    by (auto simp: keeps_debt_def btm.ok_keep btm.get_keep)
qed

text \<open>The same for the pool: its clock does not go back and nothing more is submitted.\<close>

definition calm :: "'d udp_pool \<Rightarrow> 'd udp_pool \<Rightarrow> bool" where
  "calm p q \<longleftrightarrow> up_now p \<le> up_now q \<and> keeps_debt (up_now q) (up_tx p) (up_tx q) \<and>
     ps_submitted (up_stats q) = ps_submitted (up_stats p)"

lemma calm_refl [simp]: "calm p p"
  by (simp add: calm_def)

lemma calm_trans [trans]: "calm p q \<Longrightarrow> calm q r \<Longrightarrow> calm p r"
  unfolding calm_def using keeps_debt_trans keeps_debt_later by (metis order_trans)

text \<open>What a step may change without touching clock, scheduler and the count of submissions.\<close>

definition idle :: "'d udp_pool \<Rightarrow> 'd udp_pool \<Rightarrow> bool" where
  "idle p q \<longleftrightarrow> up_now q = up_now p \<and> up_tx q = up_tx p \<and> ps_submitted (up_stats q) = ps_submitted (up_stats p)"

lemma idle_calm: "idle p q \<Longrightarrow> calm p q"
  by (simp add: idle_def calm_def)

lemma idle_simps [simp]:
  "idle p p" "idle p (p\<lparr>up_device := d\<rparr>)" "idle p (p\<lparr>up_rx := rx\<rparr>)" "idle p (p\<lparr>up_peers := ps\<rparr>)"
  "idle p (p\<lparr>up_blocked_peers := bs\<rparr>)" "idle p (p\<lparr>up_service_work := w\<rparr>)" "idle p (up_event e p)"
  "idle p (up_rejected a b r p)" "idle p (learn_peer a i t p)" "idle p (block_peer a p)" "idle p (snd (up_pop_event p))"
  by (auto simp: idle_def up_event_def up_rejected_def learn_peer_def block_peer_def up_pop_event_def Let_def split: list.split)

lemma calm_tx: "keeps_debt (up_now p) (up_tx p) tx \<Longrightarrow> calm p (p\<lparr>up_tx := tx\<rparr>)"
  by (simp add: calm_def)

section \<open>Operations that send nothing\<close>

lemma up_finish_calm:
  assumes "up_finish ops q outcome p = Some p'"
  shows "calm p p'"
proof -
  have "idle p p'"
    using assms by (auto simp: up_finish_def up_event_def idle_def bind_eq_Some_conv Let_def split: udp_outcome.split_asm)
  then show ?thesis
    by (rule idle_calm)
qed

lemma up_drop_calm:
  assumes "sd_remove i (up_tx p) = Some (q, tx)" and "up_finish ops q outcome (p\<lparr>up_tx := tx\<rparr>) = Some p'"
  shows "calm p p'"
  using calm_trans [OF calm_tx [OF sd_remove_debt [OF assms(1)]] up_finish_calm [OF assms(2)]] .

lemma up_cancel_loop_calm: "up_cancel_loop ops P reason rounds i p = Some p' \<Longrightarrow> calm p p'"
proof (induction rounds arbitrary: i p)
  case (Suc rounds)
  show ?case
  proof (cases "nth_opt (sd_queue (up_tx p)) i")
    case (Some q)
    show ?thesis
    proof (cases "P q")
      case True
      then obtain q' tx p1 where p1: "sd_remove i (up_tx p) = Some (q', tx)"
          "up_finish ops q' (OutcomeDropped reason) (p\<lparr>up_tx := tx\<rparr>) = Some p1" "up_cancel_loop ops P reason rounds i p1 = Some p'"
        using Suc.prems Some by (auto simp: bind_eq_Some_conv)
      then show ?thesis
        using calm_trans [OF up_drop_calm [OF p1(1,2)] Suc.IH [OF p1(3)]] by simp
    qed (use Suc Some in simp)
  qed (use Suc.prems in simp)
qed simp

lemma up_advance_calm:
  assumes "up_advance ops now p = Some (r, p')"
  shows "calm p p'"
proof (cases "now < up_now p")
  case False
  then have "up_cancel ops (\<lambda>q. case qd_deadline q of None \<Rightarrow> False | Some at \<Rightarrow> at \<le> now) DeadlineExpired (p\<lparr>up_now := now\<rparr>) = Some p'"
    using assms by (auto simp: up_advance_def bind_eq_Some_conv)
  then have "calm (p\<lparr>up_now := now\<rparr>) p'"
    unfolding up_cancel_def by (rule up_cancel_loop_calm)
  moreover have "calm p (p\<lparr>up_now := now\<rparr>)"
    using False by (simp add: calm_def)
  ultimately show ?thesis
    using calm_trans by blast
qed (use assms in \<open>simp add: up_advance_def\<close>)

lemma up_unbind_calm:
  assumes "up_unbind ops a p = Some (r, p')"
  shows "calm p p'"
proof (cases "bt_contains (up_services p) a")
  case True
  let ?p = "p\<lparr>up_services := bt_remove a (up_services p), up_generation := up_generation p + 1, up_peers := []\<rparr>"
  have "up_cancel ops (\<lambda>q. qd_source q = a) udp_failure.ConfigurationChanged ?p = Some p'"
    using assms True by (auto simp: up_unbind_def bind_eq_Some_conv)
  then have "calm ?p p'"
    unfolding up_cancel_def by (rule up_cancel_loop_calm)
  moreover have "calm p ?p"
    by (simp add: calm_def)
  ultimately show ?thesis
    using calm_trans by blast
qed (use assms in \<open>simp add: up_unbind_def\<close>)

lemma up_bind_calm: "calm p (snd (up_bind s p))"
  by (simp add: up_bind_def calm_def split: sum.split)

lemma up_admit_calm:
  assumes "up_admit a b t p = (r, p')"
  shows "calm p p'"
  using assms calm_tx [OF sd_admission_debt [of "up_now p" "up_tx p" b "up_config p"]]
  by (auto simp: up_admit_def case_prod_unfold Let_def split: if_split_asm)

lemma up_enqueue_calm:
  assumes "up_enqueue ops f a b t p = Some (r, p')"
  shows "calm p p'"
  using assms sd_push_debt [of "up_now p" "up_tx p"]
  by (auto simp: up_enqueue_def calm_def bind_eq_Some_conv Let_def split: if_split_asm)

lemma calm_rejected: "calm p q \<Longrightarrow> calm p (up_rejected a b r q)"
  using calm_trans idle_calm [OF idle_simps(8)] by blast

lemma calm_device: "calm p q \<Longrightarrow> calm p (q\<lparr>up_device := d\<rparr>)"
  by (simp add: calm_def)

lemma calm_stats: "ps_submitted st = ps_submitted (up_stats q) \<Longrightarrow> calm p q \<Longrightarrow> calm p (q\<lparr>up_stats := st\<rparr>)"
  by (simp add: calm_def)

lemma send_with_options_calm:
  assumes "send_with_options ops a b payload t p = Some (r, p')"
  shows "calm p p'"
proof -
  obtain r1 p1 where p1: "up_admit a b t p = (r1, p1)"
    by (metis prod.collapse)
  note c1 = up_admit_calm [OF p1]
  show ?thesis
  proof (cases r1)
    case (Inl reason)
    then show ?thesis
      using assms p1 calm_rejected [OF c1] by (auto simp: send_with_options_def)
  next
    case (Inr u)
    then obtain fo d where d: "dv_alloc ops (up_device p1) = Some (fo, d)"
      using assms p1 by (auto simp: send_with_options_def bind_eq_Some_conv)
    note c2 = calm_device [OF c1, of d]
    show ?thesis
    proof (cases fo)
      case None
      then show ?thesis
        using assms p1 Inr d calm_rejected [OF c2] by (auto simp: send_with_options_def)
    next
      case (Some f)
      obtain built f' where f': "udp_build_ipv4 f (octets (sa_ip a), sa_port a) (octets (sa_ip b), sa_port b) payload 0 = Some (built, f')"
        using assms p1 Inr d Some by (auto simp: send_with_options_def bind_eq_Some_conv Let_def)
      show ?thesis
      proof (cases built)
        case (Inl e)
        then show ?thesis
          using assms p1 Inr d Some f' calm_device [OF calm_rejected [OF c2]]
          by (auto simp: send_with_options_def bind_eq_Some_conv Let_def)
      next
        case built: (Inr u')
        have "up_enqueue ops f' a b t (p1\<lparr>up_device := d\<rparr>) = Some (r, p')"
          using assms p1 Inr d Some f' built by (simp add: send_with_options_def)
        from calm_trans [OF c2 up_enqueue_calm [OF this]] show ?thesis .
      qed
    qed
  qed
qed

lemma send_to_calm: "send_to ops a b payload p = Some (r, p') \<Longrightarrow> calm p p'"
  by (auto simp: send_to_def bind_eq_Some_conv intro: send_with_options_calm)

lemma answer_query_calm: "answer_query ops a b i services p = Some p' \<Longrightarrow> calm p p'"
proof (induction services arbitrary: p)
  case (Cons e services)
  obtain address service_id where e: "e = (address, service_id)"
    by (cases e)
  show ?case
  proof (cases "service_id \<noteq> i \<or> sa_port address \<noteq> sa_port b \<or> address \<noteq> b \<and> \<not> is_broadcast (sa_ip b)")
    case True
    then show ?thesis
      using Cons by (simp add: e)
  next
    case False
    then obtain r p1 where p1: "send_to ops address a (ADVERT @ u32_to_be_bytes i) p = Some (r, p1)"
        "answer_query ops a b i services (case r of
           Inl _ \<Rightarrow> p1\<lparr>up_stats := (up_stats p1)\<lparr>ps_response_drops := ps_response_drops (up_stats p1) + 1\<rparr>\<rparr> | Inr _ \<Rightarrow> p1) = Some p'"
      using Cons.prems by (auto simp: e bind_eq_Some_conv)
    have "calm p (case r of
        Inl _ \<Rightarrow> p1\<lparr>up_stats := (up_stats p1)\<lparr>ps_response_drops := ps_response_drops (up_stats p1) + 1\<rparr>\<rparr> | Inr _ \<Rightarrow> p1)"
      using send_to_calm [OF p1(1)] by (cases r) (simp_all add: calm_stats)
    then show ?thesis
      using calm_trans Cons.IH [OF p1(2)] by blast
  qed
qed simp

lemma up_echo_calm:
  assumes "up_echo ops f a b p = Some (r, p')"
  shows "calm p p'"
proof -
  obtain r1 p1 where p1: "up_admit b a None p = (r1, p1)"
    by (metis prod.collapse)
  note c1 = up_admit_calm [OF p1]
  show ?thesis
  proof (cases r1)
    case (Inl reason)
    let ?st = "(up_stats p1)\<lparr>ps_response_drops := ps_response_drops (up_stats p1) + 1\<rparr>"
    have "calm p (up_rejected b a reason (p1\<lparr>up_stats := ?st\<rparr>))"
      by (rule calm_rejected [OF calm_stats [OF _ c1]]) simp
    then show ?thesis
      using assms p1 Inl calm_device by (auto simp: up_echo_def bind_eq_Some_conv Let_def)
  next
    case (Inr u)
    let ?self = "\<lparr>rs_ipv4 = octets (sa_ip b), rs_mac = replicate 6 0, rs_udp_port = Some (sa_port b)\<rparr>"
    obtain reply f' where f': "respond ?self f LinkIp = Some (reply, f')"
      using assms p1 Inr by (auto simp: up_echo_def bind_eq_Some_conv)
    show ?thesis
    proof (cases "is_reply reply")
      case True
      then obtain r' where "up_enqueue ops f' b a None p1 = Some (r', p')"
        using assms p1 Inr f' by (auto simp: up_echo_def bind_eq_Some_conv)
      from calm_trans [OF c1 up_enqueue_calm [OF this]] show ?thesis .
    next
      case False
      then show ?thesis
        using assms p1 Inr f' calm_device [OF c1] by (auto simp: up_echo_def bind_eq_Some_conv)
    qed
  qed
qed

lemma up_packet_calm:
  assumes "up_packet ops handler now f (p, h) = Some (r, p', h')"
  shows "calm p p'"
proof -
  have discard: "calm p p'" if "do { d \<leftarrow> dv_drop ops f (up_device q); Some (Inr (), q\<lparr>up_device := d\<rparr>, k) } = Some (r, p', h')" "calm p q" for q k
    using that calm_device by (auto simp: bind_eq_Some_conv)
  obtain parsed where parsed: "udp_parse_ipv4 (as_slice f) = Some parsed"
    using udp_parse_total by blast
  define p1 where "p1 = p\<lparr>up_stats := (up_stats p)\<lparr>ps_received := ps_received (up_stats p) + 1\<rparr>\<rparr>"
  have c1: "calm p p1"
    by (simp add: p1_def calm_stats)
  show ?thesis
  proof (cases parsed)
    case (Inl e)
    have "calm p (p\<lparr>up_stats := (up_stats p)\<lparr>ps_invalid := ps_invalid (up_stats p) + 1\<rparr>\<rparr>)"
      by (simp add: calm_stats)
    then show ?thesis
      using discard [of "p\<lparr>up_stats := (up_stats p)\<lparr>ps_invalid := ps_invalid (up_stats p) + 1\<rparr>\<rparr>" h] assms parsed Inl
      by (simp add: up_packet_def Let_def)
  next
    case (Inr dg)
    let ?pl = "dg_payload dg"
    let ?disc = "length ?pl = 10 \<and> take 4 ?pl = take 4 QUERY"
    note run = assms [unfolded up_packet_def Let_def, simplified parsed Inr, simplified, folded p1_def]
    consider (query) "?disc" "take 6 ?pl = QUERY" | (unbound) "\<not> (?disc \<and> take 6 ?pl = QUERY)" "\<not> bt_contains (up_services p1) (dg_destination dg)"
      | (advert) "?disc" "take 6 ?pl \<noteq> QUERY" "bt_contains (up_services p1) (dg_destination dg)" "take 6 ?pl = ADVERT"
      | (other) "?disc" "take 6 ?pl \<noteq> QUERY" "bt_contains (up_services p1) (dg_destination dg)" "take 6 ?pl \<noteq> ADVERT"
      | (data) "\<not> ?disc" "bt_contains (up_services p1) (dg_destination dg)"
      by blast
    then show ?thesis
    proof cases
      case query
      then obtain i q where q: "answer_query ops (dg_source dg) (dg_destination dg) i (up_services p1) p1 = Some q"
          "do { d \<leftarrow> dv_drop ops f (up_device q); Some (Inr (), q\<lparr>up_service_work := [], up_device := d\<rparr>, h) } = Some (r, p', h')"
        using run by (auto simp: bind_eq_Some_conv p1_def)
      have "calm p (q\<lparr>up_service_work := []\<rparr>)"
        using calm_trans [OF c1 answer_query_calm [OF q(1)]] by (simp add: calm_def)
      then show ?thesis
        using discard [of "q\<lparr>up_service_work := []\<rparr>" h] q(2) by simp
    next
      case unbound
      have "calm p (p1\<lparr>up_stats := (up_stats p1)\<lparr>ps_unbound := ps_unbound (up_stats p1) + 1\<rparr>\<rparr>)"
        by (rule calm_stats [OF _ c1]) simp
      from discard [OF _ this] show ?thesis
        using run unbound by (auto simp: p1_def)
    next
      case advert
      then obtain i where "do { d \<leftarrow> dv_drop ops f (up_device (learn_peer (dg_source dg) i now p1));
          Some (Inr (), (learn_peer (dg_source dg) i now p1)\<lparr>up_device := d\<rparr>, h) } = Some (r, p', h')"
        using run by (auto simp: bind_eq_Some_conv p1_def)
      from discard [OF this] show ?thesis
        using calm_trans [OF c1 idle_calm [OF idle_simps(9)]] by blast
    next
      case other
      then show ?thesis
        using run discard [OF _ c1] by (auto simp: p1_def)
    next
      case data
      obtain act h1 where act: "handler dg h = (act, h1)"
        by (metis prod.collapse)
      show ?thesis
      proof (cases act)
        case ActionIgnore
        then show ?thesis
          using run data act discard [OF _ c1] by (auto simp: p1_def)
      next
        case ActionEcho
        then have "up_echo ops f (dg_source dg) (dg_destination dg) p1 = Some (r, p')"
          using run data act by (auto simp: p1_def)
        from calm_trans [OF c1 up_echo_calm [OF this]] show ?thesis .
      qed
    qed
  qed
qed

lemma up_packets_calm: "up_packets ops handler now fs (p, h) = Some (r, p', h') \<Longrightarrow> calm p p'"
proof (induction fs arbitrary: p h)
  case (Cons f fs)
  then obtain r1 p1 h1 where p1: "up_packet ops handler now f (p, h) = Some (r1, p1, h1)"
    by (auto simp: bind_eq_Some_conv)
  note c1 = up_packet_calm [OF p1]
  show ?case
  proof (cases r1)
    case (Inl e)
    then show ?thesis
      using Cons.prems p1 calm_device [OF c1] by (auto simp: bind_eq_Some_conv)
  next
    case (Inr u)
    then show ?thesis
      using Cons.prems p1 calm_trans [OF c1 Cons.IH] by auto
  qed
qed simp

section \<open>Transmission\<close>

lemma filter_opt_eq: "filter_opt P xs = Some ys \<Longrightarrow> ys = filter (\<lambda>x. P x = Some True) xs"
  by (induction xs arbitrary: ys) (auto simp: bind_eq_Some_conv)

text \<open>A datagram the scheduler picks is due: neither the pool nor its peer owes time.\<close>

lemma sd_candidateD:
  assumes "sd_candidate now fair blocked sd = Some (Some i)"
  shows "sd_next sd \<le> now" and "i < length (sd_queue sd)" and "sd_ready now blocked sd (sd_queue sd ! i) = Some True"
proof -
  show "sd_next sd \<le> now"
    using assms by (auto simp: sd_candidate_def split: if_split_asm)
  have "i < length (sd_queue sd) \<and> sd_ready now blocked sd (sd_queue sd ! i) = Some True"
  proof (cases fair)
    case True
    then obtain ready where "filter_opt (\<lambda>(_, q). sd_ready now blocked sd q) (enumerate 0 (sd_queue sd)) = Some ready"
        and r: "ready \<noteq> []" "i = fst (arg_min_list (candidate_key sd) ready)"
      using assms by (auto simp: sd_candidate_def bind_eq_Some_conv split: if_split_asm)
    from filter_opt_eq [OF this(1)] have "ready = ready_entries now blocked sd"
      by (simp add: ready_entries_def case_prod_unfold)
    then have "(i, snd (arg_min_list (candidate_key sd) ready)) \<in> set (ready_entries now blocked sd)"
      using arg_min_list_in [OF r(1), of "candidate_key sd"] r(2) by simp
    then show ?thesis
      by (auto simp: ready_entries_mem)
  next
    case False
    then show ?thesis
      using assms by (cases "sd_queue sd") (auto simp: sd_candidate_def bind_eq_Some_conv split: if_split_asm)
  qed
  then show "i < length (sd_queue sd)" and "sd_ready now blocked sd (sd_queue sd ! i) = Some True"
    by simp_all
qed

text \<open>
  \<open>owes peer t\<close>: nothing may go to \<open>peer\<close> before \<open>t\<close>. A step honours the debts of the pool (until \<open>t\<close>) and of a peer
  (until \<open>u\<close>) when, as long as they are due, it submits nothing, or nothing to that peer, and keeps them.
\<close>

definition owes :: "sockaddr \<Rightarrow> duration \<Rightarrow> scheduler \<Rightarrow> bool" where
  "owes peer u sd \<longleftrightarrow> bt_inv (sd_peers sd) \<and> (\<exists>b. bt_get (sd_peers sd) peer = Some b \<and> u \<le> bg_next b)"

definition honours :: "duration \<Rightarrow> sockaddr \<Rightarrow> duration \<Rightarrow> 'd udp_pool \<Rightarrow> 'd udp_pool \<Rightarrow> bool" where
  "honours t peer u p q \<longleftrightarrow> up_now p \<le> up_now q \<and>
     (up_now q < t \<and> t \<le> sd_next (up_tx p) \<longrightarrow>
        t \<le> sd_next (up_tx q) \<and> ps_submitted (up_stats q) = ps_submitted (up_stats p)) \<and>
     (up_now q < u \<and> owes peer u (up_tx p) \<longrightarrow> owes peer u (up_tx q))"

lemma honours_trans: "honours t peer u p q \<Longrightarrow> honours t peer u q r \<Longrightarrow> honours t peer u p r"
  unfolding honours_def by (metis le_less_trans order_trans)

lemma keeps_debt_owes: "keeps_debt now sd sd' \<Longrightarrow> now < u \<Longrightarrow> owes peer u sd \<Longrightarrow> owes peer u sd'"
  unfolding keeps_debt_def owes_def by (metis less_le_trans)

lemma calm_honours:
  assumes "calm p q"
  shows "honours t peer u p q"
proof -
  have "sd_next (up_tx q) = sd_next (up_tx p)" "keeps_debt (up_now q) (up_tx p) (up_tx q)"
    using assms by (simp_all add: calm_def keeps_debt_def)
  then show ?thesis
    using assms keeps_debt_owes [of "up_now q" "up_tx p" "up_tx q" u peer] by (simp add: calm_def honours_def)
qed

lemma up_submit_cases:
  assumes "up_submit ops i p = Some (r, p')" and "i < length (sd_queue (up_tx p))"
  obtains (calm) "calm p p'" and "r \<noteq> Inr 1"
  | (accepted) tx f q tx' where "r = Inr 1"
      and "sd_accepted (qd_destination (sd_queue (up_tx p) ! i)) (pb_len (qd_frame (sd_queue (up_tx p) ! i))) (up_now p) (up_config p)
             ((up_tx p)\<lparr>sd_queue := (sd_queue (up_tx p))[i := (sd_queue (up_tx p) ! i)\<lparr>qd_frame := f\<rparr>]\<rparr>) = Some tx"
      and "sd_remove i tx = Some (q, tx')" and "up_now p' = up_now p" and "up_tx p' = tx'"
proof -
  let ?q = "sd_queue (up_tx p) ! i"
  obtain res slot d f where d: "dv_send ops [qd_frame ?q] (up_device p) = Some (res, slot, d)" "nth_opt slot 0 = Some f"
    using assms by (auto simp: up_submit_def bind_eq_Some_conv nth_opt_def Let_def)
  define p1 where "p1 = p\<lparr>up_device := d, up_tx := (up_tx p)\<lparr>sd_queue := (sd_queue (up_tx p))[i := ?q\<lparr>qd_frame := f\<rparr>]\<rparr>\<rparr>"
  have c1: "calm p p1" "calm p (block_peer (qd_destination ?q) p1)"
    by (simp_all add: p1_def calm_def block_peer_def)
  have "up_submit ops i p = (case res of
       Inr n \<Rightarrow>
         if n = 1 then do {
           tx \<leftarrow> sd_accepted (qd_destination ?q) (pb_len (qd_frame ?q)) (up_now p) (up_config p) (up_tx p1);
           (q, tx) \<leftarrow> sd_remove i tx;
           p \<leftarrow> up_finish ops q OutcomeSubmitted (p1\<lparr>up_tx := tx\<rparr>);
           Some (Inr 1, p\<lparr>up_stats := (up_stats p)\<lparr>ps_submitted := ps_submitted (up_stats p) + 1\<rparr>\<rparr>)
         }
         else if n = 0 then Some (Inr 0, block_peer (qd_destination ?q) p1)
         else Some (Inl InvalidData, p1)
     | Inl e \<Rightarrow>
         if e = WouldBlock then Some (Inr 0, block_peer (qd_destination ?q) p1)
         else if drop_failure e then do {
           (q, tx) \<leftarrow> sd_remove i (up_tx p1);
           p \<leftarrow> up_finish ops q (OutcomeDropped (DeviceFailure e)) (p1\<lparr>up_tx := tx\<rparr>);
           Some (Inr 0, if uc_fair_queue (up_config p) then block_peer (qd_destination ?q) p else p)
         }
         else Some (Inl e, p1))"
    using assms(2) d by (cases res) (simp_all add: up_submit_def nth_opt_def p1_def)
  note run = assms(1) [unfolded this]
  show thesis
  proof (cases res)
    case (Inl e)
    show thesis
    proof (cases "e \<noteq> WouldBlock \<and> drop_failure e")
      case True
      then obtain q tx p2 where p2: "sd_remove i (up_tx p1) = Some (q, tx)"
          "up_finish ops q (OutcomeDropped (DeviceFailure e)) (p1\<lparr>up_tx := tx\<rparr>) = Some p2"
          "r = Inr 0" "p' = p2 \<or> p' = block_peer (qd_destination ?q) p2"
        using run Inl by (auto simp: bind_eq_Some_conv split: if_split_asm)
      have "calm p p2"
        using calm_trans [OF c1(1) up_drop_calm [OF p2(1,2)]] .
      then have "calm p p'"
        using p2(4) by (auto simp: calm_def block_peer_def)
      then show thesis
        using calm p2(3) by simp
    qed (use run Inl c1 calm in \<open>auto split: if_split_asm\<close>)
  next
    case (Inr n)
    show thesis
    proof (cases "n = 1")
      case True
      then obtain tx q tx' p2 where a: "sd_accepted (qd_destination ?q) (pb_len (qd_frame ?q)) (up_now p) (up_config p) (up_tx p1) = Some tx"
          "sd_remove i tx = Some (q, tx')" "up_finish ops q OutcomeSubmitted (p1\<lparr>up_tx := tx'\<rparr>) = Some p2" "r = Inr 1"
          "p' = p2\<lparr>up_stats := (up_stats p2)\<lparr>ps_submitted := ps_submitted (up_stats p2) + 1\<rparr>\<rparr>"
        using run Inr by (auto simp: bind_eq_Some_conv)
      have "up_now p2 = up_now p \<and> up_tx p2 = tx'"
        using a(3) by (auto simp: up_finish_def up_event_def p1_def bind_eq_Some_conv Let_def)
      then show thesis
        using accepted a(1,2,4,5) by (simp add: p1_def)
    qed (use run Inr c1 calm in \<open>auto split: if_split_asm\<close>)
  qed
qed

lemma sd_accepted_owes:
  assumes "sd_accepted peer n now cfg sd = Some sd'"
  shows "sd_next sd' = saturating_add now (spacing n (uc_bytes_per_second cfg))"
    and "bt_inv (sd_peers sd) \<Longrightarrow> owes peer (saturating_add now (spacing n (uc_per_peer_bytes_per_second cfg))) sd'"
    and "owes other u sd \<Longrightarrow> other \<noteq> peer \<Longrightarrow> owes other u sd'"
  using assms by (auto simp: sd_accepted_def owes_def btm.ok_ins btm.get_ins bind_eq_Some_conv Let_def)

lemma owes_queue [simp]: "owes peer u (sd\<lparr>sd_queue := qs\<rparr>) = owes peer u sd"
  by (simp add: owes_def)

lemma up_submit_honours:
  assumes c: "sd_candidate (up_now p) fair blocked (up_tx p) = Some (Some i)" and s: "up_submit ops i p = Some (r, p')"
  shows "honours t peer u p p'"
  using s sd_candidateD(2) [OF c]
proof (cases rule: up_submit_cases)
  case calm
  then show ?thesis
    using calm_honours by blast
next
  case (accepted tx f q tx')
  let ?dest = "qd_destination (sd_queue (up_tx p) ! i)"
  have "owes peer u (up_tx p')" if owed: "owes peer u (up_tx p)" and now: "up_now p < u"
  proof -
    have "?dest \<noteq> peer"
      using owed now sd_candidateD(3) [OF c] by (auto simp: owes_def sd_ready_def split: if_split_asm)
    then have "owes peer u tx"
      using sd_accepted_owes(3) [OF accepted(2), of peer u] owed by simp
    then show ?thesis
      using keeps_debt_owes [OF sd_remove_debt [OF accepted(3)] now] accepted(5) by simp
  qed
  then show ?thesis
    using sd_candidateD(1) [OF c] accepted(4) by (auto simp: honours_def)
qed

lemma up_flush_loop_honours: "up_flush_loop ops budget n p = Some (r, p') \<Longrightarrow> honours t peer u p p'"
proof (induction budget arbitrary: n p)
  case (Suc budget)
  obtain c where c: "sd_candidate (up_now p) (uc_fair_queue (up_config p)) (up_blocked_peers p) (up_tx p) = Some c"
    using Suc.prems by (auto simp: bind_eq_Some_conv)
  show ?case
  proof (cases c)
    case (Some i)
    then obtain r1 p1 where p1: "up_submit ops i p = Some (r1, p1)"
      using Suc.prems c by (auto simp: bind_eq_Some_conv)
    note h1 = up_submit_honours [OF c [unfolded Some] p1, of t peer u]
    show ?thesis
    proof (cases r1)
      case (Inr k)
      then show ?thesis
        using Suc.prems c Some p1 honours_trans [OF h1 Suc.IH] by simp
    qed (use Suc.prems c Some p1 h1 in simp)
  qed (use Suc.prems c calm_honours [OF calm_refl] in simp)
qed (use calm_honours [OF calm_refl] in simp)

lemma up_flush_honours:
  assumes "up_flush ops p = Some (r, p')"
  shows "honours t peer u p p'"
proof -
  obtain r1 p1 where p1: "up_advance ops (up_now p) p = Some (r1, p1)"
    using assms by (auto simp: up_flush_def bind_eq_Some_conv)
  note c1 = up_advance_calm [OF p1]
  show ?thesis
  proof (cases r1)
    case (Inl e)
    then show ?thesis
      using assms p1 calm_honours [OF c1] by (simp add: up_flush_def)
  next
    case (Inr x)
    have "calm p (p1\<lparr>up_blocked_peers := []\<rparr>)"
      using c1 by (simp add: calm_def)
    moreover have "up_flush_loop ops (uc_tx_budget (up_config p1)) 0 (p1\<lparr>up_blocked_peers := []\<rparr>) = Some (r, p')"
      using assms p1 Inr by (simp add: up_flush_def)
    ultimately show ?thesis
      using honours_trans [OF calm_honours up_flush_loop_honours] by blast
  qed
qed

lemma up_poll_honours:
  assumes "up_poll ops handler now lease budget (p, h) = Some (r, p', h')"
  shows "honours t peer u p p'"
proof (cases "now < up_now p")
  case False
  obtain r1 p1 where p1: "up_advance ops now p = Some (r1, p1)"
    using assms False by (auto simp: up_poll_def bind_eq_Some_conv)
  note c1 = up_advance_calm [OF p1]
  have ok1: "r1 = Inr ()"
    using p1 False by (auto simp: up_advance_def bind_eq_Some_conv)
  obtain r2 d where d: "dv_poll_at ops now (up_device p1) = Some (r2, d)"
    using assms False p1 ok1 by (auto simp: up_poll_def bind_eq_Some_conv)
  note c2 = calm_device [OF c1, of d]
  show ?thesis
  proof (cases r2)
    case (Inl e)
    then show ?thesis
      using assms False p1 ok1 d calm_honours [OF c2] by (simp add: up_poll_def)
  next
    case (Inr x)
    obtain peers r3 p3 where p3: "filter_opt (peer_fresh now lease) (up_peers p1) = Some peers"
        "up_flush ops (p1\<lparr>up_device := d, up_peers := peers\<rparr>) = Some (r3, p3)"
      using assms False p1 ok1 d Inr by (auto simp: up_poll_def bind_eq_Some_conv Let_def)
    have "calm p (p1\<lparr>up_device := d, up_peers := peers\<rparr>)"
      using c1 by (simp add: calm_def)
    note h3 = honours_trans [OF calm_honours [OF this] up_flush_honours [OF p3(2)], of t peer u]
    show ?thesis
    proof (cases r3)
      case (Inl e)
      then show ?thesis
        using assms False p1 ok1 d Inr p3 h3 by (simp add: up_poll_def)
    next
      case r3: (Inr k)
      obtain r4 rx d4 where d4: "dv_recv ops (min budget (up_capacity p3)) (up_rx p3) (up_device p3) = Some (r4, rx, d4)"
        using assms False p1 ok1 d Inr p3 r3 by (auto simp: up_poll_def bind_eq_Some_conv)
      have h4: "honours t peer u p (p3\<lparr>up_device := d4, up_rx := fs\<rparr>)" for fs
        using h3 by (simp add: honours_def)
      show ?thesis
      proof (cases r4)
        case (Inl e)
        then show ?thesis
          using assms False p1 ok1 d Inr p3 r3 d4 h4 by (auto simp: up_poll_def)
      next
        case r4: (Inr k4)
        obtain r5 where "up_packets ops handler now rx (p3\<lparr>up_device := d4, up_rx := []\<rparr>, h) = Some (r5, p', h')"
          using assms False p1 ok1 d Inr p3 r3 d4 r4 by (auto simp: up_poll_def bind_eq_Some_conv)
        from honours_trans [OF h4 calm_honours [OF up_packets_calm [OF this]]] show ?thesis .
      qed
    qed
  qed
qed (use assms calm_honours [OF calm_refl] in \<open>simp add: up_poll_def\<close>)

lemma up_exec_honours:
  assumes "up_exec ops call (p, h) = Some (p', h')" and "\<forall>ss. call \<noteq> UdpReplace ss"
  shows "honours t peer u p p'"
proof (cases call)
  case (UdpPoll handler now lease budget)
  then show ?thesis
    using assms(1) up_poll_honours by auto
next
  case UdpFlush
  then show ?thesis
    using assms(1) up_flush_honours by auto
next
  case (UdpBind s)
  then show ?thesis
    using assms(1) calm_honours [OF up_bind_calm] by auto
next
  case UdpPopEvent
  then show ?thesis
    using assms(1) calm_honours [OF idle_calm [OF idle_simps(11)]] by auto
qed (use assms calm_honours [OF calm_refl] calm_honours [OF up_unbind_calm] calm_honours [OF send_with_options_calm]
  calm_honours [OF send_to_calm] calm_honours [OF up_advance_calm] in \<open>auto simp: discover_def\<close>)

section \<open>The future of a pool\<close>

text \<open>
  Everything that can follow in the life of a pool with the same table of endpoints: the rest of the flush that is going
  on, the packets a poll goes on to receive and handle, and any later call of the client but \<^verbatim>\<open>replace_services\<close>.
\<close>

inductive up_later :: "'d device_ops \<Rightarrow> 'd udp_pool \<times> 'h \<Rightarrow> 'd udp_pool \<times> 'h \<Rightarrow> bool" for ops s where
  later_now: "up_later ops s s"
| later_flush: "up_later ops s (p, h) \<Longrightarrow> up_flush_loop ops budget n p = Some (r, p') \<Longrightarrow> up_later ops s (p', h)"
| later_receive: "up_later ops s (p, h) \<Longrightarrow> up_later ops s (p\<lparr>up_device := d, up_rx := rx\<rparr>, h)"
| later_packets: "up_later ops s (p, h) \<Longrightarrow> up_packets ops handler now fs (p, h) = Some (r, p', h') \<Longrightarrow> up_later ops s (p', h')"
| later_call: "up_later ops s (p, h) \<Longrightarrow> up_exec ops call (p, h) = Some (p', h') \<Longrightarrow> \<forall>ss. call \<noteq> UdpReplace ss \<Longrightarrow>
    up_later ops s (p', h')"

lemma up_later_honours: "up_later ops s s' \<Longrightarrow> honours t peer u (fst s) (fst s')"
proof (induction rule: up_later.induct)
  case later_now
  show ?case
    by (rule calm_honours [OF calm_refl])
next
  case (later_flush p h budget n r p')
  from honours_trans [OF later_flush.IH [simplified] up_flush_loop_honours [OF later_flush.hyps(2)]] show ?case
    by simp
next
  case (later_receive p h d rx)
  then show ?case
    by (simp add: honours_def)
next
  case (later_packets p h handler now fs r p' h')
  from honours_trans [OF later_packets.IH [simplified] calm_honours [OF up_packets_calm [OF later_packets.hyps(2)]]] show ?case
    by simp
next
  case (later_call p h call p' h')
  from honours_trans [OF later_call.IH [simplified] up_exec_honours [OF later_call.hyps(2,3)]] show ?case
    by simp
qed

section \<open>Properties\<close>

text \<open>The time a packet takes at a rate, without saturation, and what having waited for it means.\<close>

lemma spacing_le:
  assumes "0 < rate" and "now + n * 1000000000 \<le> duration_max"
  shows "saturating_add now (spacing n (Some rate)) = now + spacing n (Some rate)"
    and "n * 1000000000 \<le> rate * spacing n (Some rate)"
proof -
  have n: "n < 2 ^ 64"
    using assms(2) by (simp add: duration_max_def)
  have "(n * 1000000000 + (rate - 1)) div rate \<le> n * 1000000000"
    by (rule ceiling_le [OF assms(1)])
  moreover have "spacing n (Some rate) \<le> (n * 1000000000 + (rate - 1)) div rate"
    using mult_le_mono1 [OF min.cobounded1, of "(n * 1000000000 + (rate - 1)) div rate div 1000000000" "2 ^ 64 - 1" 1000000000]
      div_mult_mod_eq [of "(n * 1000000000 + (rate - 1)) div rate" 1000000000]
    unfolding spacing_def Let_def option.case by linarith
  ultimately show "saturating_add now (spacing n (Some rate)) = now + spacing n (Some rate)"
    using assms(2) by (simp add: saturating_add_def)
  show "n * 1000000000 \<le> rate * spacing n (Some rate)"
    by (rule spacing_bound [OF assms(1) n])
qed

text \<open>
  C33. Pacing keeps the configured rates over the life of a pool. When the device accepted a datagram of \<open>n\<close> bytes at
  time \<open>t\<close>, then at any later moment, through the rest of that flush, received packets and any calls of the client, until
  the table of endpoints is replaced: the device has accepted no further datagram as long as the time its bytes take at
  the rate of the pool has not passed since \<open>t\<close>; and the scheduler does not pick a datagram to the same peer before the
  time its bytes take at the rate for one peer has passed. The clock is assumed not to saturate. Replacing the endpoints
  starts a new scheduler, which forgets both debts.
\<close>

theorem udp_pacing:
  assumes "up_inv p" and "i < length (sd_queue (up_tx p))" and "up_submit ops i p = Some (Inr 1, p1)"
    and "up_later ops (p1, h) (p2, h')"
    and "n = pb_len (qd_frame (sd_queue (up_tx p) ! i))" and "up_now p + n * 1000000000 \<le> duration_max"
  shows "(case uc_bytes_per_second (up_config p) of
        None \<Rightarrow> True
      | Some rate \<Rightarrow> rate * (up_now p2 - up_now p) < n * 1000000000 \<longrightarrow>
          ps_submitted (up_stats p2) = ps_submitted (up_stats p1)) \<and>
    (case uc_per_peer_bytes_per_second (up_config p) of
        None \<Rightarrow> True
      | Some rate \<Rightarrow> \<forall>fair blocked j. sd_candidate (up_now p2) fair blocked (up_tx p2) = Some (Some j) \<longrightarrow>
          qd_destination (sd_queue (up_tx p2) ! j) = qd_destination (sd_queue (up_tx p) ! i) \<longrightarrow>
          n * 1000000000 \<le> rate * (up_now p2 - up_now p))"
proof -
  let ?dest = "qd_destination (sd_queue (up_tx p) ! i)" and ?cfg = "up_config p"
  define t where "t = saturating_add (up_now p) (spacing n (uc_bytes_per_second ?cfg))"
  define u where "u = saturating_add (up_now p) (spacing n (uc_per_peer_bytes_per_second ?cfg))"
  have rates: "uc_bytes_per_second ?cfg = Some rate \<Longrightarrow> 0 < rate" "uc_per_peer_bytes_per_second ?cfg = Some rate \<Longrightarrow> 0 < rate" for rate
    using assms(1) by (auto simp: up_inv_def udp_config_validate_def split: if_split_asm)
  have bt: "bt_inv (sd_peers (up_tx p))"
    using assms(1) by (simp add: up_inv_def sched_inv_def)
  have debts: "up_now p1 = up_now p \<and> sd_next (up_tx p1) = t \<and> (up_now p < u \<longrightarrow> owes ?dest u (up_tx p1))"
    using assms(3,2)
  proof (cases rule: up_submit_cases)
    case (accepted tx f q tx')
    note a = sd_accepted_owes(1,2) [OF accepted(2), folded assms(5)]
    have "sd_next (up_tx p1) = t"
      using a(1) sd_remove_debt [OF accepted(3), of 0] accepted(5) by (simp add: keeps_debt_def t_def)
    moreover have "owes ?dest u (up_tx p1)" if "up_now p < u"
      using a(2) bt keeps_debt_owes [OF sd_remove_debt [OF accepted(3)] that] accepted(5) by (simp add: u_def)
    ultimately show ?thesis
      using accepted(4) by simp
  qed simp
  have h: "honours t ?dest u p1 p2"
    using up_later_honours [OF assms(4), of t ?dest u] by simp
  have wait: "k \<le> rate * (up_now p2 - up_now p)" if "up_now p + s \<le> up_now p2" "k \<le> rate * s" for rate s k :: nat
    using that mult_le_mono2 [of s "up_now p2 - up_now p" rate] by linarith
  have pool: "ps_submitted (up_stats p2) = ps_submitted (up_stats p1)"
    if r: "uc_bytes_per_second ?cfg = Some rate" "rate * (up_now p2 - up_now p) < n * 1000000000" for rate
  proof -
    note sp = spacing_le [OF rates(1) [OF r(1)] assms(6)]
    have "up_now p2 < t"
      using wait [OF _ sp(2)] r(2) unfolding t_def r(1) sp(1) by (meson leD not_le)
    then show ?thesis
      using h debts by (simp add: honours_def)
  qed
  have peer: "n * 1000000000 \<le> rate * (up_now p2 - up_now p)"
    if r: "uc_per_peer_bytes_per_second ?cfg = Some rate" and c: "sd_candidate (up_now p2) fair blocked (up_tx p2) = Some (Some j)"
      and j: "qd_destination (sd_queue (up_tx p2) ! j) = ?dest" for rate fair blocked j
  proof -
    note sp = spacing_le [OF rates(2) [OF r] assms(6)]
    have "u \<le> up_now p2"
    proof (rule ccontr)
      assume "\<not> u \<le> up_now p2"
      then have "up_now p2 < u" "up_now p < u"
        using h debts by (auto simp: honours_def)
      then have "owes ?dest u (up_tx p2)"
        using h debts by (simp add: honours_def)
      then show False
        using sd_candidateD(3) [OF c] \<open>up_now p2 < u\<close> by (auto simp: owes_def sd_ready_def j split: if_split_asm)
    qed
    then show ?thesis
      using wait [OF _ sp(2)] unfolding u_def r sp(1) by blast
  qed
  show ?thesis
    using pool peer by (simp split: option.split)
qed

lemma install_services_forgets_debts:
  "install_services ops services p = Some p' \<Longrightarrow> sd_next (up_tx p') = 0 \<and> sd_peers (up_tx p') = []"
  by (auto simp: install_services_def scheduler_new_def bind_eq_Some_conv)

text \<open>
  A datagram of 28 bytes at 500 bytes per second takes 56 milliseconds: a second datagram that is queued is still there
  after 55, whatever flushes the client asks for.
\<close>

definition demo_frame :: packet_buf where
  "demo_frame = \<lparr>pb_mem = replicate 256 0, pb_data_offset = 64, pb_capacity = 256, pb_len = 28, pb_idx = 0, pb_pool = None\<rparr>"

definition demo_paced_tx :: scheduler where
  "demo_paced_tx = sd_push ((demo_queued 5)\<lparr>qd_frame := demo_frame\<rparr>) (sd_push ((demo_queued 9)\<lparr>qd_frame := demo_frame\<rparr>) scheduler_new)"

definition demo_paced_pool :: "loopback udp_pool" where
  "demo_paced_pool = demo_udp_pool\<lparr>up_config := demo_udp_config, up_tx := demo_paced_tx\<rparr>"

lemma demo_paced_inv: "up_inv demo_paced_pool"
proof -
  have cap: "0 < uc_per_peer_capacity demo_udp_config"
    by (simp add: demo_udp_config_def udp_config_default_def)
  have "sched_inv demo_udp_config (sd_push ((demo_queued 9)\<lparr>qd_frame := demo_frame\<rparr>) scheduler_new)"
    by (rule sd_push_inv [OF sched_inv_new _ cap])
      (simp add: admitted_def scheduler_new_def demo_udp_config_def udp_config_default_def)
  then have "sched_inv demo_udp_config demo_paced_tx"
    unfolding demo_paced_tx_def
    by (rule sd_push_inv [OF _ _ cap])
      (simp add: admitted_def sd_push_def scheduler_new_def demo_queued_def demo_udp_config_def udp_config_default_def bt_get_def)
  then show ?thesis
    by (simp add: up_inv_def demo_paced_pool_def demo_udp_pool_def demo_udp_config_def udp_config_default_def udp_config_validate_def)
qed

lemma demo_paced_tx_eval:
  "sd_queue demo_paced_tx = [(demo_queued 9)\<lparr>qd_frame := demo_frame\<rparr>, (demo_queued 5)\<lparr>qd_frame := demo_frame\<rparr>]"
  "sd_peers demo_paced_tx = [(SocketAddrV4 5 7, \<lparr>bg_count = 1, bg_next = 0\<rparr>), (SocketAddrV4 9 7, \<lparr>bg_count = 1, bg_next = 0\<rparr>)]"
  by (simp_all add: demo_paced_tx_def sd_push_def scheduler_new_def demo_queued_def bt_get_def less_sockaddr_def less_eq_sockaddr_def)

lemma demo_paced_submit: "\<exists>p. up_submit loopback_ops 0 demo_paced_pool = Some (Inr 1, p) \<and> up_now p = 0 \<and>
  sd_queue (up_tx p) = [(demo_queued 5)\<lparr>qd_frame := demo_frame\<rparr>] \<and> sd_next (up_tx p) = 56000000"
proof -
  have slice: "as_slice demo_frame = replicate 28 0"
    by (simp add: demo_frame_def as_slice_take)
  have "pool_drop p demo_frame = Some p" for p
    by (simp add: pool_drop_def drop_buf_def demo_frame_def)
  then have "\<exists>d. loopback_send [demo_frame] demo_loopback = Some (Inr 1, [empty_buf], d)"
    by (simp add: loopback_send_def slice demo_loopback_def pool_build_def copy_into_def recycle_frames_def)
  then obtain d where d: "dv_send loopback_ops [demo_frame] demo_loopback = Some (Inr 1, [empty_buf], d)"
    by (auto simp: loopback_ops_def)
  have drop: "dv_drop loopback_ops empty_buf d = Some d"
    by (simp add: loopback_ops_def loopback_drop_def drop_buf_def empty_buf_def)
  show ?thesis
    using d drop
    by (simp add: up_submit_def demo_paced_pool_def demo_paced_tx_eval nth_opt_def demo_udp_pool_def demo_queued_def
        sd_accepted_def sd_remove_def bt_get_def rust_assert_def up_finish_def up_event_def less_sockaddr_def less_eq_sockaddr_def
        demo_udp_config_def udp_config_default_def Let_def demo_frame_def spacing_def saturating_add_def duration_max_def)
qed

theorem udp_pacing_witness:
  "\<exists>p1 p2. up_submit loopback_ops 0 demo_paced_pool = Some (Inr 1, p1) \<and>
     up_run loopback_ops [UdpAdvance 55000000, UdpFlush] (p1, ()) = Some (p2, ()) \<and> up_now p2 = 55000000 \<and>
     ps_submitted (up_stats p2) = ps_submitted (up_stats p1)"
proof -
  obtain p1 where p1: "up_submit loopback_ops 0 demo_paced_pool = Some (Inr 1, p1)" "up_now p1 = 0"
      "sd_queue (up_tx p1) = [(demo_queued 5)\<lparr>qd_frame := demo_frame\<rparr>]" "sd_next (up_tx p1) = 56000000"
    using demo_paced_submit by blast
  let ?p2 = "p1\<lparr>up_now := 55000000\<rparr>" and ?p3 = "p1\<lparr>up_now := 55000000, up_blocked_peers := []\<rparr>"
  have adv: "up_advance loopback_ops 55000000 p1 = Some (Inr (), ?p2)" "up_advance loopback_ops 55000000 ?p2 = Some (Inr (), ?p2)"
    using p1(2,3) by (simp_all add: up_advance_def up_cancel_def nth_opt_def demo_queued_def)
  have "up_flush_loop loopback_ops budget n ?p3 = Some (Inr n, ?p3)" for budget n
    using p1(4) by (cases budget) (simp_all add: sd_candidate_def)
  then have "up_flush loopback_ops ?p2 = Some (Inr 0, ?p3)"
    using adv(2) by (simp add: up_flush_def)
  with adv(1) have ex: "up_exec loopback_ops (UdpAdvance 55000000) (p1, ()) = Some (?p2, ())"
      "up_exec loopback_ops UdpFlush (?p2, ()) = Some (?p3, ())"
    by simp_all
  have "up_later loopback_ops (p1, ()) (?p3, ())"
    by (rule later_call [OF later_call [OF later_now ex(1)] ex(2)]) simp_all
  note pace = udp_pacing [OF demo_paced_inv _ p1(1) this refl]
  have "ps_submitted (up_stats ?p3) = ps_submitted (up_stats p1)"
    using pace by (simp add: demo_paced_pool_def demo_paced_tx_eval demo_udp_pool_def demo_udp_config_def udp_config_default_def
        demo_frame_def duration_max_def)
  moreover have "up_run loopback_ops [UdpAdvance 55000000, UdpFlush] (p1, ()) = Some (?p3, ())"
    using ex by (simp del: up_exec.simps)
  moreover have "up_now ?p3 = 55000000"
    by simp
  ultimately show ?thesis
    using p1(1) by blast
qed

end
