(* ===== verification/Spec2Isabelle.thy ===== *)
theory Spec2Isabelle
  imports Tcp_Pool_Spec Dns_Resolver_Spec Udp_Pacing
begin

text \<open>
  A verification development for a user-space IPv4 network stack written in Rust. The stack is poll driven and
  single threaded: the application owns the clock and calls into a pool of TCP connections or of UDP endpoints,
  the pool sends and receives packet buffers through a device, and a device is a kernel interface, an in-memory
  loopback, or the Ethernet adapter, which is itself a device over another device. File names below are relative to
  \<^verbatim>\<open>src/src\<close>.

  \<^bold>\<open>Reading guide.\<close> Pure code is a HOL function. Code that can panic returns an option, with \<open>None\<close> as the panic
  (an index or slice out of range, a failed assertion, an \<^verbatim>\<open>unwrap\<close>, an unsigned subtraction below zero); \<open>wp m Q\<close> says
  that \<open>m\<close> does not panic and its result satisfies \<open>Q\<close>. An \<^verbatim>\<open>io::Result\<close> is a sum with the error kind on the left.
  Fixed-width integers are words; \<^verbatim>\<open>usize\<close> is a natural number, as all its values are lengths, indices and capacities
  of data in memory; a \<^verbatim>\<open>Duration\<close> is its number of nanoseconds, with the saturation of the library at its maximum.
  Statistics counters wrap, or saturate where the code saturates. An \<^verbatim>\<open>Ipv4Addr\<close> is a 32-bit word and a \<^verbatim>\<open>BTreeMap\<close> the
  sorted list of its entries. Methods on \<^verbatim>\<open>&mut self\<close> take the record of the object last and return it updated. Frames are
  affine in Rust, so dropping one is explicit in the model: every path on which a \<^verbatim>\<open>PacketBuf\<close> goes out of scope calls
  the drop operation of its device.

  \<^bold>\<open>Foundation.\<close>
  \<^item> \<open>Net_Prelude\<close>: words, byte order, slices, durations, addresses, panics and \<open>wp\<close>.
  \<^item> \<open>Ordered_Map\<close>: the sorted-list map, with the locale of finite-map laws it is an instance of.
  \<^item> \<open>Frame_Pool\<close> (\<^verbatim>\<open>device/buffer_pool.rs\<close>): allocation and release of frames and the packet handle operations. Handles own
    pairwise different frames in every run, and bulk allocation equals repeated allocation.
  \<^item> \<open>Device\<close> (\<^verbatim>\<open>device/mod.rs\<close>): the device trait as a record of operations, and its documented contract as the locale
    \<open>device\<close> over a predicate \<open>held d M\<close>, which says that \<open>M\<close> is the multiset of frame handles outside device \<open>d\<close>. Everything
    above a device is proved in that locale once.
  \<^item> \<open>Loopback\<close> (\<^verbatim>\<open>device/loopback.rs\<close>): the loopback device, its refinement of a FIFO queue of packets and its
    interpretation of the device contract.

  \<^bold>\<open>Wire formats.\<close> \<open>Checksum\<close>, \<open>Udp_Wire\<close>, \<open>Tcp_Wire\<close> (\<^verbatim>\<open>transport\<close>), \<open>Ethernet\<close> (\<^verbatim>\<open>net/ethernet.rs\<close>, \<^verbatim>\<open>net/arp.rs\<close>) and
  \<open>Dns_Wire\<close> (\<^verbatim>\<open>dns/wire.rs\<close>): builders and parsers with every index checked. The parsers are total, what is built parses
  back, checksums verify, and the addresses of a DNS answer are those of a chain of
  records from the question, with the least lifetime of that chain.

  \<^bold>\<open>Link and network layer.\<close>
  \<^item> \<open>Responder\<close> (\<^verbatim>\<open>net/mod.rs\<close>): in-place ARP, ICMP and UDP echo replies. It never panics, and a UDP reply on either link is
    the valid datagram received with its endpoints exchanged, behind the exchanged link header.
  \<^item> \<open>Route\<close> (\<^verbatim>\<open>net/route.rs\<close>): longest-prefix match over a bounded map of routes, stated on the bits of the addresses.
  \<^item> \<open>Eth_Ipv4\<close> (\<^verbatim>\<open>net/interface.rs\<close>, \<^verbatim>\<open>net/neighbor.rs\<close>): the Ethernet adapter, every operation, over any device. \<open>Eth_Ipv4_Props\<close>
    proves that each operation keeps the invariant and accounts for every frame; \<open>Eth_Ipv4_Spec\<close> holds the runs of
    client calls and the properties, among them that the adapter keeps the device contract and that every table stays
    within the capacities given to its constructor.

  \<^bold>\<open>TCP.\<close>
  \<^item> \<open>Tcp_Connection\<close> (\<^verbatim>\<open>api/tcp/connection.rs\<close>): the connection and all its operations.
  \<^item> \<open>Tcp_Flights\<close>, \<open>Tcp_Invariant\<close>, \<open>Tcp_Engine\<close>, \<open>Tcp_Transmit\<close>: the retransmission queue as a chain of flights, the invariant
    of a connection, and its preservation by input, timers, application calls and transmission.
  \<^item> \<open>Tcp_Stream\<close>: what a connection has written, sent, received and read as ghost streams over runs of events; two
    connections over a network that drops, repeats, delays and reorders packets. The initial sequence number of the
    peer is learnt from the SYN, as in the code.
  \<^item> \<open>Tcp_Spec\<close>: the properties of a connection, with \<open>Tcp_Demo\<close> for the computed exchange its witnesses use.
  \<^item> \<open>Tcp_Pool\<close> (\<^verbatim>\<open>api/tcp/mod.rs\<close>) and \<open>Tcp_Pool_Spec\<close>: the pool over any device, and its safety, bounds, demultiplexing
    and write contract.

  \<^bold>\<open>UDP.\<close>
  \<^item> \<open>Udp_Sched\<close> (\<^verbatim>\<open>api/udp/mod.rs\<close>): admission, round robin and pacing of the transmit queue; the peers take cyclic turns.
  \<^item> \<open>Udp_Pool\<close> (\<^verbatim>\<open>api/mod.rs\<close>) and \<open>Udp_Pool_Spec\<close>: endpoints, sending, polling, discovery and the coordinated lease
    change over the adapter, with safety, bounds, deadlines and atomicity in every run of client calls: a lease change
    either changes nothing or leaves adapter and pool as requested.
  \<^item> \<open>Udp_Pacing\<close>: the two rate debts of the scheduler through everything a pool does after an accepted datagram, and that no
    more is sent while they are due. Replacing the table of endpoints starts a new scheduler, where they are forgotten.

  \<^bold>\<open>DNS.\<close> \<open>Dns_Resolver\<close> (\<^verbatim>\<open>dns/mod.rs\<close>) and \<open>Dns_Resolver_Spec\<close>: the stub resolver over the UDP pool. It never panics, every accepted
  lookup is completed exactly once and ends by its timeout, and only responses that match an outstanding query count.

  \<^bold>\<open>Parameters.\<close> The device under a component (with the device contract as hypothesis), the sources of randomness of the
  TCP pool and of the resolver (functions from the number of earlier draws to a result, any functions), the handler of the
  UDP application (any function with its own state), and, in the adapter, how much of a ring buffer is contiguous in
  memory when it is flushed.

  \<^bold>\<open>Loops.\<close> Loops over a list or a counter are structural recursion; the TCP option parser and the carry folding
  have termination proofs. The loops of the UDP pool that remove queue entries carry a count of rounds equal to
  the length of the queue, which is enough because each round removes an entry or moves past one; the lemmas on them
  show the final queue, so that running out of rounds early is excluded. The event loop of the resolver counts events
  and queued datagrams, since finishing a lookup can turn a queued datagram into an event, and is shown to leave no event. The rounds of the DNS name parser and of
  its alias chase are the constants of the code.

  \<^bold>\<open>Not modelled.\<close> The kernel backends (TUN, utun and its reactor, io_uring, AF_XDP) are system calls, memory shared with the
  kernel through raw pointers, and BPF loading: their behaviour is the kernel's, and the development states what is
  needed of them as the device contract. Raw pointer accessors of the packet buffers exist for these backends only.
  The simulated network is left out: its ports share state through reference-counted cells and frames move between the
  pools of several ports, which the ownership of frames from one pool does not describe. Telemetry, examples and
  scripts are I/O around the library. Memory allocation failure and overflow of \<^verbatim>\<open>usize\<close> are not modelled.
\<close>

end
